(* ===== verification/Paging.thy ===== *)
theory Paging
  imports Prelude
begin

text \<open>
  The paging structures of \<^verbatim>\<open>student-distrib/page.c\<close> and \<^verbatim>\<open>page.h\<close>. An entry is its
  32-bit value; the bit fields of the packed unions are \<open>set_bits\<close> at their offsets. The
  addresses of the three tables are the linker's and stay in the state as constants.
  \<open>translate\<close> is the specification: what the processor makes of the tables.
\<close>

section \<open>Bit fields\<close>

definition set_bits :: "nat \<Rightarrow> nat \<Rightarrow> u32 \<Rightarrow> u32 \<Rightarrow> u32" where
  "set_bits lo w v x = (x AND NOT (push_bit lo (mask w))) OR push_bit lo (take_bit w v)"

text \<open>The fields of the page directory and page table entries.\<close>

definition set_present :: "u32 \<Rightarrow> u32 \<Rightarrow> u32" where "set_present = set_bits 0 1"
definition set_rw :: "u32 \<Rightarrow> u32 \<Rightarrow> u32" where "set_rw = set_bits 1 1"
definition set_user :: "u32 \<Rightarrow> u32 \<Rightarrow> u32" where "set_user = set_bits 2 1"
definition set_pcd :: "u32 \<Rightarrow> u32 \<Rightarrow> u32" where "set_pcd = set_bits 4 1"
definition set_page_size :: "u32 \<Rightarrow> u32 \<Rightarrow> u32" where "set_page_size = set_bits 7 1"
definition set_global :: "u32 \<Rightarrow> u32 \<Rightarrow> u32" where "set_global = set_bits 8 1"
definition set_base_32_12 :: "u32 \<Rightarrow> u32 \<Rightarrow> u32" where "set_base_32_12 = set_bits 12 20"
definition set_base_32_22 :: "u32 \<Rightarrow> u32 \<Rightarrow> u32" where "set_base_32_22 = set_bits 22 10"

lemmas field_defs = set_present_def set_rw_def set_user_def set_pcd_def set_page_size_def
  set_global_def set_base_32_12_def set_base_32_22_def

section \<open>State and operations\<close>

definition NUM_PAGES :: nat where "NUM_PAGES = 1024"
definition MB_PAGE_SIZE :: u32 where "MB_PAGE_SIZE = push_bit 10 4096"
definition VMEM_MAP :: u32 where "VMEM_MAP = 0xB8"
definition VMEM_T1 :: u32 where "VMEM_T1 = 0xB9"
definition VMEM_T2 :: u32 where "VMEM_T2 = 0xBA"
definition VMEM_T3 :: u32 where "VMEM_T3 = 0xBB"
definition PROC_PAGE_INDEX :: nat where "PROC_PAGE_INDEX = 32"
definition PROC_PAGE_PADDR :: u32 where "PROC_PAGE_PADDR = push_bit 1 MB_PAGE_SIZE"
definition KB_BASE_OFFSET :: nat where "KB_BASE_OFFSET = 12"
definition MB_BASE_OFFSET :: nat where "MB_BASE_OFFSET = 22"

lemmas page_consts = NUM_PAGES_def MB_PAGE_SIZE_def VMEM_MAP_def VMEM_T1_def VMEM_T2_def
  VMEM_T3_def PROC_PAGE_INDEX_def PROC_PAGE_PADDR_def KB_BASE_OFFSET_def MB_BASE_OFFSET_def

text \<open>
  \<open>tlb_stale\<close>: the processor may still hold translations older than the tables; writing
  an entry sets it, reloading \<^verbatim>\<open>cr3\<close> clears it.
\<close>

record paging =
  page_dir :: "nat \<Rightarrow> u32"
  page_table :: "nat \<Rightarrow> u32"
  vmem_page_table :: "nat \<Rightarrow> u32"
  page_dir_addr :: u32
  page_table_addr :: u32
  vmem_page_table_addr :: u32
  cr3 :: u32
  tlb_stale :: bool

definition term_vid_addr :: "nat \<Rightarrow> u32" where
  "term_vid_addr t = [VMEM_T1, VMEM_T2, VMEM_T3] ! t"

text \<open>\<^verbatim>\<open>load_page\<close> and \<^verbatim>\<open>flush_tlb\<close> (\<^verbatim>\<open>page_asm.S\<close>) load \<^verbatim>\<open>cr3\<close>.\<close>

definition load_page :: "u32 \<Rightarrow> paging \<Rightarrow> paging" where
  "load_page a s = s\<lparr>cr3 := a, tlb_stale := False\<rparr>"

definition flush_tlb :: "paging \<Rightarrow> paging" where
  "flush_tlb s = s\<lparr>tlb_stale := False\<rparr>"

definition upd_page_dir :: "nat \<Rightarrow> (u32 \<Rightarrow> u32) \<Rightarrow> paging \<Rightarrow> paging" where
  "upd_page_dir i f s = s\<lparr>page_dir := (page_dir s)(i := f (page_dir s i)), tlb_stale := True\<rparr>"

definition upd_page_table :: "nat \<Rightarrow> (u32 \<Rightarrow> u32) \<Rightarrow> paging \<Rightarrow> paging" where
  "upd_page_table i f s = s\<lparr>page_table := (page_table s)(i := f (page_table s i)), tlb_stale := True\<rparr>"

text \<open>
  \<^verbatim>\<open>page_map_4kb\<close>, with the entry it writes. The destination is always
  \<^verbatim>\<open>vmem_page_table\<close>, which is not null.
\<close>

definition pte_4kb :: "u32 \<Rightarrow> u32 \<Rightarrow> u32" where
  "pte_4kb user base_addr =
     set_base_32_12 base_addr (set_user user (set_rw 1 (set_present 1 0)))"

definition page_map_4kb :: "u32 \<Rightarrow> u32 \<Rightarrow> u32 \<Rightarrow> paging \<Rightarrow> paging" where
  "page_map_4kb user v_addr_offset base_addr s =
     s\<lparr>vmem_page_table := (vmem_page_table s)(unat v_addr_offset := pte_4kb user base_addr),
       tlb_stale := True\<rparr>"

definition page_map_user :: "u32 \<Rightarrow> paging \<Rightarrow> paging" where
  "page_map_user proc_num s =
     flush_tlb (upd_page_dir PROC_PAGE_INDEX
       (set_base_32_22 (drop_bit MB_BASE_OFFSET (PROC_PAGE_PADDR + MB_PAGE_SIZE * proc_num))) s)"

definition map_video_page :: "u32 \<Rightarrow> paging \<Rightarrow> paging" where
  "map_video_page v = upd_page_table (unat v) (\<lambda>x. set_base_32_12 v (set_rw 1 (set_present 1 x)))"

definition init_pages :: "paging \<Rightarrow> paging" where
  "init_pages s =
     (let s = s\<lparr>page_table := fill NUM_PAGES 2 (page_table s)\<rparr>;
          s = map_video_page VMEM_MAP s;
          s = map_video_page VMEM_T1 s;
          s = map_video_page VMEM_T2 s;
          s = map_video_page VMEM_T3 s;
          s = upd_page_dir 0 (\<lambda>_. set_base_32_12 (drop_bit KB_BASE_OFFSET (page_table_addr s))
                (set_rw 1 (set_present 1 0))) s;
          s = upd_page_dir 1 (\<lambda>_. set_base_32_22 (drop_bit MB_BASE_OFFSET MB_PAGE_SIZE)
                (set_global 1 (set_page_size 1 (set_pcd 1 (set_rw 1 (set_present 1 0)))))) s;
          s = upd_page_dir PROC_PAGE_INDEX
                (\<lambda>_. set_base_32_22 (drop_bit MB_BASE_OFFSET PROC_PAGE_PADDR)
                  (set_global 1 (set_page_size 1 (set_pcd 1 (set_user 1
                    (set_rw 1 (set_present 1 0))))))) s;
          s = s\<lparr>vmem_page_table := fill NUM_PAGES 2 (vmem_page_table s)\<rparr>;
          s = page_map_4kb 1 VMEM_T1 VMEM_MAP s;
          s = page_map_4kb 1 VMEM_T2 VMEM_T2 s;
          s = page_map_4kb 1 VMEM_T3 VMEM_T3 s;
          s = upd_page_dir 2 (\<lambda>_. set_base_32_12 (drop_bit KB_BASE_OFFSET (vmem_page_table_addr s))
                (set_user 1 (set_rw 1 (set_present 1 0)))) s
      in load_page (page_dir_addr s) s)"

text \<open>Before \<^verbatim>\<open>init_pages\<close> the tables are zeroed static storage at page-aligned addresses.\<close>

definition paging_boot :: "u32 \<Rightarrow> u32 \<Rightarrow> u32 \<Rightarrow> paging" where
  "paging_boot d p v = \<lparr>page_dir = (\<lambda>_. 0), page_table = (\<lambda>_. 0), vmem_page_table = (\<lambda>_. 0),
     page_dir_addr = d, page_table_addr = p, vmem_page_table_addr = v, cr3 = 0,
     tlb_stale = False\<rparr>"

section \<open>Address translation\<close>

definition table_at :: "paging \<Rightarrow> u32 \<Rightarrow> (nat \<Rightarrow> u32) option" where
  "table_at s frame =
     (if frame = drop_bit 12 (page_table_addr s) then Some (page_table s)
      else if frame = drop_bit 12 (vmem_page_table_addr s) then Some (vmem_page_table s)
      else None)"

definition translate :: "bool \<Rightarrow> paging \<Rightarrow> u32 \<Rightarrow> u32 option" where
  "translate user s va =
     (let pde = page_dir s (unat (drop_bit 22 va)) in
      if \<not> bit pde 0 \<or> (user \<and> \<not> bit pde 2) then None
      else if bit pde 7 then Some (push_bit 22 (drop_bit 22 pde) OR take_bit 22 va)
      else case table_at s (drop_bit 12 pde) of None \<Rightarrow> None
        | Some t \<Rightarrow> let pte = t (unat (take_bit 10 (drop_bit 12 va))) in
            if \<not> bit pte 0 \<or> (user \<and> \<not> bit pte 2) then None
            else Some (push_bit 12 (drop_bit 12 pte) OR take_bit 12 va))"

lemma bit_set_bits:
  "n < 32 \<Longrightarrow> bit (set_bits lo w v x) n =
     (if lo \<le> n \<and> n < lo + w then bit v (n - lo) else bit x n)"
  by (auto simp: set_bits_def bit_simps)

lemma drop_set_bits_top:
  assumes "lo + w = 32"
  shows "drop_bit lo (set_bits lo w v x) = take_bit w v"
proof (rule bit_word_eqI)
  fix n assume "n < LENGTH(32)"
  with assms show "bit (drop_bit lo (set_bits lo w v x)) n = bit (take_bit w v) n"
    by (cases "n < w") (auto simp: bit_drop_bit_eq bit_set_bits bit_take_bit_iff
        dest!: bit_imp_le_length)
qed

lemma page_map_user_simps [simp]:
  "page_table (page_map_user p s) = page_table s"
  "vmem_page_table (page_map_user p s) = vmem_page_table s"
  "page_table_addr (page_map_user p s) = page_table_addr s"
  "vmem_page_table_addr (page_map_user p s) = vmem_page_table_addr s"
  "tlb_stale (page_map_user p s) = False"
  by (simp_all add: page_map_user_def flush_tlb_def upd_page_dir_def)

lemma page_map_user_dir:
  "page_dir (page_map_user p s) i =
     (if i = 32 then set_base_32_22 (drop_bit 22 (0x800000 + 0x400000 * p)) (page_dir s 32)
      else page_dir s i)"
  by (simp add: page_map_user_def flush_tlb_def upd_page_dir_def page_consts)

section \<open>The address space after init_pages\<close>

text \<open>
  What every later operation keeps: the kernel's entries never change, only the frame of
  the program page and of the three user video pages do.
\<close>

definition video_slots :: "nat set" where
  "video_slots = {0xB9, 0xBA, 0xBB}"

definition pg_inv :: "paging \<Rightarrow> bool" where
  "pg_inv s \<longleftrightarrow>
     drop_bit 12 (page_table_addr s) \<noteq> drop_bit 12 (vmem_page_table_addr s) \<and>
     bit (page_dir s 0) 0 \<and> \<not> bit (page_dir s 0) 2 \<and> \<not> bit (page_dir s 0) 7 \<and>
     drop_bit 12 (page_dir s 0) = drop_bit 12 (page_table_addr s) \<and>
     page_dir s 1 = 0x00400193 \<and>
     bit (page_dir s 2) 0 \<and> bit (page_dir s 2) 2 \<and> \<not> bit (page_dir s 2) 7 \<and>
     drop_bit 12 (page_dir s 2) = drop_bit 12 (vmem_page_table_addr s) \<and>
     bit (page_dir s 32) 0 \<and> bit (page_dir s 32) 2 \<and> bit (page_dir s 32) 7 \<and>
     (\<forall>i. i \<notin> {0, 1, 2, 32} \<longrightarrow> \<not> bit (page_dir s i) 0) \<and>
     (\<forall>i < 1024. bit (page_table s i) 0 \<longleftrightarrow> i \<in> insert 0xB8 video_slots) \<and>
     (\<forall>i \<in> insert 0xB8 video_slots. drop_bit 12 (page_table s i) = of_nat i) \<and>
     (\<forall>i < 1024. bit (vmem_page_table s i) 0 \<longleftrightarrow> i \<in> video_slots) \<and>
     (\<forall>i \<in> video_slots. bit (vmem_page_table s i) 2)"

lemma bit_1 [simp]: "bit (1 :: u32) n \<longleftrightarrow> n = 0"
  by (simp add: bit_1_iff)

lemma drop_bit_12_set_base: "drop_bit 12 (set_base_32_12 v x) = take_bit 20 v"
  unfolding set_base_32_12_def by (rule drop_set_bits_top) simp

lemma drop_bit_22_set_base: "drop_bit 22 (set_base_32_22 v x) = take_bit 10 v"
  unfolding set_base_32_22_def by (rule drop_set_bits_top) simp

lemma bit_set_fields [simp]:
  "n < 12 \<Longrightarrow> bit (set_base_32_12 v x) n = bit x n"
  "n < 22 \<Longrightarrow> bit (set_base_32_22 v x) n = bit x n"
  "n < 32 \<Longrightarrow> bit (set_present v x) n = (if n = 0 then bit v 0 else bit x n)"
  "n < 32 \<Longrightarrow> bit (set_rw v x) n = (if n = 1 then bit v 0 else bit x n)"
  "n < 32 \<Longrightarrow> bit (set_user v x) n = (if n = 2 then bit v 0 else bit x n)"
  "n < 32 \<Longrightarrow> bit (set_pcd v x) n = (if n = 4 then bit v 0 else bit x n)"
  "n < 32 \<Longrightarrow> bit (set_page_size v x) n = (if n = 7 then bit v 0 else bit x n)"
  "n < 32 \<Longrightarrow> bit (set_global v x) n = (if n = 8 then bit v 0 else bit x n)"
  by (auto simp: field_defs bit_set_bits)

lemma take_drop_12 [simp]: "take_bit 20 (drop_bit 12 (a :: u32)) = drop_bit 12 a"
  by (rule bit_word_eqI) (auto simp: bit_simps dest: bit_imp_le_length)

lemma pte_4kb_props [simp]:
  "bit (pte_4kb u b) 0" "bit (pte_4kb u b) 2 = bit u 0"
  "drop_bit 12 (pte_4kb u b) = take_bit 20 b"
  by (simp_all add: pte_4kb_def drop_bit_12_set_base)

lemma bit_2 [simp]: "bit (2 :: u32) n \<longleftrightarrow> n = 1"
proof -
  have "bit (2 ^ 1 :: u32) n \<longleftrightarrow> n = 1" by (simp only: bit_exp_iff) auto
  then show ?thesis by simp
qed

lemma pg_inv_init:
  assumes "drop_bit 12 p \<noteq> drop_bit 12 v"
  shows "pg_inv (init_pages (paging_boot d p v))"
proof -
  have e1: "set_base_32_22 1 (set_global 1 (set_page_size 1 (set_pcd 1 (set_rw 1 (set_present 1 0)))))
      = 0x00400193"
    by (simp add: field_defs set_bits_def mask_eq_exp_minus_1)
  show ?thesis
    using assms
    by (auto simp: pg_inv_def init_pages_def paging_boot_def Let_def map_video_page_def
        upd_page_table_def upd_page_dir_def page_map_4kb_def load_page_def page_consts
        drop_bit_12_set_base e1 video_slots_def)
qed

lemma pg_inv_map_user [inv_intros]: "pg_inv s \<Longrightarrow> pg_inv (page_map_user p s)"
  by (auto simp: pg_inv_def page_map_user_dir)

lemma pg_inv_map_4kb [inv_intros]:
  "pg_inv s \<Longrightarrow> unat i \<in> video_slots \<Longrightarrow> pg_inv (page_map_4kb 1 i b s)"
  by (auto simp: pg_inv_def page_map_4kb_def video_slots_def)

text \<open>All that user mode can reach.\<close>

lemma translate_user:
  assumes "pg_inv s"
  shows "translate True s va =
    (if drop_bit 22 va = 32 then Some (push_bit 22 (drop_bit 22 (page_dir s 32)) OR take_bit 22 va)
     else let i = unat (take_bit 10 (drop_bit 12 va)) in
       if drop_bit 22 va = 2 \<and> i \<in> video_slots
       then Some (push_bit 12 (drop_bit 12 (vmem_page_table s i)) OR take_bit 12 va)
       else None)"
proof -
  let ?d = "unat (drop_bit 22 va)"
  have d: "drop_bit 22 va = 32 \<longleftrightarrow> ?d = 32" "drop_bit 22 va = 2 \<longleftrightarrow> ?d = 2"
    by (auto simp: word_unat_eq_iff)
  have i: "unat (take_bit 10 (drop_bit 12 va)) < 1024"
    using take_bit_nat_less_exp [of 10 "unat (drop_bit 12 va)"] by (simp add: unsigned_take_bit_eq)
  have u1: "\<not> bit (0x00400193 :: u32) 2" by simp
  consider "?d = 32" | "?d = 2" | "?d = 0" | "?d = 1" | "?d \<notin> {0, 1, 2, 32}" by auto
  then show ?thesis
  proof cases
    case 2
    with assms i d show ?thesis
      by (auto simp: translate_def pg_inv_def table_at_def Let_def)
  qed (use assms i d u1 in \<open>simp_all add: translate_def pg_inv_def Let_def\<close>)
qed

text \<open>The kernel's own page is mapped onto itself.\<close>

lemma translate_kernel:
  assumes "pg_inv s" and "drop_bit 22 va = 1"
  shows "translate False s va = Some va" and "translate True s va = None"
proof -
  have "drop_bit 22 (0x00400193 :: u32) = drop_bit 22 va" using assms(2) by simp
  moreover have "push_bit 22 (drop_bit 22 va) OR take_bit 22 va = va"
    by (rule bit_word_eqI) (auto simp: bit_simps)
  ultimately show "translate False s va = Some va"
    using assms by (simp add: translate_def pg_inv_def Let_def)
  show "translate True s va = None"
    using assms by (simp add: translate_user Let_def)
qed

text \<open>The program page of process \<open>p\<close> is the 4 MB at \<open>8 MB + p * 4 MB\<close>.\<close>

lemma user_frame:
  assumes "unat p < 1022"
  shows "drop_bit 22 (page_dir (page_map_user p s) 32) = p + 2"
proof -
  have "0x800000 + 0x400000 * p = push_bit 22 (p + 2)"
    by (simp add: push_bit_eq_mult algebra_simps)
  moreover have "take_bit 10 (drop_bit 22 (push_bit 22 (p + 2))) = p + 2"
  proof (rule bit_word_eqI)
    have "unat (p + 2) < 2 ^ 10" using assms by (simp add: unat_word_ariths)
    then have "take_bit 10 (unat (p + 2)) = unat (p + 2)" by (simp add: take_bit_nat_eq_self)
    then have t: "take_bit 10 (p + 2) = p + 2"
      by (metis unsigned_take_bit_eq unsigned_word_eqI)
    fix n assume "n < LENGTH(32)"
    have "bit (p + 2) n \<longleftrightarrow> n < 10 \<and> bit (p + 2) n"
      by (subst (1) t [symmetric]) (simp add: bit_take_bit_iff)
    then show "bit (take_bit 10 (drop_bit 22 (push_bit 22 (p + 2)))) n = bit (p + 2) n"
      by (auto simp: bit_simps)
  qed
  ultimately show ?thesis by (simp add: page_map_user_dir drop_bit_22_set_base)
qed

lemma drop_bit_22_or:
  "unat q < 1024 \<Longrightarrow> drop_bit 22 (push_bit 22 q OR take_bit 22 va) = (q :: u32)"
proof (rule bit_word_eqI)
  fix n assume q: "unat q < 1024" and "n < LENGTH(32)"
  have "take_bit 10 (unat q) = unat q" using q by (simp add: take_bit_nat_eq_self)
  then have "take_bit 10 q = q" by (metis unsigned_take_bit_eq unsigned_word_eqI)
  then have "bit q n \<longleftrightarrow> n < 10 \<and> bit q n" by (metis bit_take_bit_iff)
  then show "bit (drop_bit 22 (push_bit 22 q OR take_bit 22 va)) n = bit q n"
    by (auto simp: bit_simps)
qed

section \<open>Properties\<close>

lemma unat_dir_table:
  "unat (drop_bit 22 (va :: u32)) = unat va div 0x400000"
  "unat (take_bit 10 (drop_bit 12 (va :: u32))) = unat va div 4096 mod 1024"
  "unat va div 0x400000 = unat va div 4096 div 1024"
  by (simp_all add: drop_bit_eq_div take_bit_eq_mod unat_div unat_mod flip: div_mult2_eq)

lemma word_eq_unat_numeral: "(w :: u32) = numeral n \<longleftrightarrow> unat w = unat (numeral n :: u32)"
  by (simp add: word_unat_eq_iff)

lemma push_take_12: "push_bit 12 (drop_bit 12 (va :: u32)) OR take_bit 12 va = va"
  by (rule bit_word_eqI) (auto simp: bit_simps)

text \<open>The first 4 MB: only the screens' pages are there, for the kernel.\<close>

lemma translate_low:
  assumes inv: "pg_inv s" and va: "unat va < 0x400000"
  shows "translate True s va = None"
    and "translate False s va =
      (if unat va div 4096 \<in> insert 0xB8 video_slots then Some va else None)"
proof -
  have d: "unat (drop_bit 22 va) = 0" using va by (simp add: unat_dir_table)
  have i: "unat (take_bit 10 (drop_bit 12 va)) = unat va div 4096" "unat va div 4096 < 1024"
    using va by (simp_all add: unat_dir_table)
  have o: "of_nat (unat va div 4096) = drop_bit 12 va"
    using va by (simp add: word_unat_eq_iff drop_bit_eq_div unat_div)
  have "\<forall>i\<in>insert 0xB8 video_slots. drop_bit 12 (page_table s i) = of_nat i"
    using inv by (simp add: pg_inv_def)
  then have f: "unat va div 4096 \<in> insert 0xB8 video_slots \<Longrightarrow>
      drop_bit 12 (page_table s (unat va div 4096)) = drop_bit 12 va"
    unfolding o [symmetric] by blast
  show "translate True s va = None" using inv d by (simp add: translate_def pg_inv_def)
  have b: "bit (page_table s (unat va div 4096)) 0 \<longleftrightarrow> unat va div 4096 \<in> insert 0xB8 video_slots"
    using inv i(2) by (simp add: pg_inv_def)
  have t: "table_at s (drop_bit 12 (page_dir s 0)) = Some (page_table s)" "bit (page_dir s 0) 0"
    "\<not> bit (page_dir s 0) 7"
    using inv by (simp_all add: pg_inv_def table_at_def)
  show "translate False s va =
      (if unat va div 4096 \<in> insert 0xB8 video_slots then Some va else None)"
    using b f t push_take_12 [of va] unfolding translate_def d i(1) Let_def by auto
qed



text \<open>
  Separate programs: whatever two processes access through their program pages are
  different bytes, and none of it is below 8 MB, where the kernel and the screens are.
\<close>

lemma programs_are_disjoint:
  assumes "pg_inv s" and "unat p < 1022" and "unat q < 1022" and "p \<noteq> q"
    and "unat va div 0x400000 = 32" and "unat vb div 0x400000 = 32"
  shows "\<exists>a b. translate True (page_map_user p s) va = Some a \<and>
    translate True (page_map_user q s) vb = Some b \<and> a \<noteq> b \<and> 0x800000 \<le> a \<and> 0x800000 \<le> b"
proof -
  have *: "\<exists>a. translate True (page_map_user p s) va = Some a \<and> drop_bit 22 a = p + 2 \<and> 0x800000 \<le> a"
    if "unat p < 1022" "unat va div 0x400000 = 32" for p va
  proof -
    have p2: "unat (p + 2) = unat p + 2" using that(1) by (simp add: unat_word_ariths)
    let ?a = "push_bit 22 (p + 2) OR take_bit 22 va"
    have d: "drop_bit 22 ?a = p + 2" using p2 that(1) by (intro drop_bit_22_or) simp
    then have "unat ?a div 0x400000 = unat p + 2" using unat_dir_table(1) [of ?a] p2 by simp
    then have "0x800000 \<le> unat ?a" by linarith
    then have "0x800000 \<le> ?a" by (simp add: word_le_nat_alt)
    moreover have "drop_bit 22 va = 32" using that(2) by (simp add: word_eq_unat_numeral unat_dir_table)
    ultimately show ?thesis
      using d user_frame [OF that(1), of s]
      by (simp add: translate_user [OF pg_inv_map_user [OF assms(1)]])
  qed
  obtain a where a: "translate True (page_map_user p s) va = Some a" "drop_bit 22 a = p + 2" "0x800000 \<le> a"
    using * [OF assms(2,5)] by blast
  obtain b where b: "translate True (page_map_user q s) vb = Some b" "drop_bit 22 b = q + 2" "0x800000 \<le> b"
    using * [OF assms(3,6)] by blast
  have "a \<noteq> b" using a(2) b(2) assms(4) by auto
  then show ?thesis using a b by blast
qed

lemma programs_are_disjoint_witness:
  "\<exists>a b. translate True (page_map_user 0 (init_pages (paging_boot 0x400000 0x401000 0x402000)))
      0x8048000 = Some a \<and>
    translate True (page_map_user 3 (init_pages (paging_boot 0x400000 0x401000 0x402000)))
      0x8048000 = Some b \<and> a \<noteq> b"
  using programs_are_disjoint [OF pg_inv_init [where d = "0x400000"],
      of "0x401000" "0x402000" 0 3 "0x8048000" "0x8048000"]
  by auto

text \<open>The changes after start-up: program switches and remappings of the video pages.\<close>

datatype pg_op = Map_user u32 | Map_video u32 u32

fun pg_step :: "pg_op \<Rightarrow> paging \<Rightarrow> paging" where
  "pg_step (Map_user p) = page_map_user p"
| "pg_step (Map_video i b) = page_map_4kb 1 i b"

fun pg_op_ok :: "pg_op \<Rightarrow> bool" where
  "pg_op_ok (Map_user p) = True"
| "pg_op_ok (Map_video i b) = (unat i \<in> video_slots)"

lemma pg_inv_steps: "pg_inv s \<Longrightarrow> list_all pg_op_ok ops \<Longrightarrow> pg_inv (fold pg_step ops s)"
proof (induction ops arbitrary: s)
  case (Cons x ops)
  then show ?case by (cases x) (auto intro: inv_intros)
qed simp

text \<open>
  C33: The page tables that the start-up code builds, after any sequence of program switches
  and remappings of the terminals' video pages: the kernel's 4 MB are mapped onto themselves,
  for the kernel only, and so are the four screen pages; the rest of the first 4 MB, the null
  page included, is not mapped at all.
\<close>

theorem kernel_mappings_stay:
  assumes "drop_bit 12 p \<noteq> drop_bit 12 v" and "list_all pg_op_ok ops" and "unat va < 0x800000"
  shows "translate True (fold pg_step ops (init_pages (paging_boot d p v))) va = None \<and>
    translate False (fold pg_step ops (init_pages (paging_boot d p v))) va =
      (if 0x400000 \<le> unat va \<or> unat va div 4096 \<in> {0xB8, 0xB9, 0xBA, 0xBB} then Some va else None)"
proof -
  let ?s = "fold pg_step ops (init_pages (paging_boot d p v))"
  have inv: "pg_inv ?s" using pg_inv_steps [OF pg_inv_init [OF assms(1)] assms(2)] .
  show ?thesis
  proof (cases "unat va < 0x400000")
    case True
    then show ?thesis using translate_low [OF inv True] by (simp add: video_slots_def)
  next
    case False
    then have "unat va div 0x400000 = 1" using assms(3) by (intro div_nat_eqI) auto
    then have "drop_bit 22 va = 1" by (simp add: word_unat_eq_iff unat_dir_table)
    then show ?thesis using translate_kernel [OF inv] False by simp
  qed
qed

theorem kernel_mappings_stay_witness:
  "translate False (fold pg_step [Map_user 3, Map_video 0xBA 0xB8, Map_user 0]
     (init_pages (paging_boot 0x400000 0x401000 0x402000))) 0 = None"
  using kernel_mappings_stay [where p = "0x401000" and v = "0x402000" and d = "0x400000" and va = 0
      and ops = "[Map_user 3, Map_video 0xBA 0xB8, Map_user 0]"]
  by (simp add: video_slots_def)

end
