(* ===== verification/LibC.thy ===== *)
theory LibC
  imports Prelude
begin

text \<open>
  The string and formatting routines of \<^verbatim>\<open>student-distrib/lib.c\<close>. A C pointer to
  characters is the list of the bytes from the pointer to the end of its object;
  reading or writing past that end is \<^term>\<open>None\<close>. An array that is written is
  returned updated. Objects are shorter than \<open>2 ^ 31\<close> bytes, so the
  \<^verbatim>\<open>int32_t\<close> counters do not wrap before the object ends.
\<close>

section \<open>strlen, strncmp, strcpy, strncpy\<close>

text \<open>\<^verbatim>\<open>while (s[len] != '\0') len++;\<close>\<close>

fun strlen_from :: "u8 list \<Rightarrow> u32 \<Rightarrow> u32 option" where
  "strlen_from [] len = None"
| "strlen_from (c # s) len = (if c = 0 then Some len else strlen_from s (len + 1))"

definition strlen :: "u8 list \<Rightarrow> u32 option" where
  "strlen s = strlen_from s 0"

text \<open>The characters are signed; their difference is an \<^verbatim>\<open>int32_t\<close>.\<close>

fun strncmp :: "u8 list \<Rightarrow> u8 list \<Rightarrow> nat \<Rightarrow> u32 option" where
  "strncmp s1 s2 0 = Some 0"
| "strncmp (a # s1) (b # s2) (Suc n) =
     (if a \<noteq> b \<or> a = 0 then Some (scast a - scast b) else strncmp s1 s2 n)"
| "strncmp _ _ (Suc n) = None"

fun strcpy :: "u8 list \<Rightarrow> u8 list \<Rightarrow> u8 list option" where
  "strcpy (d # dest) (c # src) =
     (if c = 0 then Some (0 # dest) else map_option (Cons c) (strcpy dest src))"
| "strcpy _ _ = None"

text \<open>The second loop of \<^verbatim>\<open>strncpy\<close> pads with zeros up to \<open>n\<close>.\<close>

fun strncpy_pad :: "u8 list \<Rightarrow> nat \<Rightarrow> u8 list option" where
  "strncpy_pad dest 0 = Some dest"
| "strncpy_pad (d # dest) (Suc n) = map_option (Cons 0) (strncpy_pad dest n)"
| "strncpy_pad [] (Suc n) = None"

text \<open>
  The first loop tests \<^verbatim>\<open>src[i] != '\0'\<close> before \<^verbatim>\<open>i < n\<close>, so it reads \<open>src[n]\<close>
  when no terminator came earlier.
\<close>

fun strncpy :: "u8 list \<Rightarrow> u8 list \<Rightarrow> nat \<Rightarrow> u8 list option" where
  "strncpy dest [] n = None"
| "strncpy dest (c # src) 0 = Some dest"
| "strncpy (d # dest) (c # src) (Suc n) =
     (if c = 0 then strncpy_pad (d # dest) (Suc n)
      else map_option (Cons c) (strncpy dest src n))"
| "strncpy [] (c # src) (Suc n) = None"

section \<open>strrev and itoa\<close>

function strrev_loop :: "u8 list \<Rightarrow> int \<Rightarrow> int \<Rightarrow> u8 list" where
  "strrev_loop s beg end =
     (if beg < end then
        let tmp = s ! nat end;
            s = s[nat end := s ! nat beg];
            s = s[nat beg := tmp]
        in strrev_loop s (beg + 1) (end - 1)
      else s)"
  by pat_completeness auto
termination
  by (relation "measure (\<lambda>(s, beg, end). nat (end - beg))") auto

declare strrev_loop.simps [simp del]

definition strrev :: "u8 list \<Rightarrow> u8 list option" where
  "strrev s = map_option (\<lambda>n. strrev_loop s 0 (sint (n - 1))) (strlen s)"

definition itoa_lookup :: "u8 list" where
  "itoa_lookup = asc ''0123456789ABCDEFGHIJKLMNOPQRSTUVWXYZ'' @ [0]"

text \<open>
  The digit loop with the terminator it writes. The argument list is what is left of
  the buffer at \<^verbatim>\<open>newbuf\<close>; the index \<^verbatim>\<open>newval % radix\<close> is unsigned and then read
  as an \<^verbatim>\<open>int32_t\<close>.
\<close>

fun itoa_loop :: "u8 list \<Rightarrow> u32 \<Rightarrow> u32 \<Rightarrow> u8 list option" where
  "itoa_loop [] newval radix = None"
| "itoa_loop (b # newbuf) newval radix =
     (if newval > 0 then
        if radix = 0 then None
        else let i = sint (newval mod radix) in
          if 0 \<le> i \<and> i < int (length itoa_lookup)
          then map_option (Cons (itoa_lookup ! nat i)) (itoa_loop newbuf (newval div radix) radix)
          else None
      else Some (0 # newbuf))"

definition itoa :: "u32 \<Rightarrow> u8 list \<Rightarrow> u32 \<Rightarrow> u8 list option" where
  "itoa value buf radix =
     (if value = 0 then (case buf of _ # _ # rest \<Rightarrow> Some (48 # 0 # rest) | _ \<Rightarrow> None)
      else Option.bind (itoa_loop buf value radix) strrev)"

section \<open>puts and printf\<close>

text \<open>\<^verbatim>\<open>puts\<close>: the bytes handed to \<^verbatim>\<open>putc\<close>, up to the terminator.\<close>

fun puts :: "u8 list \<Rightarrow> u8 list option" where
  "puts [] = None"
| "puts (c # s) = (if c = 0 then Some [] else map_option (Cons c) (puts s))"

text \<open>The text of one conversion; \<^verbatim>\<open>conv_buf\<close> has 64 or 36 bytes.\<close>

definition conv_x :: "bool \<Rightarrow> u32 \<Rightarrow> u8 list option" where
  "conv_x alternate v =
     (if \<not> alternate then Option.bind (itoa v (replicate 64 0) 16) puts
      else do {
        digits \<leftarrow> itoa v (replicate 56 0) 16;
        starting_index \<leftarrow> strlen digits;
        let conv_buf = replicate 8 0 @ digits;
        let conv_buf = fold (\<lambda>i b. b[i := 48]) [unat starting_index..<8] conv_buf;
        puts (drop (unat starting_index) conv_buf) })"

definition conv_u :: "u32 \<Rightarrow> u8 list option" where
  "conv_u v = Option.bind (itoa v (replicate 36 0) 10) puts"

definition conv_d :: "u32 \<Rightarrow> u8 list option" where
  "conv_d v =
     (if sint v < 0
      then Option.bind (itoa (- v) (replicate 35 0) 10) (\<lambda>b. puts (45 # b))
      else Option.bind (itoa v (replicate 36 0) 10) puts)"

text \<open>
  The bytes \<^verbatim>\<open>printf\<close> hands to \<^verbatim>\<open>putc\<close>, in order. \<open>strs\<close> reads the string at an
  address, \<open>args\<close> are the words above the format on the stack. \<open>printf_conv\<close> is the
  \<^verbatim>\<open>format_char_switch\<close>; its default case prints nothing and skips the character,
  whatever it is.
\<close>

fun printf_fmt :: "(u32 \<Rightarrow> u8 list) \<Rightarrow> u8 list \<Rightarrow> u32 list \<Rightarrow> u8 list option"
  and printf_conv :: "(u32 \<Rightarrow> u8 list) \<Rightarrow> bool \<Rightarrow> u8 list \<Rightarrow> u32 list \<Rightarrow> u8 list option" where
  "printf_fmt strs [] args = None"
| "printf_fmt strs (c # fmt) args =
     (if c = 0 then Some []
      else if c = 37 then printf_conv strs False fmt args
      else map_option (Cons c) (printf_fmt strs fmt args))"
| "printf_conv strs alternate [] args = None"
| "printf_conv strs alternate (c # fmt) args =
     (if c = 37 then map_option (Cons 37) (printf_fmt strs fmt args)
      else if c = 35 then printf_conv strs True fmt args
      else if c = 120 then
        (case args of [] \<Rightarrow> None | a # args \<Rightarrow>
           do { o1 \<leftarrow> conv_x alternate a; o2 \<leftarrow> printf_fmt strs fmt args; Some (o1 @ o2) })
      else if c = 117 then
        (case args of [] \<Rightarrow> None | a # args \<Rightarrow>
           do { o1 \<leftarrow> conv_u a; o2 \<leftarrow> printf_fmt strs fmt args; Some (o1 @ o2) })
      else if c = 100 then
        (case args of [] \<Rightarrow> None | a # args \<Rightarrow>
           do { o1 \<leftarrow> conv_d a; o2 \<leftarrow> printf_fmt strs fmt args; Some (o1 @ o2) })
      else if c = 99 then
        (case args of [] \<Rightarrow> None | a # args \<Rightarrow>
           map_option (Cons (ucast a)) (printf_fmt strs fmt args))
      else if c = 115 then
        (case args of [] \<Rightarrow> None | a # args \<Rightarrow>
           do { o1 \<leftarrow> puts (strs a); o2 \<leftarrow> printf_fmt strs fmt args; Some (o1 @ o2) })
      else printf_fmt strs fmt args)"

section \<open>The text of a C string\<close>

definition cstr :: "u8 list \<Rightarrow> u8 list" where
  "cstr s = takeWhile (\<lambda>c. c \<noteq> 0) s"

lemma cstr_simps [simp]:
  "cstr [] = []" "cstr (c # s) = (if c = 0 then [] else c # cstr s)"
  by (simp_all add: cstr_def)

lemma zero_notin_cstr [simp]: "0 \<notin> set (cstr s)"
  unfolding cstr_def using set_takeWhileD by fastforce

lemma cstr_id: "0 \<notin> set xs \<Longrightarrow> cstr (xs @ 0 # ys) = xs"
  by (induction xs) auto

lemma length_cstr_less: "0 \<in> set s \<Longrightarrow> length (cstr s) < length s"
  by (induction s) auto

lemma cstr_split: "0 \<in> set s \<Longrightarrow> s = cstr s @ 0 # drop (Suc (length (cstr s))) s"
  by (induction s) auto

lemma cstr_take: "cstr (take n s) = take n (cstr s)"
  by (induction s arbitrary: n) (auto simp: take_Cons')

lemma strlen_from_eq:
  "strlen_from s n = (if 0 \<in> set s then Some (n + of_nat (length (cstr s))) else None)"
  by (induction s arbitrary: n) (auto simp: add_ac)

lemma strlen_eq: "strlen s = (if 0 \<in> set s then Some (of_nat (length (cstr s))) else None)"
  by (simp add: strlen_def strlen_from_eq)

lemma puts_eq: "puts s = (if 0 \<in> set s then Some (cstr s) else None)"
  by (induction s) auto

lemma strcpy_eq:
  "0 \<in> set src \<Longrightarrow> length (cstr src) < length dest \<Longrightarrow>
   strcpy dest src = Some (cstr src @ 0 # drop (Suc (length (cstr src))) dest)"
  by (induction dest src rule: strcpy.induct) (auto split: if_splits)

lemma strncpy_pad_eq:
  "n \<le> length dest \<Longrightarrow> strncpy_pad dest n = Some (replicate n 0 @ drop n dest)"
  by (induction dest n rule: strncpy_pad.induct) auto

lemma strncpy_eq:
  "n \<le> length dest \<Longrightarrow> 0 \<in> set src \<or> n < length src \<Longrightarrow>
   strncpy dest src n =
     Some (take n (cstr src) @ replicate (n - length (cstr src)) 0 @ drop n dest)"
  by (induction dest src n rule: strncpy.induct) (auto simp: strncpy_pad_eq)

lemma scast_inj_u8: "(scast (a :: u8) :: u32) = scast b \<longleftrightarrow> a = b"
proof
  assume "(scast a :: u32) = scast b"
  then have "sint (scast a :: u32) = sint (scast b :: u32)" by simp
  then show "a = b" by (simp add: sint_up_scast is_up signed_word_eqI)
qed simp

lemma strncmp_eq:
  "n \<le> length s1 \<or> 0 \<in> set s1 \<Longrightarrow> n \<le> length s2 \<or> 0 \<in> set s2 \<Longrightarrow>
   \<exists>d. strncmp s1 s2 n = Some d \<and> (d = 0 \<longleftrightarrow> take n (cstr s1) = take n (cstr s2))"
  by (induction s1 s2 n rule: strncmp.induct) (auto simp: scast_inj_u8)

section \<open>In-place reversal is reversal\<close>

lemma strrev_loop_nth:
  "0 \<le> beg \<Longrightarrow> end < int (length s) \<Longrightarrow>
   length (strrev_loop s beg end) = length s \<and>
   (\<forall>k < length s. strrev_loop s beg end ! k =
      (if beg \<le> int k \<and> int k \<le> end then s ! nat (beg + end - int k) else s ! k))"
proof (induction s beg "end" rule: strrev_loop.induct)
  case (1 s beg "end")
  show ?case
  proof (cases "beg < end")
    case True
    let ?t = "(s[nat end := s ! nat beg])[nat beg := s ! nat end]"
    have len: "length ?t = length s" by simp
    have IH: "length (strrev_loop ?t (beg + 1) (end - 1)) = length s"
      "\<And>k. k < length s \<Longrightarrow> strrev_loop ?t (beg + 1) (end - 1) ! k =
        (if beg + 1 \<le> int k \<and> int k \<le> end - 1 then ?t ! nat (beg + end - int k) else ?t ! k)"
      using "1.IH" [OF True refl refl refl] "1.prems" True len by auto
    have t_nth: "?t ! k = (if k = nat beg then s ! nat end else if k = nat end then s ! nat beg
        else s ! k)" if "k < length s" for k
      using that "1.prems" True by (auto simp: nth_list_update)
    have step: "strrev_loop s beg end = strrev_loop ?t (beg + 1) (end - 1)"
      using True by (subst strrev_loop.simps) (simp add: Let_def)
    have "strrev_loop s beg end ! k =
        (if beg \<le> int k \<and> int k \<le> end then s ! nat (beg + end - int k) else s ! k)"
      if k: "k < length s" for k
    proof (cases "beg + 1 \<le> int k \<and> int k \<le> end - 1")
      case True
      then have "nat (beg + end - int k) < length s" "nat (beg + end - int k) \<noteq> nat beg"
        "nat (beg + end - int k) \<noteq> nat end"
        using "1.prems" by auto
      with True show ?thesis by (simp add: step IH(2) [OF k] t_nth)
    next
      case False
      with \<open>beg < end\<close> "1.prems" show ?thesis
        by (auto simp add: step IH(2) [OF k] t_nth [OF k])
    qed
    with IH(1) step show ?thesis by simp
  next
    case False
    then have "strrev_loop s beg end = s" by (subst strrev_loop.simps) simp
    with False "1.prems" show ?thesis
      by (auto intro!: arg_cong [where f = "(!) s"])
  qed
qed

lemma strrev_eq:
  assumes "0 \<in> set s" and "length s < 2 ^ 31"
  shows "strrev s = Some (rev (cstr s) @ drop (length (cstr s)) s)"
proof -
  let ?n = "length (cstr s)"
  from assms have n: "?n < length s" by (simp add: length_cstr_less)
  have e: "sint (of_nat ?n - 1 :: u32) = int ?n - 1"
  proof -
    have "sint (word_of_int (int ?n - 1) :: u32) = int ?n - 1"
      using n assms(2) by (intro sint_word_of_int) auto
    then show ?thesis by simp
  qed
  have L: "length (strrev_loop s 0 (int ?n - 1)) = length s"
    and N: "\<And>k. k < length s \<Longrightarrow> strrev_loop s 0 (int ?n - 1) ! k =
      (if int k \<le> int ?n - 1 then s ! nat (int ?n - 1 - int k) else s ! k)"
    using strrev_loop_nth [of 0 "int ?n - 1" s] n by auto
  have c: "cstr s = take ?n s" unfolding cstr_def by (rule takeWhile_eq_take)
  have "strrev_loop s 0 (int ?n - 1) = rev (cstr s) @ drop ?n s"
  proof (rule nth_equalityI)
    show "length (strrev_loop s 0 (int ?n - 1)) = length (rev (cstr s) @ drop ?n s)"
      using L n by simp
    fix k assume k: "k < length (strrev_loop s 0 (int ?n - 1))"
    have "s ! j = cstr s ! j" if "j < ?n" for j using that c by (metis nth_take)
    with k L n show "strrev_loop s 0 (int ?n - 1) ! k = (rev (cstr s) @ drop ?n s) ! k"
      by (auto simp: N nth_append rev_nth intro!: arg_cong [where f = "(!) (cstr s)"])
  qed
  then show ?thesis by (simp only: strrev_def strlen_eq assms(1) if_True option.map e)
qed

section \<open>itoa prints the number\<close>

text \<open>The value of a digit, of a digit string, and the digits least significant first.\<close>

definition digit_val :: "u8 \<Rightarrow> nat" where
  "digit_val c = (if c < 58 then unat c - 48 else unat c - 55)"

definition num_of :: "nat \<Rightarrow> u8 list \<Rightarrow> nat" where
  "num_of r cs = foldl (\<lambda>a c. a * r + digit_val c) 0 cs"

fun ls_digits :: "nat \<Rightarrow> nat \<Rightarrow> u8 list" where
  "ls_digits r n =
     (if n = 0 \<or> r < 2 then [] else itoa_lookup ! (n mod r) # ls_digits r (n div r))"

declare ls_digits.simps [simp del]

definition numeral_text :: "nat \<Rightarrow> nat \<Rightarrow> u8 list" where
  "numeral_text r n = (if n = 0 then [48] else rev (ls_digits r n))"

lemma length_itoa_lookup [simp]: "length itoa_lookup = 37"
  by (simp add: itoa_lookup_def)

lemma digit_lookup:
  assumes "d < 36"
  shows "digit_val (itoa_lookup ! d) = d" and "itoa_lookup ! d \<noteq> 0" and "itoa_lookup ! d \<noteq> 45"
proof -
  have "\<forall>d \<in> set [0..<36]. digit_val (itoa_lookup ! d) = d \<and> itoa_lookup ! d \<noteq> 0 \<and>
      itoa_lookup ! d \<noteq> 45"
    by (simp add: upt_rec itoa_lookup_def digit_val_def)
  with assms show "digit_val (itoa_lookup ! d) = d" "itoa_lookup ! d \<noteq> 0" "itoa_lookup ! d \<noteq> 45"
    by auto
qed

lemma num_of_snoc: "num_of r (cs @ [c]) = num_of r cs * r + digit_val c"
  by (simp add: num_of_def)

lemma ls_digits_props:
  "2 \<le> r \<Longrightarrow> r \<le> 36 \<Longrightarrow>
   num_of r (rev (ls_digits r n)) = n \<and> 0 \<notin> set (ls_digits r n) \<and> 45 \<notin> set (ls_digits r n)"
proof (induction r n rule: ls_digits.induct)
  case (1 r n)
  have "n mod r < 36" using 1(2,3) mod_less_divisor [of r n] by linarith
  with 1 show ?case
    by (subst (1 2 3) ls_digits.simps) (auto simp: num_of_snoc digit_lookup num_of_def)
qed

lemma length_ls_digits: "2 \<le> r \<Longrightarrow> n < r ^ k \<Longrightarrow> length (ls_digits r n) \<le> k"
proof (induction k arbitrary: n)
  case 0
  then show ?case by (subst ls_digits.simps) simp
next
  case (Suc k)
  then have "n div r < r ^ k" by (simp add: less_mult_imp_div_less mult.commute)
  with Suc show ?case by (subst ls_digits.simps) auto
qed

lemma numeral_text_props:
  assumes "2 \<le> r" and "r \<le> 36"
  shows "num_of r (numeral_text r n) = n" and "0 \<notin> set (numeral_text r n)"
    and "45 \<notin> set (numeral_text r n)"
  using ls_digits_props [OF assms, of n]
  by (auto simp: numeral_text_def num_of_def digit_val_def)

lemma length_numeral_text:
  "2 \<le> r \<Longrightarrow> n < r ^ k \<Longrightarrow> 0 < k \<Longrightarrow> length (numeral_text r n) \<le> k"
  using length_ls_digits [of r n k] by (auto simp: numeral_text_def)

lemma itoa_loop_eq:
  "2 \<le> unat r \<Longrightarrow> unat r \<le> 36 \<Longrightarrow> length (ls_digits (unat r) (unat v)) < length buf \<Longrightarrow>
   itoa_loop buf v r = Some (ls_digits (unat r) (unat v) @ 0 #
     drop (Suc (length (ls_digits (unat r) (unat v)))) buf)"
proof (induction buf v r rule: itoa_loop.induct)
  case (2 b buf v r)
  show ?case
  proof (cases "v = 0")
    case True
    then show ?thesis by (subst (1 2) ls_digits.simps) simp
  next
    case False
    have r0: "r \<noteq> 0" using "2.prems" by auto
    have lt: "unat (v mod r) < 36"
      unfolding unat_mod using "2.prems" mod_less_divisor [of "unat r" "unat v"] by linarith
    then have "int (unat (v mod r)) < int 36" by (simp only: of_nat_less_iff)
    then have lt_int: "uint (v mod r) < 36" by simp
    have s: "sint (v mod r) = int (unat (v mod r))"
      using lt by (intro sint_eq_unat) simp
    have d: "ls_digits (unat r) (unat v) =
        itoa_lookup ! unat (v mod r) # ls_digits (unat r) (unat (v div r))"
      using False "2.prems" by (subst ls_digits.simps) (simp add: unat_mod unat_div unat_eq_zero)
    have "itoa_loop buf (v div r) r = Some (ls_digits (unat r) (unat (v div r)) @ 0 #
        drop (Suc (length (ls_digits (unat r) (unat (v div r))))) buf)"
      using "2.IH" [OF _ r0 refl] False lt_int s "2.prems" d by (simp add: word_neq_0_conv)
    with False r0 lt_int s d show ?thesis by (simp add: word_neq_0_conv)
  qed
qed simp

lemma itoa_eq:
  assumes r: "2 \<le> unat r" "unat r \<le> 36" and k: "unat v < unat r ^ k" "0 < k" "k < length buf"
    and buf: "length buf < 2 ^ 31"
  shows "\<exists>rest. itoa v buf r = Some (numeral_text (unat r) (unat v) @ 0 # rest) \<and>
    length rest + length (numeral_text (unat r) (unat v)) + 1 = length buf"
proof (cases "v = 0")
  case True
  from k obtain a b rest where "buf = a # b # rest"
    by (cases buf; cases "tl buf") auto
  with True show ?thesis by (simp add: itoa_def numeral_text_def)
next
  case False
  let ?l = "ls_digits (unat r) (unat v)"
  have len: "length ?l < length buf"
    using length_ls_digits [of "unat r" "unat v" k] r k by simp
  let ?b = "?l @ 0 # drop (Suc (length ?l)) buf"
  have c: "cstr ?b = ?l" by (rule cstr_id) (use ls_digits_props [OF r] in blast)
  have "length ?b = length buf" using len by simp
  with strrev_eq [of ?b] buf have "strrev ?b = Some (rev ?l @ drop (length ?l) ?b)"
    by (simp add: c)
  with False len show ?thesis
    by (simp add: itoa_def itoa_loop_eq [OF r len] numeral_text_def unat_eq_zero)
qed

lemma itoa_text:
  assumes "2 \<le> unat r" and "unat r \<le> 36" and "unat v < unat r ^ k" and "0 < k" and "k < n" and "n < 2 ^ 31"
  shows "\<exists>rest. itoa v (replicate n 0) r = Some (numeral_text (unat r) (unat v) @ 0 # rest)"
  using itoa_eq [OF assms(1-4), of "replicate n 0"] assms(5,6) by auto

lemma puts_numeral:
  "2 \<le> r \<Longrightarrow> r \<le> 36 \<Longrightarrow> puts (numeral_text r n @ 0 # rest) = Some (numeral_text r n)"
  using numeral_text_props(2) [of r n] by (simp add: puts_eq cstr_id)

lemma unat_less_pow10: "unat (v :: u32) < 10 ^ 10"
  using unat_lt32 [of v] by simp

lemma uint_of_int32: "0 \<le> x \<Longrightarrow> x < 2 ^ 32 \<Longrightarrow> uint (word_of_int x :: u32) = x"
  by (simp add: uint_word_of_int_eq take_bit_int_eq_self)

lemma int_unat_pos: "0 \<le> sint (v :: u32) \<Longrightarrow> int (unat v) = sint v"
  using uint_of_int32 [of "sint v"] sint_lt [of v] by simp

lemma int_unat_neg: "sint (v :: u32) < 0 \<Longrightarrow> int (unat (- v)) = - sint v"
  using uint_of_int32 [of "- sint v"] sint_ge [of v] by simp

section \<open>Properties\<close>

text \<open>The value of a decimal text with an optional minus sign.\<close>

definition signed_value :: "u8 list \<Rightarrow> int" where
  "signed_value t = (if t \<noteq> [] \<and> hd t = 45 then - int (num_of 10 (tl t)) else int (num_of 10 t))"

text \<open>
  C40: Conversion to text and back: in every radix from 2 to 36, \<^verbatim>\<open>itoa\<close> of every 32-bit value
  into a buffer of 33 bytes or more stores a terminated string whose digits have that value.
\<close>

theorem itoa_roundtrip:
  assumes "2 \<le> unat radix" and "unat radix \<le> 36" and "33 < length buf" and "length buf < 2 ^ 31"
  shows "\<exists>t rest. itoa v buf radix = Some (t @ 0 # rest) \<and> 0 \<notin> set t \<and>
    num_of (unat radix) t = unat v \<and> length (t @ 0 # rest) = length buf"
proof -
  have "(2 :: nat) ^ 32 \<le> unat radix ^ 32" using assms(1) by (rule power_mono) simp
  then have "unat v < unat radix ^ 32" using unat_lt32 [of v] by linarith
  from itoa_eq [OF assms(1,2) this, of buf] obtain rest where
    "itoa v buf radix = Some (numeral_text (unat radix) (unat v) @ 0 # rest)"
    "length rest + length (numeral_text (unat radix) (unat v)) + 1 = length buf"
    using assms(3,4) by auto
  then show ?thesis
    using numeral_text_props(1,2) [OF assms(1,2), of "unat v"]
    by (intro exI [of _ "numeral_text (unat radix) (unat v)"] exI [of _ rest]) simp
qed

theorem itoa_roundtrip_witness:
  "\<exists>t rest. itoa 48879 (replicate 40 0) 16 = Some (t @ 0 # rest) \<and> num_of 16 t = 48879"
  using itoa_roundtrip [of 16 "replicate 40 0" 48879] by auto

text \<open>
  \<^verbatim>\<open>printf\<close>'s \<^verbatim>\<open>%d\<close> prints every value with its sign, the least integer included.
\<close>

lemma conv_d_value: "\<exists>t. conv_d v = Some t \<and> signed_value t = sint v"
proof (cases "sint v < 0")
  case True
  obtain rest where "itoa (- v) (replicate 35 0) 10 = Some (numeral_text 10 (unat (- v)) @ 0 # rest)"
    using itoa_text [of 10 "- v" 10 35] unat_less_pow10 by auto
  then show ?thesis
    using True int_unat_neg [OF True] puts_numeral [of 10] numeral_text_props(1) [of 10]
    by (simp add: conv_d_def signed_value_def)
next
  case False
  have "numeral_text 10 (unat v) = [] \<or> hd (numeral_text 10 (unat v)) \<noteq> 45"
    using numeral_text_props(3) [of 10 "unat v"] by (cases "numeral_text 10 (unat v)") auto
  moreover obtain rest where "itoa v (replicate 36 0) 10 = Some (numeral_text 10 (unat v) @ 0 # rest)"
    using itoa_text [of 10 v 10 36] unat_less_pow10 by auto
  moreover have "int (unat v) = sint v" using False by (intro int_unat_pos) simp
  ultimately show ?thesis
    using False puts_numeral [of 10] numeral_text_props(1) [of 10]
    by (auto simp: conv_d_def signed_value_def)
qed

text \<open>
  \<^verbatim>\<open>strrev\<close> reverses the string in place and leaves the terminator and what follows.
\<close>

lemma strrev_reverses:
  assumes "0 \<notin> set s" and "length (s @ 0 # rest) < 2 ^ 31"
  shows "strrev (s @ 0 # rest) = Some (rev s @ 0 # rest)"
  using strrev_eq [of "s @ 0 # rest"] assms by (simp add: cstr_id)

lemma strrev_reverses_witness: "strrev [97, 98, 99, 0, 100] = Some [99, 98, 97, 0, 100]"
  using strrev_reverses [of "[97, 98, 99]" "[100]"] by simp

end
