(* ===== verification/Terminal.thy ===== *)
theory Terminal
  imports Paging LibC "HOL-Library.Signed_Division"
begin

text \<open>
  The terminal driver (\<^verbatim>\<open>student-distrib/drivers/terminal.c\<close>, \<^verbatim>\<open>terminal.h\<close>): three
  terminals with a cursor and a keyboard buffer each, the memory their \<^verbatim>\<open>video_mem\<close>
  pointers reach (identity mapped, so addresses are integers), the cursor registers'
  port writes and the interrupt flag. Terminal numbers are below \<open>TERM_MAX\<close>; cursor
  coordinates and buffer positions are \<^verbatim>\<open>int32_t\<close> values far from overflow, modelled
  as integers.
\<close>

section \<open>State\<close>

definition VIDEO1 :: int where "VIDEO1 = 0xB8000"
definition VIDEO_T1 :: int where "VIDEO_T1 = 0xB9000"
definition VIDEO_T2 :: int where "VIDEO_T2 = 0xBA000"
definition VIDEO_T3 :: int where "VIDEO_T3 = 0xBB000"
definition NUM_COLS :: int where "NUM_COLS = 80"
definition NUM_ROWS :: int where "NUM_ROWS = 25"
definition VBUF_SIZE :: nat where "VBUF_SIZE = 80 * 25 * 2"
definition ATTRIB :: u8 where "ATTRIB = 0x7"
definition TERM_MAX :: nat where "TERM_MAX = 3"
definition TAB_STOP :: int where "TAB_STOP = 4"
definition KB_BUF_SIZE :: nat where "KB_BUF_SIZE = 128"

lemmas term_consts = VIDEO1_def VIDEO_T1_def VIDEO_T2_def VIDEO_T3_def NUM_COLS_def
  NUM_ROWS_def VBUF_SIZE_def ATTRIB_def TERM_MAX_def TAB_STOP_def KB_BUF_SIZE_def

record terminal =
  cur_x :: int
  cur_y :: int
  kb_buf :: "u8 list"
  kb_pos :: int
  term_flag :: int
  term_num :: int
  video_mem :: int

record console =
  terminals :: "nat \<Rightarrow> terminal"
  display_term :: nat
  readWaiting :: "nat \<Rightarrow> bool"
  video_mem_backup :: "nat \<Rightarrow> int"
  vram :: "int \<Rightarrow> u8"
  crtc_out :: "port_write list"
  iflag :: bool

definition upd_term :: "nat \<Rightarrow> (terminal \<Rightarrow> terminal) \<Rightarrow> console \<Rightarrow> console" where
  "upd_term i f s = s\<lparr>terminals := (terminals s)(i := f (terminals s i))\<rparr>"

definition store8 :: "int \<Rightarrow> u8 \<Rightarrow> console \<Rightarrow> console" where
  "store8 a v s = s\<lparr>vram := (vram s)(a := v)\<rparr>"

definition cli :: "console \<Rightarrow> console" where "cli s = s\<lparr>iflag := False\<rparr>"
definition sti :: "console \<Rightarrow> console" where "sti s = s\<lparr>iflag := True\<rparr>"

section \<open>Cursor, clearing and scrolling\<close>

definition reset_cursor :: "nat \<Rightarrow> int \<Rightarrow> int \<Rightarrow> console \<Rightarrow> console" where
  "reset_cursor term x y s0 =
     (let s = upd_term term (\<lambda>t. t\<lparr>cur_x := x, cur_y := y\<rparr>) s0 in
      if term = display_term s then
        let position = (word_of_int (y * NUM_COLS + x) :: u16)
        in s\<lparr>crtc_out := crtc_out s @ [(0x3D4, 0x0F), (0x3D5, ucast (position AND 0xFF)),
              (0x3D4, 0x0E), (0x3D5, ucast (drop_bit 8 position AND 0xFF))]\<rparr>
      else s)"

definition term_clear :: "nat \<Rightarrow> console \<Rightarrow> console" where
  "term_clear term s =
     (let vm = video_mem (terminals s term);
          s = fold (\<lambda>i s. store8 (vm + 2 * int i + 1) ATTRIB (store8 (vm + 2 * int i) 32 s))
                [0..<nat (NUM_ROWS * NUM_COLS)] s
      in reset_cursor term 0 0 s)"

text \<open>\<^verbatim>\<open>to\<close> and \<^verbatim>\<open>from\<close> are cell numbers; a cell is two bytes, the character first.\<close>

definition scroll_cell :: "int \<Rightarrow> nat \<Rightarrow> nat \<Rightarrow> (int \<Rightarrow> u8) \<Rightarrow> int \<Rightarrow> u8" where
  "scroll_cell vm y x m =
     (let from = int x + int y * NUM_COLS; to = int x + (int y - 1) * NUM_COLS
      in m(vm + 2 * to := m (vm + 2 * from)))"

definition scroll_mem :: "int \<Rightarrow> (int \<Rightarrow> u8) \<Rightarrow> int \<Rightarrow> u8" where
  "scroll_mem vm m =
     (let m = fold (\<lambda>y. fold (scroll_cell vm y) [0..<nat NUM_COLS]) [1..<nat NUM_ROWS] m
      in fold (\<lambda>x m. m(vm + 2 * (int x + (NUM_ROWS - 1) * NUM_COLS) := 32)) [0..<nat NUM_COLS] m)"

definition term_scroll :: "nat \<Rightarrow> console \<Rightarrow> console" where
  "term_scroll term s =
     upd_term term (\<lambda>t. t\<lparr>cur_x := 0, cur_y := NUM_ROWS - 1\<rparr>)
       (s\<lparr>vram := scroll_mem (video_mem (terminals s term)) (vram s)\<rparr>)"

section \<open>Printing\<close>

definition cell_addr :: "terminal \<Rightarrow> int" where
  "cell_addr t = video_mem t + 2 * (NUM_COLS * cur_y t + cur_x t)"

definition term_putc :: "u8 \<Rightarrow> nat \<Rightarrow> console \<Rightarrow> console" where
  "term_putc c term s0 =
     (if c = 0 \<or> c = 13 then s0
      else
        let s = (if c = 10 then
              let s = upd_term term (\<lambda>t. t\<lparr>cur_y := cur_y t + 1, cur_x := 0\<rparr>) s0
              in if cur_y (terminals s term) \<ge> NUM_ROWS then term_scroll term s else s
            else
              let s = store8 (cell_addr (terminals s0 term)) c s0;
                  s = store8 (cell_addr (terminals s0 term) + 1) ATTRIB s;
                  s = upd_term term (\<lambda>t. t\<lparr>cur_x := cur_x t + 1\<rparr>) s;
                  s = (if cur_x (terminals s term) \<ge> NUM_COLS
                       then upd_term term (\<lambda>t. t\<lparr>cur_y := cur_y t + 1, cur_x := 0\<rparr>) s else s)
              in if cur_y (terminals s term) \<ge> NUM_ROWS then term_scroll term s else s)
        in reset_cursor term (cur_x (terminals s term)) (cur_y (terminals s term)) s)"

text \<open>\<^verbatim>\<open>term_setChar\<close> writes to the displayed screen.\<close>

definition term_setChar :: "u8 \<Rightarrow> int \<Rightarrow> int \<Rightarrow> console \<Rightarrow> console" where
  "term_setChar c x y s =
     store8 (VIDEO1 + 2 * (NUM_COLS * y + x) + 1) ATTRIB
       (store8 (VIDEO1 + 2 * (NUM_COLS * y + x)) c s)"

text \<open>\<^verbatim>\<open>term_test_int\<close> increments every character of the displayed screen.\<close>

definition term_test_int :: "console \<Rightarrow> console" where
  "term_test_int s =
     fold (\<lambda>i s. store8 (VIDEO1 + 2 * int i) (vram s (VIDEO1 + 2 * int i) + 1) s)
       [0..<nat (NUM_ROWS * NUM_COLS)] s"

section \<open>Initialisation and switching\<close>

definition reset_kb_buf :: "nat \<Rightarrow> console \<Rightarrow> console" where
  "reset_kb_buf n =
     upd_term n (\<lambda>t. t\<lparr>kb_buf := fold (\<lambda>i b. b[i := 0]) [0..<KB_BUF_SIZE] (kb_buf t), kb_pos := 0\<rparr>)"

definition term_init :: "console \<Rightarrow> console" where
  "term_init s0 =
     (let s = s0\<lparr>video_mem_backup := (video_mem_backup s0)(0 := VIDEO_T1, 1 := VIDEO_T2, 2 := VIDEO_T3)\<rparr>;
          s = fold (\<lambda>i s. reset_kb_buf i (upd_term i (\<lambda>t. t\<lparr>cur_x := 0, cur_y := 0, term_flag := 0,
                term_num := int i, video_mem := video_mem_backup s i\<rparr>) s)) [0..<TERM_MAX] s;
          s = upd_term 0 (\<lambda>t. t\<lparr>video_mem := VIDEO1\<rparr>) s
      in s\<lparr>display_term := 0\<rparr>)"

text \<open>One iteration of the copy loop of \<^verbatim>\<open>show_terminal\<close>.\<close>

definition swap_step :: "int \<Rightarrow> int \<Rightarrow> nat \<Rightarrow> (int \<Rightarrow> u8) \<Rightarrow> int \<Rightarrow> u8" where
  "swap_step backup new i m =
     (let m = m(backup + int i := m (VIDEO1 + int i)) in m(VIDEO1 + int i := m (new + int i)))"

definition show_terminal :: "nat \<Rightarrow> console \<times> paging \<Rightarrow> int \<times> console \<times> paging" where
  "show_terminal term = (\<lambda>(s, pg).
     if term \<ge> TERM_MAX then (-1, s, pg)
     else if term = display_term s then (0, s, pg)
     else
       let old = display_term s;
           pg = page_map_4kb 1 (term_vid_addr term) VMEM_MAP pg;
           pg = page_map_4kb 1 (term_vid_addr old) (term_vid_addr old) pg;
           s = cli s;
           s = s\<lparr>vram := fold (swap_step (video_mem_backup s old) (video_mem (terminals s term)))
                 [0..<VBUF_SIZE] (vram s)\<rparr>;
           s = upd_term old (\<lambda>t. t\<lparr>video_mem := video_mem_backup s old\<rparr>) s;
           s = upd_term term (\<lambda>t. t\<lparr>video_mem := VIDEO1\<rparr>) s;
           s = s\<lparr>display_term := term\<rparr>;
           s = reset_cursor term (cur_x (terminals s term)) (cur_y (terminals s term)) s;
           s = sti s
       in (0, s, pg))"

section \<open>The keyboard's entry points\<close>

definition term_keyboardChar :: "u8 \<Rightarrow> console \<Rightarrow> int \<times> console" where
  "term_keyboardChar c s =
     (let state = terminals s (display_term s) in
      if kb_pos state \<ge> int KB_BUF_SIZE - 1 then (0, s)
      else
        let s = upd_term (display_term s)
              (\<lambda>t. t\<lparr>kb_buf := (kb_buf t)[nat (kb_pos t) := c], kb_pos := kb_pos t + 1\<rparr>) s
        in (1, term_putc c (display_term s) s))"

definition term_keyboardTab :: "console \<Rightarrow> console" where
  "term_keyboardTab s =
     (let spaces = 4 - (cur_x (terminals s (display_term s)) smod TAB_STOP)
      in fold (\<lambda>_ s. snd (term_keyboardChar 32 s)) [0..<nat spaces] s)"

definition term_keyboardBackspace :: "console \<Rightarrow> console" where
  "term_keyboardBackspace s0 =
     (let d = display_term s0; state = terminals s0 d in
      if kb_pos state = 0 \<or> (cur_x state = 0 \<and> cur_y state = 0) then s0
      else
        let s = upd_term d (\<lambda>t. t\<lparr>kb_pos := kb_pos t - 1\<rparr>) s0;
            s = (if cur_x (terminals s d) \<ge> 1 then
                   let s = upd_term d (\<lambda>t. t\<lparr>cur_x := cur_x t - 1\<rparr>) s
                   in term_setChar 32 (cur_x (terminals s d)) (cur_y (terminals s d)) s
                 else if cur_y (terminals s d) \<ge> 0 then
                   let s = upd_term d (\<lambda>t. t\<lparr>cur_x := NUM_COLS - 1, cur_y := cur_y t - 1\<rparr>) s
                   in term_setChar 32 (cur_x (terminals s d)) (cur_y (terminals s d)) s
                 else s)
        in reset_cursor d (cur_x (terminals s d)) (cur_y (terminals s d)) s)"

text \<open>
  The newline is stored without a bounds check: \<^term>\<open>None\<close> when the buffer already holds
  \<open>KB_BUF_SIZE\<close> characters, where the store leaves the array.
\<close>

definition term_keyboardEnter :: "console \<Rightarrow> console option" where
  "term_keyboardEnter s =
     (let s = cli s; d = display_term s; t = terminals s d in
      if kb_pos t < 0 \<or> kb_pos t \<ge> int KB_BUF_SIZE then None
      else
        let s = upd_term d (\<lambda>t. t\<lparr>kb_buf := (kb_buf t)[nat (kb_pos t) := 10], kb_pos := kb_pos t + 1\<rparr>) s;
            s = term_putc 10 d s;
            s = (if readWaiting s d then s\<lparr>readWaiting := (readWaiting s)(d := False)\<rparr>
                 else upd_term d (\<lambda>t. t\<lparr>kb_pos := 0\<rparr>) s)
        in Some (sti s))"

text \<open>\<^verbatim>\<open>term_showbuf\<close> reads the buffer of the displayed terminal.\<close>

definition term_showbuf :: "nat \<Rightarrow> console \<Rightarrow> console" where
  "term_showbuf term s =
     (let t = terminals s (display_term s)
      in fold (\<lambda>i s. term_putc (kb_buf t ! i) term s) [0..<nat (kb_pos t)] s)"

section \<open>The system calls\<close>

text \<open>
  \<^verbatim>\<open>terminal_read\<close> in three parts: up to the wait loop, the wait loop's test, and what
  follows it; \<open>cur\<close> is \<^verbatim>\<open>get_current_terminal()\<close>.
\<close>

definition terminal_read_begin :: "nat \<Rightarrow> console \<Rightarrow> console" where
  "terminal_read_begin cur s =
     (let s = s\<lparr>readWaiting := (readWaiting s)(cur := True)\<rparr> in
      if kb_pos (terminals s cur) \<noteq> 0 then term_showbuf cur s else s)"

fun copy_line :: "nat \<Rightarrow> nat \<Rightarrow> u8 list \<Rightarrow> u8 list" where
  "copy_line (Suc count) (Suc pos) (b # buf) = b # copy_line count pos buf"
| "copy_line _ _ _ = []"

definition terminal_read_finish :: "nat \<Rightarrow> u32 \<Rightarrow> console \<Rightarrow> int \<times> u8 list \<times> console" where
  "terminal_read_finish cur count s =
     (let t = terminals s cur;
          bs = copy_line (unat count) (nat (kb_pos t)) (kb_buf t);
          i = int (length bs);
          s = (if i \<ge> kb_pos t then upd_term cur (\<lambda>t. t\<lparr>kb_pos := 0\<rparr>) s else s)
      in (i, bs, s))"

text \<open>\<open>input\<close> holds the \<open>count\<close> bytes at \<^verbatim>\<open>buf\<close>; \<^term>\<open>None\<close> is a null pointer.\<close>

definition terminal_write :: "nat \<Rightarrow> u8 list option \<Rightarrow> console \<Rightarrow> int \<times> console" where
  "terminal_write term input s =
     (case input of None \<Rightarrow> (-1, s)
      | Some bs \<Rightarrow> (int (length bs), fold (\<lambda>c. term_putc c term) bs s))"

end
