(* ===== verification/Screen.thy ===== *)
theory Screen
  imports Terminal
begin

text \<open>
  What the terminal driver promises: each terminal is a text screen of 25 rows of 80 cells
  with a cursor. \<open>view\<close> reads it off the console state, \<open>scr_putc\<close> says what printing a
  character does to it, and the driver's operations refine this for one terminal while the
  other screens keep their contents, whichever terminal is displayed.
\<close>

section \<open>The invariant of the console\<close>

definition own_page :: "nat \<Rightarrow> int" where "own_page i = VIDEO_T1 + 4096 * int i"

definition base :: "nat \<Rightarrow> nat \<Rightarrow> int" where
  "base d i = (if i = d then VIDEO1 else own_page i)"

definition term_ok :: "terminal \<Rightarrow> bool" where
  "term_ok t \<longleftrightarrow> 0 \<le> cur_x t \<and> cur_x t < NUM_COLS \<and> 0 \<le> cur_y t \<and> cur_y t < NUM_ROWS \<and>
     0 \<le> kb_pos t \<and> kb_pos t \<le> int KB_BUF_SIZE \<and> length (kb_buf t) = KB_BUF_SIZE"

definition con_inv :: "console \<Rightarrow> bool" where
  "con_inv s \<longleftrightarrow> display_term s < TERM_MAX \<and>
     (\<forall>i<TERM_MAX. video_mem_backup s i = own_page i \<and>
        video_mem (terminals s i) = base (display_term s) i \<and> term_ok (terminals s i))"

lemma con_invD:
  assumes "con_inv s"
  shows "display_term s < 3" and "i < 3 \<Longrightarrow> video_mem_backup s i = own_page i"
    and "i < 3 \<Longrightarrow> video_mem (terminals s i) = base (display_term s) i"
    and "i < 3 \<Longrightarrow> term_ok (terminals s i)"
  using assms by (auto simp: con_inv_def TERM_MAX_def)

lemma con_inv_upd [inv_intros]:
  assumes "con_inv s" and "i < 3" and "term_ok (f (terminals s i))"
    and "video_mem (f (terminals s i)) = video_mem (terminals s i)"
  shows "con_inv (upd_term i f s)"
  using assms by (auto simp: con_inv_def upd_term_def TERM_MAX_def)

text \<open>Video pages do not overlap.\<close>

lemma base_disjoint:
  assumes "i \<noteq> j" and "i < 3" and "j < 3" and "d < 3" and "0 \<le> p" and "p < 4096"
    and "0 \<le> q" and "q < 4096"
  shows "base d i + p \<noteq> base d j + q"
proof -
  have "base d i \<noteq> base d j \<and> 4096 dvd base d i \<and> 4096 dvd base d j"
    using assms(1-4) by (auto simp: base_def own_page_def term_consts)
  then obtain u v where "base d i = 4096 * u" "base d j = 4096 * v" "u \<noteq> v"
    by (auto simp: dvd_def)
  then show ?thesis using assms(5-) by auto
qed

section \<open>The abstract screen\<close>

record screen =
  scol :: int
  srow :: int
  chars :: "u8 list"
  attrs :: "u8 list"

definition vchars :: "int \<Rightarrow> (int \<Rightarrow> u8) \<Rightarrow> u8 list" where
  "vchars b m = map (\<lambda>k. m (b + 2 * int k)) [0..<2000]"

definition vattrs :: "int \<Rightarrow> (int \<Rightarrow> u8) \<Rightarrow> u8 list" where
  "vattrs b m = map (\<lambda>k. m (b + 2 * int k + 1)) [0..<2000]"

definition view :: "nat \<Rightarrow> console \<Rightarrow> screen" where
  "view i s = \<lparr>scol = cur_x (terminals s i), srow = cur_y (terminals s i),
     chars = vchars (video_mem (terminals s i)) (vram s),
     attrs = vattrs (video_mem (terminals s i)) (vram s)\<rparr>"

text \<open>
  Scrolling moves the characters up one row, blanks the last row and leaves the colours
  where they are; the cursor goes to the last row's first column.
\<close>

definition scr_scroll :: "screen \<Rightarrow> screen" where
  "scr_scroll sc = sc\<lparr>scol := 0, srow := 24, chars := drop 80 (chars sc) @ replicate 80 32\<rparr>"

definition scr_settle :: "screen \<Rightarrow> screen" where
  "scr_settle sc = (if srow sc \<ge> 25 then scr_scroll sc else sc)"

definition scr_putc :: "u8 \<Rightarrow> screen \<Rightarrow> screen" where
  "scr_putc c sc =
     (if c = 0 \<or> c = 13 then sc
      else if c = 10 then scr_settle (sc\<lparr>scol := 0, srow := srow sc + 1\<rparr>)
      else
        let k = nat (80 * srow sc + scol sc);
            sc = sc\<lparr>chars := (chars sc)[k := c], attrs := (attrs sc)[k := 7]\<rparr>
        in scr_settle (if scol sc = 79 then sc\<lparr>scol := 0, srow := srow sc + 1\<rparr>
                       else sc\<lparr>scol := scol sc + 1\<rparr>))"

lemma length_vchars [simp]: "length (vchars b m) = 2000" "length (vattrs b m) = 2000"
  by (simp_all add: vchars_def vattrs_def)

lemma vchars_cong:
  "(\<And>p. 0 \<le> p \<Longrightarrow> p < 4000 \<Longrightarrow> m (b + p) = m' (b' + p)) \<Longrightarrow>
   vchars b m = vchars b' m' \<and> vattrs b m = vattrs b' m'"
  by (auto simp: vchars_def vattrs_def add.assoc)

lemma vchars_upd:
  "0 \<le> k \<Longrightarrow> k < 2000 \<Longrightarrow> vchars b (m(b + 2 * k := v)) = (vchars b m)[nat k := v]"
  "vattrs b (m(b + 2 * k := v)) = vattrs b m"
  "vchars b (m(b + 2 * k + 1 := v)) = vchars b m"
  "0 \<le> k \<Longrightarrow> k < 2000 \<Longrightarrow> vattrs b (m(b + 2 * k + 1 := v)) = (vattrs b m)[nat k := v]"
  by (auto simp: vchars_def vattrs_def nth_list_update list_eq_iff_nth_eq; presburger)+

section \<open>Scrolling\<close>

definition shift_cell :: "int \<Rightarrow> nat \<Rightarrow> (int \<Rightarrow> u8) \<Rightarrow> int \<Rightarrow> u8" where
  "shift_cell b k m = m(b + 2 * int k := m (b + 2 * int k + 160))"

lemma scroll_row:
  assumes "0 < y"
  shows "fold (scroll_cell b y) [0..<80] m = fold (shift_cell b) [80 * (y - 1)..<80 * y] m"
proof -
  have "scroll_cell b y = (\<lambda>x. shift_cell b (80 * (y - 1) + x))"
    using assms
    by (auto simp: fun_eq_iff scroll_cell_def shift_cell_def Let_def NUM_COLS_def algebra_simps of_nat_diff)
  moreover have "[80 * (y - 1)..<80 * y] = map (\<lambda>x. 80 * (y - 1) + x) [0..<80]"
    using assms by (cases y) (simp_all add: list_eq_iff_nth_eq)
  ultimately show ?thesis by (simp add: fold_map comp_def)
qed

lemma scroll_rows:
  "fold (\<lambda>y. fold (scroll_cell b y) [0..<80]) [1..<Suc n] m = fold (shift_cell b) [0..<80 * n] m"
proof (induction n)
  case (Suc n)
  have "[0..<80 * Suc n] = [0..<80 * n] @ [80 * n..<80 * Suc n]"
    using upt_add_eq_append [of 0 "80 * n" 80] by (simp add: add.commute)
  then show ?case using Suc scroll_row [of "Suc n" b] by simp
qed simp

lemma shift_cells:
  "fold (shift_cell b) [0..<n] m a =
     (if \<exists>k<n. a = b + 2 * int k then m (a + 160) else m a)"
proof (induction n arbitrary: a)
  case (Suc n)
  have "\<not> (\<exists>k<n. b + 2 * int n + 160 = b + 2 * int k)" by presburger
  then show ?case
    using Suc by (auto simp: shift_cell_def less_Suc_eq)
qed simp

lemma blank_cells:
  "fold (\<lambda>x m. m(b + 2 * (int x + 1920) := 32)) [0..<n] m a =
     (if \<exists>k<n. a = b + 2 * (int k + 1920) then 32 else m a)"
  by (induction n) (auto simp: less_Suc_eq)

lemma scroll_mem_eq:
  "scroll_mem b m a =
     (if \<exists>k<1920. a = b + 2 * int k then m (a + 160)
      else if \<exists>k<80. a = b + 2 * (int k + 1920) then 32 else m a)"
proof -
  have r: "[1..<25] = [1..<Suc 24]" by simp
  show ?thesis
    unfolding scroll_mem_def Let_def NUM_COLS_def NUM_ROWS_def
    using scroll_rows [of b 24 m] blank_cells [of b 80 "fold (shift_cell b) [0..<1920] m" a]
      shift_cells [of b 1920 m a]
    by (simp add: r del: upt_Suc) fastforce
qed

lemma scroll_mem_view:
  "vchars b (scroll_mem b m) = drop 80 (vchars b m) @ replicate 80 32"
  "vattrs b (scroll_mem b m) = vattrs b m"
proof -
  have "vchars b (scroll_mem b m) ! k = (drop 80 (vchars b m) @ replicate 80 32) ! k"
    if "k < 2000" for k
  proof (cases "k < 1920")
    case True
    then have "scroll_mem b m (b + 2 * int k) = m (b + 2 * int k + 160)"
      by (auto simp: scroll_mem_eq)
    with True show ?thesis by (simp add: vchars_def nth_append algebra_simps)
  next
    case False
    then have "int k = int (k - 1920) + 1920" "k - 1920 < 80" using that by auto
    then have "scroll_mem b m (b + 2 * int k) = 32"
      unfolding scroll_mem_eq using False by auto
    with False that show ?thesis by (simp add: vchars_def nth_append)
  qed
  then show "vchars b (scroll_mem b m) = drop 80 (vchars b m) @ replicate 80 32"
    by (simp add: list_eq_iff_nth_eq)
  have "b + 2 * k + 1 \<noteq> b + 2 * j" for k j :: int by presburger
  then have "scroll_mem b m (b + 2 * int k + 1) = m (b + 2 * int k + 1)" for k
    unfolding scroll_mem_eq by metis
  then show "vattrs b (scroll_mem b m) = vattrs b m" by (simp add: vattrs_def)
qed

lemma scroll_mem_frame:
  "\<not> (b \<le> a \<and> a < b + 4000) \<Longrightarrow> scroll_mem b m a = m a"
  by (auto simp: scroll_mem_eq)

section \<open>Printing a character\<close>

text \<open>The parts of the state that \<open>view\<close> depends on.\<close>

lemma reset_cursor_simps [simp]:
  "terminals (reset_cursor i x y s) = (terminals s)(i := (terminals s i)\<lparr>cur_x := x, cur_y := y\<rparr>)"
  "vram (reset_cursor i x y s) = vram s"
  "display_term (reset_cursor i x y s) = display_term s"
  "readWaiting (reset_cursor i x y s) = readWaiting s"
  "video_mem_backup (reset_cursor i x y s) = video_mem_backup s"
  "iflag (reset_cursor i x y s) = iflag s"
  by (simp_all add: reset_cursor_def upd_term_def Let_def)

lemma upd_term_simps [simp]:
  "terminals (upd_term i f s) = (terminals s)(i := f (terminals s i))"
  "vram (upd_term i f s) = vram s"
  "display_term (upd_term i f s) = display_term s"
  "readWaiting (upd_term i f s) = readWaiting s"
  "video_mem_backup (upd_term i f s) = video_mem_backup s"
  "iflag (upd_term i f s) = iflag s"
  "crtc_out (upd_term i f s) = crtc_out s"
  by (simp_all add: upd_term_def)

lemma store8_simps [simp]:
  "terminals (store8 a v s) = terminals s" "vram (store8 a v s) = (vram s)(a := v)"
  "display_term (store8 a v s) = display_term s" "readWaiting (store8 a v s) = readWaiting s"
  "video_mem_backup (store8 a v s) = video_mem_backup s" "iflag (store8 a v s) = iflag s"
  by (simp_all add: store8_def)

lemma term_scroll_simps [simp]:
  "terminals (term_scroll i s) = (terminals s)(i := (terminals s i)\<lparr>cur_x := 0, cur_y := 24\<rparr>)"
  "vram (term_scroll i s) = scroll_mem (video_mem (terminals s i)) (vram s)"
  "display_term (term_scroll i s) = display_term s"
  "readWaiting (term_scroll i s) = readWaiting s"
  "video_mem_backup (term_scroll i s) = video_mem_backup s"
  "iflag (term_scroll i s) = iflag s"
  by (simp_all add: term_scroll_def NUM_ROWS_def)

text \<open>
  \<open>same_others i s s'\<close>: the step from \<open>s\<close> to \<open>s'\<close> touches terminal \<open>i\<close> only, and of its
  record only the cursor, and of memory only its video page.
\<close>

definition cursor_only :: "nat \<Rightarrow> console \<Rightarrow> console \<Rightarrow> bool" where
  "cursor_only i s s' \<longleftrightarrow>
     (\<forall>j. j \<noteq> i \<longrightarrow> terminals s' j = terminals s j) \<and>
     video_mem (terminals s' i) = video_mem (terminals s i) \<and>
     kb_buf (terminals s' i) = kb_buf (terminals s i) \<and>
     kb_pos (terminals s' i) = kb_pos (terminals s i) \<and>
     display_term s' = display_term s \<and> readWaiting s' = readWaiting s \<and>
     video_mem_backup s' = video_mem_backup s \<and> iflag s' = iflag s \<and>
     (\<forall>a. \<not> (video_mem (terminals s i) \<le> a \<and> a < video_mem (terminals s i) + 4000) \<longrightarrow>
        vram s' a = vram s a)"

lemma term_putc_cursor_only:
  assumes "term_ok (terminals s i)"
  shows "cursor_only i s (term_putc c i s)"
proof -
  let ?t = "terminals s i"
  have a: "video_mem ?t \<le> cell_addr ?t" "cell_addr ?t + 1 < video_mem ?t + 4000"
    using assms by (auto simp: term_ok_def cell_addr_def term_consts)
  show ?thesis
    using a
    by (auto simp: cursor_only_def term_putc_def Let_def scroll_mem_frame)
qed

lemma cell_addr_eq: "cell_addr t = video_mem t + 2 * (80 * cur_y t + cur_x t)"
  by (simp add: cell_addr_def NUM_COLS_def)

lemma term_putc_ok:
  "term_ok (terminals s i) \<Longrightarrow> term_ok (terminals (term_putc c i s) i)"
  by (auto simp: term_ok_def term_putc_def Let_def term_consts)

lemma term_putc_own:
  assumes "term_ok (terminals s i)"
  shows "view i (term_putc c i s) = scr_putc c (view i s)"
proof -
  let ?t = "terminals s i"
  obtain k where kd: "k = 80 * cur_y ?t + cur_x ?t" by simp
  then have k: "0 \<le> k" "k < 2000" and ca: "cell_addr ?t = video_mem ?t + 2 * k"
    using assms by (auto simp: term_ok_def term_consts cell_addr_eq)
  have x: "cur_x ?t + 1 \<ge> 80 \<longleftrightarrow> cur_x ?t = 79" "\<not> cur_y ?t \<ge> 25"
    using assms by (auto simp: term_ok_def term_consts)
  consider "c = 0 \<or> c = 13" | "c = 10" | "c \<noteq> 0" "c \<noteq> 13" "c \<noteq> 10" by blast
  then show ?thesis
  proof cases
    case 1
    then show ?thesis by (auto simp: term_putc_def scr_putc_def)
  next
    case 2
    then show ?thesis
      by (simp add: term_putc_def scr_putc_def scr_settle_def scr_scroll_def view_def Let_def
          NUM_ROWS_def scroll_mem_view)
  next
    case 3
    then show ?thesis
      using k x
      by (simp add: term_putc_def scr_putc_def scr_settle_def scr_scroll_def view_def Let_def
          NUM_ROWS_def NUM_COLS_def ATTRIB_def scroll_mem_view ca vchars_upd flip: kd)
  qed
qed

lemma cursor_only_inv:
  assumes "con_inv s" and "i < 3" and "cursor_only i s s'" and "term_ok (terminals s' i)"
  shows "con_inv s'"
  using assms by (auto simp: con_inv_def cursor_only_def TERM_MAX_def)

lemma cursor_only_others:
  assumes "con_inv s" and "i < 3" and "j < 3" and "j \<noteq> i" and "cursor_only i s s'"
  shows "view j s' = view j s"
proof -
  let ?b = "base (display_term s)"
  have b: "video_mem (terminals s i) = ?b i" "video_mem (terminals s j) = ?b j" "display_term s < 3"
    using con_invD [OF assms(1)] assms(2,3) by auto
  have "vram s' (?b j + p) = vram s (?b j + p)" if "0 \<le> p" "p < 4000" for p
  proof -
    have "\<not> (?b i \<le> ?b j + p \<and> ?b j + p < ?b i + 4000)"
      using base_disjoint [of j i "display_term s" p "?b j + p - ?b i"] assms(2-4) b(3) that
      by auto
    then show ?thesis using assms(5) b by (simp add: cursor_only_def)
  qed
  then show ?thesis
    using vchars_cong [of "vram s'" "?b j" "vram s" "?b j"] assms(4,5) b
    by (simp add: view_def cursor_only_def)
qed

lemma con_inv_putc [inv_intros]: "con_inv s \<Longrightarrow> i < 3 \<Longrightarrow> con_inv (term_putc c i s)"
  by (metis con_invD(4) cursor_only_inv term_putc_cursor_only term_putc_ok)

section \<open>Clients of a set of screens\<close>

text \<open>
  The contract that the users of a screen rely on (\<^verbatim>\<open>terminal_write\<close>, the echo of
  the keyboard buffer, \<^verbatim>\<open>puts\<close> and \<^verbatim>\<open>printf\<close> of the kernel): an invariant, what putting a
  character does to its screen, and that the others keep theirs.
\<close>

locale screens =
  fixes good :: "'s \<Rightarrow> bool"
    and idx :: "nat set"
    and look :: "nat \<Rightarrow> 's \<Rightarrow> 'v"
    and put :: "'c \<Rightarrow> nat \<Rightarrow> 's \<Rightarrow> 's"
    and effect :: "'c \<Rightarrow> 'v \<Rightarrow> 'v"
  assumes put_good: "good s \<Longrightarrow> i \<in> idx \<Longrightarrow> good (put c i s)"
    and put_own: "good s \<Longrightarrow> i \<in> idx \<Longrightarrow> look i (put c i s) = effect c (look i s)"
    and put_other: "good s \<Longrightarrow> i \<in> idx \<Longrightarrow> j \<in> idx \<Longrightarrow> j \<noteq> i \<Longrightarrow> look j (put c i s) = look j s"
begin

lemma text_good: "good s \<Longrightarrow> i \<in> idx \<Longrightarrow> good (fold (\<lambda>c. put c i) cs s)"
  by (induction cs arbitrary: s) (auto intro: put_good)

lemma text_own:
  "good s \<Longrightarrow> i \<in> idx \<Longrightarrow> look i (fold (\<lambda>c. put c i) cs s) = fold effect cs (look i s)"
  by (induction cs arbitrary: s) (auto simp: put_own put_good)

lemma text_other:
  "good s \<Longrightarrow> i \<in> idx \<Longrightarrow> j \<in> idx \<Longrightarrow> j \<noteq> i \<Longrightarrow> look j (fold (\<lambda>c. put c i) cs s) = look j s"
  by (induction cs arbitrary: s) (auto simp: put_other put_good)

text \<open>Interleaved output: each screen shows the characters that were put to it, in order.\<close>

lemma interleaved:
  assumes "good s" and "\<And>i c. (i, c) \<in> set ops \<Longrightarrow> i \<in> idx" and "j \<in> idx"
  shows "look j (fold (\<lambda>(i, c). put c i) ops s) =
    fold effect (map snd (filter (\<lambda>(i, c). i = j) ops)) (look j s)"
  using assms
proof (induction ops arbitrary: s)
  case (Cons op ops)
  obtain i c where op: "op = (i, c)" by fastforce
  then have i: "i \<in> idx" using Cons.prems(2) by auto
  have "look j (fold (\<lambda>(i, c). put c i) ops (put c i s)) =
      fold effect (map snd (filter (\<lambda>(i, c). i = j) ops)) (look j (put c i s))"
    by (rule Cons.IH) (use Cons.prems put_good [OF _ i] in auto)
  then show ?case
    using op put_own [OF Cons.prems(1) i] put_other [OF Cons.prems(1) i Cons.prems(3)] by auto
qed simp

end

interpretation scr: screens con_inv "{..<3}" view term_putc scr_putc
proof
  fix s i j c
  assume s: "con_inv s" and i: "i \<in> {..<3 :: nat}"
  then have lt: "i < 3" by auto
  show "con_inv (term_putc c i s)" using s lt by (rule con_inv_putc)
  show "view i (term_putc c i s) = scr_putc c (view i s)"
    using con_invD(4) [OF s lt] by (rule term_putc_own)
  assume "j \<in> {..<3 :: nat}" and "j \<noteq> i"
  then show "view j (term_putc c i s) = view j s"
    using cursor_only_others [OF s lt _ _ term_putc_cursor_only] con_invD(4) [OF s lt] by auto
qed

section \<open>Switching the displayed terminal\<close>

lemma swap_loop:
  assumes "new + 4000 \<le> bk \<or> bk + 4000 \<le> new" and "VIDEO1 + 4000 \<le> bk" and "VIDEO1 + 4000 \<le> new"
    and "n \<le> 4000"
  shows "fold (swap_step bk new) [0..<n] m a =
    (if VIDEO1 \<le> a \<and> a < VIDEO1 + int n then m (new + (a - VIDEO1))
     else if bk \<le> a \<and> a < bk + int n then m (VIDEO1 + (a - bk)) else m a)"
  using assms(4)
proof (induction n arbitrary: a)
  case (Suc n)
  then have "n \<le> 4000" by simp
  note IH = Suc.IH [OF this]
  define M where "M = fold (swap_step bk new) [0..<n] m"
  have S: "fold (swap_step bk new) [0..<Suc n] m = (let m = M(bk + int n := M (VIDEO1 + int n))
      in m(VIDEO1 + int n := m (new + int n)))"
    unfolding fold_upt_Suc by (simp only: M_def) (simp only: swap_step_def)
  show ?case
    unfolding S Let_def using Suc.prems assms(1-3) by (auto simp: IH [folded M_def])
qed auto

text \<open>Each terminal's user page shows the memory that the terminal's pointer reaches.\<close>

definition video_mapped :: "nat \<Rightarrow> paging \<Rightarrow> bool" where
  "video_mapped d pg \<longleftrightarrow>
     (\<forall>i<3. drop_bit 12 (vmem_page_table pg (0xB9 + i)) = word_of_int (base d i div 4096))"

lemma term_vid_addr_simps:
  "i < 3 \<Longrightarrow> term_vid_addr i = 0xB9 + of_nat i"
  "i < 3 \<Longrightarrow> unat (term_vid_addr i) = 0xB9 + i"
proof -
  assume "i < 3"
  then have "i \<in> {0, 1, 2}" by auto
  then show "term_vid_addr i = 0xB9 + of_nat i" "unat (term_vid_addr i) = 0xB9 + i"
    by (auto simp: term_vid_addr_def page_consts)
qed

lemma base_frame:
  "i < 3 \<Longrightarrow> word_of_int (base d i div 4096) = (if i = d then VMEM_MAP else term_vid_addr i)"
  by (auto simp: base_def own_page_def term_vid_addr_simps(1) VIDEO1_def VIDEO_T1_def VMEM_MAP_def)

lemma show_terminal_noop:
  "term \<ge> 3 \<Longrightarrow> show_terminal term (s, pg) = (-1, s, pg)"
  "term < 3 \<Longrightarrow> term = display_term s \<Longrightarrow> show_terminal term (s, pg) = (0, s, pg)"
  by (simp_all add: show_terminal_def TERM_MAX_def)

lemma cli_sti_simps [simp]:
  "terminals (cli s) = terminals s" "terminals (sti s) = terminals s"
  "vram (cli s) = vram s" "vram (sti s) = vram s"
  "display_term (cli s) = display_term s" "display_term (sti s) = display_term s"
  "readWaiting (cli s) = readWaiting s" "readWaiting (sti s) = readWaiting s"
  "video_mem_backup (cli s) = video_mem_backup s" "video_mem_backup (sti s) = video_mem_backup s"
  "\<not> iflag (cli s)" "iflag (sti s)"
  by (simp_all add: cli_def sti_def)

lemma show_terminal_switch:
  assumes "term < 3" and "term \<noteq> display_term s"
  obtains s' pg' where "show_terminal term (s, pg) = (0, s', pg')"
    and "display_term s' = term" and "iflag s'" and "readWaiting s' = readWaiting s"
    and "video_mem_backup s' = video_mem_backup s"
    and "terminals s' = (terminals s)
      (display_term s := (terminals s (display_term s))\<lparr>video_mem := video_mem_backup s (display_term s)\<rparr>,
       term := (terminals s term)\<lparr>video_mem := VIDEO1\<rparr>)"
    and "vram s' = fold (swap_step (video_mem_backup s (display_term s)) (video_mem (terminals s term)))
      [0..<4000] (vram s)"
    and "pg' = page_map_4kb 1 (term_vid_addr (display_term s)) (term_vid_addr (display_term s))
      (page_map_4kb 1 (term_vid_addr term) VMEM_MAP pg)"
proof (rule that)
  let ?r = "show_terminal term (s, pg)"
  show "?r = (0, fst (snd ?r), snd (snd ?r))"
    using assms by (simp add: show_terminal_def TERM_MAX_def Let_def)
qed (use assms in \<open>simp_all add: show_terminal_def TERM_MAX_def VBUF_SIZE_def Let_def fun_upd_twist\<close>)

lemma show_terminal_con_inv [inv_intros]:
  assumes "con_inv s" and "show_terminal term (s, pg) = (r, s', pg')"
  shows "con_inv s'"
proof (cases "term < 3 \<and> term \<noteq> display_term s")
  case False
  then show ?thesis
    using assms by (cases "term < 3") (auto simp: show_terminal_noop)
next
  case True
  then obtain s1 pg1 where
    e: "show_terminal term (s, pg) = (0, s1, pg1)" "display_term s1 = term"
      "video_mem_backup s1 = video_mem_backup s"
      "terminals s1 = (terminals s)
      (display_term s := (terminals s (display_term s))\<lparr>video_mem := video_mem_backup s (display_term s)\<rparr>,
       term := (terminals s term)\<lparr>video_mem := VIDEO1\<rparr>)"
    using show_terminal_switch [of "term" s pg] by metis
  have "con_inv s1"
    using assms(1) True e
    by (auto simp: con_inv_def TERM_MAX_def base_def term_ok_def)
  then show ?thesis using assms(2) e by simp
qed

lemma show_terminal_view:
  assumes "con_inv s" and "show_terminal term (s, pg) = (r, s', pg')" and "i < 3"
  shows "view i s' = view i s"
proof (cases "term < 3 \<and> term \<noteq> display_term s")
  case False
  then show ?thesis
    using assms by (cases "term < 3") (auto simp: show_terminal_noop)
next
  case True
  let ?d = "display_term s"
  from True obtain s1 pg1 where
    e: "show_terminal term (s, pg) = (0, s1, pg1)" "display_term s1 = term"
      "video_mem_backup s1 = video_mem_backup s"
      "terminals s1 = (terminals s)
      (?d := (terminals s ?d)\<lparr>video_mem := video_mem_backup s ?d\<rparr>,
       term := (terminals s term)\<lparr>video_mem := VIDEO1\<rparr>)"
      "vram s1 = fold (swap_step (video_mem_backup s ?d) (video_mem (terminals s term)))
        [0..<4000] (vram s)"
    using show_terminal_switch [of "term" s pg] by metis
  note D = con_invD [OF assms(1)]
  have m: "vram s1 a = (if VIDEO1 \<le> a \<and> a < VIDEO1 + 4000 then vram s (own_page term + (a - VIDEO1))
      else if own_page ?d \<le> a \<and> a < own_page ?d + 4000 then vram s (VIDEO1 + (a - own_page ?d))
      else vram s a)" for a
  proof -
    have "own_page term + 4000 \<le> own_page ?d \<or> own_page ?d + 4000 \<le> own_page term"
      "VIDEO1 + 4000 \<le> own_page ?d" "VIDEO1 + 4000 \<le> own_page term"
      using True by (auto simp: own_page_def VIDEO1_def VIDEO_T1_def)
    from swap_loop [OF this, of 4000 "vram s" a] show ?thesis
      using True D by (simp add: e base_def)
  qed
  have b: "video_mem (terminals s1 i) = base term i" "video_mem (terminals s i) = base ?d i"
    using D True assms(3) by (auto simp: e base_def)
  have "vram s1 (base term i + p) = vram s (base ?d i + p)" if "0 \<le> p" "p < 4000" for p
    using that True D(1) assms(3)
    by (auto simp: m base_def own_page_def VIDEO1_def VIDEO_T1_def add.assoc)
  then have "vchars (base term i) (vram s1) = vchars (base ?d i) (vram s) \<and>
      vattrs (base term i) (vram s1) = vattrs (base ?d i) (vram s)"
    by (rule vchars_cong)
  then have "view i s1 = view i s" by (simp add: view_def b) (simp add: e)
  then show ?thesis using assms(2) e by simp
qed

lemma show_terminal_mapped [inv_intros]:
  assumes "con_inv s" and "pg_inv pg" and "video_mapped (display_term s) pg"
    and "show_terminal term (s, pg) = (r, s', pg')"
  shows "pg_inv pg' \<and> video_mapped (display_term s') pg'"
proof (cases "term < 3 \<and> term \<noteq> display_term s")
  case False
  then show ?thesis
    using assms by (cases "term < 3") (auto simp: show_terminal_noop)
next
  case True
  let ?d = "display_term s"
  from True obtain s1 pg1 where
    e: "show_terminal term (s, pg) = (0, s1, pg1)" "display_term s1 = term"
      "pg1 = page_map_4kb 1 (term_vid_addr ?d) (term_vid_addr ?d)
        (page_map_4kb 1 (term_vid_addr term) VMEM_MAP pg)"
    using show_terminal_switch [of "term" s pg] by metis
  have d: "?d < 3" using con_invD(1) [OF assms(1)] .
  have v: "unat (term_vid_addr j) \<in> video_slots" if "j < 3" for j
    unfolding term_vid_addr_simps(2) [OF that] using that by (auto simp: video_slots_def)
  have "pg_inv pg1" unfolding e
    using assms(2) v d True by (intro pg_inv_map_4kb) auto
  moreover have "drop_bit 12 (vmem_page_table pg1 (0xB9 + i)) = word_of_int (base term i div 4096)"
    if "i < 3" for i
  proof -
    have n: "i \<in> {0, 1, 2}" "?d \<in> {0, 1, 2}" "term \<in> {0, 1, 2}" using that d True by auto
    have t: "take_bit 20 (term_vid_addr j) = term_vid_addr j" if "j \<in> {0, 1, 2}" for j
      using that by (auto simp: term_vid_addr_def page_consts)
    have old: "drop_bit 12 (vmem_page_table pg (0xB9 + i)) = term_vid_addr i" if "i \<noteq> ?d"
      using assms(3) that \<open>i < 3\<close> by (simp add: video_mapped_def base_frame)
    show ?thesis
      using that d True old t n
      by (auto simp: e base_frame page_map_4kb_def term_vid_addr_simps(2) VMEM_MAP_def)
  qed
  ultimately show ?thesis using assms(4) e by (simp add: video_mapped_def)
qed

section \<open>The keyboard buffer as a line of text\<close>

definition pending :: "nat \<Rightarrow> console \<Rightarrow> u8 list" where
  "pending i s = take (nat (kb_pos (terminals s i))) (kb_buf (terminals s i))"

lemma length_pending:
  "con_inv s \<Longrightarrow> i < 3 \<Longrightarrow> int (length (pending i s)) = kb_pos (terminals s i)"
  using con_invD(4) [of s i] by (auto simp: pending_def term_ok_def term_consts)

lemma length_pending_le: "con_inv s \<Longrightarrow> i < 3 \<Longrightarrow> length (pending i s) \<le> 128"
  using con_invD(4) [of s i] by (auto simp: pending_def term_ok_def term_consts)

lemma take_snoc_update:
  "n < length xs \<Longrightarrow> take (Suc n) (xs[n := c]) = take n xs @ [c]"
  by (simp add: take_Suc_conv_app_nth)

lemma term_putc_keeps [frame_simps]:
  assumes "con_inv s" and "i < 3"
  shows "pending j (term_putc c i s) = pending j s"
    and "kb_pos (terminals (term_putc c i s) j) = kb_pos (terminals s j)"
    and "display_term (term_putc c i s) = display_term s"
    and "readWaiting (term_putc c i s) = readWaiting s" and "iflag (term_putc c i s) = iflag s"
proof -
  have c: "cursor_only i s (term_putc c i s)"
    using term_putc_cursor_only con_invD(4) assms by blast
  then show "kb_pos (terminals (term_putc c i s) j) = kb_pos (terminals s j)"
    and "pending j (term_putc c i s) = pending j s"
    by (cases "j = i"; simp add: cursor_only_def pending_def)+
  show "display_term (term_putc c i s) = display_term s"
    and "readWaiting (term_putc c i s) = readWaiting s" and "iflag (term_putc c i s) = iflag s"
    using c by (simp_all add: cursor_only_def)
qed

text \<open>Storing at the end of the buffer of the displayed terminal.\<close>

definition push_kb :: "u8 \<Rightarrow> console \<Rightarrow> console" where
  "push_kb c s = upd_term (display_term s)
     (\<lambda>t. t\<lparr>kb_buf := (kb_buf t)[nat (kb_pos t) := c], kb_pos := kb_pos t + 1\<rparr>) s"

lemma push_kb:
  assumes "con_inv s" and "kb_pos (terminals s (display_term s)) < 128"
  shows "con_inv (push_kb c s)"
    and "pending (display_term s) (push_kb c s) = pending (display_term s) s @ [c]"
    and "j \<noteq> display_term s \<Longrightarrow> pending j (push_kb c s) = pending j s"
    and "view j (push_kb c s) = view j s"
    and "display_term (push_kb c s) = display_term s" and "readWaiting (push_kb c s) = readWaiting s"
    and "iflag (push_kb c s) = iflag s"
proof -
  let ?d = "display_term s" and ?t = "terminals s (display_term s)"
  have ok: "term_ok ?t" "?d < 3" using con_invD [OF assms(1)] by auto
  show "con_inv (push_kb c s)"
    unfolding push_kb_def
    by (rule con_inv_upd [OF assms(1) ok(2)]) (use ok assms(2) in \<open>auto simp: term_ok_def term_consts\<close>)
  have "nat (kb_pos ?t + 1) = Suc (nat (kb_pos ?t))" "nat (kb_pos ?t) < length (kb_buf ?t)"
    using ok assms(2) by (auto simp: term_ok_def term_consts)
  then show "pending ?d (push_kb c s) = pending ?d s @ [c]"
    by (simp add: pending_def push_kb_def take_snoc_update)
qed (auto simp: push_kb_def pending_def view_def)

lemma term_keyboardChar_eq:
  "term_keyboardChar c s =
    (if kb_pos (terminals s (display_term s)) \<ge> 127 then (0, s)
     else (1, term_putc c (display_term s) (push_kb c s)))"
  by (simp add: term_keyboardChar_def push_kb_def KB_BUF_SIZE_def Let_def)

lemma term_keyboardChar_full:
  assumes "con_inv s" and "length (pending (display_term s) s) \<ge> 127"
  shows "term_keyboardChar c s = (0, s)"
  using assms length_pending [OF assms(1) con_invD(1) [OF assms(1)]]
  by (simp add: term_keyboardChar_eq)

lemma term_keyboardChar_room:
  assumes "con_inv s" and "length (pending (display_term s) s) < 127"
    and "term_keyboardChar c s = (r, s')"
  shows "r = 1" and "con_inv s'" and "display_term s' = display_term s"
    and "readWaiting s' = readWaiting s" and "iflag s' = iflag s"
    and "pending (display_term s) s' = pending (display_term s) s @ [c]"
    and "view (display_term s) s' = scr_putc c (view (display_term s) s)"
    and "j < 3 \<Longrightarrow> j \<noteq> display_term s \<Longrightarrow> pending j s' = pending j s \<and> view j s' = view j s"
proof -
  let ?d = "display_term s"
  have d: "?d < 3" using con_invD(1) [OF assms(1)] .
  have pos: "kb_pos (terminals s ?d) < 127" using assms(2) length_pending [OF assms(1) d] by simp
  then have s': "s' = term_putc c ?d (push_kb c s)" and r: "r = 1"
    using assms(3) by (auto simp: term_keyboardChar_eq)
  note P = push_kb [OF assms(1), where c = c]
  have good: "con_inv (push_kb c s)" using P(1) pos by simp
  show "r = 1" by fact
  show "con_inv s'" unfolding s' using good d by (rule con_inv_putc)
  show "display_term s' = ?d" "readWaiting s' = readWaiting s" "iflag s' = iflag s"
    "pending ?d s' = pending ?d s @ [c]"
    using P(2,5-7) pos by (simp_all add: s' term_putc_keeps [OF good d])
  show "view ?d s' = scr_putc c (view ?d s)"
    unfolding s' using scr.put_own [OF good, of ?d c] P(4) d pos by auto
  assume j: "j < 3" "j \<noteq> ?d"
  then show "pending j s' = pending j s \<and> view j s' = view j s"
    unfolding s' using scr.put_other [OF good, of ?d j c] P(3,4) d pos term_putc_keeps(1) [OF good d]
    by auto
qed

lemma term_keyboardEnter_room:
  assumes "con_inv s" and "length (pending (display_term s) s) < 128"
  obtains s' where "term_keyboardEnter s = Some s'" and "con_inv s'" and "iflag s'"
    and "display_term s' = display_term s"
    and "readWaiting s' = (readWaiting s)(display_term s := False)"
    and "pending (display_term s) s' =
      (if readWaiting s (display_term s) then pending (display_term s) s @ [10] else [])"
    and "view (display_term s) s' = scr_putc 10 (view (display_term s) s)"
    and "\<And>j. j < 3 \<Longrightarrow> j \<noteq> display_term s \<Longrightarrow> pending j s' = pending j s \<and> view j s' = view j s"
proof -
  let ?d = "display_term s"
  have d: "?d < 3" using con_invD(1) [OF assms(1)] .
  have pos: "0 \<le> kb_pos (terminals s ?d)" "kb_pos (terminals s ?d) < 128"
    using assms(2) length_pending [OF assms(1) d] by auto
  have cli: "con_inv (cli s)" "pending i (cli s) = pending i s" "view i (cli s) = view i s" for i
    using assms(1) by (simp_all add: con_inv_def pending_def view_def)
  let ?p = "push_kb 10 (cli s)"
  note P = push_kb [OF cli(1), where c = 10]
  have good: "con_inv ?p" using P(1) pos by simp
  let ?q = "term_putc 10 ?d ?p"
  have q: "con_inv ?q" using good d by (rule con_inv_putc)
  note K = term_putc_keeps [OF good d]
  let ?r = "if readWaiting s ?d then ?q\<lparr>readWaiting := (readWaiting s)(?d := False)\<rparr>
            else upd_term ?d (\<lambda>t. t\<lparr>kb_pos := 0\<rparr>) ?q"
  have e: "term_keyboardEnter s = Some (sti ?r)"
    using pos K P(5,6) by (simp add: term_keyboardEnter_def push_kb_def KB_BUF_SIZE_def Let_def)
  show ?thesis
  proof (rule that [OF e])
    have "con_inv (upd_term ?d (\<lambda>t. t\<lparr>kb_pos := 0\<rparr>) ?q)"
      using q d con_invD(4) [OF q d] by (intro con_inv_upd) (auto simp: term_ok_def KB_BUF_SIZE_def)
    then show "con_inv (sti ?r)"
      using q by (simp add: con_inv_def)
    show "iflag (sti ?r)" by simp
    show "display_term (sti ?r) = ?d" using K(3) P(5) pos by simp
    show "readWaiting (sti ?r) = (readWaiting s)(?d := False)"
      using K(4) P(6) pos by (auto simp: fun_eq_iff)
    show "pending ?d (sti ?r) = (if readWaiting s ?d then pending ?d s @ [10] else [])"
      using K(1) [of ?d] P(2) pos cli(2) by (simp add: pending_def)
    have v: "view j (sti ?r) = view j ?q" for j by (simp add: view_def)
    show "view ?d (sti ?r) = scr_putc 10 (view ?d s)"
      unfolding v using scr.put_own [OF good, of ?d 10] P(4) d pos cli(3) by auto
    fix j assume j: "j < 3" "j \<noteq> ?d"
    have "pending j (sti ?r) = pending j ?q" using j(2) by (simp add: pending_def)
    then show "pending j (sti ?r) = pending j s \<and> view j (sti ?r) = view j s"
      unfolding v using scr.put_other [OF good, of ?d j 10] P(3,4) K(1) j d pos cli(2,3) by auto
  qed
qed

lemma type_line:
  assumes "con_inv s" and "length (pending (display_term s) s) + length cs \<le> 127"
  defines "s' \<equiv> fold (\<lambda>c s. snd (term_keyboardChar c s)) cs s"
  shows "con_inv s' \<and> display_term s' = display_term s \<and> readWaiting s' = readWaiting s \<and>
    iflag s' = iflag s \<and>
    pending (display_term s) s' = pending (display_term s) s @ cs \<and>
    view (display_term s) s' = fold scr_putc cs (view (display_term s) s) \<and>
    (\<forall>j<3. j \<noteq> display_term s \<longrightarrow> pending j s' = pending j s \<and> view j s' = view j s)"
  using assms(1,2) unfolding s'_def
proof (induction cs arbitrary: s)
  case (Cons c cs)
  let ?d = "display_term s"
  obtain r s1 where e: "term_keyboardChar c s = (r, s1)" by fastforce
  have "length (pending ?d s) < 127" using Cons.prems(2) by simp
  note R = term_keyboardChar_room [OF Cons.prems(1) this e]
  have "length (pending (display_term s1) s1) + length cs \<le> 127"
    using Cons.prems(2) R(3,6) by simp
  then show ?case using Cons.IH [OF R(2)] R e by simp
qed simp

text \<open>Copying a line out: as many characters as the buffer and the request both have.\<close>

lemma copy_line_eq: "copy_line count pos buf = take (min count pos) buf"
  by (induction count pos buf rule: copy_line.induct) (auto simp: min_def)

lemma terminal_read_finish_eq:
  assumes "con_inv s" and "cur < 3"
  obtains s' where "terminal_read_finish cur count s =
      (int (length (take (unat count) (pending cur s))), take (unat count) (pending cur s), s')"
    and "con_inv s'" and "display_term s' = display_term s"
    and "pending cur s' = (if length (pending cur s) \<le> unat count then [] else pending cur s)"
    and "\<And>j. view j s' = view j s" and "\<And>j. j \<noteq> cur \<Longrightarrow> pending j s' = pending j s"
proof -
  let ?t = "terminals s cur"
  let ?bs = "take (unat count) (pending cur s)"
  have ok: "term_ok ?t" using con_invD(4) assms by blast
  have bs: "copy_line (unat count) (nat (kb_pos ?t)) (kb_buf ?t) = ?bs"
    by (simp add: copy_line_eq pending_def)
  have full: "int (length ?bs) \<ge> kb_pos ?t \<longleftrightarrow> length (pending cur s) \<le> unat count"
    using length_pending [OF assms] by auto
  let ?s = "if length (pending cur s) \<le> unat count then upd_term cur (\<lambda>t. t\<lparr>kb_pos := 0\<rparr>) s else s"
  show ?thesis
  proof (rule that)
    show "terminal_read_finish cur count s = (int (length ?bs), ?bs, ?s)"
      using full by (simp add: terminal_read_finish_def bs Let_def)
    show "con_inv ?s"
      using assms ok by (auto intro!: con_inv_upd simp: term_ok_def KB_BUF_SIZE_def)
  qed (auto simp: pending_def view_def)
qed

section \<open>Erasing\<close>

definition scr_erase :: "screen \<Rightarrow> screen" where
  "scr_erase sc =
     (let k = nat (80 * srow sc + scol sc) - 1
      in sc\<lparr>scol := int k mod 80, srow := int k div 80,
         chars := (chars sc)[k := 32], attrs := (attrs sc)[k := 7]\<rparr>)"

lemma term_setChar_simps [simp]:
  "terminals (term_setChar c x y s) = terminals s"
  "display_term (term_setChar c x y s) = display_term s"
  "readWaiting (term_setChar c x y s) = readWaiting s"
  "video_mem_backup (term_setChar c x y s) = video_mem_backup s"
  "iflag (term_setChar c x y s) = iflag s"
  by (simp_all add: term_setChar_def)

lemma term_keyboardBackspace_noop:
  "con_inv s \<Longrightarrow> pending (display_term s) s = [] \<or>
     (cur_x (terminals s (display_term s)) = 0 \<and> cur_y (terminals s (display_term s)) = 0) \<Longrightarrow>
   term_keyboardBackspace s = s"
  using length_pending [of s "display_term s"] con_invD(1) [of s]
  by (auto simp: term_keyboardBackspace_def Let_def)

lemma div_mod_80:
  fixes y :: int shows "0 \<le> x \<Longrightarrow> x < 80 \<Longrightarrow> (80 * y + x) div 80 = y \<and> (80 * y + x) mod 80 = x"
  by simp

lemma term_keyboardBackspace_eq:
  fixes s defines "d \<equiv> display_term s"
  assumes "con_inv s" and "pending d s \<noteq> []"
    and "\<not> (cur_x (terminals s d) = 0 \<and> cur_y (terminals s d) = 0)"
  defines "s' \<equiv> term_keyboardBackspace s"
  shows "con_inv s'" and "pending d s' = butlast (pending d s)"
    and "view d s' = scr_erase (view d s)"
    and "j < 3 \<Longrightarrow> j \<noteq> d \<Longrightarrow> pending j s' = pending j s \<and> view j s' = view j s"
    and "display_term s' = d" and "readWaiting s' = readWaiting s" and "iflag s' = iflag s"
proof -
  let ?t = "terminals s d"
  define k where "k = 80 * cur_y ?t + cur_x ?t - 1"
  have d: "d < 3" and b: "video_mem ?t = VIDEO1" and ok: "term_ok ?t"
    using con_invD [OF assms(2)] by (auto simp: d_def base_def)
  have pos: "0 < kb_pos ?t"
    using assms(3) length_pending [OF assms(2) d] by (cases "pending d s") auto
  have k: "0 \<le> k" "k < 2000" and pk: "80 * cur_y ?t + cur_x ?t = k + 1"
    using ok assms(4) by (auto simp: k_def term_ok_def term_consts)
  have e: "s' = reset_cursor d (k mod 80) (k div 80)
      (term_setChar 32 (k mod 80) (k div 80) (upd_term d
        (\<lambda>t. t\<lparr>kb_pos := kb_pos t - 1, cur_x := k mod 80, cur_y := k div 80\<rparr>) s))"
  proof (cases "cur_x ?t \<ge> 1")
    case True
    then have "k mod 80 = cur_x ?t - 1" "k div 80 = cur_y ?t"
      using ok div_mod_80 [of "cur_x ?t - 1" "cur_y ?t"]
      by (simp_all add: k_def term_ok_def term_consts algebra_simps)
    then show ?thesis
      using True pos by (simp add: s'_def term_keyboardBackspace_def Let_def upd_term_def d_def [symmetric])
  next
    case False
    then have "cur_x ?t = 0" "1 \<le> cur_y ?t" using ok assms(4) by (auto simp: term_ok_def)
    then have "k mod 80 = 79" "k div 80 = cur_y ?t - 1"
      using div_mod_80 [of 79 "cur_y ?t - 1"] by (simp_all add: k_def algebra_simps)
    then show ?thesis
      using False pos \<open>cur_x ?t = 0\<close> \<open>1 \<le> cur_y ?t\<close>
      by (simp add: s'_def term_keyboardBackspace_def Let_def upd_term_def NUM_COLS_def d_def [symmetric])
  qed
  have cell: "NUM_COLS * (k div 80) + k mod 80 = k" by (simp add: NUM_COLS_def)
  have kk: "0 \<le> k mod 80" "k mod 80 < 80" "0 \<le> k div 80" "k div 80 < 25" using k by auto
  show "display_term s' = d" "readWaiting s' = readWaiting s" "iflag s' = iflag s"
    by (simp_all add: e term_setChar_def d_def store8_def)
  have t': "terminals s' = (terminals s)(d := ?t\<lparr>kb_pos := kb_pos ?t - 1, cur_x := k mod 80, cur_y := k div 80\<rparr>)"
    by (simp add: e term_setChar_def)
  have bk: "video_mem_backup s' = video_mem_backup s" by (simp add: e term_setChar_def)
  have v': "vram s' = (vram s)(VIDEO1 + 2 * k := 32, VIDEO1 + 2 * k + 1 := 7)"
    by (simp add: e term_setChar_def cell ATTRIB_def del: distrib_left_numeral)
  show "con_inv s'"
    using assms(2) ok kk pos
    by (auto simp: con_inv_def t' bk \<open>display_term s' = d\<close> d_def term_ok_def term_consts)
  have "nat (kb_pos ?t - 1) = nat (kb_pos ?t) - 1" "nat (kb_pos ?t) \<le> length (kb_buf ?t)"
    using pos ok by (auto simp: term_ok_def term_consts)
  then show "pending d s' = butlast (pending d s)"
    by (simp add: pending_def t' butlast_take)
  have nk: "nat (k + 1) - Suc 0 = nat k" using k by auto
  show "view d s' = scr_erase (view d s)"
    using k kk pos by (simp add: view_def t' v' b vchars_upd scr_erase_def pk Let_def nk)
  assume j: "j < 3" "j \<noteq> d"
  have "vram s' (base d j + p) = vram s (base d j + p)" if "0 \<le> p" "p < 4000" for p
    using base_disjoint [of j d d p "2 * k"] base_disjoint [of j d d p "2 * k + 1"] j d k that
    by (simp add: v' base_def add.assoc)
  then have "vchars (base d j) (vram s') = vchars (base d j) (vram s) \<and>
      vattrs (base d j) (vram s') = vattrs (base d j) (vram s)"
    by (rule vchars_cong)
  then show "pending j s' = pending j s \<and> view j s' = view j s"
    using j con_invD(3) [OF assms(2) j(1)] by (simp add: view_def pending_def t' d_def)
qed

text \<open>The tab key types spaces up to the next multiple of four.\<close>

lemma term_keyboardTab_eq:
  assumes "con_inv s"
  shows "term_keyboardTab s = fold (\<lambda>c s. snd (term_keyboardChar c s))
    (replicate (nat (4 - cur_x (terminals s (display_term s)) mod 4)) 32) s"
proof -
  let ?x = "cur_x (terminals s (display_term s))"
  have "0 \<le> ?x"
    using con_invD(4) [OF assms con_invD(1) [OF assms]] by (simp add: term_ok_def)
  then have "?x smod 4 = ?x mod 4"
    by (cases "?x = 0") (simp_all add: signed_modulo_int_def)
  moreover have "fold (\<lambda>_ s. snd (term_keyboardChar 32 s)) [0..<n] s =
      fold (\<lambda>c s. snd (term_keyboardChar c s)) (replicate n 32) s" for n s
    by (induction n arbitrary: s) (auto simp: fold_commute_apply replicate_append_same [symmetric]
        simp del: replicate_append_same)
  ultimately show ?thesis by (simp add: term_keyboardTab_def TAB_STOP_def Let_def)
qed

section \<open>Clearing, writing, initialising\<close>

definition blank_screen :: screen where
  "blank_screen = \<lparr>scol = 0, srow = 0, chars = replicate 2000 32, attrs = replicate 2000 7\<rparr>"

lemma clear_loop:
  "vram (fold (\<lambda>i s. store8 (b + 2 * int i + 1) ATTRIB (store8 (b + 2 * int i) 32 s)) [0..<n] s) a =
    (if \<exists>k<n. a = b + 2 * int k then 32 else if \<exists>k<n. a = b + 2 * int k + 1 then 7 else vram s a)"
proof (induction n)
  case (Suc n)
  have "b + 2 * int n + 1 \<noteq> b + 2 * int k" "b + 2 * int n \<noteq> b + 2 * int k + 1" for k
    by presburger+
  with Suc show ?case by (auto simp: less_Suc_eq ATTRIB_def)
qed simp

lemma clear_loop_simps:
  "terminals (fold (\<lambda>i s. store8 (f i) v (store8 (g i) w s)) xs s) = terminals s"
  "display_term (fold (\<lambda>i s. store8 (f i) v (store8 (g i) w s)) xs s) = display_term s"
  "readWaiting (fold (\<lambda>i s. store8 (f i) v (store8 (g i) w s)) xs s) = readWaiting s"
  "video_mem_backup (fold (\<lambda>i s. store8 (f i) v (store8 (g i) w s)) xs s) = video_mem_backup s"
  "iflag (fold (\<lambda>i s. store8 (f i) v (store8 (g i) w s)) xs s) = iflag s"
  by (induction xs arbitrary: s) auto

lemma term_clear_eq:
  assumes "con_inv s" and "i < 3"
  shows "con_inv (term_clear i s)" and "view i (term_clear i s) = blank_screen"
    and "j < 3 \<Longrightarrow> j \<noteq> i \<Longrightarrow> view j (term_clear i s) = view j s"
    and "pending j (term_clear i s) = pending j s"
    and "display_term (term_clear i s) = display_term s"
proof -
  let ?b = "video_mem (terminals s i)" and ?s = "term_clear i s"
  have n: "nat (NUM_ROWS * NUM_COLS) = 2000" by (simp add: NUM_ROWS_def NUM_COLS_def)
  have t: "terminals ?s = (terminals s)(i := (terminals s i)\<lparr>cur_x := 0, cur_y := 0\<rparr>)"
    "display_term ?s = display_term s" "readWaiting ?s = readWaiting s"
    "video_mem_backup ?s = video_mem_backup s" "iflag ?s = iflag s"
    by (simp_all add: term_clear_def Let_def clear_loop_simps)
  have m: "vram ?s a = (if \<exists>k<2000. a = ?b + 2 * int k then 32
      else if \<exists>k<2000. a = ?b + 2 * int k + 1 then 7 else vram s a)" for a
    using clear_loop [of ?b 2000 s a] by (simp add: term_clear_def Let_def n)
  have c: "cursor_only i s ?s" by (auto simp: cursor_only_def t m)
  have ok: "term_ok (terminals ?s i)"
    using con_invD(4) [OF assms] by (auto simp: t term_ok_def term_consts)
  show "con_inv ?s" by (rule cursor_only_inv [OF assms c ok])
  show "j < 3 \<Longrightarrow> j \<noteq> i \<Longrightarrow> view j ?s = view j s" using cursor_only_others [OF assms _ _ c] .
  show "pending j ?s = pending j s" by (simp add: pending_def t)
  have "vram ?s (?b + 2 * int k) = 32" if "k < 2000" for k using that by (auto simp: m)
  moreover have "vram ?s (?b + 2 * int k + 1) = 7" if "k < 2000" for k
  proof -
    have "?b + 2 * int k + 1 \<noteq> ?b + 2 * int l" for l by presburger
    then show ?thesis using that by (auto simp: m)
  qed
  ultimately show "view i ?s = blank_screen"
    by (simp add: view_def blank_screen_def t vchars_def vattrs_def list_eq_iff_nth_eq)
  show "display_term ?s = display_term s" by (rule t)
qed

lemma kb_zero:
  "length b = 128 \<Longrightarrow> fold (\<lambda>i b. b[i := 0]) [0..<128] b = replicate 128 (0 :: u8)"
proof -
  assume l: "length b = 128"
  have "n \<le> 128 \<Longrightarrow> fold (\<lambda>i b. b[i := 0]) [0..<n] b = replicate n 0 @ drop n b" for n
    by (induction n) (use l in \<open>auto simp: list_update_append replicate_append_same
        Cons_nth_drop_Suc [symmetric]\<close>)
  from this [of 128] l show ?thesis by simp
qed

lemma term_init_con_inv:
  assumes "\<And>i. i < 3 \<Longrightarrow> length (kb_buf (terminals s i)) = 128"
  shows "con_inv (term_init s)" and "display_term (term_init s) = 0"
    and "i < 3 \<Longrightarrow> pending i (term_init s) = []"
proof -
  have r: "[0..<3] = [0, 1, 2 :: nat]" by (simp add: upt_rec)
  have a: "(\<forall>i<3. P i) \<longleftrightarrow> P 0 \<and> P 1 \<and> P 2" for P :: "nat \<Rightarrow> bool"
    by (auto simp: numeral_3_eq_3 numeral_2_eq_2 less_Suc_eq)
  have l: "length (kb_buf (terminals s 0)) = 128" "length (kb_buf (terminals s 1)) = 128"
    "length (kb_buf (terminals s 2)) = 128"
    by (rule assms; simp)+
  have "con_inv (term_init s) \<and> display_term (term_init s) = 0 \<and>
     (\<forall>i<3. pending i (term_init s) = [])"
    unfolding con_inv_def term_init_def TERM_MAX_def KB_BUF_SIZE_def reset_kb_buf_def Let_def r a
    using l
    by (simp add: base_def own_page_def term_ok_def pending_def kb_zero VIDEO_T1_def VIDEO_T2_def
        VIDEO_T3_def NUM_COLS_def NUM_ROWS_def KB_BUF_SIZE_def)
  then show "con_inv (term_init s)" and "display_term (term_init s) = 0"
    and "i < 3 \<Longrightarrow> pending i (term_init s) = []" by auto
qed

section \<open>A console for the examples\<close>

definition demo_terminal :: terminal where
  "demo_terminal = \<lparr>cur_x = 0, cur_y = 0, kb_buf = replicate 128 0, kb_pos = 0, term_flag = 0,
     term_num = 0, video_mem = 0\<rparr>"

definition demo_con :: console where
  "demo_con = term_init \<lparr>terminals = (\<lambda>_. demo_terminal), display_term = 0, readWaiting = (\<lambda>_. False),
     video_mem_backup = (\<lambda>_. 0), vram = (\<lambda>_. 0), crtc_out = [], iflag = True\<rparr>"

lemma demo_con_inv: "con_inv demo_con" "display_term demo_con = 0"
  and demo_con_empty: "i < 3 \<Longrightarrow> pending i demo_con = []"
  using term_init_con_inv by (simp_all add: demo_con_def demo_terminal_def)

lemma video_mapped_init:
  "video_mapped 0 (init_pages (paging_boot d p v))"
proof -
  have "i \<in> {0, 1, 2}" if "i < 3" for i :: nat using that by auto
  then show ?thesis
    by (auto simp: video_mapped_def base_frame term_vid_addr_def init_pages_def paging_boot_def Let_def
        page_map_4kb_def upd_page_dir_def map_video_page_def upd_page_table_def load_page_def page_consts)
qed

definition demo_pages :: paging where
  "demo_pages = init_pages (paging_boot 0x400000 0x401000 0x402000)"

lemma demo_pages_ok: "pg_inv demo_pages" "video_mapped 0 demo_pages"
  using pg_inv_init [of "0x401000" "0x402000"] by (simp_all add: demo_pages_def video_mapped_init)

definition demo_waiting :: console where
  "demo_waiting = terminal_read_begin 0 demo_con"

lemma demo_waiting_ok:
  "con_inv demo_waiting" "display_term demo_waiting = 0" "readWaiting demo_waiting 0"
  "pending i demo_waiting = pending i demo_con"
proof -
  have r: "demo_waiting = demo_con\<lparr>readWaiting := (readWaiting demo_con)(0 := True)\<rparr>"
    using length_pending [OF demo_con_inv(1), of 0] demo_con_empty [of 0]
    by (simp add: demo_waiting_def terminal_read_begin_def)
  show "con_inv demo_waiting" using demo_con_inv(1) unfolding r con_inv_def by simp
  show "display_term demo_waiting = 0" "readWaiting demo_waiting 0"
    "pending i demo_waiting = pending i demo_con"
    by (simp_all add: r demo_con_inv pending_def)
qed

section \<open>Properties\<close>

text \<open>
  C26: Printing refines the abstract screen: whatever sequence of characters is printed to
  whichever terminals, each terminal's screen shows its own characters in order, with
  wrap-around at 80 columns, scrolling at 25 rows and carriage returns and null bytes
  ignored, and nothing of the others' output.
\<close>

theorem putc_refines_screen:
  assumes "con_inv s" and "list_all (\<lambda>(i, c). i < 3) ops" and "j < 3"
  shows "view j (fold (\<lambda>(i, c). term_putc c i) ops s) =
      fold scr_putc (map snd (filter (\<lambda>(i, c). i = j) ops)) (view j s)"
  using scr.interleaved [OF assms(1), of ops j] assms(2,3) by (auto simp: list_all_iff)

theorem putc_refines_screen_witness:
  "view 1 (fold (\<lambda>(i, c). term_putc c i) [(1, 72), (0, 65), (1, 105)] demo_con) =
     fold scr_putc [72, 105] (view 1 demo_con)"
  using putc_refines_screen [OF demo_con_inv(1), of "[(1, 72), (0, 65), (1, 105)]" 1] by simp

text \<open>
  C27: Switching terminals shows the chosen one and keeps the contents, cursor and keyboard
  buffer of every terminal, and each terminal's user video page is remapped to the memory
  that its screen now lives in.
\<close>

theorem show_terminal_keeps_screens:
  assumes "con_inv s" and "pg_inv pg" and "video_mapped (display_term s) pg" and "term < 3"
  shows "\<exists>s' pg'. show_terminal term (s, pg) = (0, s', pg') \<and> display_term s' = term \<and>
    con_inv s' \<and> pg_inv pg' \<and> video_mapped term pg' \<and>
    (\<forall>i<3. view i s' = view i s \<and> pending i s' = pending i s)"
proof -
  obtain r s' pg' where e: "show_terminal term (s, pg) = (r, s', pg')" by (metis prod_cases3)
  have "r = 0 \<and> display_term s' = term \<and> (\<forall>i. pending i s' = pending i s)"
  proof (cases "term = display_term s")
    case True
    then show ?thesis using e assms(4) by (simp add: show_terminal_noop)
  next
    case False
    show ?thesis
      by (rule show_terminal_switch [OF assms(4) False, of pg]) (use e in \<open>auto simp: pending_def\<close>)
  qed
  then show ?thesis
    by (intro exI [of _ s'] exI [of _ pg'] conjI)
      (use e show_terminal_con_inv [OF assms(1) e] show_terminal_view [OF assms(1) e]
        show_terminal_mapped [OF assms(1-3) e] in simp_all)
qed

theorem show_terminal_keeps_screens_witness:
  "\<exists>s' pg'. show_terminal 2 (demo_con, demo_pages) = (0, s', pg') \<and> view 0 s' = view 0 demo_con \<and>
     video_mapped 2 pg'"
  using show_terminal_keeps_screens [OF demo_con_inv(1) demo_pages_ok(1), of 2] demo_pages_ok(2)
  by (fastforce simp: demo_con_inv)

text \<open>
  A line typed on the displayed terminal and ended with Enter, while a \<^verbatim>\<open>terminal_read\<close>
  of that terminal waits, wakes the reader, which returns exactly the typed characters and
  the newline and leaves the buffer empty; the characters are echoed on that screen.
\<close>

lemma typed_line_is_read:
  fixes s :: console and cs :: "u8 list"
  defines "d \<equiv> display_term s" and "s1 \<equiv> fold (\<lambda>c s. snd (term_keyboardChar c s)) cs s"
  assumes "con_inv s" and "pending d s = []" and "readWaiting s d" and "length cs \<le> 127"
    and "length cs < unat count"
  shows "\<exists>s2 s3. term_keyboardEnter s1 = Some s2 \<and> \<not> readWaiting s2 d \<and>
    terminal_read_finish d count s2 = (int (length cs + 1), cs @ [10], s3) \<and>
    pending d s3 = [] \<and> view d s3 = fold scr_putc (cs @ [10]) (view d s)"
proof -
  have T: "con_inv s1" "display_term s1 = d" "readWaiting s1 = readWaiting s" "pending d s1 = cs"
    "view d s1 = fold scr_putc cs (view d s)"
    using type_line [OF assms(3), of cs] assms(4,6) by (simp_all add: d_def s1_def)
  obtain s2 where s2: "term_keyboardEnter s1 = Some s2" "con_inv s2"
    "readWaiting s2 = (readWaiting s1)(d := False)" "pending d s2 = cs @ [10]"
    "view d s2 = scr_putc 10 (view d s1)"
    using term_keyboardEnter_room [OF T(1)] T assms(5,6) by auto
  have "d < 3" using con_invD(1) [OF assms(3)] by (simp add: d_def)
  from terminal_read_finish_eq [OF s2(2) this, of count] obtain s3 where
    "terminal_read_finish d count s2 = (int (length (take (unat count) (pending d s2))),
      take (unat count) (pending d s2), s3)"
    "pending d s3 = (if length (pending d s2) \<le> unat count then [] else pending d s2)"
    "\<And>j. view j s3 = view j s2"
    by metis
  then show ?thesis using s2 T(5) assms(7) by simp
qed

lemma typed_line_is_read_witness:
  "\<exists>s2 s3. term_keyboardEnter (fold (\<lambda>c s. snd (term_keyboardChar c s)) [108, 115] demo_waiting) =
       Some s2 \<and> terminal_read_finish 0 1024 s2 = (3, [108, 115, 10], s3)"
  using typed_line_is_read [OF demo_waiting_ok(1), of "[108, 115]" 1024] demo_con_empty [of 0]
  by (simp add: demo_waiting_ok) blast

end
