(* ===== verification/Pic.thy ===== *)
theory Pic
  imports Prelude
begin

text \<open>
  The 8259 interrupt controller driver (\<^verbatim>\<open>student-distrib/i8259.c\<close>) and the
  timer driver that unmasks its line (\<^verbatim>\<open>drivers/pit.c\<close>). The state is the
  two cached mask bytes and the log of the bytes written to the controller's ports,
  oldest first.
\<close>

section \<open>State and constants\<close>

definition MASTER_8259_PORT :: u16 where "MASTER_8259_PORT = 0x20"
definition SLAVE_8259_PORT :: u16 where "SLAVE_8259_PORT = 0xA0"
definition ICW1 :: u8 where "ICW1 = 0x11"
definition ICW2_MASTER :: u8 where "ICW2_MASTER = 0x20"
definition ICW2_SLAVE :: u8 where "ICW2_SLAVE = 0x28"
definition ICW3_MASTER :: u8 where "ICW3_MASTER = 0x04"
definition ICW3_SLAVE :: u8 where "ICW3_SLAVE = 0x02"
definition ICW4 :: u8 where "ICW4 = 0x01"
definition EOI :: u8 where "EOI = 0x60"
definition MIDDLE :: u32 where "MIDDLE = 0x08"

lemmas pic_consts = MASTER_8259_PORT_def SLAVE_8259_PORT_def ICW1_def ICW2_MASTER_def
  ICW2_SLAVE_def ICW3_MASTER_def ICW3_SLAVE_def ICW4_def EOI_def MIDDLE_def

record pic =
  master_mask :: u8
  slave_mask :: u8
  pic_out :: "port_write list"

definition pic_outb :: "u8 \<Rightarrow> u16 \<Rightarrow> pic \<Rightarrow> pic" where
  "pic_outb d p s = s\<lparr>pic_out := pic_out s @ [(p, d)]\<rparr>"

section \<open>Operations\<close>

definition i8259_init :: "pic \<Rightarrow> pic" where
  "i8259_init s0 =
     (let s = s0\<lparr>master_mask := 0xFF, slave_mask := 0xFF\<rparr>;
          s = pic_outb 0xFF (MASTER_8259_PORT + 1) s;
          s = pic_outb 0xFF (SLAVE_8259_PORT + 1) s;
          s = pic_outb ICW1 MASTER_8259_PORT s;
          s = pic_outb ICW1 SLAVE_8259_PORT s;
          s = pic_outb ICW2_MASTER (MASTER_8259_PORT + 1) s;
          s = pic_outb ICW2_SLAVE (SLAVE_8259_PORT + 1) s;
          s = pic_outb ICW3_MASTER (MASTER_8259_PORT + 1) s;
          s = pic_outb ICW3_SLAVE (SLAVE_8259_PORT + 1) s;
          s = pic_outb ICW4 (MASTER_8259_PORT + 1) s;
          s = pic_outb ICW4 (SLAVE_8259_PORT + 1) s;
          s = pic_outb (master_mask s) (MASTER_8259_PORT + 1) s;
          s = pic_outb (slave_mask s) (SLAVE_8259_PORT + 1) s
      in s)"

text \<open>
  \<^verbatim>\<open>1 << n\<close> on a 32-bit \<^verbatim>\<open>int\<close>: the x86 shift uses the low five bits of the count.
  The masks are bytes, so the compound assignments keep the low eight bits.
\<close>

definition shl1 :: "u32 \<Rightarrow> u32" where
  "shl1 n = push_bit (unat (n AND 31)) 1"

definition enable_irq :: "u32 \<Rightarrow> pic \<Rightarrow> pic" where
  "enable_irq irq s =
     (if irq \<ge> MIDDLE then
        let m = slave_mask s AND ucast (NOT (shl1 (irq - MIDDLE)))
        in pic_outb m (SLAVE_8259_PORT + 1) (s\<lparr>slave_mask := m\<rparr>)
      else
        let m = master_mask s AND ucast (NOT (shl1 irq))
        in pic_outb m (MASTER_8259_PORT + 1) (s\<lparr>master_mask := m\<rparr>))"

definition disable_irq :: "u32 \<Rightarrow> pic \<Rightarrow> pic" where
  "disable_irq irq s =
     (let mask = shl1 irq in
      if irq \<ge> MIDDLE then
        let mask = shl1 (irq - MIDDLE);
            m = slave_mask s OR ucast mask
        in pic_outb m (SLAVE_8259_PORT + 1) (s\<lparr>slave_mask := m\<rparr>)
      else
        let m = master_mask s OR ucast mask
        in pic_outb m (MASTER_8259_PORT + 1) (s\<lparr>master_mask := m\<rparr>))"

definition send_eoi :: "u32 \<Rightarrow> pic \<Rightarrow> pic" where
  "send_eoi irq s =
     (if irq \<ge> 8 then
        let s = pic_outb (EOI OR ucast (irq - MIDDLE)) SLAVE_8259_PORT s
        in pic_outb (EOI OR ICW3_SLAVE) MASTER_8259_PORT s
      else pic_outb (EOI OR ucast irq) MASTER_8259_PORT s)"

text \<open>\<^verbatim>\<open>pit_init\<close>: the divisor is written low byte first; dividing by a zero
  frequency faults.\<close>

definition PIT_BASE :: u32 where "PIT_BASE = 1193180"
definition PIT_COMMAND :: u16 where "PIT_COMMAND = 0x43"
definition PIT_COMMAND_BYTE :: u8 where "PIT_COMMAND_BYTE = 0x36"
definition PIT_DATA_CHANNEL_0 :: u16 where "PIT_DATA_CHANNEL_0 = 0x40"
definition PIT_IRQ :: u32 where "PIT_IRQ = 0"

definition pit_init :: "u32 \<Rightarrow> pic \<Rightarrow> pic option" where
  "pit_init frequency s =
     (if frequency = 0 then None
      else let divisor = PIT_BASE div frequency;
               s = pic_outb PIT_COMMAND_BYTE PIT_COMMAND s;
               s = pic_outb (ucast (divisor AND 0xFF)) PIT_DATA_CHANNEL_0 s;
               s = pic_outb (ucast (drop_bit 8 divisor AND 0xFF)) PIT_DATA_CHANNEL_0 s
           in Some (enable_irq PIT_IRQ s))"

section \<open>What the masks mean\<close>

text \<open>The 16 lines as the hardware sees them: line \<open>n\<close> is enabled when its mask bit is 0.\<close>

definition irq_enabled :: "pic \<Rightarrow> nat \<Rightarrow> bool" where
  "irq_enabled s n = (if n < 8 then \<not> bit (master_mask s) n else \<not> bit (slave_mask s) (n - 8))"

lemma pic_outb_simps [simp]:
  "master_mask (pic_outb d p s) = master_mask s"
  "slave_mask (pic_outb d p s) = slave_mask s"
  "pic_out (pic_outb d p s) = pic_out s @ [(p, d)]"
  by (simp_all add: pic_outb_def)

lemma unat_and_31: "n < 32 \<Longrightarrow> unat (of_nat n AND 31 :: u32) = n"
proof -
  assume "n < 32"
  have "(31 :: u32) = mask 5" by (simp add: mask_eq_exp_minus_1)
  then have "(of_nat n AND 31 :: u32) = take_bit 5 (of_nat n)"
    by (simp only: take_bit_eq_mask)
  with \<open>n < 32\<close> show ?thesis
    by (simp add: take_bit_eq_mod unat_mod)
qed

lemma bit_shl1: "n < 32 \<Longrightarrow> k < 32 \<Longrightarrow> bit (shl1 (of_nat n)) k \<longleftrightarrow> k = n"
  by (simp add: shl1_def unat_and_31 bit_exp_iff)

lemma bit_shl1_slave:
  "8 \<le> n \<Longrightarrow> n < 16 \<Longrightarrow> k < 32 \<Longrightarrow> bit (shl1 (of_nat n - MIDDLE)) k \<longleftrightarrow> k = n - 8"
  using bit_shl1 [of "n - 8" k] by (simp add: MIDDLE_def)

lemma of_nat_ge_MIDDLE: "n < 16 \<Longrightarrow> MIDDLE \<le> of_nat n \<longleftrightarrow> 8 \<le> n"
  by (simp add: MIDDLE_def word_le_nat_alt unat_of_nat take_bit_eq_mod)

lemma irq_enabled_enable:
  assumes "n < 16" and "k < 16"
  shows "irq_enabled (enable_irq (of_nat n) s) k \<longleftrightarrow> k = n \<or> irq_enabled s k"
  using assms
  by (auto simp: enable_irq_def irq_enabled_def of_nat_ge_MIDDLE Let_def
      bit_and_iff bit_not_iff bit_ucast_iff bit_shl1 bit_shl1_slave)

lemma irq_enabled_disable:
  assumes "n < 16" and "k < 16"
  shows "irq_enabled (disable_irq (of_nat n) s) k \<longleftrightarrow> k \<noteq> n \<and> irq_enabled s k"
  using assms
  by (auto simp: disable_irq_def irq_enabled_def of_nat_ge_MIDDLE Let_def
      bit_or_iff bit_ucast_iff bit_shl1 bit_shl1_slave)

lemma irq_enabled_eoi [simp]: "irq_enabled (send_eoi n s) = irq_enabled s"
  by (auto simp: send_eoi_def irq_enabled_def Let_def fun_eq_iff)

lemma irq_enabled_init: "k < 16 \<Longrightarrow> \<not> irq_enabled (i8259_init s) k"
proof -
  have "bit (0xFF :: u8) j" if "j < 8" for j
  proof -
    have "(0xFF :: u8) = mask 8" by (simp add: mask_eq_exp_minus_1)
    then show ?thesis using that by (simp only: bit_mask_iff) simp
  qed
  moreover assume "k < 16"
  ultimately show ?thesis by (auto simp: i8259_init_def irq_enabled_def Let_def)
qed

section \<open>Properties\<close>

text \<open>The operations the drivers use, and the last byte written to a port.\<close>

datatype pic_op = Enable nat | Disable nat | Eoi nat

fun pic_op_line :: "pic_op \<Rightarrow> nat" where
  "pic_op_line (Enable n) = n" | "pic_op_line (Disable n) = n" | "pic_op_line (Eoi n) = n"

fun pic_step :: "pic_op \<Rightarrow> pic \<Rightarrow> pic" where
  "pic_step (Enable n) = enable_irq (of_nat n)"
| "pic_step (Disable n) = disable_irq (of_nat n)"
| "pic_step (Eoi n) = send_eoi (of_nat n)"

fun line_on :: "nat \<Rightarrow> pic_op \<Rightarrow> bool \<Rightarrow> bool" where
  "line_on k (Enable n) on = (on \<or> k = n)"
| "line_on k (Disable n) on = (on \<and> k \<noteq> n)"
| "line_on k (Eoi n) on = on"

definition last_write :: "u16 \<Rightarrow> pic \<Rightarrow> u8 option" where
  "last_write p s = map_of (rev (pic_out s)) p"

definition masks_written :: "pic \<Rightarrow> bool" where
  "masks_written s \<longleftrightarrow> last_write (MASTER_8259_PORT + 1) s = Some (master_mask s) \<and>
     last_write (SLAVE_8259_PORT + 1) s = Some (slave_mask s)"

lemma last_write_outb [simp]:
  "last_write p (pic_outb d q s) = (if p = q then Some d else last_write p s)"
  "last_write p (s\<lparr>master_mask := m\<rparr>) = last_write p s"
  "last_write p (s\<lparr>slave_mask := m\<rparr>) = last_write p s"
  by (simp_all add: last_write_def)

lemma masks_written_init: "masks_written (i8259_init s)"
  by (simp add: masks_written_def i8259_init_def Let_def pic_consts)

lemma masks_written_step: "masks_written s \<Longrightarrow> masks_written (pic_step x s)"
  by (cases x)
    (simp_all add: masks_written_def enable_irq_def disable_irq_def send_eoi_def Let_def pic_consts)

lemma irq_enabled_step:
  assumes "pic_op_line x < 16" and "k < 16"
  shows "irq_enabled (pic_step x s) k = line_on k x (irq_enabled s k)"
  using assms by (cases x) (auto simp: irq_enabled_enable irq_enabled_disable)

text \<open>
  C35: The interrupt masks: after the initialisation and any sequence of enabling, disabling and
  acknowledging the 16 lines, exactly the lines whose last change was to enable them are
  enabled, and the masks in the two controllers are the cached ones.
\<close>

theorem irq_masks_follow_drivers:
  assumes "list_all (\<lambda>x. pic_op_line x < 16) ops" and "k < 16"
  shows "irq_enabled (fold pic_step ops (i8259_init s)) k = fold (line_on k) ops False \<and>
    masks_written (fold pic_step ops (i8259_init s))"
proof -
  have "irq_enabled (fold pic_step ops s) k = fold (line_on k) ops (irq_enabled s k) \<and>
      (masks_written s \<longrightarrow> masks_written (fold pic_step ops s))" for s
    using assms by (induction ops arbitrary: s) (auto simp: irq_enabled_step masks_written_step)
  then show ?thesis using irq_enabled_init [OF assms(2), of s] masks_written_init by simp
qed

theorem irq_masks_follow_drivers_witness:
  "irq_enabled (fold pic_step [Enable 1, Enable 8, Enable 2, Eoi 8, Disable 1]
     (i8259_init \<lparr>master_mask = 0, slave_mask = 0, pic_out = []\<rparr>)) 8"
  using irq_masks_follow_drivers [of "[Enable 1, Enable 8, Enable 2, Eoi 8, Disable 1]" 8
      "\<lparr>master_mask = 0, slave_mask = 0, pic_out = []\<rparr>"]
  by simp

end
