(* ===== verification/Keyboard.thy ===== *)
theory Keyboard
  imports Screen Pic
begin

text \<open>
  The keyboard driver (\<^verbatim>\<open>student-distrib/drivers/keyboard.c\<close>): the modifier state, the
  scan code table and the interrupt handler, which drives the displayed terminal. The byte
  that \<^verbatim>\<open>inb(KB_DATA)\<close> returns is the argument of \<open>keyboard_int\<close>.
\<close>

section \<open>State and tables\<close>

definition KB_IRQ :: u32 where "KB_IRQ = 1"
definition TAB :: u8 where "TAB = 0x0F"
definition CAPS_LOCK :: u8 where "CAPS_LOCK = 0x3A"
definition SHIFT_L_P :: u8 where "SHIFT_L_P = 0x2A"
definition SHIFT_L_R :: u8 where "SHIFT_L_R = 0xAA"
definition SHIFT_R_P :: u8 where "SHIFT_R_P = 0x36"
definition SHIFT_R_R :: u8 where "SHIFT_R_R = 0xB6"
definition CTRL_P :: u8 where "CTRL_P = 0x1D"
definition CTRL_R :: u8 where "CTRL_R = 0x9D"
definition BACK_SPACE :: u8 where "BACK_SPACE = 0x0E"
definition ENTER :: u8 where "ENTER = 0x1C"
definition ALT_P :: u8 where "ALT_P = 0x38"
definition ALT_R :: u8 where "ALT_R = 0xB8"
definition CHAR_L :: u8 where "CHAR_L = 0x26"
definition F1 :: u8 where "F1 = 0x3B"
definition F2 :: u8 where "F2 = 0x3C"
definition F3 :: u8 where "F3 = 0x3D"

lemmas kb_consts = KB_IRQ_def TAB_def CAPS_LOCK_def SHIFT_L_P_def SHIFT_L_R_def SHIFT_R_P_def
  SHIFT_R_R_def CTRL_P_def CTRL_R_def BACK_SPACE_def ENTER_def ALT_P_def ALT_R_def CHAR_L_def
  F1_def F2_def F3_def

text \<open>\<^verbatim>\<open>Pressed\<close> is \<^term>\<open>True\<close>.\<close>

record kbd =
  caps :: bool
  ctrl :: bool
  alt :: bool
  shiftL :: bool
  shiftR :: bool
  key_stat :: nat

definition kbd_boot :: kbd where
  "kbd_boot = \<lparr>caps = False, ctrl = False, alt = False, shiftL = False, shiftR = False,
     key_stat = 0\<rparr>"

text \<open>
  Rows: plain, caps lock, shift, both. An initialiser lists 59 characters; the last of the 60
  columns is zero. 34, 39 and 92 are the double quote, the quote and the backslash.
\<close>

definition kb_map :: "u8 list list" where
  "kb_map =
    [[0, 0] @ asc ''1234567890-='' @ [0, 0] @ asc ''qwertyuiop[]'' @ [0, 0] @ asc ''asdfghjkl;''
       @ [39] @ asc ''`'' @ [0, 92] @ asc ''zxcvbnm,./'' @ [0] @ asc ''*'' @ [0] @ asc '' '' @ [0, 0],
     [0, 0] @ asc ''1234567890-='' @ [0, 0] @ asc ''QWERTYUIOP[]'' @ [0, 0] @ asc ''ASDFGHJKL;''
       @ [39] @ asc ''`'' @ [0, 92] @ asc ''ZXCVBNM,./'' @ [0] @ asc ''*'' @ [0] @ asc '' '' @ [0, 0],
     [0, 0] @ asc ''!@#$%^&*()_+'' @ [0, 0] @ asc ''QWERTYUIOP{}'' @ [0, 0] @ asc ''ASDFGHJKL:''
       @ [34] @ asc ''~'' @ [0] @ asc ''|ZXCVBNM<>?'' @ [0] @ asc ''*'' @ [0] @ asc '' '' @ [0, 0],
     [0, 0] @ asc ''!@#$%^&*()_+'' @ [0, 0] @ asc ''qwertyuiop{}'' @ [0, 0] @ asc ''asdfghjkl:''
       @ [34] @ asc ''~'' @ [0, 92] @ asc ''zxcvbnm<>?'' @ [0] @ asc ''*'' @ [0] @ asc '' '' @ [0, 0]]"

definition get_char_map :: "u8 \<Rightarrow> kbd \<Rightarrow> u8" where
  "get_char_map sc k = (if unat sc \<ge> 60 then 0 else kb_map ! key_stat k ! unat sc)"

section \<open>The interrupt handler\<close>

text \<open>The modifier keys, with \<^verbatim>\<open>updateKeyStateFlag\<close>.\<close>

definition update_key_state :: "u8 \<Rightarrow> kbd \<Rightarrow> kbd \<times> bool" where
  "update_key_state sc k =
     (if sc = CAPS_LOCK then (k\<lparr>caps := \<not> caps k\<rparr>, True)
      else if sc = ALT_P then (k\<lparr>alt := True\<rparr>, True)
      else if sc = ALT_R then (k\<lparr>alt := False\<rparr>, True)
      else if sc = CTRL_P then (k\<lparr>ctrl := True\<rparr>, True)
      else if sc = CTRL_R then (k\<lparr>ctrl := False\<rparr>, True)
      else if sc = SHIFT_L_P then (k\<lparr>shiftL := True\<rparr>, True)
      else if sc = SHIFT_L_R then (k\<lparr>shiftL := False\<rparr>, True)
      else if sc = SHIFT_R_P then (k\<lparr>shiftR := True\<rparr>, True)
      else if sc = SHIFT_R_R then (k\<lparr>shiftR := False\<rparr>, True)
      else (k, False))"

definition update_key_stat :: "kbd \<Rightarrow> kbd" where
  "update_key_stat k =
     (let k = k\<lparr>key_stat := 0\<rparr>;
          k = (if shiftR k \<or> shiftL k then k\<lparr>key_stat := key_stat k OR 2\<rparr> else k)
      in if caps k then k\<lparr>key_stat := key_stat k OR 1\<rparr> else k)"

text \<open>The end of the handler: print the key's character, acknowledge, enable interrupts.\<close>

type_synonym kb_sys = "kbd \<times> console \<times> paging \<times> pic"

definition key_char :: "u8 \<Rightarrow> kb_sys \<Rightarrow> kb_sys" where
  "key_char sc = (\<lambda>(k, s, pg, pc).
     let pressedChar = get_char_map sc k;
         s = (if pressedChar \<noteq> 0 then snd (term_keyboardChar pressedChar s) else s)
     in (k, sti s, pg, send_eoi KB_IRQ pc))"

definition switch_to :: "nat \<Rightarrow> kb_sys \<Rightarrow> kb_sys" where
  "switch_to term = (\<lambda>(k, s, pg, pc).
     let (r, s, pg) = show_terminal term (s, pg) in (k, sti s, pg, send_eoi KB_IRQ pc))"

definition tab_func :: "console \<Rightarrow> console" where
  [simp]: "tab_func = term_keyboardTab"
definition enter_func :: "console \<Rightarrow> console option" where
  [simp]: "enter_func = term_keyboardEnter"
definition backsp_func :: "console \<Rightarrow> console" where
  [simp]: "backsp_func = term_keyboardBackspace"

definition keyboard_int :: "u8 \<Rightarrow> kb_sys \<Rightarrow> kb_sys option" where
  "keyboard_int sc = (\<lambda>(k, s, pg, pc).
     let s = cli s; (k, updateKeyStateFlag) = update_key_state sc k in
     if updateKeyStateFlag then Some (update_key_stat k, sti s, pg, send_eoi KB_IRQ pc)
     else if sc = TAB then Some (key_char sc (k, tab_func s, pg, pc))
     else if sc = ENTER then
       (case enter_func s of None \<Rightarrow> None | Some s \<Rightarrow> Some (key_char sc (k, s, pg, pc)))
     else if sc = BACK_SPACE then Some (key_char sc (k, backsp_func s, pg, pc))
     else if sc = F1 \<and> alt k then Some (switch_to 0 (k, s, pg, pc))
     else if sc = F2 \<and> alt k then Some (switch_to 1 (k, s, pg, pc))
     else if sc = F3 \<and> alt k then Some (switch_to 2 (k, s, pg, pc))
     else if sc = CHAR_L \<and> ctrl k then
       let s = term_clear (display_term s) s; s = term_showbuf (display_term s) s
       in Some (k, sti s, pg, send_eoi KB_IRQ pc)
     else Some (key_char sc (k, s, pg, pc)))"

definition keyboard_init :: "pic \<Rightarrow> pic" where
  "keyboard_init = enable_irq KB_IRQ"

section \<open>The modifier state\<close>

definition kbd_inv :: "kbd \<Rightarrow> bool" where
  "kbd_inv k \<longleftrightarrow> key_stat k = (if shiftL k \<or> shiftR k then 2 else 0) + (if caps k then 1 else 0)"

lemma kbd_inv_boot: "kbd_inv kbd_boot" by (simp add: kbd_inv_def kbd_boot_def)

lemma update_key_stat_inv: "kbd_inv (update_key_stat k)"
proof -
  have "(2 :: nat) OR 1 = 3" by code_simp
  then show ?thesis by (auto simp: kbd_inv_def update_key_stat_def Let_def)
qed

lemma update_key_state_unchanged: "update_key_state sc k = (k', False) \<Longrightarrow> k' = k"
  by (auto simp: update_key_state_def split: if_splits)

lemma key_stat_less: "kbd_inv k \<Longrightarrow> key_stat k < 4"
  by (auto simp: kbd_inv_def split: if_splits)

lemma length_kb_map: "length kb_map = 4" "i < 4 \<Longrightarrow> length (kb_map ! i) = 60"
proof -
  show "length kb_map = 4" by (simp add: kb_map_def)
  assume "i < 4"
  then have "i = 0 \<or> i = 1 \<or> i = 2 \<or> i = 3" by auto
  then show "length (kb_map ! i) = 60" by (auto simp: kb_map_def)
qed

section \<open>The handler\<close>

lemma term_showbuf_eq:
  assumes "con_inv s"
  shows "term_showbuf i s = fold (\<lambda>c. term_putc c i) (pending (display_term s) s) s"
proof -
  let ?t = "terminals s (display_term s)"
  have "nat (kb_pos ?t) \<le> length (kb_buf ?t)"
    using con_invD(4) [OF assms con_invD(1) [OF assms]] by (auto simp: term_ok_def term_consts)
  then have "pending (display_term s) s = map ((!) (kb_buf ?t)) [0..<nat (kb_pos ?t)]"
    by (simp add: pending_def list_eq_iff_nth_eq)
  then show ?thesis by (simp add: term_showbuf_def Let_def fold_map comp_def)
qed

text \<open>What typing leaves as it was: everything but the displayed terminal's line and screen.\<close>

definition typed_ok :: "console \<Rightarrow> console \<Rightarrow> bool" where
  "typed_ok s s' \<longleftrightarrow> con_inv s' \<and> display_term s' = display_term s \<and>
     (\<forall>j<3. j \<noteq> display_term s \<longrightarrow> pending j s' = pending j s \<and> view j s' = view j s)"

lemma typed_okI: "con_inv s \<Longrightarrow> typed_ok s s"
  by (simp add: typed_ok_def)

lemma typed_ok_trans: "typed_ok s s' \<Longrightarrow> typed_ok s' s'' \<Longrightarrow> typed_ok s s''"
  by (simp add: typed_ok_def)

lemma typed_ok_cli [simp]: "typed_ok (cli s) s' = typed_ok s s'" "typed_ok s (sti s') = typed_ok s s'"
  "con_inv (cli s) = con_inv s" "con_inv (sti s) = con_inv s"
  "pending i (cli s) = pending i s" "pending i (sti s) = pending i s"
  "view i (cli s) = view i s" "view i (sti s) = view i s"
  by (simp_all add: typed_ok_def con_inv_def pending_def view_def)

lemma typed_ok_char: "con_inv s \<Longrightarrow> typed_ok s (snd (term_keyboardChar c s))"
proof (cases "length (pending (display_term s) s) < 127")
  case False
  assume "con_inv s"
  with False show ?thesis by (simp add: term_keyboardChar_full typed_okI)
next
  case True
  assume s: "con_inv s"
  obtain r s' where "term_keyboardChar c s = (r, s')" by fastforce
  with term_keyboardChar_room [OF s True this] show ?thesis by (simp add: typed_ok_def)
qed

lemma typed_ok_chars:
  "con_inv s \<Longrightarrow> typed_ok s (fold (\<lambda>c s. snd (term_keyboardChar c s)) cs s)"
proof (induction cs arbitrary: s)
  case (Cons c cs)
  let ?s = "snd (term_keyboardChar c s)"
  have t: "typed_ok s ?s" using Cons.prems by (rule typed_ok_char)
  then have "con_inv ?s" by (simp add: typed_ok_def)
  then show ?case using typed_ok_trans [OF t Cons.IH] by simp
qed (simp add: typed_okI)

lemma typed_ok_backspace: "con_inv s \<Longrightarrow> typed_ok s (term_keyboardBackspace s)"
proof (cases "pending (display_term s) s = [] \<or>
    (cur_x (terminals s (display_term s)) = 0 \<and> cur_y (terminals s (display_term s)) = 0)")
  case True
  assume "con_inv s"
  with term_keyboardBackspace_noop [OF this True] show ?thesis by (simp add: typed_okI)
next
  case False
  assume s: "con_inv s"
  from False have "pending (display_term s) s \<noteq> []"
    "\<not> (cur_x (terminals s (display_term s)) = 0 \<and> cur_y (terminals s (display_term s)) = 0)" by auto
  from term_keyboardBackspace_eq [OF s this] show ?thesis by (simp add: typed_ok_def)
qed

lemma typed_ok_clear:
  assumes "con_inv s"
  defines "d \<equiv> display_term s" and "s1 \<equiv> term_clear (display_term s) s"
  shows "typed_ok s (term_showbuf d s1)"
    and "view d (term_showbuf d s1) = fold scr_putc (pending d s) blank_screen"
    and "pending d (term_showbuf d s1) = pending d s"
proof -
  have d: "d < 3" using con_invD(1) [OF assms(1)] by (simp add: d_def)
  note C = term_clear_eq [OF assms(1) d, folded s1_def]
  have C': "con_inv s1" "view d s1 = blank_screen" "display_term s1 = d" "\<And>j. pending j s1 = pending j s"
    "\<And>j. j < 3 \<Longrightarrow> j \<noteq> d \<Longrightarrow> view j s1 = view j s"
    using C by (auto simp: s1_def d_def)
  have sh: "term_showbuf d s1 = fold (\<lambda>c. term_putc c d) (pending d s) s1"
    using term_showbuf_eq [OF C'(1)] C' by simp
  have keep: "con_inv s' \<Longrightarrow> pending j (fold (\<lambda>c. term_putc c d) cs s') = pending j s' \<and>
      display_term (fold (\<lambda>c. term_putc c d) cs s') = display_term s'" for j cs s'
  proof (induction cs arbitrary: s')
    case (Cons c cs)
    then show ?case using con_inv_putc [OF Cons.prems d] term_putc_keeps [OF Cons.prems d] by simp
  qed simp
  show "view d (term_showbuf d s1) = fold scr_putc (pending d s) blank_screen"
    using scr.text_own [OF C'(1), of d] d C' by (simp add: sh)
  show "pending d (term_showbuf d s1) = pending d s"
    using keep [OF C'(1)] C' by (simp add: sh)
  show "typed_ok s (term_showbuf d s1)"
    using scr.text_good [OF C'(1), of d] scr.text_other [OF C'(1), of d] d C' keep [OF C'(1)]
    by (simp add: sh typed_ok_def d_def [symmetric])
qed

lemma key_char_eq:
  "key_char sc (k, s, pg, pc) = (k', s', pg', pc') \<longleftrightarrow> k' = k \<and> pg' = pg \<and> pc' = send_eoi KB_IRQ pc \<and>
     s' = sti (if get_char_map sc k = 0 then s else snd (term_keyboardChar (get_char_map sc k) s))"
  by (auto simp: key_char_def Let_def)

lemma typed_ok_key_char:
  assumes "typed_ok s s1" and "key_char sc (k, s1, pg, pc) = (k', s', pg', pc')"
  shows "typed_ok s s' \<and> iflag s' \<and> k' = k \<and> pg' = pg \<and> pc' = send_eoi KB_IRQ pc"
  using assms typed_ok_trans [OF assms(1) typed_ok_char]
  by (auto simp: key_char_eq typed_ok_def)

definition kb_ok :: "kb_sys \<Rightarrow> bool" where
  "kb_ok = (\<lambda>(k, s, pg, pc). kbd_inv k \<and> con_inv s \<and> pg_inv pg \<and> video_mapped (display_term s) pg)"

text \<open>
  What one interrupt may do: the invariants hold, interrupts are enabled again, the PIC got
  the one end-of-interrupt, and no other terminal's screen or line changed.
\<close>

definition kb_step_ok :: "kb_sys \<Rightarrow> kb_sys \<Rightarrow> bool" where
  "kb_step_ok = (\<lambda>(k, s, pg, pc) (k', s', pg', pc').
     kb_ok (k', s', pg', pc') \<and> iflag s' \<and> pc' = send_eoi KB_IRQ pc \<and>
     (\<forall>j<3. j \<noteq> display_term s \<longrightarrow> pending j s' = pending j s \<and> view j s' = view j s))"

lemma kb_step_typed:
  assumes "kb_ok (k, s, pg, pc)" and "typed_ok s s1"
  shows "kb_step_ok (k, s, pg, pc) (key_char sc (k, s1, pg, pc))"
proof -
  obtain k' s' pg' pc' where e: "key_char sc (k, s1, pg, pc) = (k', s', pg', pc')"
    by (metis prod_cases4)
  from typed_ok_key_char [OF assms(2) e] assms(1) show ?thesis
    by (auto simp: e kb_step_ok_def kb_ok_def typed_ok_def)
qed

lemma kb_step_switch:
  assumes "kb_ok (k, s, pg, pc)" and "term < 3"
  shows "kb_step_ok (k, s, pg, pc) (switch_to term (k, cli s, pg, pc))"
proof -
  obtain r s' pg' where e: "show_terminal term (cli s, pg) = (r, s', pg')" by (metis prod_cases3)
  have c: "con_inv (cli s)" "pg_inv pg" "video_mapped (display_term (cli s)) pg"
    using assms(1) by (simp_all add: kb_ok_def)
  have "pending j s' = pending j s" for j
  proof (cases "term = display_term (cli s)")
    case True
    then show ?thesis using e assms(2) by (auto simp: show_terminal_noop)
  next
    case False
    show ?thesis
      by (rule show_terminal_switch [OF assms(2) False, of pg]) (use e in \<open>auto simp: pending_def\<close>)
  qed
  then show ?thesis
    using assms(1) show_terminal_con_inv [OF c(1) e] show_terminal_mapped [OF c e]
      show_terminal_view [OF c(1) e]
    by (auto simp: kb_step_ok_def kb_ok_def switch_to_def e)
qed

lemma typed_ok_enter:
  assumes "con_inv s" and "length (pending (display_term s) s) < 128"
  shows "\<exists>s'. term_keyboardEnter s = Some s' \<and> typed_ok s s'"
  by (rule term_keyboardEnter_room [OF assms]) (auto simp: typed_ok_def)

lemma term_keyboardEnter_None:
  assumes "con_inv s"
  shows "term_keyboardEnter s = None \<longleftrightarrow> length (pending (display_term s) s) = 128"
  using length_pending [OF assms con_invD(1) [OF assms]]
    length_pending_le [OF assms con_invD(1) [OF assms]]
  by (auto simp: term_keyboardEnter_def KB_BUF_SIZE_def Let_def)

lemma kb_consts_distinct: "distinct [ENTER, TAB, BACK_SPACE, F1, F2, F3, CHAR_L]"
  by (simp add: kb_consts)

lemma not_enter_modifier: "\<not> snd (update_key_state ENTER k)"
  by (simp add: update_key_state_def kb_consts)

lemma keyboard_int_cases:
  assumes "kb_ok (k, s, pg, pc)"
  shows "case keyboard_int sc (k, s, pg, pc) of
      None \<Rightarrow> sc = ENTER \<and> length (pending (display_term s) s) = 128
    | Some st' \<Rightarrow> \<not> (sc = ENTER \<and> length (pending (display_term s) s) = 128) \<and>
        kb_step_ok (k, s, pg, pc) st'"
proof -
  have s: "con_inv (cli s)" and s0: "con_inv s" using assms by (simp_all add: kb_ok_def)
  obtain k' u where ku: "update_key_state sc k = (k', u)" by fastforce
  show ?thesis
  proof (cases u)
    case True
    have "\<not> sc = ENTER" using ku True not_enter_modifier [of k] by auto
    with True ku assms show ?thesis
      by (auto simp: keyboard_int_def kb_step_ok_def kb_ok_def update_key_stat_inv)
  next
    case False
    then have k': "update_key_state sc k = (k, False)" using ku update_key_state_unchanged by auto
    note T = kb_step_typed [OF assms]
    have tab: "typed_ok s (term_keyboardTab (cli s))"
      using typed_ok_chars [OF s] unfolding term_keyboardTab_eq [OF s] typed_ok_cli .
    have bs: "typed_ok s (term_keyboardBackspace (cli s))"
      using typed_ok_backspace [OF s] by simp
    have id: "typed_ok s (cli s)" using typed_okI [OF s] by simp
    note cl = typed_ok_clear(1) [OF s]
    have cl': "kb_step_ok (k, s, pg, pc) (k, sti (term_showbuf (display_term (term_clear (display_term s) (cli s)))
        (term_clear (display_term s) (cli s))), pg, send_eoi KB_IRQ pc)"
      using cl assms term_clear_eq(5) [OF s con_invD(1) [OF s]]
      by (auto simp: kb_step_ok_def kb_ok_def typed_ok_def)
    consider "sc = ENTER" | "sc \<noteq> ENTER" "sc = TAB" | "sc \<noteq> ENTER" "sc \<noteq> TAB" by blast
    then show ?thesis
    proof cases
      case 1
      have e: "keyboard_int sc (k, s, pg, pc) = (case term_keyboardEnter (cli s) of None \<Rightarrow> None
          | Some s1 \<Rightarrow> Some (key_char sc (k, s1, pg, pc)))"
        using 1 k' kb_consts_distinct by (simp add: keyboard_int_def Let_def split: option.split)
      show ?thesis
      proof (cases "term_keyboardEnter (cli s)")
        case None
        then show ?thesis using 1 e term_keyboardEnter_None [OF s] by simp
      next
        case (Some s1)
        then have l: "length (pending (display_term s) s) \<noteq> 128"
          using term_keyboardEnter_None [OF s] by simp
        then have "length (pending (display_term s) s) < 128"
          using length_pending_le [OF s con_invD(1) [OF s]] by simp
        then have "typed_ok s s1" using typed_ok_enter [OF s] Some by simp
        from T [OF this, of sc] Some l show ?thesis by (simp add: e)
      qed
    next
      case 2
      then show ?thesis using k' kb_consts_distinct tab T by (simp add: keyboard_int_def Let_def)
    next
      case 3
      then show ?thesis
        using k' kb_consts_distinct bs id cl' T kb_step_switch [OF assms]
        by (auto simp: keyboard_int_def Let_def)
    qed
  qed
qed

section \<open>Key sequences\<close>

lemma get_char_map_ENTER:
  assumes "kbd_inv k"
  shows "get_char_map ENTER k = 0"
proof -
  have "key_stat k \<in> {0, 1, 2, 3}" using key_stat_less [OF assms] by auto
  then show ?thesis by (auto simp: get_char_map_def ENTER_def kb_map_def)
qed

lemma enter_key_int:
  assumes "kbd_inv k" and "term_keyboardEnter (cli s) = Some s'"
  shows "keyboard_int ENTER (k, s, pg, pc) = Some (k, sti s', pg, send_eoi KB_IRQ pc)"
proof -
  have "update_key_state ENTER k = (k, False)" by (simp add: update_key_state_def kb_consts)
  then show ?thesis
    using assms kb_consts_distinct get_char_map_ENTER [OF assms(1)]
    by (simp add: keyboard_int_def key_char_def Let_def)
qed

text \<open>A key that types its character: not a modifier, not one of the handler's own keys.\<close>

definition plain_key :: "kbd \<Rightarrow> u8 \<Rightarrow> bool" where
  "plain_key k sc \<longleftrightarrow> \<not> snd (update_key_state sc k) \<and> sc \<notin> {TAB, ENTER, BACK_SPACE} \<and>
     \<not> (sc \<in> {F1, F2, F3} \<and> alt k) \<and> \<not> (sc = CHAR_L \<and> ctrl k) \<and> get_char_map sc k \<noteq> 0"

lemma plain_key_int:
  assumes "plain_key k sc"
  shows "keyboard_int sc (k, s, pg, pc) =
    Some (k, sti (snd (term_keyboardChar (get_char_map sc k) (cli s))), pg, send_eoi KB_IRQ pc)"
proof -
  have "update_key_state sc k = (k, False)"
    using assms update_key_state_unchanged [of sc k] by (cases "update_key_state sc k") (auto simp: plain_key_def)
  then show ?thesis
    using assms by (auto simp: plain_key_def keyboard_int_def key_char_def Let_def)
qed

lemma plain_keys_type:
  assumes "con_inv s" and "length (pending (display_term s) s) + length scs \<le> 127"
    and "\<forall>sc \<in> set scs. plain_key k sc"
  shows "\<exists>s' pc'. foldM keyboard_int scs (k, s, pg, pc) = Some (k, s', pg, pc') \<and> con_inv s' \<and>
    display_term s' = display_term s \<and> readWaiting s' = readWaiting s \<and>
    pending (display_term s) s' = pending (display_term s) s @ map (\<lambda>sc. get_char_map sc k) scs \<and>
    view (display_term s) s' =
      fold scr_putc (map (\<lambda>sc. get_char_map sc k) scs) (view (display_term s) s)"
  using assms
proof (induction scs arbitrary: s pc)
  case (Cons sc scs)
  let ?d = "display_term s" and ?c = "get_char_map sc k"
  obtain r s1 where e: "term_keyboardChar ?c (cli s) = (r, s1)" by fastforce
  have p: "con_inv (cli s)" "length (pending (display_term (cli s)) (cli s)) < 127"
    using Cons.prems by simp_all
  note R = term_keyboardChar_room [OF p e]
  have i: "keyboard_int sc (k, s, pg, pc) = Some (k, sti s1, pg, send_eoi KB_IRQ pc)"
    using plain_key_int [of k sc s pg pc] Cons.prems(3) e by simp
  have "con_inv (sti s1)" "length (pending (display_term (sti s1)) (sti s1)) + length scs \<le> 127"
    using R Cons.prems(2) by simp_all
  from Cons.IH [OF this] Cons.prems(3) show ?case
    using R i by simp
qed simp

text \<open>The other case of a letter.\<close>

definition toggle_case :: "u8 \<Rightarrow> u8" where
  "toggle_case c = (if (65 \<le> c \<and> c \<le> 90) \<or> (97 \<le> c \<and> c \<le> 122) then c XOR 0x20 else c)"

definition demo_pic :: pic where
  "demo_pic = \<lparr>master_mask = 0xFF, slave_mask = 0xFF, pic_out = []\<rparr>"

definition demo_kb :: kb_sys where
  "demo_kb = (kbd_boot, demo_con, demo_pages, demo_pic)"

lemma demo_kb_ok: "kb_ok demo_kb"
  by (simp add: kb_ok_def demo_kb_def kbd_inv_boot demo_con_inv demo_pages_ok)

section \<open>Properties\<close>

text \<open>
  C28: From a state with the invariants, every scan code is handled with the invariants kept,
  interrupts enabled, one end-of-interrupt for IRQ 1 sent, and the screens and lines of the
  terminals that are not displayed untouched; the one exception is Enter on a buffer that
  already holds 128 characters, where the store leaves the buffer.
\<close>

theorem keyboard_int_safe:
  assumes "kb_ok (k, s, pg, pc)"
  shows "case keyboard_int sc (k, s, pg, pc) of
      None \<Rightarrow> sc = ENTER \<and> length (pending (display_term s) s) = 128
    | Some st' \<Rightarrow> \<not> (sc = ENTER \<and> length (pending (display_term s) s) = 128) \<and>
        kb_step_ok (k, s, pg, pc) st'"
  using assms by (rule keyboard_int_cases)

theorem keyboard_int_safe_witness:
  "\<exists>st. keyboard_int CHAR_L demo_kb = Some st \<and> kb_step_ok demo_kb st"
proof -
  have "CHAR_L \<noteq> ENTER" by (simp add: kb_consts)
  then show ?thesis
    using keyboard_int_safe [of "fst demo_kb" "fst (snd demo_kb)" "fst (snd (snd demo_kb))"
        "snd (snd (snd demo_kb))" CHAR_L] demo_kb_ok
    by (auto split: option.splits)
qed



text \<open>
  Control-L on the displayed terminal gives a blank screen with the line being typed
  shown again from the top left corner, and keeps that line.
\<close>

lemma ctrl_l_redraws:
  assumes "kb_ok (k, s, pg, pc)" and "ctrl k"
  shows "\<exists>s'. keyboard_int CHAR_L (k, s, pg, pc) = Some (k, s', pg, send_eoi KB_IRQ pc) \<and>
    view (display_term s) s' = fold scr_putc (pending (display_term s) s) blank_screen \<and>
    pending (display_term s) s' = pending (display_term s) s"
proof -
  have s: "con_inv (cli s)" using assms(1) by (simp add: kb_ok_def)
  have d: "display_term (term_clear (display_term s) (cli s)) = display_term s"
    using term_clear_eq(5) [OF s con_invD(1) [OF s]] by simp
  have u: "update_key_state CHAR_L k = (k, False)" by (simp add: update_key_state_def kb_consts)
  have "keyboard_int CHAR_L (k, s, pg, pc) = Some (k, sti (term_showbuf (display_term s)
      (term_clear (display_term s) (cli s))), pg, send_eoi KB_IRQ pc)"
    using u d assms(2) by (simp add: keyboard_int_def Let_def kb_consts)
  then show ?thesis using typed_ok_clear(2,3) [OF s] by simp
qed

lemma ctrl_l_redraws_witness:
  "\<exists>s'. keyboard_int CHAR_L (kbd_boot\<lparr>ctrl := True\<rparr>, demo_con, demo_pages, demo_pic) =
     Some (kbd_boot\<lparr>ctrl := True\<rparr>, s', demo_pages, send_eoi KB_IRQ demo_pic) \<and> view 0 s' = blank_screen"
proof -
  have "kb_ok (kbd_boot\<lparr>ctrl := True\<rparr>, demo_con, demo_pages, demo_pic)"
    by (simp add: kb_ok_def kbd_inv_def kbd_boot_def demo_con_inv demo_pages_ok)
  from ctrl_l_redraws [OF this] show ?thesis
    using demo_con_empty [of 0] by (auto simp: demo_con_inv)
qed

text \<open>
  The scan code table: caps lock switches the case of exactly the letters, in the plain
  and in the shifted rows; the one entry that does not fit is scan code 43 under caps lock
  and shift, a backslash where shift alone gives a bar.
\<close>

lemma kb_map_caps:
  "map toggle_case (kb_map ! 0) = kb_map ! 1 \<and>
   map toggle_case (kb_map ! 2) = (kb_map ! 3)[43 := asc ''|'' ! 0] \<and>
   kb_map ! 3 ! 43 = 92"
  by (simp add: kb_map_def toggle_case_def)
end
