(* ===== verification/Rtc.thy ===== *)
theory Rtc
  imports Pic
begin

text \<open>
  The real-time clock driver (\<^verbatim>\<open>student-distrib/drivers/rtc.c\<close>): the interrupt flag, the
  cached frequency and the log of the bytes written to the clock's ports. What
  \<^verbatim>\<open>inb(CMOS_PORT)\<close> returns is an argument \<open>prev\<close>. The parts of the file operations that
  touch the process control block are in \<^verbatim>\<open>Fileops\<close>.
\<close>

definition RTC_IRQ :: u32 where "RTC_IRQ = 8"
definition SLAVE_IRQ :: u32 where "SLAVE_IRQ = 2"
definition RTC_PORT :: u16 where "RTC_PORT = 0x70"
definition CMOS_PORT :: u16 where "CMOS_PORT = 0x71"
definition REG_A :: u8 where "REG_A = 0x8A"
definition REG_B :: u8 where "REG_B = 0x8B"
definition REG_C :: u8 where "REG_C = 0x8C"

lemmas rtc_consts = RTC_IRQ_def SLAVE_IRQ_def RTC_PORT_def CMOS_PORT_def REG_A_def REG_B_def
  REG_C_def

record rtc =
  rtc_int_flag :: bool
  current_rtc_freq :: int
  rtc_out :: "port_write list"

definition rtc_boot :: rtc where
  "rtc_boot = \<lparr>rtc_int_flag = False, current_rtc_freq = -1, rtc_out = []\<rparr>"

definition rtc_outb :: "u8 \<Rightarrow> u16 \<Rightarrow> rtc \<Rightarrow> rtc" where
  "rtc_outb d p s = s\<lparr>rtc_out := rtc_out s @ [(p, d)]\<rparr>"

definition rtc_int :: "rtc \<times> pic \<Rightarrow> rtc \<times> pic" where
  "rtc_int = (\<lambda>(s, p). let s = rtc_outb REG_C RTC_PORT s;
                           s = s\<lparr>rtc_int_flag := True\<rparr>
                       in (s, send_eoi RTC_IRQ p))"

text \<open>The \<^verbatim>\<open>switch\<close> on the frequency; \<^term>\<open>None\<close> is its default case.\<close>

definition rtc_rate :: "int \<Rightarrow> u8 option" where
  "rtc_rate freq =
     (if freq = 2 then Some 0x0F
      else if freq = 4 then Some 0x0E
      else if freq = 8 then Some 0x0D
      else if freq = 16 then Some 0x0C
      else if freq = 32 then Some 0x0B
      else if freq = 64 then Some 0x0A
      else if freq = 128 then Some 0x09
      else if freq = 256 then Some 0x08
      else if freq = 512 then Some 0x07
      else if freq = 1024 then Some 0x06
      else None)"

definition rtc_set_freq :: "u8 \<Rightarrow> int \<Rightarrow> rtc \<Rightarrow> int \<times> rtc" where
  "rtc_set_freq prev freq s =
     (if freq = current_rtc_freq s then (0, s)
      else case rtc_rate freq of
        None \<Rightarrow> (-1, s)
      | Some new_rate \<Rightarrow>
          (let s = s\<lparr>current_rtc_freq := freq\<rparr>;
               s = rtc_outb REG_A RTC_PORT s;
               s = rtc_outb REG_A RTC_PORT s;
               s = rtc_outb ((prev AND 0xF0) OR new_rate) CMOS_PORT s
           in (1, s)))"

definition rtc_init :: "u8 \<Rightarrow> u8 \<Rightarrow> rtc \<times> pic \<Rightarrow> rtc \<times> pic" where
  "rtc_init prev prev_a = (\<lambda>(s, p).
     let s = rtc_outb REG_B RTC_PORT s;
         s = rtc_outb REG_B RTC_PORT s;
         s = rtc_outb (prev OR 0x40) CMOS_PORT s;
         s = snd (rtc_set_freq prev_a 2 s);
         p = enable_irq RTC_IRQ p;
         p = enable_irq SLAVE_IRQ p
     in (s, p))"

text \<open>
  \<^verbatim>\<open>rtc_read\<close> clears the flag and spins until an interrupt sets it. The interrupts that
  arrive while it spins are a list: \<^term>\<open>True\<close> for the clock's. \<^term>\<open>None\<close>: it still waits
  when the list ends. The rest of the list is returned.
\<close>

fun rtc_spin :: "bool list \<Rightarrow> rtc \<times> pic \<Rightarrow> (bool list \<times> rtc \<times> pic) option" where
  "rtc_spin irqs (s, p) =
     (if rtc_int_flag s then Some (irqs, s, p)
      else case irqs of [] \<Rightarrow> None
        | i # irqs \<Rightarrow> rtc_spin irqs (if i then rtc_int (s, p) else (s, p)))"

definition rtc_read :: "bool list \<Rightarrow> rtc \<times> pic \<Rightarrow> (int \<times> bool list \<times> rtc \<times> pic) option" where
  "rtc_read irqs = (\<lambda>(s, p).
     do { (rest, s, p) \<leftarrow> rtc_spin irqs (s\<lparr>rtc_int_flag := False\<rparr>, p);
          Some (0, rest, s\<lparr>rtc_int_flag := False\<rparr>, p) })"

section \<open>Lemmas\<close>

text \<open>The divider's period: rate \<open>r\<close> gives \<open>32768 / 2 ^ (r - 1)\<close> interrupts a second.\<close>

lemma rtc_rate_freq: "rtc_rate f = Some r \<Longrightarrow> f = 32768 div 2 ^ (unat r - 1)"
  by (auto simp: rtc_rate_def split: if_splits)

lemma rtc_rate_dom: "rtc_rate f \<noteq> None \<longleftrightarrow> f \<in> (\<lambda>k. 2 ^ k) ` {1..10}"
proof -
  have "{1..10} = set [1..<11]" by auto
  also have "\<dots> = {1, 2, 3, 4, 5, 6, 7, 8, 9, 10 :: nat}" by (simp add: upt_rec numeral_eq_Suc)
  finally have "{1..10} = {1, 2, 3, 4, 5, 6, 7, 8, 9, 10 :: nat}" .
  then show ?thesis by (simp add: rtc_rate_def)
qed

lemma rtc_set_freq_cases:
  "rtc_set_freq prev f s =
     (if f = current_rtc_freq s then (0, s)
      else case rtc_rate f of None \<Rightarrow> (-1, s)
      | Some r \<Rightarrow> (1, s\<lparr>current_rtc_freq := f, rtc_out := rtc_out s @
          [(RTC_PORT, REG_A), (RTC_PORT, REG_A), (CMOS_PORT, (prev AND 0xF0) OR r)]\<rparr>))"
  by (simp add: rtc_set_freq_def rtc_outb_def Let_def split: option.split)

declare rtc_spin.simps [simp del]

lemma rtc_int_simps [simp]:
  "rtc_int_flag (fst (rtc_int x))" "snd (rtc_int x) = send_eoi RTC_IRQ (snd x)"
  by (simp_all add: rtc_int_def rtc_outb_def Let_def split: prod.split)

text \<open>The wait ends right after the first clock interrupt, and not before.\<close>

lemma rtc_spin_eq:
  "\<not> rtc_int_flag s \<Longrightarrow>
   rtc_spin irqs (s, p) =
     (if True \<in> set irqs then Some (tl (dropWhile Not irqs), rtc_int (s, p)) else None)"
proof (induction irqs arbitrary: s p)
  case Nil
  then show ?case by (subst rtc_spin.simps) simp
next
  case (Cons i irqs)
  show ?case
  proof (cases i)
    case True
    obtain s' p' where r: "rtc_int (s, p) = (s', p')" by fastforce
    with rtc_int_simps(1) [of "(s, p)"] have "rtc_int_flag s'" by simp
    then have "rtc_spin irqs (s', p') = Some (irqs, s', p')" by (subst rtc_spin.simps) simp
    with True Cons.prems r show ?thesis by (subst rtc_spin.simps) simp
  next
    case False
    with Cons show ?thesis by (subst rtc_spin.simps) simp
  qed
qed

section \<open>Properties\<close>

text \<open>
  C36: Programming the clock: a new frequency is accepted exactly when it is a power of two from
  2 to 1024, and then the byte written to register A keeps the upper half of the old one and
  has the rate whose frequency, by the hardware's rule, is the requested one; a refused one
  changes nothing.
\<close>

theorem rtc_programs_frequency:
  assumes "f \<noteq> current_rtc_freq s"
  shows "(f \<in> (\<lambda>k. 2 ^ k) ` {1..10} \<longrightarrow>
      (\<exists>r. r < 16 \<and> f = 32768 div 2 ^ (unat r - 1) \<and>
        rtc_set_freq prev f s = (1, s\<lparr>current_rtc_freq := f, rtc_out := rtc_out s @
          [(RTC_PORT, REG_A), (RTC_PORT, REG_A), (CMOS_PORT, (prev AND 0xF0) OR r)]\<rparr>))) \<and>
    (f \<notin> (\<lambda>k. 2 ^ k) ` {1..10} \<longrightarrow> rtc_set_freq prev f s = (-1, s))"
proof (cases "rtc_rate f")
  case None
  then show ?thesis using assms rtc_rate_dom [of f] by (simp add: rtc_set_freq_cases)
next
  case (Some r)
  moreover have "r < 16" using Some by (auto simp: rtc_rate_def split: if_splits)
  ultimately show ?thesis
    using assms rtc_rate_dom [of f] rtc_rate_freq [OF Some] by (auto simp: rtc_set_freq_cases)
qed

theorem rtc_programs_frequency_witness:
  "\<exists>r. (1024 :: int) = 32768 div 2 ^ (unat r - 1) \<and> snd (rtc_set_freq 0x26 1024 rtc_boot) =
     rtc_boot\<lparr>current_rtc_freq := 1024, rtc_out :=
       [(RTC_PORT, REG_A), (RTC_PORT, REG_A), (CMOS_PORT, (0x26 AND 0xF0) OR r)]\<rparr>"
proof -
  have "(1024 :: int) \<in> (\<lambda>k. 2 ^ k) ` {1..10}" by (rule image_eqI [of _ _ 10]) simp_all
  then show ?thesis
    using rtc_programs_frequency [where f = 1024 and s = rtc_boot and prev = "0x26"] by (auto simp: rtc_boot_def)
qed


end
