(* ===== verification/FileSys.thy ===== *)
theory FileSys
  imports LibC "HOL-Library.Signed_Division"
begin

text \<open>
  The read-only file system (\<^verbatim>\<open>student-distrib/drivers/fs.c\<close>, \<^verbatim>\<open>fs.h\<close>). The image is
  byte-addressed memory and the address of its boot block; every structure field is
  read at the offset of its packed C layout, with the 32-bit address arithmetic of the
  code. Bytes stored through a buffer argument are returned as the list of the bytes
  from the start of the buffer; a buffer does not overlap the image. Uninitialised
  stack objects are arguments named \<open>junk\<close>.
\<close>

section \<open>Layout\<close>

definition FILENAME_CHAR_LIMIT :: nat where "FILENAME_CHAR_LIMIT = 32"
definition BLOCK_SIZE :: u32 where "BLOCK_SIZE = 4 * 1024"

record fs_image =
  fs :: u32
  fs_mem :: "u32 \<Rightarrow> u8"

definition load32 :: "(u32 \<Rightarrow> u8) \<Rightarrow> u32 \<Rightarrow> u32" where
  "load32 m a = ucast (m a) OR push_bit 8 (ucast (m (a + 1))) OR
     push_bit 16 (ucast (m (a + 2))) OR push_bit 24 (ucast (m (a + 3)))"

definition load_bytes :: "(u32 \<Rightarrow> u8) \<Rightarrow> u32 \<Rightarrow> nat \<Rightarrow> u8 list" where
  "load_bytes m a n = map (\<lambda>i. m (a + of_nat i)) [0..<n]"

definition bb_dentry_count :: "fs_image \<Rightarrow> u32" where
  "bb_dentry_count g = load32 (fs_mem g) (fs g)"
definition bb_inodes_count :: "fs_image \<Rightarrow> u32" where
  "bb_inodes_count g = load32 (fs_mem g) (fs g + 4)"
definition bb_blocks_count :: "fs_image \<Rightarrow> u32" where
  "bb_blocks_count g = load32 (fs_mem g) (fs g + 8)"

text \<open>\<^verbatim>\<open>&fs->dir_entries[i]\<close>: 64-byte entries after the 64-byte header.\<close>

definition dentry_addr :: "fs_image \<Rightarrow> u32 \<Rightarrow> u32" where
  "dentry_addr g i = fs g + 64 + 64 * i"

record dir_entry =
  filename :: "u8 list"
  ftype :: u32
  inode_num :: u32

definition FTYPE_RTC :: u32 where "FTYPE_RTC = 0"
definition FTYPE_DIR :: u32 where "FTYPE_DIR = 1"
definition FTYPE_FILE :: u32 where "FTYPE_FILE = 2"

definition node_length :: "fs_image \<Rightarrow> u32 \<Rightarrow> u32" where
  "node_length g node = load32 (fs_mem g) node"
definition node_data_block :: "fs_image \<Rightarrow> u32 \<Rightarrow> u32 \<Rightarrow> u32" where
  "node_data_block g node k = load32 (fs_mem g) (node + 4 + 4 * k)"

text \<open>C division and remainder of an \<^verbatim>\<open>int32_t\<close>, rounding towards zero.\<close>

definition sdiv32 :: "u32 \<Rightarrow> int \<Rightarrow> u32" where
  "sdiv32 a n = word_of_int (sint a sdiv n)"
definition smod32 :: "u32 \<Rightarrow> int \<Rightarrow> u32" where
  "smod32 a n = word_of_int (sint a smod n)"

section \<open>Directory lookup\<close>

text \<open>\<^verbatim>\<open>init_fs\<close> takes the address of the module's boot block.\<close>

definition init_fs :: "u32 \<Rightarrow> fs_image \<Rightarrow> fs_image" where
  "init_fs boot_block_addr g = g\<lparr>fs := boot_block_addr\<rparr>"

fun read_dentry_by_name_loop ::
  "fs_image \<Rightarrow> u8 list \<Rightarrow> nat list \<Rightarrow> dir_entry \<Rightarrow> (int \<times> dir_entry) option" where
  "read_dentry_by_name_loop g fname [] dentry = Some (-1, dentry)"
| "read_dentry_by_name_loop g fname (i # rest) dentry =
     do { len \<leftarrow> strlen fname;
          if len \<le> of_nat FILENAME_CHAR_LIMIT then
            do { let e = dentry_addr g (of_nat i);
                 c \<leftarrow> strncmp (load_bytes (fs_mem g) e 32) fname FILENAME_CHAR_LIMIT;
                 if c = 0 then
                   do { name \<leftarrow> strncpy (filename dentry) fname FILENAME_CHAR_LIMIT;
                        Some (0, dentry\<lparr>filename := name,
                          ftype := load32 (fs_mem g) (e + 32),
                          inode_num := load32 (fs_mem g) (e + 36)\<rparr>) }
                 else read_dentry_by_name_loop g fname rest dentry }
          else read_dentry_by_name_loop g fname rest dentry }"

definition read_dentry_by_name ::
  "fs_image \<Rightarrow> u8 list \<Rightarrow> dir_entry \<Rightarrow> (int \<times> dir_entry) option" where
  "read_dentry_by_name g fname dentry =
     read_dentry_by_name_loop g fname [0..<unat (bb_dentry_count g)] dentry"

text \<open>\<^verbatim>\<open>strncpy\<close> reads from the local copy of the whole 64-byte entry.\<close>

definition read_dentry_by_index ::
  "fs_image \<Rightarrow> u32 \<Rightarrow> dir_entry \<Rightarrow> (int \<times> dir_entry) option" where
  "read_dentry_by_index g index dentry =
     (if index \<ge> bb_dentry_count g then Some (-1, dentry)
      else let e = dentry_addr g index; dentry_src = load_bytes (fs_mem g) e 64 in
        do { name \<leftarrow> strncpy (filename dentry) dentry_src FILENAME_CHAR_LIMIT;
             Some (0, dentry\<lparr>filename := name,
               ftype := load32 (fs_mem g) (e + 32),
               inode_num := load32 (fs_mem g) (e + 36)\<rparr>) })"

section \<open>Reading file data\<close>

text \<open>
  The copy loop of \<^verbatim>\<open>read_data\<close> with \<open>n\<close> iterations to go: the return value and the
  bytes stored at \<^verbatim>\<open>buf[i]\<close>, \<^verbatim>\<open>buf[i+1]\<close>, \<open>\<dots>\<close>.
\<close>

fun read_data_loop :: "fs_image \<Rightarrow> u32 \<Rightarrow> u32 \<Rightarrow> nat \<Rightarrow> u32 \<Rightarrow> int \<times> u8 list" where
  "read_data_loop g node offset 0 i = (sint i, [])"
| "read_data_loop g node offset (Suc n) i =
     (let j = i + offset in
      if j \<ge> node_length g node then (sint i, [])
      else let block_index = node_data_block g node (sdiv32 j 4096) in
        if block_index \<ge> bb_blocks_count g then (-1, [])
        else let dblock = fs g + BLOCK_SIZE * (block_index + 1 + bb_inodes_count g);
                 b = fs_mem g (dblock + smod32 j 4096);
                 (ret, bs) = read_data_loop g node offset n (i + 1)
             in (ret, b # bs))"

definition inode_addr :: "fs_image \<Rightarrow> u32 \<Rightarrow> u32" where
  "inode_addr g inode = fs g + BLOCK_SIZE * (inode + 1)"

definition read_data :: "fs_image \<Rightarrow> u32 \<Rightarrow> u32 \<Rightarrow> u32 \<Rightarrow> int \<times> u8 list" where
  "read_data g inode offset len =
     (if inode \<ge> bb_inodes_count g then (-1, [])
      else read_data_loop g (inode_addr g inode) offset (unat len) 0)"

text \<open>The copy loop of \<^verbatim>\<open>read_dir_file\<close>: the names of the entries, 32 bytes each.\<close>

fun read_dir_loop :: "fs_image \<Rightarrow> u32 \<Rightarrow> nat \<Rightarrow> u32 \<Rightarrow> int \<times> u8 list" where
  "read_dir_loop g offset 0 i = (sint i, [])"
| "read_dir_loop g offset (Suc n) i =
     (let j = i + offset; dir = sdiv32 j 32 in
      if dir \<ge> bb_dentry_count g then (sint i, [])
      else let b = fs_mem g (dentry_addr g dir + smod32 j 32);
               (ret, bs) = read_dir_loop g offset n (i + 1)
           in (ret, b # bs))"

definition read_dir_file :: "fs_image \<Rightarrow> u32 \<Rightarrow> u32 \<Rightarrow> int \<times> u8 list" where
  "read_dir_file g offset count = read_dir_loop g offset (unat count) 0"

section \<open>Loading programs\<close>

definition PROGRAM_VIRTUAL_START :: u32 where "PROGRAM_VIRTUAL_START = 0x08048000"
definition LOAD_BUF_SIZE :: u32 where "LOAD_BUF_SIZE = 4096"
definition ELF_HEADER :: "u8 list" where "ELF_HEADER = 0x7F # asc ''ELF''"
definition ENTRY_OFFSET :: u32 where "ENTRY_OFFSET = 24"

text \<open>What \<open>bs\<close> leaves of an object when it is stored from its start.\<close>

definition overlay :: "u8 list \<Rightarrow> u8 list \<Rightarrow> u8 list" where
  "overlay bs obj = bs @ drop (length bs) obj"

definition le32 :: "u8 list \<Rightarrow> u32" where
  "le32 bs = load32 (\<lambda>a. bs ! unat a) 0"

lemma read_data_loop_ret:
  "read_data_loop g node offset n i = (ret, bs) \<Longrightarrow>
   length bs \<le> n \<and> (ret = -1 \<or> ret = sint (i + of_nat (length bs)))"
proof (induction n arbitrary: i ret bs)
  case (Suc n)
  show ?case
    using Suc.prems by (auto simp: Let_def add.assoc split: if_splits prod.splits dest!: Suc.IH)
qed simp

text \<open>A loop that returns the count it was asked for never met the end of the file.\<close>

lemma read_data_loop_full:
  "read_data_loop g node offset n i = (ret, bs) \<Longrightarrow> length bs = n \<Longrightarrow> k < n \<Longrightarrow>
   i + of_nat k + offset < node_length g node"
proof (induction n arbitrary: i ret bs k)
  case (Suc n)
  from Suc.prems obtain ret' bs' where *: "read_data_loop g node offset n (i + 1) = (ret', bs')"
    and "length bs' = n" and lt: "i + offset < node_length g node"
    by (auto simp: Let_def not_le split: if_splits prod.splits)
  show ?case
  proof (cases k)
    case (Suc k')
    then have "i + 1 + of_nat k' + offset < node_length g node"
      using Suc.IH [OF * \<open>length bs' = n\<close>, of k'] Suc.prems by simp
    with Suc show ?thesis by (simp add: add_ac)
  qed (use lt in simp)
qed simp

lemma read_data_ret_full:
  assumes "read_data g inode offset LOAD_BUF_SIZE = (4096, bs)"
  shows "length bs = 4096"
proof -
  from assms have r: "read_data_loop g (inode_addr g inode) offset 4096 0 = (4096, bs)"
    by (auto simp: read_data_def LOAD_BUF_SIZE_def split: if_splits)
  have "length bs \<le> 4096" and "sint (of_nat (length bs) :: u32) = 4096"
    using read_data_loop_ret [OF r] by auto
  moreover from this have "sint (of_nat (length bs) :: u32) = int (length bs)"
    by (subst sint_eq_unat) auto
  ultimately show ?thesis by simp
qed

lemma read_data_full_no_wrap:
  assumes "read_data g inode offset LOAD_BUF_SIZE = (4096, bs)"
  shows "unat offset + 4096 < 2 ^ 32"
proof (rule ccontr)
  assume *: "\<not> unat offset + 4096 < 2 ^ 32"
  have lt: "unat offset < 2 ^ 32" by (rule unat_lt32)
  define k where "k = 2 ^ 32 - 1 - unat offset"
  have k: "k < 4096" and sum: "unat offset + k = 2 ^ 32 - 1"
    using * lt by (auto simp: k_def)
  from assms have r: "read_data_loop g (inode_addr g inode) offset 4096 0 = (4096, bs)"
    by (auto simp: read_data_def LOAD_BUF_SIZE_def split: if_splits)
  have "of_nat k + offset < node_length g (inode_addr g inode)"
    using read_data_loop_full [OF r read_data_ret_full [OF assms] k] by simp
  moreover have "unat (offset + of_nat k) = 2 ^ 32 - 1"
    using sum by (subst unat_add_of_nat) auto
  moreover have "unat (node_length g (inode_addr g inode)) \<le> 2 ^ 32 - 1"
    using unat_lt32 [of "node_length g (inode_addr g inode)"] by simp
  ultimately show False by (simp add: word_less_nat_alt add.commute)
qed

text \<open>
  The load loop: the address of each chunk and the bytes stored there. It stops because
  the offset of a full chunk stays below the length in the inode.
\<close>

function program_load_loop :: "fs_image \<Rightarrow> u32 \<Rightarrow> u32 \<Rightarrow> u32 \<Rightarrow> (u32 \<times> u8 list) list" where
  "program_load_loop g inode offset addr =
     (let (count, bs) = read_data g inode offset LOAD_BUF_SIZE in
      if count = 4096
      then (addr, bs) # program_load_loop g inode (offset + 4096) (addr + 4096)
      else [(addr, bs)])"
  by pat_completeness auto
termination
proof (relation "measure (\<lambda>(g, inode, offset, addr). 2 ^ 32 - unat offset)", goal_cases)
  case (2 g inode offset addr x count bs)
  then have "unat offset + 4096 < 2 ^ 32" using read_data_full_no_wrap by metis
  then show ?case using unat_add_lt [of offset 4096] by simp
qed simp

declare program_load_loop.simps [simp del]

definition program_load ::
  "fs_image \<Rightarrow> u8 list \<Rightarrow> dir_entry \<Rightarrow> u8 list \<Rightarrow> (u32 \<times> (u32 \<times> u8 list) list) option" where
  "program_load g cmd dentry_junk entry_junk =
     do { (_, dentry) \<leftarrow> read_dentry_by_name g cmd dentry_junk;
          let (_, bs) = read_data g (inode_num dentry) ENTRY_OFFSET 4;
          let entry = le32 (overlay bs entry_junk);
          Some (entry, program_load_loop g (inode_num dentry) 0 PROGRAM_VIRTUAL_START) }"

definition program_valid ::
  "fs_image \<Rightarrow> u8 list \<Rightarrow> dir_entry \<Rightarrow> u8 list \<Rightarrow> int option" where
  "program_valid g cmd dentry_junk header_junk =
     do { (r, dentry) \<leftarrow> read_dentry_by_name g cmd dentry_junk;
          if r = -1 then Some 0
          else let (_, bs) = read_data g (inode_num dentry) 0 4;
                   elfHeader = overlay bs header_junk
               in Some (if \<forall>i \<in> set [0..<4]. elfHeader ! i = ELF_HEADER ! i then 1 else 0) }"

section \<open>What the image holds\<close>

text \<open>The abstract view: the name of each directory entry and the bytes of each file.\<close>

definition entry_name :: "fs_image \<Rightarrow> nat \<Rightarrow> u8 list" where
  "entry_name g i = cstr (load_bytes (fs_mem g) (dentry_addr g (of_nat i)) 32)"

definition file_byte :: "fs_image \<Rightarrow> u32 \<Rightarrow> nat \<Rightarrow> u8" where
  "file_byte g inode j =
     fs_mem g (fs g + BLOCK_SIZE * (node_data_block g (inode_addr g inode) (of_nat (j div 4096)) + 1
       + bb_inodes_count g) + of_nat (j mod 4096))"

definition file_data :: "fs_image \<Rightarrow> u32 \<Rightarrow> u8 list" where
  "file_data g inode = map (file_byte g inode) [0..<unat (node_length g (inode_addr g inode))]"

definition dir_byte :: "fs_image \<Rightarrow> nat \<Rightarrow> u8" where
  "dir_byte g j = fs_mem g (dentry_addr g (of_nat (j div 32)) + of_nat (j mod 32))"

definition dir_data :: "fs_image \<Rightarrow> u8 list" where
  "dir_data g = map (dir_byte g) [0..<32 * unat (bb_dentry_count g)]"

text \<open>An inode whose length and blocks stay within the image's counts.\<close>

definition valid_inode :: "fs_image \<Rightarrow> u32 \<Rightarrow> bool" where
  "valid_inode g inode \<longleftrightarrow> inode < bb_inodes_count g \<and>
     unat (node_length g (inode_addr g inode)) < 2 ^ 31 \<and>
     list_all (\<lambda>k. node_data_block g (inode_addr g inode) (of_nat k) < bb_blocks_count g)
       [0..<(unat (node_length g (inode_addr g inode)) + 4095) div 4096]"

definition valid_dir :: "fs_image \<Rightarrow> bool" where
  "valid_dir g \<longleftrightarrow> unat (bb_dentry_count g) < 2 ^ 26"

lemma length_file_data [simp]:
  "length (file_data g inode) = unat (node_length g (inode_addr g inode))"
  by (simp add: file_data_def)

lemma length_dir_data [simp]: "length (dir_data g) = 32 * unat (bb_dentry_count g)"
  by (simp add: dir_data_def)

lemma sdiv32_of_nat: "j < 2 ^ 31 \<Longrightarrow> sdiv32 (of_nat j) (int n) = of_nat (j div n)"
  using sint_eq_unat [of "of_nat j"]
  by (simp add: sdiv32_def signed_divide_int_def sgn_if zdiv_int [symmetric])

lemma smod32_of_nat: "j < 2 ^ 31 \<Longrightarrow> smod32 (of_nat j) (int n) = of_nat (j mod n)"
  using sint_eq_unat [of "of_nat j"]
  by (simp add: smod32_def signed_modulo_int_def signed_divide_int_def sgn_if zdiv_int [symmetric]
      minus_div_mult_eq_mod flip: zmod_int)

lemma take_drop_Suc:
  "i < length xs \<Longrightarrow> take (Suc n) (drop i xs) = xs ! i # take n (drop (Suc i) xs)"
  by (simp add: Cons_nth_drop_Suc [symmetric])

lemma valid_inode_block:
  assumes "valid_inode g inode" and "j < unat (node_length g (inode_addr g inode))"
  shows "node_data_block g (inode_addr g inode) (of_nat (j div 4096)) < bb_blocks_count g"
proof -
  have "j div 4096 < (unat (node_length g (inode_addr g inode)) + 4095) div 4096"
    using assms(2) by auto
  with assms(1) show ?thesis by (auto simp: valid_inode_def list_all_iff)
qed

lemma read_data_loop_eq:
  assumes v: "valid_inode g inode"
  shows "off + i + n < 2 ^ 32 \<Longrightarrow> i + n < 2 ^ 31 \<Longrightarrow>
    read_data_loop g (inode_addr g inode) (of_nat off) n (of_nat i) =
      (let bs = take n (drop (off + i) (file_data g inode)) in (int (i + length bs), bs))"
proof (induction n arbitrary: i)
  case 0
  then show ?case by (simp add: sint_eq_unat)
next
  case (Suc n)
  let ?len = "unat (node_length g (inode_addr g inode))"
  have j: "of_nat i + of_nat off = (of_nat (off + i) :: u32)" by (simp add: add.commute)
  show ?case
  proof (cases "off + i < ?len")
    case True
    then have lt: "off + i < 2 ^ 31" using v by (simp add: valid_inode_def)
    have IH: "read_data_loop g (inode_addr g inode) (of_nat off) n (of_nat i + 1) =
      (let bs = take n (drop (Suc (off + i)) (file_data g inode)) in (int (Suc i + length bs), bs))"
      using Suc.IH [of "Suc i"] Suc.prems by (simp add: add.commute)
    have "\<not> of_nat (off + i) \<ge> node_length g (inode_addr g inode)"
      using True lt by (simp add: word_le_nat_alt del: of_nat_add)
    with True valid_inode_block [OF v True] show ?thesis
      using sdiv32_of_nat [OF lt, of 4096] smod32_of_nat [OF lt, of 4096]
      by (simp add: j IH Let_def not_le [symmetric] take_drop_Suc file_data_def file_byte_def
          del: of_nat_add)
  next
    case False
    with Suc.prems have "of_nat (off + i) \<ge> node_length g (inode_addr g inode)"
      by (simp add: word_le_nat_alt del: of_nat_add)
    with False Suc.prems show ?thesis by (simp add: j Let_def sint_eq_unat del: of_nat_add)
  qed
qed

lemma read_dir_loop_eq:
  assumes v: "valid_dir g"
  shows "off + i + n < 2 ^ 31 \<Longrightarrow>
    read_dir_loop g (of_nat off) n (of_nat i) =
      (let bs = take n (drop (off + i) (dir_data g)) in (int (i + length bs), bs))"
proof (induction n arbitrary: i)
  case 0
  then show ?case by (simp add: sint_eq_unat)
next
  case (Suc n)
  have j: "of_nat i + of_nat off = (of_nat (off + i) :: u32)" by (simp add: add.commute)
  have lt: "off + i < 2 ^ 31" using Suc.prems by simp
  have dir: "bb_dentry_count g \<le> of_nat ((off + i) div 32) \<longleftrightarrow> \<not> off + i < 32 * unat (bb_dentry_count g)"
  proof -
    have "unat (of_nat ((off + i) div 32) :: u32) = (off + i) div 32"
      using lt by (intro unat_of_nat32) simp
    then show ?thesis by (simp add: word_le_nat_alt not_less) linarith
  qed
  have IH: "read_dir_loop g (of_nat off) n (of_nat i + 1) =
    (let bs = take n (drop (Suc (off + i)) (dir_data g)) in (int (Suc i + length bs), bs))"
    using Suc.IH [of "Suc i"] Suc.prems by (simp add: add.commute)
  show ?case
    using sdiv32_of_nat [OF lt, of 32] smod32_of_nat [OF lt, of 32] lt Suc.prems
    by (cases "off + i < 32 * unat (bb_dentry_count g)")
      (simp_all add: j IH Let_def dir take_drop_Suc dir_data_def dir_byte_def sint_eq_unat
        del: of_nat_add)
qed

lemma read_data_eq:
  assumes "valid_inode g inode" and "off + n < 2 ^ 32" and "n < 2 ^ 31"
  shows "read_data g inode (of_nat off) (of_nat n) =
    (int (length (take n (drop off (file_data g inode)))), take n (drop off (file_data g inode)))"
proof -
  have "\<not> inode \<ge> bb_inodes_count g" using assms(1) by (simp add: valid_inode_def not_le)
  then show ?thesis
    using read_data_loop_eq [OF assms(1), of off 0 n] assms(2,3)
    by (simp add: read_data_def Let_def)
qed

lemma read_dir_file_eq:
  assumes "valid_dir g" and "off + n < 2 ^ 31"
  shows "read_dir_file g (of_nat off) (of_nat n) =
    (int (length (take n (drop off (dir_data g)))), take n (drop off (dir_data g)))"
  using read_dir_loop_eq [OF assms(1), of off 0 n] assms(2)
  by (simp add: read_dir_file_def Let_def)

end
