(* ===== verification/FileRead.thy ===== *)
theory FileRead
  imports FileSys
begin

text \<open>
  What the file-system operations promise: lookup finds the first entry of that name,
  reads return the stored bytes, repeated reads return the whole file, and the loader
  stores the whole file at consecutive addresses. The contract of a readable object is
  the locale \<open>byte_source\<close>, given by files and by the directory.
\<close>

section \<open>Lookup by name\<close>

text \<open>A name as \<^verbatim>\<open>strncpy\<close> leaves it in a 32-byte field.\<close>

definition pad_name :: "u8 list \<Rightarrow> u8 list" where
  "pad_name n = take 32 n @ replicate (32 - length n) 0"

definition dentry_of :: "fs_image \<Rightarrow> nat \<Rightarrow> dir_entry \<Rightarrow> dir_entry" where
  "dentry_of g i d = d\<lparr>filename := pad_name (entry_name g i) @ drop 32 (filename d),
     ftype := load32 (fs_mem g) (dentry_addr g (of_nat i) + 32),
     inode_num := load32 (fs_mem g) (dentry_addr g (of_nat i) + 36)\<rparr>"

lemma length_load_bytes [simp]: "length (load_bytes m a n) = n"
  by (simp add: load_bytes_def)

lemma length_entry_name: "length (entry_name g i) \<le> 32"
proof -
  have "length (entry_name g i) \<le> length (load_bytes (fs_mem g) (dentry_addr g (of_nat i)) 32)"
    unfolding entry_name_def cstr_def by (rule length_takeWhile_le)
  then show ?thesis by simp
qed

lemma strlen_le_limit:
  assumes "0 \<in> set fname" and "length fname < 2 ^ 31"
  shows "\<exists>n. strlen fname = Some n \<and> (n \<le> of_nat FILENAME_CHAR_LIMIT \<longleftrightarrow> length (cstr fname) \<le> 32)"
proof -
  have "length (cstr fname) < 2 ^ 32" using assms length_cstr_less [of fname] by simp
  then show ?thesis
    using assms(1) by (simp add: strlen_eq FILENAME_CHAR_LIMIT_def word_le_nat_alt)
qed

lemma strncmp_entry:
  assumes "0 \<in> set fname" and "length (cstr fname) \<le> 32"
  shows "\<exists>c. strncmp (load_bytes (fs_mem g) (dentry_addr g (of_nat i)) 32) fname FILENAME_CHAR_LIMIT
    = Some c \<and> (c = 0 \<longleftrightarrow> entry_name g i = cstr fname)"
  using strncmp_eq [of 32 "load_bytes (fs_mem g) (dentry_addr g (of_nat i)) 32" fname] assms
    length_entry_name [of g i]
  by (simp add: FILENAME_CHAR_LIMIT_def entry_name_def)

lemma read_dentry_by_name_loop_eq:
  assumes "0 \<in> set fname" and "length fname < 2 ^ 31" and "32 \<le> length (filename d)"
  shows "read_dentry_by_name_loop g fname is d =
    Some (case find (\<lambda>i. entry_name g i = cstr fname) is of
      None \<Rightarrow> (-1, d) | Some i \<Rightarrow> (0, dentry_of g i d))"
proof (induction "is")
  case (Cons i "is")
  obtain n where n: "strlen fname = Some n"
    and le: "n \<le> of_nat FILENAME_CHAR_LIMIT \<longleftrightarrow> length (cstr fname) \<le> 32"
    using strlen_le_limit [OF assms(1,2)] by blast
  show ?case
  proof (cases "length (cstr fname) \<le> 32")
    case True
    obtain c where "strncmp (load_bytes (fs_mem g) (dentry_addr g (of_nat i)) 32) fname
        FILENAME_CHAR_LIMIT = Some c" and "c = 0 \<longleftrightarrow> entry_name g i = cstr fname"
      using strncmp_entry [OF assms(1) True] by blast
    with n le True Cons show ?thesis
      using strncpy_eq [of 32 "filename d" fname] assms
      by (simp add: FILENAME_CHAR_LIMIT_def dentry_of_def pad_name_def Let_def)
  next
    case False
    then have "entry_name g i \<noteq> cstr fname" using length_entry_name [of g i] by auto
    with n le False Cons show ?thesis by simp
  qed
qed simp

lemma read_dentry_by_name_eq:
  assumes "0 \<in> set fname" and "length fname < 2 ^ 31" and "32 \<le> length (filename d)"
  shows "read_dentry_by_name g fname d =
    Some (case find (\<lambda>i. entry_name g i = cstr fname) [0..<unat (bb_dentry_count g)] of
      None \<Rightarrow> (-1, d) | Some i \<Rightarrow> (0, dentry_of g i d))"
  unfolding read_dentry_by_name_def by (rule read_dentry_by_name_loop_eq [OF assms])

lemma read_dentry_by_index_eq:
  assumes "i < unat (bb_dentry_count g)" and "32 \<le> length (filename d)"
  shows "read_dentry_by_index g (of_nat i) d = Some (0, dentry_of g i d)"
proof -
  let ?b = "load_bytes (fs_mem g) (dentry_addr g (of_nat i)) 64"
  have lt: "i < 2 ^ 32" using assms(1) unat_lt32 [of "bb_dentry_count g"] by simp
  then have i: "\<not> bb_dentry_count g \<le> of_nat i" using assms(1) by (simp add: word_le_nat_alt)
  have t: "load_bytes (fs_mem g) (dentry_addr g (of_nat i)) 32 = take 32 ?b"
    by (simp add: load_bytes_def take_map)
  have c: "take 32 (cstr ?b) = entry_name g i"
    by (simp add: entry_name_def t cstr_take)
  have "strncpy (filename d) ?b 32 =
      Some (take 32 (cstr ?b) @ replicate (32 - length (cstr ?b)) 0 @ drop 32 (filename d))"
    using assms(2) by (intro strncpy_eq) auto
  moreover have "32 - length (cstr ?b) = 32 - length (entry_name g i)"
    by (simp flip: c)
  ultimately show ?thesis
    using i length_entry_name [of g i]
    by (simp add: read_dentry_by_index_def Let_def FILENAME_CHAR_LIMIT_def dentry_of_def
        pad_name_def c)
qed

section \<open>The contract of a readable object\<close>

locale byte_source =
  fixes ok :: bool
    and limit :: nat
    and rd :: "nat \<Rightarrow> nat \<Rightarrow> int \<times> u8 list"
    and data :: "u8 list"
  assumes rd_spec: "ok \<Longrightarrow> off + n < limit \<Longrightarrow>
    rd off n = (int (length (take n (drop off data))), take n (drop off data))"

text \<open>
  A client that reads until the count is 0, as the user programs do:
  \<^verbatim>\<open>while (0 != (cnt = read(fd, buf, n))) ...\<close>. \<^term>\<open>None\<close>: an error count, or the fuel
  is spent.
\<close>

fun read_all :: "(nat \<Rightarrow> nat \<Rightarrow> int \<times> u8 list) \<Rightarrow> nat \<Rightarrow> nat \<Rightarrow> nat \<Rightarrow> u8 list list option" where
  "read_all rd n 0 off = None"
| "read_all rd n (Suc fuel) off =
     (let (cnt, bs) = rd off n in
      if cnt = 0 then Some []
      else if cnt = -1 then None
      else map_option (Cons bs) (read_all rd n fuel (off + nat cnt)))"

context byte_source
begin

lemma rd_count: "ok \<Longrightarrow> off + n < limit \<Longrightarrow> fst (rd off n) = int (min n (length data - off))"
  by (simp add: rd_spec min.commute)

lemma read_all_data:
  "ok \<Longrightarrow> 0 < n \<Longrightarrow> length data + n < limit \<Longrightarrow> off \<le> length data \<Longrightarrow> length data - off < fuel \<Longrightarrow>
   \<exists>chunks. read_all rd n fuel off = Some chunks \<and> concat chunks = drop off data"
proof (induction fuel arbitrary: off)
  case (Suc fuel)
  show ?case
  proof (cases "off = length data")
    case True
    with Suc.prems show ?thesis by (simp add: rd_spec)
  next
    case False
    let ?k = "min n (length data - off)"
    have k: "0 < ?k" "off + ?k \<le> length data" "length data - (off + ?k) < fuel"
      using False Suc.prems by auto
    obtain chunks where "read_all rd n fuel (off + ?k) = Some chunks"
      and "concat chunks = drop (off + ?k) data"
      using Suc.IH [of "off + ?k"] Suc.prems k by blast
    moreover have "take n (drop off data) @ drop (off + ?k) data = drop off data"
      by (cases "n \<le> length data - off") (simp_all add: min_def append_take_drop_id
          flip: drop_drop add: add.commute)
    ultimately show ?thesis
      using False Suc.prems k by (simp add: rd_spec min.commute)
  qed
qed simp

end

interpretation fdata: byte_source "valid_inode g inode" "2 ^ 31"
  "\<lambda>off n. read_data g inode (of_nat off) (of_nat n)" "file_data g inode"
  for g inode
  by unfold_locales (rule read_data_eq, auto)

interpretation ddata: byte_source "valid_dir g" "2 ^ 31"
  "\<lambda>off n. read_dir_file g (of_nat off) (of_nat n)" "dir_data g"
  for g
  by unfold_locales (rule read_dir_file_eq, auto)

section \<open>The loader\<close>

text \<open>The single bytes a list of chunk stores writes, with their addresses.\<close>

definition chunk_writes :: "(u32 \<times> u8 list) list \<Rightarrow> (u32 \<times> u8) list" where
  "chunk_writes cs =
     concat (map (\<lambda>(a, bs). map (\<lambda>k. (a + of_nat k, bs ! k)) [0..<length bs]) cs)"

lemma chunk_writes_Cons:
  "chunk_writes ((a, bs) # cs) = map (\<lambda>k. (a + of_nat k, bs ! k)) [0..<length bs] @ chunk_writes cs"
  by (simp add: chunk_writes_def)

lemma map_upt_shift: "map f [m..<m + n] = map (\<lambda>k. f (m + k)) [0..<n]"
  by (simp add: list_eq_iff_nth_eq)

lemma program_load_loop_eq:
  assumes v: "valid_inode g inode" and len: "length (file_data g inode) + 4096 < 2 ^ 31"
  shows "off \<le> length (file_data g inode) \<Longrightarrow>
    chunk_writes (program_load_loop g inode (of_nat off) (a + of_nat off)) =
      map (\<lambda>k. (a + of_nat k, file_data g inode ! k)) [off..<length (file_data g inode)]"
proof (induction "length (file_data g inode) - off" arbitrary: off rule: less_induct)
  case less
  let ?d = "file_data g inode" and ?bs = "take 4096 (drop off (file_data g inode))"
  have r: "read_data g inode (of_nat off) LOAD_BUF_SIZE = (int (length ?bs), ?bs)"
    using read_data_eq [OF v, of off 4096] len less.prems by (simp add: LOAD_BUF_SIZE_def)
  have w: "map (\<lambda>k. (a + of_nat off + of_nat k, ?bs ! k)) [0..<length ?bs] =
      map (\<lambda>k. (a + of_nat k, ?d ! k)) [off..<off + length ?bs]"
    by (subst map_upt_shift) (auto simp: add_ac)
  show ?case
  proof (cases "off + 4096 \<le> length ?d")
    case True
    then have IH: "chunk_writes (program_load_loop g inode (of_nat (off + 4096)) (a + of_nat (off + 4096)))
        = map (\<lambda>k. (a + of_nat k, ?d ! k)) [off + 4096..<length ?d]"
      by (intro less.hyps) auto
    have "length ?bs = 4096" using True by simp
    with w have w4: "map (\<lambda>k. (a + of_nat off + of_nat k, ?bs ! k)) [0..<4096] =
      map (\<lambda>k. (a + of_nat k, ?d ! k)) [off..<off + 4096]" by metis
    have s: "[off..<length ?d] = [off..<off + 4096] @ [off + 4096..<length ?d]"
      using True by (metis le_add1 upt_add_eq_append le_add_diff_inverse)
    show ?thesis
      by (subst program_load_loop.simps, subst r, subst s, unfold map_append w4 [symmetric])
        (use IH \<open>length ?bs = 4096\<close> in \<open>simp add: chunk_writes_Cons add_ac del: upt_Suc length_take\<close>)
  next
    case False
    then have l: "length ?bs = length ?d - off" by simp
    then have "int (length ?bs) \<noteq> 4096" using False less.prems by linarith
    then show ?thesis
      using w l less.prems
      by (subst program_load_loop.simps, subst r)
        (simp add: chunk_writes_Cons chunk_writes_def del: length_take)
  qed
qed

end
