(* ===== verification/Process.thy ===== *)
theory Process
  imports Keyboard Rtc FileRead
begin

text \<open>
  Process control blocks and the state of the whole kernel
  (\<^verbatim>\<open>student-distrib/process.h\<close>, \<^verbatim>\<open>process.c\<close>), with the memory that the kernel reaches
  through user pointers. Process ids are \<^verbatim>\<open>int32_t\<close> values between -1 and 5, modelled as
  integers.
\<close>

section \<open>State\<close>

definition PROCESS_NUM :: int where "PROCESS_NUM = 6"
definition MAX_NUM_FD :: int where "MAX_NUM_FD = 8"
definition MAX_ARGS :: nat where "MAX_ARGS = 128"
definition STDIN :: int where "STDIN = 0"
definition STDOUT :: int where "STDOUT = 1"
definition FDFLAG_CLOSED :: int where "FDFLAG_CLOSED = 0"
definition FDFLAG_OPEN :: int where "FDFLAG_OPEN = 1"
definition PROCESS_DATA_SIZE :: u32 where "PROCESS_DATA_SIZE = push_bit 10 8"
definition PCB_OFFSET :: u32 where "PCB_OFFSET = push_bit 20 8"

lemmas process_consts = PROCESS_NUM_def MAX_NUM_FD_def MAX_ARGS_def STDIN_def STDOUT_def
  FDFLAG_CLOSED_def FDFLAG_OPEN_def PROCESS_DATA_SIZE_def PCB_OFFSET_def

text \<open>The jump tables a descriptor can point to; \<open>NO_OPS\<close> is a pointer never set.\<close>

datatype file_ops = NO_OPS | STDIN_OPS | STDOUT_OPS | RTC_OPS | DIR_OPS | FS_OPS

record file_desc =
  fops :: file_ops
  inode :: u32
  file_pos :: u32
  fflags :: int

record pcb =
  fd_arr :: "file_desc list"
  process_id :: int
  stack_ptr :: u32
  base_ptr :: u32
  sched_bp :: u32
  parent_id :: int
  pentry :: u32
  pterm_num :: nat
  argument :: "u8 list"
  rtc_freq :: int

datatype qstate = NOT_LOADED | LOADED | SCHEDULED

text \<open>
  \<open>pmem\<close> is the physical memory from 8 MB on, where the programs are; the video pages are
  the console's \<open>vram\<close>. \<open>pcbs pid\<close> is the control block at \<^verbatim>\<open>create_pcb(pid)\<close>.
\<close>

record kernel =
  kkbd :: kbd
  kcon :: console
  kpg :: paging
  kpic :: pic
  krtc :: rtc
  kfs :: fs_image
  pcbs :: "int \<Rightarrow> pcb"
  process_arr :: "int \<Rightarrow> int"
  process_queue :: "int \<Rightarrow> qstate"
  current_pid :: int
  tss_esp0 :: u32
  pmem :: "u32 \<Rightarrow> u8"

section \<open>Control blocks\<close>

definition get_kernel_stack :: "int \<Rightarrow> u32" where
  "get_kernel_stack pid = PCB_OFFSET - PROCESS_DATA_SIZE * word_of_int pid"

definition create_pcb :: "int \<Rightarrow> u32" where
  "create_pcb pid = PCB_OFFSET - PROCESS_DATA_SIZE * (word_of_int pid + 1)"

definition upd_pcb :: "int \<Rightarrow> (pcb \<Rightarrow> pcb) \<Rightarrow> kernel \<Rightarrow> kernel" where
  "upd_pcb pid f k = k\<lparr>pcbs := (pcbs k)(pid := f (pcbs k pid))\<rparr>"

definition get_current_terminal :: "kernel \<Rightarrow> nat" where
  "get_current_terminal k = (if current_pid k \<noteq> -1 then pterm_num (pcbs k (current_pid k)) else 0)"

definition upd_fd :: "int \<Rightarrow> (file_desc \<Rightarrow> file_desc) \<Rightarrow> pcb \<Rightarrow> pcb" where
  "upd_fd fd f p = p\<lparr>fd_arr := (fd_arr p)[nat fd := f (fd_arr p ! nat fd)]\<rparr>"

definition set_fd_open :: "int \<Rightarrow> pcb \<Rightarrow> pcb" where
  "set_fd_open fd = upd_fd fd (\<lambda>d. d\<lparr>fflags := FDFLAG_OPEN\<rparr>)"

definition set_fd_close :: "int \<Rightarrow> pcb \<Rightarrow> pcb" where
  "set_fd_close fd = upd_fd fd (\<lambda>d. d\<lparr>fflags := FDFLAG_CLOSED\<rparr>)"

definition fd_is_open :: "int \<Rightarrow> pcb \<Rightarrow> bool" where
  "fd_is_open fd p = (fflags (fd_arr p ! nat fd) = FDFLAG_OPEN)"

section \<open>Memory behind user pointers\<close>

text \<open>
  A load or store of the kernel through a pointer, with the current tables. \<^term>\<open>None\<close>:
  the address is not mapped (the page fault handler then loops), or it is the kernel's own
  memory below 8 MB, which is not modelled as bytes.
\<close>

definition phys_load :: "u32 \<Rightarrow> kernel \<Rightarrow> u8 option" where
  "phys_load a k =
     (if 0xB8000 \<le> a \<and> a < 0xBC000 then Some (vram (kcon k) (uint a))
      else if 0x800000 \<le> a then Some (pmem k a) else None)"

definition phys_store :: "u32 \<Rightarrow> u8 \<Rightarrow> kernel \<Rightarrow> kernel option" where
  "phys_store a v k =
     (if 0xB8000 \<le> a \<and> a < 0xBC000 then Some (k\<lparr>kcon := store8 (uint a) v (kcon k)\<rparr>)
      else if 0x800000 \<le> a then Some (k\<lparr>pmem := (pmem k)(a := v)\<rparr>) else None)"

definition load8 :: "u32 \<Rightarrow> kernel \<Rightarrow> u8 option" where
  "load8 va k = Option.bind (translate False (kpg k) va) (\<lambda>a. phys_load a k)"

definition vstore8 :: "u32 \<Rightarrow> u8 \<Rightarrow> kernel \<Rightarrow> kernel option" where
  "vstore8 va v k = Option.bind (translate False (kpg k) va) (\<lambda>a. phys_store a v k)"

fun put_user :: "u32 \<Rightarrow> u8 list \<Rightarrow> kernel \<Rightarrow> kernel option" where
  "put_user va [] k = Some k"
| "put_user va (b # bs) k = Option.bind (vstore8 va b k) (put_user (va + 1) bs)"

fun get_user :: "u32 \<Rightarrow> nat \<Rightarrow> kernel \<Rightarrow> u8 list option" where
  "get_user va 0 k = Some []"
| "get_user va (Suc n) k =
     do { b \<leftarrow> load8 va k; bs \<leftarrow> get_user (va + 1) n k; Some (b # bs) }"

text \<open>
  The bytes of a string argument, up to its terminator or to where loading stops; a string
  function that runs off the end of such a list is \<^term>\<open>None\<close>.
\<close>

partial_function (option) user_string :: "kernel \<Rightarrow> u32 \<Rightarrow> u8 list option" where
  [code]: "user_string k va =
     (case load8 va k of None \<Rightarrow> Some []
      | Some b \<Rightarrow> if b = 0 then Some [0]
          else Option.bind (user_string k (va + 1)) (\<lambda>bs. Some (b # bs)))"

text \<open>The chunks that the program loader stores, in its order.\<close>

fun put_chunks :: "(u32 \<times> u8 list) list \<Rightarrow> kernel \<Rightarrow> kernel option" where
  "put_chunks [] k = Some k"
| "put_chunks ((va, bs) # cs) k = Option.bind (put_user va bs k) (put_chunks cs)"

section \<open>Addresses\<close>

text \<open>The kernel stack of a process ends where the control block of the process before starts.\<close>

lemma kernel_stack_pcb: "get_kernel_stack pid = create_pcb (pid - 1)"
  by (simp add: get_kernel_stack_def create_pcb_def)

lemma unat_create_pcb:
  assumes "0 \<le> pid" and "pid < 6"
  shows "unat (create_pcb pid) = 0x800000 - 0x2000 * (nat pid + 1)"
proof -
  have "pid \<in> {0, 1, 2, 3, 4, 5}" using assms by auto
  then show ?thesis by (auto simp: create_pcb_def process_consts)
qed

lemma upd_pcb_simps [simp]:
  "pcbs (upd_pcb pid f k) = (pcbs k)(pid := f (pcbs k pid))"
  "kkbd (upd_pcb pid f k) = kkbd k" "kcon (upd_pcb pid f k) = kcon k"
  "kpg (upd_pcb pid f k) = kpg k" "kpic (upd_pcb pid f k) = kpic k"
  "krtc (upd_pcb pid f k) = krtc k" "kfs (upd_pcb pid f k) = kfs k"
  "process_arr (upd_pcb pid f k) = process_arr k"
  "process_queue (upd_pcb pid f k) = process_queue k"
  "current_pid (upd_pcb pid f k) = current_pid k" "tss_esp0 (upd_pcb pid f k) = tss_esp0 k"
  "pmem (upd_pcb pid f k) = pmem k"
  by (simp_all add: upd_pcb_def)

lemma upd_fd_simps [simp]:
  "process_id (upd_fd fd f p) = process_id p" "stack_ptr (upd_fd fd f p) = stack_ptr p"
  "base_ptr (upd_fd fd f p) = base_ptr p" "sched_bp (upd_fd fd f p) = sched_bp p"
  "parent_id (upd_fd fd f p) = parent_id p" "pentry (upd_fd fd f p) = pentry p"
  "pterm_num (upd_fd fd f p) = pterm_num p" "argument (upd_fd fd f p) = argument p"
  "rtc_freq (upd_fd fd f p) = rtc_freq p" "length (fd_arr (upd_fd fd f p)) = length (fd_arr p)"
  by (simp_all add: upd_fd_def)

end
