(* ===== verification/Sched.thy ===== *)
theory Sched
  imports Process
begin

text \<open>
  The scheduler (\<^verbatim>\<open>student-distrib/schedule.c\<close>) and the timer interrupt
  (\<^verbatim>\<open>drivers/pit.c\<close>). An operation that ends in another process's context returns that
  as a \<open>flow\<close>. The values of \<^verbatim>\<open>esp\<close> and \<^verbatim>\<open>ebp\<close> that the code reads with inline assembly,
  and the byte the clock's register A reads as, are arguments.
\<close>

section \<open>The process queue\<close>

text \<open>
  How kernel code ends: it returns a value to the process that is current, enters a program
  at its entry point, resumes a process inside \<^verbatim>\<open>sched\<close> at its saved frame, or returns a
  status from the parent's \<^verbatim>\<open>execute\<close> at its saved frame. \<open>Hang\<close> is the endless loop of an
  exception in the kernel.
\<close>

datatype flow = Return int | Enter_user u32 | Resume u32 | Halt_ret u32 u32 u32 | Hang

fun available_pid_loop :: "(int \<Rightarrow> qstate) \<Rightarrow> int list \<Rightarrow> int" where
  "available_pid_loop q [] = -1"
| "available_pid_loop q (i # is) = (if q i = NOT_LOADED then i else available_pid_loop q is)"

definition get_available_pid :: "kernel \<Rightarrow> int" where
  "get_available_pid k = available_pid_loop (process_queue k) [0..PROCESS_NUM - 1]"

definition set_queue :: "int \<Rightarrow> qstate \<Rightarrow> kernel \<Rightarrow> kernel" where
  "set_queue pid v k = k\<lparr>process_queue := (process_queue k)(pid := v)\<rparr>"

definition sched_queue_process :: "int \<Rightarrow> int \<Rightarrow> bool \<Rightarrow> kernel \<Rightarrow> kernel" where
  "sched_queue_process stop_pid exec_pid remove k =
     (if stop_pid = -1 then set_queue exec_pid SCHEDULED k
      else
        let k = (if remove then set_queue stop_pid NOT_LOADED k else set_queue stop_pid LOADED k)
        in set_queue exec_pid SCHEDULED k)"

section \<open>sched\<close>

text \<open>The search loop, with the remaining values of \<^verbatim>\<open>i\<close> and the value of \<^verbatim>\<open>p\<close> so far.\<close>

fun sched_loop :: "(int \<Rightarrow> qstate) \<Rightarrow> int \<Rightarrow> int list \<Rightarrow> int \<Rightarrow> int" where
  "sched_loop q cur [] p = p"
| "sched_loop q cur (i # is) p =
     (let p = (cur + i) smod PROCESS_NUM in if q p = SCHEDULED then p else sched_loop q cur is p)"

definition sched_pick :: "(int \<Rightarrow> qstate) \<Rightarrow> int \<Rightarrow> int" where
  "sched_pick q cur = sched_loop q cur [1..PROCESS_NUM - 1] 0"

text \<open>\<^verbatim>\<open>rtc_set_freq\<close> enables interrupts after it has programmed the clock.\<close>

definition k_rtc_set_freq :: "u8 \<Rightarrow> int \<Rightarrow> kernel \<Rightarrow> int \<times> kernel" where
  "k_rtc_set_freq prev f k =
     (let (r, c) = rtc_set_freq prev f (krtc k)
      in (r, k\<lparr>krtc := c, kcon := (if r = 1 then sti (kcon k) else kcon k)\<rparr>))"

text \<open>
  The last instructions load \<^verbatim>\<open>ebp\<close> from \<^verbatim>\<open>stack_ptr\<close> and then from \<^verbatim>\<open>sched_bp\<close>, so only
  \<^verbatim>\<open>sched_bp\<close> takes effect.
\<close>

definition sched :: "u32 \<Rightarrow> u32 \<Rightarrow> u8 \<Rightarrow> kernel \<Rightarrow> flow \<times> kernel" where
  "sched esp ebp prev k =
     (let k = (if current_pid k \<noteq> -1
               then upd_pcb (current_pid k) (\<lambda>p. p\<lparr>sched_bp := ebp, stack_ptr := esp\<rparr>) k else k);
          running_pid = sched_pick (process_queue k) (current_pid k);
          k = k\<lparr>kpg := page_map_user (word_of_int running_pid) (kpg k)\<rparr>;
          k = k\<lparr>tss_esp0 := get_kernel_stack running_pid\<rparr>;
          k = k\<lparr>current_pid := running_pid\<rparr>;
          pcb = pcbs k running_pid;
          k = (if rtc_freq pcb \<noteq> -1 then snd (k_rtc_set_freq prev (rtc_freq pcb) k) else k)
      in if sched_bp pcb = 0 then (Enter_user (pentry pcb), k) else (Resume (sched_bp pcb), k))"

text \<open>The timer interrupt: acknowledge, then schedule.\<close>

definition pit_int :: "u32 \<Rightarrow> u32 \<Rightarrow> u8 \<Rightarrow> kernel \<Rightarrow> flow \<times> kernel" where
  "pit_int esp ebp prev k = sched esp ebp prev (k\<lparr>kpic := send_eoi PIT_IRQ (kpic k)\<rparr>)"

section \<open>The shells of the three terminals\<close>

definition shell_name :: "u8 list" where "shell_name = asc ''shell'' @ [0]"

text \<open>\<open>dj\<close> and \<open>ej\<close> are the uninitialised locals of \<^verbatim>\<open>program_load\<close>.\<close>

definition k_program_load ::
  "u8 list \<Rightarrow> dir_entry \<Rightarrow> u8 list \<Rightarrow> kernel \<Rightarrow> (u32 \<times> kernel) option" where
  "k_program_load cmd dj ej k =
     do { (e, chunks) \<leftarrow> program_load (kfs k) cmd dj ej;
          k \<leftarrow> put_chunks chunks k;
          Some (e, k) }"

text \<open>\<^verbatim>\<open>execute_sh\<close> up to the load of the program.\<close>

definition sh_prepare :: "int \<Rightarrow> kernel \<Rightarrow> kernel" where
  "sh_prepare tn k =
     (let k = k\<lparr>process_arr := (process_arr k)(tn := 1)\<rparr>;
          k = upd_pcb tn (\<lambda>p. p\<lparr>pterm_num := nat tn, process_id := tn,
                parent_id := -1, stack_ptr := get_kernel_stack tn,
                argument := (argument p)[0 := 0]\<rparr>) k;
          k = upd_pcb tn (\<lambda>p. set_fd_open STDIN (upd_fd STDIN (\<lambda>d. d\<lparr>fops := STDIN_OPS\<rparr>) p)) k;
          k = upd_pcb tn (\<lambda>p. set_fd_open STDOUT (upd_fd STDOUT (\<lambda>d. d\<lparr>fops := STDOUT_OPS\<rparr>) p)) k;
          k = sched_queue_process (parent_id (pcbs k tn)) (process_id (pcbs k tn)) False k;
          k = upd_pcb tn (\<lambda>p. p\<lparr>rtc_freq := -1, sched_bp := 0\<rparr>) k
      in k\<lparr>kpg := page_map_user (word_of_int tn) (kpg k)\<rparr>)"

definition execute_sh :: "int \<Rightarrow> dir_entry \<Rightarrow> u8 list \<Rightarrow> kernel \<Rightarrow> kernel option" where
  "execute_sh tn dj ej k =
     do { (e, k) \<leftarrow> k_program_load shell_name dj ej (sh_prepare tn k);
          Some (upd_pcb tn (\<lambda>p. p\<lparr>pentry := e, stack_ptr := get_kernel_stack (current_pid k)\<rparr>) k) }"

definition init_shells :: "dir_entry \<Rightarrow> u8 list \<Rightarrow> kernel \<Rightarrow> kernel option" where
  "init_shells dj ej = foldM (\<lambda>i. execute_sh i dj ej) [0..int TERM_MAX - 1]"

section \<open>The search\<close>

lemma smod_6: "0 \<le> (a :: int) \<Longrightarrow> a smod 6 = a mod 6"
  by (cases "a = 0") (simp_all add: signed_modulo_int_def)

lemma upto_1_5: "[1..5] = [1, 2, 3, 4, 5 :: int]"
  by (simp add: upto_rec1)

lemma upto_0_5: "[0..5] = [0, 1, 2, 3, 4, 5 :: int]"
  by (simp add: upto_rec1)

lemma sched_pick_unfold:
  assumes "-1 \<le> cur"
  shows "sched_pick q cur = (case find (\<lambda>i. q ((cur + i) mod 6) = SCHEDULED) [1, 2, 3, 4, 5] of
    Some i \<Rightarrow> (cur + i) mod 6 | None \<Rightarrow> (cur + 5) mod 6)"
  using assms by (simp add: sched_pick_def PROCESS_NUM_def upto_1_5 smod_6 Let_def)

lemma get_available_pid_eq:
  "get_available_pid k = (case find (\<lambda>i. process_queue k i = NOT_LOADED) [0, 1, 2, 3, 4, 5] of
    Some i \<Rightarrow> i | None \<Rightarrow> -1)"
  by (simp add: get_available_pid_def PROCESS_NUM_def upto_0_5)

text \<open>The process ids.\<close>

definition pids :: "int set" where "pids = {0..<6}"

lemma pids_eq: "pids = {0, 1, 2, 3, 4, 5}"
  by (auto simp: pids_def)

lemma in_pids: "p \<in> pids \<longleftrightarrow> 0 \<le> p \<and> p < 6"
  by (simp add: pids_def)

lemma get_available_pid_cases:
  obtains "get_available_pid k = -1" and "\<forall>i\<in>pids. process_queue k i \<noteq> NOT_LOADED"
  | "get_available_pid k \<in> pids" and "process_queue k (get_available_pid k) = NOT_LOADED"
    and "\<forall>i\<in>pids. i < get_available_pid k \<longrightarrow> process_queue k i \<noteq> NOT_LOADED"
proof -
  have "get_available_pid k = -1 \<and> (\<forall>i\<in>pids. process_queue k i \<noteq> NOT_LOADED) \<or>
     get_available_pid k \<in> pids \<and> process_queue k (get_available_pid k) = NOT_LOADED \<and>
     (\<forall>i\<in>pids. i < get_available_pid k \<longrightarrow> process_queue k i \<noteq> NOT_LOADED)"
    by (simp add: get_available_pid_eq pids_eq)
  then show ?thesis using that by blast
qed

text \<open>
  Round robin: the distance from the current process, counting upwards modulo the number of
  processes, is least for the one that is picked.
\<close>

definition rr_dist :: "int \<Rightarrow> int \<Rightarrow> int" where
  "rr_dist cur p = (p - cur - 1) mod 6"

lemma sched_pick_scheduled:
  assumes "cur \<in> pids" and "\<exists>p\<in>pids. p \<noteq> cur \<and> q p = SCHEDULED"
  defines "r \<equiv> sched_pick q cur"
  shows "r \<in> pids \<and> q r = SCHEDULED \<and> r \<noteq> cur \<and>
    (\<forall>p\<in>pids. p \<noteq> cur \<and> q p = SCHEDULED \<longrightarrow> rr_dist cur r \<le> rr_dist cur p)"
proof -
  have "cur = 0 \<or> cur = 1 \<or> cur = 2 \<or> cur = 3 \<or> cur = 4 \<or> cur = 5"
    using assms(1) by (simp add: pids_eq)
  then show ?thesis
    using assms(2) unfolding r_def pids_eq
    by (elim disjE; simp add: sched_pick_unfold rr_dist_def; blast)
qed

text \<open>With no other candidate the loop ends at the process before the current one.\<close>

lemma sched_pick_none:
  assumes "cur \<in> pids" and "\<forall>p\<in>pids. p \<noteq> cur \<longrightarrow> q p \<noteq> SCHEDULED"
  shows "sched_pick q cur = (cur + 5) mod 6"
proof -
  have "cur = 0 \<or> cur = 1 \<or> cur = 2 \<or> cur = 3 \<or> cur = 4 \<or> cur = 5"
    using assms(1) by (simp add: pids_eq)
  then show ?thesis
    using assms(2) unfolding pids_eq by (elim disjE; simp add: sched_pick_unfold)
qed

section \<open>What sched does to the state\<close>

lemma k_rtc_set_freq_simps [simp]:
  "pcbs (snd (k_rtc_set_freq prev f k)) = pcbs k" "kkbd (snd (k_rtc_set_freq prev f k)) = kkbd k"
  "kpg (snd (k_rtc_set_freq prev f k)) = kpg k" "kpic (snd (k_rtc_set_freq prev f k)) = kpic k"
  "kfs (snd (k_rtc_set_freq prev f k)) = kfs k"
  "process_arr (snd (k_rtc_set_freq prev f k)) = process_arr k"
  "process_queue (snd (k_rtc_set_freq prev f k)) = process_queue k"
  "current_pid (snd (k_rtc_set_freq prev f k)) = current_pid k"
  "tss_esp0 (snd (k_rtc_set_freq prev f k)) = tss_esp0 k"
  "pmem (snd (k_rtc_set_freq prev f k)) = pmem k"
  "terminals (kcon (snd (k_rtc_set_freq prev f k))) = terminals (kcon k)"
  "vram (kcon (snd (k_rtc_set_freq prev f k))) = vram (kcon k)"
  "display_term (kcon (snd (k_rtc_set_freq prev f k))) = display_term (kcon k)"
  "readWaiting (kcon (snd (k_rtc_set_freq prev f k))) = readWaiting (kcon k)"
  "video_mem_backup (kcon (snd (k_rtc_set_freq prev f k))) = video_mem_backup (kcon k)"
  "con_inv (kcon (snd (k_rtc_set_freq prev f k))) = con_inv (kcon k)"
  by (simp_all add: k_rtc_set_freq_def split: prod.split)

lemma sched_simps [simp]:
  "process_queue (snd (sched esp ebp prev k)) = process_queue k"
  "process_arr (snd (sched esp ebp prev k)) = process_arr k"
  "kkbd (snd (sched esp ebp prev k)) = kkbd k" "kpic (snd (sched esp ebp prev k)) = kpic k"
  "kfs (snd (sched esp ebp prev k)) = kfs k" "pmem (snd (sched esp ebp prev k)) = pmem k"
  "current_pid (snd (sched esp ebp prev k)) = sched_pick (process_queue k) (current_pid k)"
  "tss_esp0 (snd (sched esp ebp prev k)) =
     get_kernel_stack (sched_pick (process_queue k) (current_pid k))"
  "kpg (snd (sched esp ebp prev k)) =
     page_map_user (word_of_int (sched_pick (process_queue k) (current_pid k))) (kpg k)"
  "pcbs (snd (sched esp ebp prev k)) = (if current_pid k = -1 then pcbs k
     else (pcbs k)(current_pid k := (pcbs k (current_pid k))\<lparr>sched_bp := ebp, stack_ptr := esp\<rparr>))"
  "terminals (kcon (snd (sched esp ebp prev k))) = terminals (kcon k)"
  "vram (kcon (snd (sched esp ebp prev k))) = vram (kcon k)"
  "display_term (kcon (snd (sched esp ebp prev k))) = display_term (kcon k)"
  "readWaiting (kcon (snd (sched esp ebp prev k))) = readWaiting (kcon k)"
  "video_mem_backup (kcon (snd (sched esp ebp prev k))) = video_mem_backup (kcon k)"
  "con_inv (kcon (snd (sched esp ebp prev k))) = con_inv (kcon k)"
  by (simp_all add: sched_def Let_def)

lemma sched_flow:
  "current_pid k = -1 \<or> sched_pick (process_queue k) (current_pid k) \<noteq> current_pid k \<Longrightarrow>
   fst (sched esp ebp prev k) =
     (let p = pcbs k (sched_pick (process_queue k) (current_pid k))
      in if sched_bp p = 0 then Enter_user (pentry p) else Resume (sched_bp p))"
  by (auto simp: sched_def Let_def)
end
