(* ===== verification/Fileops.thy ===== *)
theory Fileops
  imports Sched
begin

text \<open>
  The operations behind file descriptors: those of the terminal, the clock, the directory and
  files on the kernel's state (\<^verbatim>\<open>drivers/fs.c\<close>, \<^verbatim>\<open>drivers/rtc.c\<close>, \<^verbatim>\<open>drivers/terminal.c\<close>) and the
  jump tables of \<^verbatim>\<open>process.c\<close>. A blocking read waits with interrupts on; what interrupts and
  other processes do until the reader runs again is the argument \<open>wait\<close> (\<^term>\<open>None\<close>: it never
  does). A result \<^term>\<open>None\<close> is a call that does not come back, or that stores outside the
  modelled memory.
\<close>

section \<open>Files and the directory\<close>

abbreviation cur_pcb :: "kernel \<Rightarrow> pcb" where
  "cur_pcb k \<equiv> pcbs k (current_pid k)"

definition advance_pos :: "int \<Rightarrow> int \<Rightarrow> kernel \<Rightarrow> kernel" where
  "advance_pos fd cnt k =
     upd_pcb (current_pid k) (upd_fd fd (\<lambda>d. d\<lparr>file_pos := file_pos d + word_of_int cnt\<rparr>)) k"

definition fs_read :: "int \<Rightarrow> u32 \<Rightarrow> u32 \<Rightarrow> kernel \<Rightarrow> (int \<times> kernel) option" where
  "fs_read fd buf count k =
     (let fdesc = fd_arr (cur_pcb k) ! nat fd in
      if buf = 0 then Some (-1, k)
      else let (cnt, bs) = read_data (kfs k) (inode fdesc) (file_pos fdesc) count in
        do { k \<leftarrow> put_user buf bs k;
             if cnt = -1 then Some (-1, k) else Some (cnt, advance_pos fd cnt k) })"

definition directory_read :: "int \<Rightarrow> u32 \<Rightarrow> u32 \<Rightarrow> kernel \<Rightarrow> (int \<times> kernel) option" where
  "directory_read fd buf count k =
     (let fdesc = fd_arr (cur_pcb k) ! nat fd in
      if buf = 0 then Some (-1, k)
      else let (cnt, bs) = read_dir_file (kfs k) (file_pos fdesc) count in
        do { k \<leftarrow> put_user buf bs k; Some (cnt, advance_pos fd cnt k) })"

text \<open>The image is read-only; opening and closing is the work of \<^verbatim>\<open>open\<close> and \<^verbatim>\<open>close\<close>.\<close>

definition fs_open :: "kernel \<Rightarrow> int \<times> kernel" where "fs_open k = (0, k)"
definition fs_close :: "kernel \<Rightarrow> int \<times> kernel" where "fs_close k = (0, k)"
definition fs_write :: "kernel \<Rightarrow> int \<times> kernel" where "fs_write k = (-1, k)"
definition directory_open :: "kernel \<Rightarrow> int \<times> kernel" where "directory_open k = (0, k)"
definition directory_close :: "kernel \<Rightarrow> int \<times> kernel" where "directory_close k = (0, k)"
definition directory_write :: "kernel \<Rightarrow> int \<times> kernel" where "directory_write k = (-1, k)"
definition bad_call :: "kernel \<Rightarrow> int \<times> kernel" where "bad_call k = (-1, k)"

lemmas fs_stubs = fs_open_def fs_close_def fs_write_def directory_open_def directory_close_def
  directory_write_def bad_call_def

section \<open>The clock\<close>

definition set_rtc_freq :: "int \<Rightarrow> kernel \<Rightarrow> kernel" where
  "set_rtc_freq f k = upd_pcb (current_pid k) (\<lambda>p. p\<lparr>rtc_freq := f\<rparr>) k"

definition rtc_open :: "u8 \<Rightarrow> kernel \<Rightarrow> int \<times> kernel" where
  "rtc_open prev k = (let (r, k) = k_rtc_set_freq prev 2 k in (0, set_rtc_freq 2 k))"

definition rtc_close :: "kernel \<Rightarrow> int \<times> kernel" where
  "rtc_close k = (0, set_rtc_freq (-1) k)"

definition rtc_write :: "u8 \<Rightarrow> u32 \<Rightarrow> kernel \<Rightarrow> (int \<times> kernel) option" where
  "rtc_write prev buf k =
     do { bs \<leftarrow> get_user buf 4 k;
          let newRate = sint (le32 bs);
          let (result, k) = k_rtc_set_freq prev newRate k;
          Some (result, if result \<noteq> -1 then set_rtc_freq newRate k else k) }"

definition set_int_flag :: "bool \<Rightarrow> kernel \<Rightarrow> kernel" where
  "set_int_flag b k = k\<lparr>krtc := (krtc k)\<lparr>rtc_int_flag := b\<rparr>\<rparr>"

definition k_rtc_read :: "(kernel \<Rightarrow> kernel option) \<Rightarrow> kernel \<Rightarrow> (int \<times> kernel) option" where
  "k_rtc_read wait k =
     do { k \<leftarrow> wait (set_int_flag False k);
          if rtc_int_flag (krtc k) then Some (0, set_int_flag False k) else None }"

section \<open>The terminal\<close>

definition terminal_read_start :: "kernel \<Rightarrow> kernel" where
  "terminal_read_start k = k\<lparr>kcon := terminal_read_begin (get_current_terminal k) (kcon k)\<rparr>"

definition terminal_read_end ::
  "nat \<Rightarrow> u32 \<Rightarrow> u32 \<Rightarrow> kernel \<Rightarrow> (int \<times> kernel) option" where
  "terminal_read_end current_term buf count k =
     (if readWaiting (kcon k) current_term then None
      else let (i, bs, c) = terminal_read_finish current_term count (kcon k) in
        do { k \<leftarrow> put_user buf bs (k\<lparr>kcon := c\<rparr>); Some (i, k) })"

definition k_terminal_read ::
  "(kernel \<Rightarrow> kernel option) \<Rightarrow> u32 \<Rightarrow> u32 \<Rightarrow> kernel \<Rightarrow> (int \<times> kernel) option" where
  "k_terminal_read wait buf count k =
     (if buf = 0 then Some (-1, k)
      else let current_term = get_current_terminal k in
        do { k \<leftarrow> wait (terminal_read_start k);
             terminal_read_end current_term buf count k })"

definition k_terminal_write :: "u32 \<Rightarrow> u32 \<Rightarrow> kernel \<Rightarrow> (int \<times> kernel) option" where
  "k_terminal_write buf count k =
     (if buf = 0 then Some (-1, k)
      else do { bs \<leftarrow> get_user buf (unat count) k;
                let (r, c) = terminal_write (get_current_terminal k) (Some bs) (kcon k);
                Some (r, k\<lparr>kcon := c\<rparr>) })"

section \<open>The jump tables\<close>

definition op_read ::
  "(kernel \<Rightarrow> kernel option) \<Rightarrow> file_ops \<Rightarrow> int \<Rightarrow> u32 \<Rightarrow> u32 \<Rightarrow> kernel \<Rightarrow> (int \<times> kernel) option" where
  "op_read wait ops fd buf nbytes k =
     (case ops of
        NO_OPS \<Rightarrow> None
      | STDIN_OPS \<Rightarrow> k_terminal_read wait buf nbytes k
      | STDOUT_OPS \<Rightarrow> Some (bad_call k)
      | RTC_OPS \<Rightarrow> k_rtc_read wait k
      | DIR_OPS \<Rightarrow> directory_read fd buf nbytes k
      | FS_OPS \<Rightarrow> fs_read fd buf nbytes k)"

definition op_write ::
  "u8 \<Rightarrow> file_ops \<Rightarrow> u32 \<Rightarrow> u32 \<Rightarrow> kernel \<Rightarrow> (int \<times> kernel) option" where
  "op_write prev ops buf nbytes k =
     (case ops of
        NO_OPS \<Rightarrow> None
      | STDIN_OPS \<Rightarrow> Some (bad_call k)
      | STDOUT_OPS \<Rightarrow> k_terminal_write buf nbytes k
      | RTC_OPS \<Rightarrow> rtc_write prev buf k
      | DIR_OPS \<Rightarrow> Some (directory_write k)
      | FS_OPS \<Rightarrow> Some (fs_write k))"

definition op_open :: "u8 \<Rightarrow> file_ops \<Rightarrow> kernel \<Rightarrow> (int \<times> kernel) option" where
  "op_open prev ops k =
     (case ops of
        NO_OPS \<Rightarrow> None
      | STDIN_OPS \<Rightarrow> Some (bad_call k)
      | STDOUT_OPS \<Rightarrow> Some (bad_call k)
      | RTC_OPS \<Rightarrow> Some (rtc_open prev k)
      | DIR_OPS \<Rightarrow> Some (directory_open k)
      | FS_OPS \<Rightarrow> Some (fs_open k))"

definition op_close :: "file_ops \<Rightarrow> kernel \<Rightarrow> (int \<times> kernel) option" where
  "op_close ops k =
     (case ops of
        NO_OPS \<Rightarrow> None
      | STDIN_OPS \<Rightarrow> Some (bad_call k)
      | STDOUT_OPS \<Rightarrow> Some (bad_call k)
      | RTC_OPS \<Rightarrow> Some (rtc_close k)
      | DIR_OPS \<Rightarrow> Some (directory_close k)
      | FS_OPS \<Rightarrow> Some (fs_close k))"

end
