(* ===== verification/Syscall.thy ===== *)
theory Syscall
  imports Fileops
begin

text \<open>
  The system calls (\<^verbatim>\<open>student-distrib/syscall.c\<close>) and their dispatch
  (\<^verbatim>\<open>interrupt_linkage.S\<close>). The inputs that are not arguments of a call, such as the values
  of registers, uninitialised locals and the clock's register, are the record \<open>inputs\<close>.
\<close>

record inputs =
  in_esp :: u32
  in_ebp :: u32
  in_prev :: u8
  in_dentry :: dir_entry
  in_entry :: "u8 list"
  in_header :: "u8 list"
  in_wait :: "kernel \<Rightarrow> kernel option"

section \<open>read, write, open, close\<close>

definition sys_read :: "inputs \<Rightarrow> int \<Rightarrow> u32 \<Rightarrow> u32 \<Rightarrow> kernel \<Rightarrow> (int \<times> kernel) option" where
  "sys_read inp fd buf nbytes k =
     (let pcb = cur_pcb k in
      if buf = 0 \<or> fd < 0 \<or> fd \<ge> MAX_NUM_FD then Some (-1, k)
      else if fd_is_open fd pcb
      then op_read (in_wait inp) (fops (fd_arr pcb ! nat fd)) fd buf nbytes k
      else Some (-1, k))"

definition sys_write :: "inputs \<Rightarrow> int \<Rightarrow> u32 \<Rightarrow> u32 \<Rightarrow> kernel \<Rightarrow> (int \<times> kernel) option" where
  "sys_write inp fd buf nbytes k =
     (let pcb = cur_pcb k in
      if buf = 0 \<or> fd < 0 \<or> fd \<ge> MAX_NUM_FD then Some (-1, k)
      else if fd_is_open fd pcb
      then op_write (in_prev inp) (fops (fd_arr pcb ! nat fd)) buf nbytes k
      else Some (-1, k))"

text \<open>The search for a closed descriptor, from the values of \<^verbatim>\<open>i\<close> that are left.\<close>

fun closed_fd :: "pcb \<Rightarrow> int list \<Rightarrow> int" where
  "closed_fd pcb [] = MAX_NUM_FD"
| "closed_fd pcb (i # is) = (if \<not> fd_is_open i pcb then i else closed_fd pcb is)"

definition ops_of_type :: "u32 \<Rightarrow> file_ops option" where
  "ops_of_type t =
     (if t = FTYPE_RTC then Some RTC_OPS
      else if t = FTYPE_DIR then Some DIR_OPS
      else if t = FTYPE_FILE then Some FS_OPS
      else None)"

definition upd_cur_fd :: "int \<Rightarrow> (file_desc \<Rightarrow> file_desc) \<Rightarrow> kernel \<Rightarrow> kernel" where
  "upd_cur_fd fd f k = upd_pcb (current_pid k) (upd_fd fd f) k"

text \<open>\<open>name\<close> is the string at the pointer; \<^term>\<open>None\<close> is the null pointer.\<close>

definition sys_open :: "inputs \<Rightarrow> u8 list option \<Rightarrow> kernel \<Rightarrow> (int \<times> kernel) option" where
  "sys_open inp name k =
     (case name of None \<Rightarrow> Some (-1, k) | Some fname \<Rightarrow>
      let i = closed_fd (cur_pcb k) [0..MAX_NUM_FD - 1] in
      if i = MAX_NUM_FD then Some (-1, k)
      else
        do { (r, dentry) \<leftarrow> read_dentry_by_name (kfs k) fname (in_dentry inp);
             if r = -1 then Some (-1, k)
             else case ops_of_type (ftype dentry) of None \<Rightarrow> Some (-1, k) | Some ops \<Rightarrow>
               do { let k = upd_cur_fd i (\<lambda>d. d\<lparr>fops := ops, inode := inode_num dentry, file_pos := 0\<rparr>) k;
                    (_, k) \<leftarrow> op_open (in_prev inp) ops k;
                    Some (i, upd_pcb (current_pid k) (set_fd_open i) k) } })"

definition sys_close :: "int \<Rightarrow> kernel \<Rightarrow> (int \<times> kernel) option" where
  "sys_close fd k =
     (if fd < 0 \<or> fd \<ge> MAX_NUM_FD \<or> fd = STDOUT \<or> fd = STDIN then Some (-1, k)
      else if \<not> fd_is_open fd (cur_pcb k) then Some (-1, k)
      else
        let k = upd_pcb (current_pid k) (set_fd_close fd) k
        in op_close (fops (fd_arr (cur_pcb k) ! nat fd)) k)"

section \<open>getargs, vidmap, signals\<close>

text \<open>The copy loop, with the bytes of the argument and of the count that are left.\<close>

fun getargs_loop :: "u8 list \<Rightarrow> int \<Rightarrow> u8 list option" where
  "getargs_loop [] n = (if n \<le> 0 then Some [] else None)"
| "getargs_loop (b # bs) n =
     (if n \<le> 0 \<or> b = 0 then Some [] else map_option (Cons b) (getargs_loop bs (n - 1)))"

definition getargs :: "u32 \<Rightarrow> int \<Rightarrow> kernel \<Rightarrow> (int \<times> kernel) option" where
  "getargs buf nbytes k =
     (let arg = argument (cur_pcb k) in
      if buf = 0 \<or> arg ! 0 = 0 then Some (-1, k)
      else
        do { bs \<leftarrow> getargs_loop arg nbytes;
             if int (length bs) = nbytes then do { k \<leftarrow> put_user buf bs k; Some (-1, k) }
             else do { k \<leftarrow> put_user buf (bs @ [0]) k; Some (0, k) } })"

definition USER_PAGE_VMIN :: u32 where "USER_PAGE_VMIN = MB_PAGE_SIZE * 32"
definition USER_PAGE_VMAX :: u32 where "USER_PAGE_VMAX = MB_PAGE_SIZE * 33 - 4"
definition USER_VMEM_VADDR :: u32 where "USER_VMEM_VADDR = push_bit 1 MB_PAGE_SIZE"

definition bytes32 :: "u32 \<Rightarrow> u8 list" where
  "bytes32 w = [ucast w, ucast (drop_bit 8 w), ucast (drop_bit 16 w), ucast (drop_bit 24 w)]"

definition vidmap :: "u32 \<Rightarrow> kernel \<Rightarrow> (int \<times> kernel) option" where
  "vidmap screen_start k =
     (let tn = pterm_num (cur_pcb k) in
      if screen_start = 0 then Some (-1, k)
      else if screen_start < USER_PAGE_VMIN \<or> screen_start \<ge> USER_PAGE_VMAX then Some (-1, k)
      else do { k \<leftarrow> put_user screen_start
                    (bytes32 (USER_VMEM_VADDR + push_bit 12 (term_vid_addr tn))) k;
                Some (0, k) })"

definition set_handler :: "kernel \<Rightarrow> int \<times> kernel" where "set_handler k = (-1, k)"
definition sigreturn :: "kernel \<Rightarrow> int \<times> kernel" where "sigreturn k = (-1, k)"

section \<open>execute\<close>

text \<open>The three scanning loops over the command; \<^term>\<open>None\<close>: past the end of the string.\<close>

fun skip_spaces :: "u8 list \<Rightarrow> u8 list option" where
  "skip_spaces [] = None"
| "skip_spaces (c # cs) = (if c = 32 then skip_spaces cs else Some (c # cs))"

fun copy_word :: "u8 list \<Rightarrow> (u8 list \<times> u8 list) option" where
  "copy_word [] = None"
| "copy_word (c # cs) =
     (if c \<noteq> 32 \<and> c \<noteq> 0 then map_option (\<lambda>(w, r). (c # w, r)) (copy_word cs) else Some ([], c # cs))"

fun copy_rest :: "u8 list \<Rightarrow> u8 list option" where
  "copy_rest [] = None"
| "copy_rest (c # cs) = (if c \<noteq> 0 then map_option (Cons c) (copy_rest cs) else Some [])"

text \<open>
  The program name and the argument, each stored with its terminator in a local of
  \<open>KB_BUF_SIZE + 1\<close> and a field of \<open>MAX_ARGS\<close> bytes without a bounds check.
\<close>

definition parse_command :: "u8 list \<Rightarrow> (u8 list \<times> u8 list) option" where
  "parse_command command =
     do { cs \<leftarrow> skip_spaces command;
          (w, cs) \<leftarrow> copy_word cs;
          cs \<leftarrow> skip_spaces cs;
          a \<leftarrow> copy_rest cs;
          if length w + 1 \<le> KB_BUF_SIZE + 1 \<and> length a + 1 \<le> MAX_ARGS
          then Some (w @ [0], a @ [0]) else None }"

definition init_stdio :: "pcb \<Rightarrow> pcb" where
  "init_stdio p =
     set_fd_open STDOUT (upd_fd STDOUT (\<lambda>d. d\<lparr>fops := STDOUT_OPS\<rparr>)
       (set_fd_open STDIN (upd_fd STDIN (\<lambda>d. d\<lparr>fops := STDIN_OPS\<rparr>) p)))"

text \<open>The new process from the check of the file to the load, and from there to the scheduler.\<close>

definition exec_prepare :: "int \<Rightarrow> kernel \<Rightarrow> kernel" where
  "exec_prepare p k =
     (let k = k\<lparr>process_arr := (process_arr k)(p := 1)\<rparr>;
          k = upd_pcb p (\<lambda>q. q\<lparr>process_id := p\<rparr>) k
      in k\<lparr>kpg := page_map_user (word_of_int p) (kpg k)\<rparr>)"

definition exec_commit :: "inputs \<Rightarrow> int \<Rightarrow> int \<Rightarrow> u32 \<Rightarrow> kernel \<Rightarrow> kernel" where
  "exec_commit inp p parent_pid entry k =
     (let k = upd_pcb p (\<lambda>q. q\<lparr>parent_id := parent_pid\<rparr>) k;
          k = upd_pcb p init_stdio k;
          k = upd_pcb p (\<lambda>q. q\<lparr>pentry := entry, sched_bp := 0\<rparr>) k;
          k = sched_queue_process (parent_id (pcbs k p)) (process_id (pcbs k p)) False k;
          k = upd_pcb p (\<lambda>q. q\<lparr>rtc_freq := -1\<rparr>) k;
          k = upd_pcb p (\<lambda>q. q\<lparr>base_ptr := in_ebp inp, stack_ptr := in_esp inp\<rparr>) k
      in k\<lparr>tss_esp0 := get_kernel_stack (current_pid k)\<rparr>)"

definition execute :: "inputs \<Rightarrow> u8 list option \<Rightarrow> kernel \<Rightarrow> (flow \<times> kernel) option" where
  "execute inp command k =
     (let parent_pid = current_pid k; p = get_available_pid k in
      if p = -1 then Some (Return (-1), k)
      else
        let k = upd_pcb p (\<lambda>q. q\<lparr>pterm_num :=
              (if parent_pid = -1 then nat p else pterm_num (pcbs k parent_pid))\<rparr>) k in
        case command of None \<Rightarrow> Some (Return (-1), k) | Some cmd \<Rightarrow>
          do { (program, arg) \<leftarrow> parse_command cmd;
               let k = upd_pcb p (\<lambda>q. q\<lparr>argument := overlay arg (argument q)\<rparr>) k;
               v \<leftarrow> program_valid (kfs k) program (in_dentry inp) (in_header inp);
               if v = 0 then Some (Return (-1), k)
               else
                 do { (e, k) \<leftarrow> k_program_load program (in_dentry inp) (in_entry inp) (exec_prepare p k);
                      Some (sched (in_esp inp) (in_ebp inp) (in_prev inp)
                        (exec_commit inp p parent_pid e k)) } })"

section \<open>halt\<close>

definition close_fds :: "int \<Rightarrow> kernel \<Rightarrow> kernel option" where
  "close_fds pid = foldM (\<lambda>i k.
     if i \<noteq> STDIN \<and> i \<noteq> STDOUT then map_option snd (sys_close i k)
     else Some (upd_pcb pid (set_fd_close i) k)) [0..MAX_NUM_FD - 1]"

definition halt32 :: "inputs \<Rightarrow> u32 \<Rightarrow> kernel \<Rightarrow> (flow \<times> kernel) option" where
  "halt32 inp status k =
     (let pid = current_pid k;
          k = k\<lparr>process_arr := (process_arr k)(pid := 0)\<rparr> in
      if parent_id (pcbs k pid) = -1 then
        do { let k = k\<lparr>current_pid := int (pterm_num (pcbs k pid))\<rparr>;
             (e, k) \<leftarrow> k_program_load shell_name (in_dentry inp) (in_entry inp) k;
             let k = upd_pcb pid (\<lambda>p. p\<lparr>pentry := e\<rparr>) k;
             Some (Enter_user e, k) }
      else
        do { let k = k\<lparr>kcon := cli (kcon k)\<rparr>;
             k \<leftarrow> close_fds pid k;
             let old_pid = current_pid k;
             let k = k\<lparr>current_pid := parent_id (pcbs k pid)\<rparr>;
             let k = k\<lparr>tss_esp0 := get_kernel_stack (current_pid k)\<rparr>;
             let esp = stack_ptr (pcbs k pid);
             let ebp = base_ptr (pcbs k pid);
             let k = sched_queue_process old_pid (process_id (pcbs k (current_pid k))) True k;
             let k = k\<lparr>kpg := page_map_user (word_of_int (current_pid k)) (kpg k)\<rparr>;
             Some (Halt_ret esp ebp status, k\<lparr>kcon := sti (kcon k)\<rparr>) })"

definition halt :: "inputs \<Rightarrow> u8 \<Rightarrow> kernel \<Rightarrow> (flow \<times> kernel) option" where
  "halt inp status = halt32 inp (ucast status)"

section \<open>Dispatch\<close>

definition ret :: "(int \<times> kernel) option \<Rightarrow> (flow \<times> kernel) option" where
  "ret = map_option (\<lambda>(r, k). (Return r, k))"

definition str_arg :: "kernel \<Rightarrow> u32 \<Rightarrow> u8 list option option" where
  "str_arg k p = (if p = 0 then Some None else map_option Some (user_string k p))"

definition NUM_SYSCALLS :: int where "NUM_SYSCALLS = 10"

text \<open>
  The number is compared as a signed value; the arguments are \<^verbatim>\<open>ebx\<close>, \<^verbatim>\<open>ecx\<close>, \<^verbatim>\<open>edx\<close>.
\<close>

definition do_syscall ::
  "inputs \<Rightarrow> u32 \<Rightarrow> u32 \<Rightarrow> u32 \<Rightarrow> u32 \<Rightarrow> kernel \<Rightarrow> (flow \<times> kernel) option" where
  "do_syscall inp eax ebx ecx edx k =
     (let n = sint eax in
      if n < 1 then Some (Return (-1), k)
      else if n > NUM_SYSCALLS then Some (Return (-1), k)
      else if n = 1 then halt inp (ucast ebx) k
      else if n = 2 then Option.bind (str_arg k ebx) (\<lambda>s. execute inp s k)
      else if n = 3 then ret (sys_read inp (sint ebx) ecx edx k)
      else if n = 4 then ret (sys_write inp (sint ebx) ecx edx k)
      else if n = 5 then ret (Option.bind (str_arg k ebx) (\<lambda>s. sys_open inp s k))
      else if n = 6 then ret (sys_close (sint ebx) k)
      else if n = 7 then ret (getargs ebx (sint ecx) k)
      else if n = 8 then ret (vidmap ebx k)
      else if n = 9 then ret (Some (set_handler k))
      else ret (Some (sigreturn k)))"

end
