(* ===== verification/ProcInv.thy ===== *)
theory ProcInv
  imports Syscall
begin

text \<open>
  The structure of the processes as a contract of its own, over the queue, the parent,
  terminal and identity of each process and the current process: three base shells, chains
  of waiting parents above them, exactly one runnable process per terminal. \<open>tree_inv\<close> is
  stated over these functions only; the kernel's operations refine its four transitions.
\<close>

section \<open>The process tree\<close>

definition loaded :: "(int \<Rightarrow> qstate) \<Rightarrow> int \<Rightarrow> bool" where
  "loaded q p \<longleftrightarrow> p \<in> pids \<and> q p \<noteq> NOT_LOADED"

definition child :: "(int \<Rightarrow> qstate) \<Rightarrow> int \<Rightarrow> bool" where
  "child q p \<longleftrightarrow> loaded q p \<and> 3 \<le> p"

definition tree_inv ::
  "(int \<Rightarrow> qstate) \<Rightarrow> (int \<Rightarrow> int) \<Rightarrow> (int \<Rightarrow> nat) \<Rightarrow> (int \<Rightarrow> int) \<Rightarrow> int \<Rightarrow> bool" where
  "tree_inv q par tm ident cur \<longleftrightarrow>
     (\<forall>t\<in>{0, 1, 2}. q t \<noteq> NOT_LOADED \<and> par t = -1 \<and> tm t = nat t) \<and>
     (\<forall>p. loaded q p \<longrightarrow> ident p = p \<and> tm p < 3) \<and>
     (\<forall>p. child q p \<longrightarrow> par p \<in> pids \<and> q (par p) = LOADED \<and> tm p = tm (par p)) \<and>
     (\<forall>p p'. child q p \<and> child q p' \<and> par p = par p' \<longrightarrow> p = p') \<and>
     (\<forall>p\<in>pids. q p = LOADED \<longrightarrow> (\<exists>c. child q c \<and> par c = p)) \<and>
     cur \<in> pids \<and> q cur = SCHEDULED"

lemma tree_invD:
  assumes "tree_inv q par tm ident cur"
  shows "t \<in> {0, 1, 2} \<Longrightarrow> q t \<noteq> NOT_LOADED" "t \<in> {0, 1, 2} \<Longrightarrow> par t = -1"
    "t \<in> {0, 1, 2} \<Longrightarrow> tm t = nat t"
    and "loaded q p \<Longrightarrow> ident p = p" "loaded q p \<Longrightarrow> tm p < 3"
    and "child q p \<Longrightarrow> par p \<in> pids" "child q p \<Longrightarrow> q (par p) = LOADED"
    "child q p \<Longrightarrow> tm p = tm (par p)"
    and "child q p \<Longrightarrow> child q p' \<Longrightarrow> par p = par p' \<Longrightarrow> p = p'"
    and "p \<in> pids \<Longrightarrow> q p = LOADED \<Longrightarrow> \<exists>c. child q c \<and> par c = p"
    and "cur \<in> pids" "q cur = SCHEDULED"
  using assms unfolding tree_inv_def by blast+

lemma loaded_cases: "p \<in> pids \<Longrightarrow> loaded q p \<Longrightarrow> p \<in> {0, 1, 2} \<or> child q p"
  by (auto simp: pids_def child_def)

text \<open>A process starts: the parent waits for it in the same terminal.\<close>

lemma tree_inv_exec:
  assumes inv: "tree_inv q par tm ident cur" and p: "p \<in> pids" "q p = NOT_LOADED"
    and cur': "cur' \<in> pids" "(q(cur := LOADED, p := SCHEDULED)) cur' = SCHEDULED"
  shows "tree_inv (q(cur := LOADED, p := SCHEDULED)) (par(p := cur)) (tm(p := tm cur))
    (ident(p := p)) cur'"
proof -
  note D = tree_invD [OF inv]
  let ?q = "q(cur := LOADED, p := SCHEDULED)"
  have p3: "p \<notin> {0, 1, 2}" using D(1) [of p] p(2) by blast
  then have p3': "3 \<le> p" using p(1) by (auto simp: pids_def)
  have ne: "p \<noteq> cur" using p D(12) by auto
  have lq: "loaded ?q x \<longleftrightarrow> loaded q x \<or> x = p" for x
    using p D(11,12) by (auto simp: loaded_def)
  have cq: "child ?q x \<longleftrightarrow> child q x \<or> x = p" for x
    using lq p3' by (auto simp: child_def)
  have np: "\<not> loaded q p" "\<not> child q p" using p by (auto simp: loaded_def child_def)
  have lc: "loaded q cur" using D(11,12) by (simp add: loaded_def)
  have curL: "\<not> (child q x \<and> par x = cur)" for x using D(7) [of x] D(12) by auto
  have parp: "par x \<noteq> p" if "child q x" for x using D(7) [OF that] p by auto
  have 1: "\<forall>t\<in>{0, 1, 2}. ?q t \<noteq> NOT_LOADED \<and> (par(p := cur)) t = -1 \<and> (tm(p := tm cur)) t = nat t"
    using D(1-3) p3 by auto
  have 2: "\<forall>x. loaded ?q x \<longrightarrow> (ident(p := p)) x = x \<and> (tm(p := tm cur)) x < 3"
    using D(4,5) lc by (auto simp: lq)
  have 3: "\<forall>x. child ?q x \<longrightarrow> (par(p := cur)) x \<in> pids \<and> ?q ((par(p := cur)) x) = LOADED \<and>
      (tm(p := tm cur)) x = (tm(p := tm cur)) ((par(p := cur)) x)"
    using D(6-8) D(11) np parp ne by (auto simp: cq)
  have 4: "\<forall>x x'. child ?q x \<and> child ?q x' \<and> (par(p := cur)) x = (par(p := cur)) x' \<longrightarrow> x = x'"
    using D(9) curL np by (auto simp: cq split: if_splits)
  have 5: "\<forall>x\<in>pids. ?q x = LOADED \<longrightarrow> (\<exists>c. child ?q c \<and> (par(p := cur)) c = x)"
  proof (intro ballI impI)
    fix x assume x: "x \<in> pids" "?q x = LOADED"
    show "\<exists>c. child ?q c \<and> (par(p := cur)) c = x"
    proof (cases "x = cur")
      case False
      then have "q x = LOADED" using x(2) by (auto split: if_splits)
      with D(10) [OF x(1)] obtain c where "child q c" "par c = x" by blast
      then show ?thesis using np by (intro exI [of _ c]) (auto simp: cq)
    qed (auto simp: cq)
  qed
  show ?thesis unfolding tree_inv_def using 1 2 3 4 5 cur' by blast
qed

text \<open>The current process ends: its parent runs again.\<close>

lemma tree_inv_halt:
  assumes inv: "tree_inv q par tm ident cur" and c: "par cur \<noteq> -1"
  shows "tree_inv (q(cur := NOT_LOADED, par cur := SCHEDULED)) par tm ident (par cur)"
proof -
  note D = tree_invD [OF inv]
  let ?q = "q(cur := NOT_LOADED, par cur := SCHEDULED)"
  have lc: "loaded q cur" using D(11,12) by (simp add: loaded_def)
  then have cc: "child q cur" using loaded_cases [OF D(11) lc] c D(2) by auto
  then have pc: "par cur \<in> pids" "q (par cur) = LOADED" using D by auto
  have ne: "par cur \<noteq> cur" using pc D(12) by auto
  have lq: "loaded ?q x \<longleftrightarrow> loaded q x \<and> x \<noteq> cur" for x
    using pc ne by (auto simp: loaded_def)
  have cq: "child ?q x \<longleftrightarrow> child q x \<and> x \<noteq> cur" for x
    using lq by (auto simp: child_def)
  have curL: "\<not> (child q x \<and> par x = cur)" for x using D(7) [of x] D(12) by auto
  have inj: "par x = par cur \<Longrightarrow> child q x \<Longrightarrow> x = cur" for x using D(9) cc by blast
  have 1: "\<forall>t\<in>{0, 1, 2}. ?q t \<noteq> NOT_LOADED \<and> par t = -1 \<and> tm t = nat t"
    using D(1-3) cc by (auto simp: child_def)
  have 3: "\<forall>x. child ?q x \<longrightarrow> par x \<in> pids \<and> ?q (par x) = LOADED \<and> tm x = tm (par x)"
    using D(6-8) curL inj by (auto simp: cq)
  have 5: "\<forall>x\<in>pids. ?q x = LOADED \<longrightarrow> (\<exists>c. child ?q c \<and> par c = x)"
  proof (intro ballI impI)
    fix x assume x: "x \<in> pids" "?q x = LOADED"
    then have "q x = LOADED" "x \<noteq> par cur" by (auto split: if_splits)
    with D(10) [OF x(1)] obtain c where "child q c" "par c = x" by blast
    then show "\<exists>c. child ?q c \<and> par c = x" using \<open>x \<noteq> par cur\<close> by (intro exI [of _ c]) (auto simp: cq)
  qed
  show ?thesis
    unfolding tree_inv_def using 1 3 5 D(4,5,9) pc by (auto simp: lq cq)
qed

text \<open>Another runnable process becomes current.\<close>

lemma tree_inv_switch:
  "tree_inv q par tm ident cur \<Longrightarrow> c \<in> pids \<Longrightarrow> q c = SCHEDULED \<Longrightarrow> tree_inv q par tm ident c"
  by (simp add: tree_inv_def)

text \<open>The data of a process that is not loaded does not matter.\<close>

lemma tree_inv_cong:
  assumes "tree_inv q par tm ident cur"
    and "\<And>p. loaded q p \<Longrightarrow> par' p = par p \<and> tm' p = tm p \<and> ident' p = ident p"
  shows "tree_inv q par' tm' ident' cur"
proof -
  note D = tree_invD [OF assms(1)]
  have l: "loaded q t" if "t \<in> {0, 1, 2}" for t
    using D(1) [OF that] that by (auto simp: loaded_def pids_def)
  have c: "child q p \<Longrightarrow> loaded q p" for p by (simp add: child_def)
  have pl: "child q p \<Longrightarrow> loaded q (par p)" for p
    using D(6,7) [of p] by (simp add: loaded_def)
  have 1: "\<forall>t\<in>{0, 1, 2}. q t \<noteq> NOT_LOADED \<and> par' t = -1 \<and> tm' t = nat t"
    using D(1-3) assms(2) l by simp
  have 2: "\<forall>p. loaded q p \<longrightarrow> ident' p = p \<and> tm' p < 3" using D(4,5) assms(2) by simp
  have 3: "\<forall>p. child q p \<longrightarrow> par' p \<in> pids \<and> q (par' p) = LOADED \<and> tm' p = tm' (par' p)"
    using D(6-8) assms(2) c pl by simp
  have 4: "\<forall>p p'. child q p \<and> child q p' \<and> par' p = par' p' \<longrightarrow> p = p'"
    using D(9) assms(2) c by metis
  have 5: "\<forall>p\<in>pids. q p = LOADED \<longrightarrow> (\<exists>x. child q x \<and> par' x = p)"
    using D(10) assms(2) c by metis
  show ?thesis unfolding tree_inv_def using 1 2 3 4 5 D(11,12) by blast
qed

text \<open>
  Counting along the parent map: within a terminal the children correspond one to one to
  the waiting processes, so one process is left to run.
\<close>

lemma one_scheduled:
  assumes inv: "tree_inv q par tm ident cur" and t: "t < 3"
  shows "\<exists>!p. p \<in> pids \<and> q p = SCHEDULED \<and> tm p = t"
proof -
  note D = tree_invD [OF inv]
  define A where "A = {p. loaded q p \<and> tm p = t}"
  define B where "B = {p. child q p \<and> tm p = t}"
  define C where "C = {p \<in> pids. q p = LOADED \<and> tm p = t}"
  define S where "S = {p \<in> pids. q p = SCHEDULED \<and> tm p = t}"
  have fin: "finite A" "finite B" "finite C" "finite S"
    by (rule finite_subset [of _ pids], auto simp: A_def B_def C_def S_def child_def loaded_def pids_def)+
  have "bij_betw par B C"
    unfolding bij_betw_def
  proof
    show "inj_on par B" using D(9) by (auto simp: B_def inj_on_def)
    show "par ` B = C"
    proof
      show "par ` B \<subseteq> C" using D(6-8) by (auto simp: B_def C_def)
      show "C \<subseteq> par ` B"
      proof
        fix x assume "x \<in> C"
        then have x: "x \<in> pids" "q x = LOADED" "tm x = t" by (auto simp: C_def)
        with D(10) obtain c where "child q c" "par c = x" by blast
        then show "x \<in> par ` B" using D(8) [of c] x(3) by (auto simp: B_def)
      qed
    qed
  qed
  then have BC: "card B = card C" by (rule bij_betw_same_card)
  have it: "int t \<in> {0, 1, 2}" using t by auto
  have "A = insert (int t) B"
  proof
    show "insert (int t) B \<subseteq> A"
      using D(1) [OF it] D(3) [OF it] it by (auto simp: A_def B_def child_def loaded_def pids_def)
    show "A \<subseteq> insert (int t) B"
    proof
      fix x assume "x \<in> A"
      then have x: "loaded q x" "tm x = t" by (auto simp: A_def)
      then have "x \<in> {0, 1, 2} \<or> child q x" using loaded_cases by (auto simp: loaded_def)
      then show "x \<in> insert (int t) B" using x D(3) [of x] by (auto simp: B_def)
    qed
  qed
  moreover have "int t \<notin> B" using t by (auto simp: B_def child_def)
  ultimately have A1: "card A = Suc (card B)" using fin(2) by simp
  have "q x \<noteq> NOT_LOADED \<longleftrightarrow> q x = LOADED \<or> q x = SCHEDULED" for x by (cases "q x") auto
  then have "A = C \<union> S" "C \<inter> S = {}" by (auto simp: A_def C_def S_def loaded_def)
  then have "card A = card C + card S" using fin card_Un_disjoint by metis
  with A1 BC have "card S = 1" by simp
  then obtain p where "S = {p}" by (auto simp: card_1_singleton_iff)
  then show ?thesis by (auto simp: S_def set_eq_iff)
qed

end
