(* ===== verification/KernelInv.thy ===== *)
theory KernelInv
  imports ProcInv
begin

text \<open>
  The invariant of the whole kernel and its preservation by the scheduler, every system call,
  the timer and the keyboard interrupt. The file operations are used through the contract
  \<open>file_driver\<close>.
\<close>

section \<open>The invariant\<close>

text \<open>
  The descriptors of a loaded process: 0 and 1 are the terminal's, an open one above them has
  a driver. A process that is not loaded has none open.
\<close>

definition desc_ok :: "bool \<Rightarrow> nat \<Rightarrow> file_desc \<Rightarrow> bool" where
  "desc_ok l i d \<longleftrightarrow>
     (if \<not> l then fflags d \<noteq> FDFLAG_OPEN
      else if i = 0 then fflags d = FDFLAG_OPEN \<and> fops d = STDIN_OPS
      else if i = 1 then fflags d = FDFLAG_OPEN \<and> fops d = STDOUT_OPS
      else fflags d = FDFLAG_OPEN \<longrightarrow> fops d \<in> {RTC_OPS, DIR_OPS, FS_OPS})"

definition fds_ok :: "bool \<Rightarrow> pcb \<Rightarrow> bool" where
  "fds_ok l p \<longleftrightarrow> length (fd_arr p) = 8 \<and> length (argument p) = MAX_ARGS \<and>
     (\<forall>i<8. desc_ok l i (fd_arr p ! i))"

definition tree_of :: "kernel \<Rightarrow> bool" where
  "tree_of k \<longleftrightarrow> tree_inv (process_queue k) (\<lambda>p. parent_id (pcbs k p)) (\<lambda>p. pterm_num (pcbs k p))
     (\<lambda>p. process_id (pcbs k p)) (current_pid k)"

text \<open>The context of the current process: its kernel stack and its program page.\<close>

definition ctx_ok :: "kernel \<Rightarrow> bool" where
  "ctx_ok k \<longleftrightarrow> tss_esp0 k = get_kernel_stack (current_pid k) \<and>
     drop_bit 22 (page_dir (kpg k) 32) = word_of_int (current_pid k + 2)"

definition kinv :: "kernel \<Rightarrow> bool" where
  "kinv k \<longleftrightarrow> kb_ok (kkbd k, kcon k, kpg k, kpic k) \<and> tree_of k \<and>
     (\<forall>p\<in>pids. fds_ok (process_queue k p \<noteq> NOT_LOADED) (pcbs k p)) \<and> ctx_ok k"

lemma kinvD:
  assumes "kinv k"
  shows "con_inv (kcon k)" "pg_inv (kpg k)" "kbd_inv (kkbd k)"
    "video_mapped (display_term (kcon k)) (kpg k)" "tree_of k" "ctx_ok k"
    "p \<in> pids \<Longrightarrow> fds_ok (process_queue k p \<noteq> NOT_LOADED) (pcbs k p)"
    "current_pid k \<in> pids" "process_queue k (current_pid k) = SCHEDULED"
  using assms tree_invD(11,12) by (auto simp: kinv_def kb_ok_def tree_of_def)

lemma kinvD_cur:
  assumes "kinv k"
  shows "fds_ok True (cur_pcb k)" and "0 \<le> current_pid k" and "current_pid k < 6"
    and "current_pid k \<noteq> -1" and "get_current_terminal k = pterm_num (cur_pcb k)"
    and "pterm_num (cur_pcb k) < 3" and "process_id (cur_pcb k) = current_pid k"
proof -
  have c: "current_pid k \<in> pids" "process_queue k (current_pid k) = SCHEDULED"
    using kinvD [OF assms] by auto
  then show "fds_ok True (cur_pcb k)" using kinvD(7) [OF assms, of "current_pid k"] by simp
  show "0 \<le> current_pid k" "current_pid k < 6" "current_pid k \<noteq> -1" using c by (auto simp: in_pids)
  then show "get_current_terminal k = pterm_num (cur_pcb k)" by (simp add: get_current_terminal_def)
  show "pterm_num (cur_pcb k) < 3" "process_id (cur_pcb k) = current_pid k"
    using tree_invD(4,5) [OF kinvD(5) [OF assms, unfolded tree_of_def], of "current_pid k"] c
    by (simp_all add: loaded_def)
qed

section \<open>Stores through user pointers\<close>

text \<open>Nothing but program memory and the contents of the video pages differs.\<close>

definition mem_only :: "kernel \<Rightarrow> kernel \<Rightarrow> bool" where
  "mem_only k k' \<longleftrightarrow> (\<exists>v m. k' = k\<lparr>kcon := (kcon k)\<lparr>vram := v\<rparr>, pmem := m\<rparr>)"

lemma mem_only_eqs:
  assumes "mem_only k k'"
  shows "pcbs k' = pcbs k" "process_queue k' = process_queue k" "process_arr k' = process_arr k"
    "current_pid k' = current_pid k" "kpg k' = kpg k" "tss_esp0 k' = tss_esp0 k" "kfs k' = kfs k"
    "kkbd k' = kkbd k" "krtc k' = krtc k" "kpic k' = kpic k"
    "terminals (kcon k') = terminals (kcon k)" "display_term (kcon k') = display_term (kcon k)"
    "readWaiting (kcon k') = readWaiting (kcon k)" "iflag (kcon k') = iflag (kcon k)"
    "video_mem_backup (kcon k') = video_mem_backup (kcon k)"
  using assms by (auto simp: mem_only_def)

lemma mem_only_refl [simp]: "mem_only k k"
  unfolding mem_only_def by (rule exI [of _ "vram (kcon k)"], rule exI [of _ "pmem k"]) simp

lemma mem_only_trans:
  assumes "mem_only a b" and "mem_only b c" shows "mem_only a c"
proof -
  obtain v m where "b = a\<lparr>kcon := (kcon a)\<lparr>vram := v\<rparr>, pmem := m\<rparr>"
    using assms(1) unfolding mem_only_def by blast
  moreover obtain v' m' where "c = b\<lparr>kcon := (kcon b)\<lparr>vram := v'\<rparr>, pmem := m'\<rparr>"
    using assms(2) unfolding mem_only_def by blast
  ultimately have "c = a\<lparr>kcon := (kcon a)\<lparr>vram := v'\<rparr>, pmem := m'\<rparr>" by simp
  then show ?thesis unfolding mem_only_def by blast
qed

lemma phys_store_mem_only: "phys_store a v k = Some k' \<Longrightarrow> mem_only k k'"
proof -
  assume "phys_store a v k = Some k'"
  then consider "k' = k\<lparr>kcon := store8 (uint a) v (kcon k)\<rparr>" | "k' = k\<lparr>pmem := (pmem k)(a := v)\<rparr>"
    by (auto simp: phys_store_def split: if_splits)
  then show ?thesis
  proof cases
    case 1
    then show ?thesis
      unfolding mem_only_def store8_def by (intro exI [of _ "(vram (kcon k))(uint a := v)"] exI [of _ "pmem k"]) simp
  next
    case 2
    then show ?thesis
      unfolding mem_only_def by (intro exI [of _ "vram (kcon k)"] exI [of _ "(pmem k)(a := v)"]) simp
  qed
qed

lemma vstore8_mem_only: "vstore8 va v k = Some k' \<Longrightarrow> mem_only k k'"
  by (auto simp: vstore8_def bind_eq_Some_conv intro: phys_store_mem_only)

lemma put_user_mem_only: "put_user va bs k = Some k' \<Longrightarrow> mem_only k k'"
proof (induction bs arbitrary: va k)
  case (Cons b bs)
  then obtain k1 where "vstore8 va b k = Some k1" "put_user (va + 1) bs k1 = Some k'"
    by (auto simp: bind_eq_Some_conv)
  then show ?case using vstore8_mem_only mem_only_trans Cons.IH by blast
qed simp

lemma put_chunks_mem_only: "put_chunks cs k = Some k' \<Longrightarrow> mem_only k k'"
proof (induction cs arbitrary: k)
  case (Cons c cs)
  obtain va bs where c: "c = (va, bs)" by fastforce
  with Cons.prems obtain k1 where "put_user va bs k = Some k1" "put_chunks cs k1 = Some k'"
    by (auto simp: bind_eq_Some_conv)
  then show ?case using put_user_mem_only mem_only_trans Cons.IH by blast
qed simp

lemma k_program_load_mem_only: "k_program_load cmd dj ej k = Some (e, k') \<Longrightarrow> mem_only k k'"
  by (auto simp: k_program_load_def bind_eq_Some_conv intro: put_chunks_mem_only)

lemma con_inv_vram [simp]: "con_inv (c\<lparr>vram := v\<rparr>) = con_inv c"
  by (simp add: con_inv_def)

lemma kinv_mem_only:
  assumes "mem_only k k'" and "kinv k"
  shows "kinv k'"
proof -
  obtain v m where "k' = k\<lparr>kcon := (kcon k)\<lparr>vram := v\<rparr>, pmem := m\<rparr>"
    using assms(1) by (auto simp: mem_only_def)
  then show ?thesis using assms(2) by (simp add: kinv_def kb_ok_def tree_of_def ctx_ok_def)
qed

section \<open>Updates that keep the invariant\<close>

lemma kinv_upd_pcb:
  assumes "kinv k" and "pid \<in> pids"
    and "parent_id (f (pcbs k pid)) = parent_id (pcbs k pid)"
    and "pterm_num (f (pcbs k pid)) = pterm_num (pcbs k pid)"
    and "process_id (f (pcbs k pid)) = process_id (pcbs k pid)"
    and "fds_ok (process_queue k pid \<noteq> NOT_LOADED) (f (pcbs k pid))"
  shows "kinv (upd_pcb pid f k)"
proof -
  have e: "(\<lambda>p. parent_id (((pcbs k)(pid := f (pcbs k pid))) p)) = (\<lambda>p. parent_id (pcbs k p))"
    "(\<lambda>p. pterm_num (((pcbs k)(pid := f (pcbs k pid))) p)) = (\<lambda>p. pterm_num (pcbs k p))"
    "(\<lambda>p. process_id (((pcbs k)(pid := f (pcbs k pid))) p)) = (\<lambda>p. process_id (pcbs k p))"
    using assms(3-5) by (auto simp: fun_eq_iff)
  show ?thesis
    using assms(1,2,6) by (auto simp: kinv_def tree_of_def ctx_ok_def e simp del: fun_upd_apply)
      (auto simp: fun_upd_apply)
qed

lemma kinv_con:
  assumes "kinv k" and "con_inv c" and "display_term c = display_term (kcon k)"
  shows "kinv (k\<lparr>kcon := c\<rparr>)"
  using assms by (simp add: kinv_def kb_ok_def tree_of_def ctx_ok_def)

lemma kinv_rtc: "kinv k \<Longrightarrow> kinv (k\<lparr>krtc := c\<rparr>)"
  by (simp add: kinv_def tree_of_def ctx_ok_def)

lemma kinv_pic: "kinv k \<Longrightarrow> kinv (k\<lparr>kpic := c\<rparr>)"
  by (simp add: kinv_def kb_ok_def tree_of_def ctx_ok_def)

lemma kinv_arr: "kinv k \<Longrightarrow> kinv (k\<lparr>process_arr := c\<rparr>)"
  by (simp add: kinv_def tree_of_def ctx_ok_def)

lemma kinv_rtc_set_freq: "kinv k \<Longrightarrow> kinv (snd (k_rtc_set_freq prev f k))"
proof -
  assume k: "kinv k"
  have "kinv (k\<lparr>krtc := c, kcon := d\<rparr>)" if "d = kcon k \<or> d = sti (kcon k)" for c d
    using kinv_con [OF kinv_rtc [OF k], of d c] that kinvD(1) [OF k] by auto
  then show ?thesis by (simp add: k_rtc_set_freq_def split: prod.split)
qed

text \<open>A descriptor of the current process changes, without becoming or ceasing to be open.\<close>

lemma fds_ok_upd_fd:
  assumes "fds_ok l p" and "\<And>d. desc_ok l (nat fd) d \<Longrightarrow> desc_ok l (nat fd) (f d)"
  shows "fds_ok l (upd_fd fd f p)"
proof -
  have "desc_ok l i ((fd_arr p)[nat fd := f (fd_arr p ! nat fd)] ! i)" if "i < 8" for i
    using assms that by (cases "i = nat fd") (auto simp: fds_ok_def)
  then show ?thesis using assms(1) by (simp add: fds_ok_def upd_fd_def)
qed

lemma kinv_set_rtc_freq: "kinv k \<Longrightarrow> kinv (set_rtc_freq f k)"
  unfolding set_rtc_freq_def
  by (rule kinv_upd_pcb) (use kinvD(7,8) in \<open>auto simp: fds_ok_def\<close>)

lemma kinv_advance_pos: "kinv k \<Longrightarrow> kinv (advance_pos fd cnt k)"
proof -
  assume k: "kinv k"
  show ?thesis unfolding advance_pos_def
    by (rule kinv_upd_pcb [OF k kinvD(8) [OF k]])
      (auto simp: desc_ok_def intro!: fds_ok_upd_fd kinvD(7) [OF k kinvD(8) [OF k]] split: if_splits)
qed

section \<open>The contract of the file drivers\<close>

text \<open>
  What the system calls rely on when they call through a descriptor's jump table: a driver
  keeps the kernel's invariant and returns in the same process, provided that what happens
  while it waits does so too.
\<close>

locale file_driver =
  fixes good :: "'k \<Rightarrow> bool"
    and who :: "'k \<Rightarrow> int"
    and rd :: "('k \<Rightarrow> 'k option) \<Rightarrow> 'o \<Rightarrow> int \<Rightarrow> u32 \<Rightarrow> u32 \<Rightarrow> 'k \<Rightarrow> (int \<times> 'k) option"
    and wr :: "u8 \<Rightarrow> 'o \<Rightarrow> u32 \<Rightarrow> u32 \<Rightarrow> 'k \<Rightarrow> (int \<times> 'k) option"
    and opn :: "u8 \<Rightarrow> 'o \<Rightarrow> 'k \<Rightarrow> (int \<times> 'k) option"
    and cls :: "'o \<Rightarrow> 'k \<Rightarrow> (int \<times> 'k) option"
  assumes rd_keeps: "good k \<Longrightarrow>
      (\<And>k k'. good k \<Longrightarrow> wait k = Some k' \<Longrightarrow> good k' \<and> who k' = who k) \<Longrightarrow>
      rd wait ops fd buf n k = Some (r, k') \<Longrightarrow> good k' \<and> who k' = who k"
    and wr_keeps: "good k \<Longrightarrow> wr prev ops buf n k = Some (r, k') \<Longrightarrow> good k' \<and> who k' = who k"
    and opn_keeps: "good k \<Longrightarrow> opn prev ops k = Some (r, k') \<Longrightarrow> good k' \<and> who k' = who k"
    and cls_keeps: "good k \<Longrightarrow> cls ops k = Some (r, k') \<Longrightarrow> good k' \<and> who k' = who k"
begin

text \<open>A write followed by a read, as \<^verbatim>\<open>rtc\<close> users do, and any sequence of writes.\<close>

lemma writes_keep:
  "good k \<Longrightarrow> foldM (\<lambda>(o', b, n) k. map_option snd (wr prev o' b n k)) ws k = Some k' \<Longrightarrow>
   good k' \<and> who k' = who k"
proof (induction ws arbitrary: k)
  case (Cons w ws)
  obtain o' b n where w: "w = (o', b, n)" by (metis prod_cases3)
  with Cons.prems obtain r k1 where "wr prev o' b n k = Some (r, k1)"
    and "foldM (\<lambda>(o', b, n) k. map_option snd (wr prev o' b n k)) ws k1 = Some k'"
    by (auto split: option.splits)
  with Cons.IH [of k1] wr_keeps [OF Cons.prems(1)] show ?case by metis
qed simp

lemma open_close_keep:
  "good k \<Longrightarrow> opn prev ops k = Some (r, k1) \<Longrightarrow> cls ops k1 = Some (r', k2) \<Longrightarrow>
   good k2 \<and> who k2 = who k"
  using opn_keeps cls_keeps by metis

end

definition wait_ok :: "(kernel \<Rightarrow> kernel option) \<Rightarrow> bool" where
  "wait_ok wait \<longleftrightarrow>
     (\<forall>k k'. kinv k \<and> wait k = Some k' \<longrightarrow> kinv k' \<and> current_pid k' = current_pid k)"

lemma kinv_put_user: "kinv k \<Longrightarrow> put_user va bs k = Some k' \<Longrightarrow> kinv k' \<and> current_pid k' = current_pid k"
  using put_user_mem_only kinv_mem_only mem_only_eqs(4) by blast

lemma advance_pos_pid [simp]: "current_pid (advance_pos fd cnt k) = current_pid k"
  "current_pid (set_rtc_freq f k) = current_pid k" "current_pid (set_int_flag b k) = current_pid k"
  by (simp_all add: advance_pos_def set_rtc_freq_def set_int_flag_def)

lemma kinv_set_int_flag: "kinv k \<Longrightarrow> kinv (set_int_flag b k)"
  by (simp add: set_int_flag_def kinv_rtc)

lemma fs_read_keeps:
  assumes "kinv k" and "fs_read fd buf n k = Some (r, k')"
  shows "kinv k' \<and> current_pid k' = current_pid k"
  using assms kinv_put_user [OF assms(1)]
  by (auto simp: fs_read_def Let_def bind_eq_Some_conv kinv_advance_pos split: if_splits prod.splits)

lemma directory_read_keeps:
  assumes "kinv k" and "directory_read fd buf n k = Some (r, k')"
  shows "kinv k' \<and> current_pid k' = current_pid k"
  using assms kinv_put_user [OF assms(1)]
  by (auto simp: directory_read_def Let_def bind_eq_Some_conv kinv_advance_pos split: if_splits prod.splits)

lemma fold_putc_display:
  "con_inv s \<Longrightarrow> i < 3 \<Longrightarrow> display_term (fold (\<lambda>c. term_putc c i) cs s) = display_term s"
  by (induction cs arbitrary: s) (auto simp: term_putc_keeps con_inv_putc)

lemma fold_putc_inv: "con_inv s \<Longrightarrow> i < 3 \<Longrightarrow> con_inv (fold (\<lambda>c. term_putc c i) cs s)"
  using scr.text_good [of s i cs] by simp

lemma terminal_write_keeps:
  "con_inv s \<Longrightarrow> i < 3 \<Longrightarrow> terminal_write i x s = (r, s') \<Longrightarrow>
   con_inv s' \<and> display_term s' = display_term s"
  by (auto simp: terminal_write_def fold_putc_display fold_putc_inv split: option.splits)

lemma terminal_read_begin_keeps:
  assumes "con_inv s" and "i < 3"
  shows "con_inv (terminal_read_begin i s) \<and> display_term (terminal_read_begin i s) = display_term s"
proof -
  have "con_inv (s\<lparr>readWaiting := w\<rparr>)" for w using assms(1) by (simp add: con_inv_def)
  then show ?thesis
    using assms(2)
    by (simp add: terminal_read_begin_def Let_def term_showbuf_eq fold_putc_display fold_putc_inv)
qed

lemma kinv_terminal_read_start:
  assumes "kinv k"
  shows "kinv (terminal_read_start k)" and "current_pid (terminal_read_start k) = current_pid k"
proof -
  have "get_current_terminal k < 3" using kinvD_cur [OF assms] by simp
  from terminal_read_begin_keeps [OF kinvD(1) [OF assms] this] show "kinv (terminal_read_start k)"
    unfolding terminal_read_start_def by (intro kinv_con [OF assms]) auto
qed (simp add: terminal_read_start_def)

lemma terminal_read_end_keeps:
  assumes "kinv k" and "t < 3" and "terminal_read_end t buf n k = Some (r, k')"
  shows "kinv k' \<and> current_pid k' = current_pid k"
proof -
  obtain i bs c where f: "terminal_read_finish t n (kcon k) = (i, bs, c)" by (metis prod_cases3)
  from terminal_read_finish_eq [OF kinvD(1) [OF assms(1)] assms(2), of n]
  have "con_inv c" "display_term c = display_term (kcon k)" using f by (metis prod.inject)+
  then have "kinv (k\<lparr>kcon := c\<rparr>)" by (rule kinv_con [OF assms(1)])
  with kinv_put_user [OF this] assms(3) show ?thesis
    by (auto simp: terminal_read_end_def f Let_def bind_eq_Some_conv split: if_splits)
qed

lemma k_terminal_read_keeps:
  assumes "kinv k" and "wait_ok wait" and "k_terminal_read wait buf n k = Some (r, k')"
  shows "kinv k' \<and> current_pid k' = current_pid k"
proof (cases "buf = 0")
  case True
  then show ?thesis using assms by (auto simp: k_terminal_read_def)
next
  case False
  then obtain k1 where 1: "wait (terminal_read_start k) = Some k1"
    and 2: "terminal_read_end (get_current_terminal k) buf n k1 = Some (r, k')"
    using assms(3) by (auto simp: k_terminal_read_def Let_def bind_eq_Some_conv)
  have "kinv k1" "current_pid k1 = current_pid k"
    using assms(2) 1 kinv_terminal_read_start [OF assms(1)] unfolding wait_ok_def by metis+
  with terminal_read_end_keeps [OF _ _ 2] kinvD_cur [OF assms(1)] show ?thesis by simp
qed

lemma k_terminal_write_keeps:
  assumes "kinv k" and "k_terminal_write buf n k = Some (r, k')"
  shows "kinv k' \<and> current_pid k' = current_pid k"
proof -
  have t: "get_current_terminal k < 3" using kinvD_cur [OF assms(1)] by simp
  show ?thesis
  proof (cases "buf = 0")
    case True
    then show ?thesis using assms by (simp add: k_terminal_write_def)
  next
    case False
    then obtain bs where bs: "get_user buf (unat n) k = Some bs"
      using assms(2) by (auto simp: k_terminal_write_def bind_eq_Some_conv)
    obtain r1 c where e: "terminal_write (get_current_terminal k) (Some bs) (kcon k) = (r1, c)" by fastforce
    have "k' = k\<lparr>kcon := c\<rparr>" using False assms(2) bs e by (simp add: k_terminal_write_def)
    then show ?thesis
      using terminal_write_keeps [OF kinvD(1) [OF assms(1)] t e] kinv_con [OF assms(1)] by simp
  qed
qed

lemma k_rtc_read_keeps:
  assumes "kinv k" and "wait_ok wait" and "k_rtc_read wait k = Some (r, k')"
  shows "kinv k' \<and> current_pid k' = current_pid k"
proof -
  obtain k1 where 1: "wait (set_int_flag False k) = Some k1" and 2: "k' = set_int_flag False k1"
    using assms(3) by (auto simp: k_rtc_read_def bind_eq_Some_conv split: if_splits)
  have "kinv k1" "current_pid k1 = current_pid k"
    using assms(2) 1 kinv_set_int_flag [OF assms(1)] unfolding wait_ok_def by (metis advance_pos_pid(3))+
  then show ?thesis by (simp add: 2 kinv_set_int_flag)
qed

lemma rtc_write_keeps:
  assumes "kinv k" and "rtc_write prev buf k = Some (r, k')"
  shows "kinv k' \<and> current_pid k' = current_pid k"
proof -
  obtain bs where bs: "get_user buf 4 k = Some bs"
    using assms(2) by (auto simp: rtc_write_def bind_eq_Some_conv)
  obtain r1 k1 where e: "k_rtc_set_freq prev (sint (le32 bs)) k = (r1, k1)" by fastforce
  have "kinv k1" "current_pid k1 = current_pid k"
    using kinv_rtc_set_freq [OF assms(1), of prev "sint (le32 bs)"]
      k_rtc_set_freq_simps(8) [of prev "sint (le32 bs)" k] by (simp_all add: e)
  moreover have "k' = k1 \<or> k' = set_rtc_freq (sint (le32 bs)) k1"
    using assms(2) bs e by (auto simp: rtc_write_def Let_def split: if_splits)
  ultimately show ?thesis using kinv_set_rtc_freq by auto
qed

interpretation drv: file_driver kinv current_pid "op_read" op_write op_open op_close
proof
  fix k k' r ops fd buf n wait
  assume k: "kinv k" and w: "\<And>k k'. kinv k \<Longrightarrow> wait k = Some k' \<Longrightarrow> kinv k' \<and> current_pid k' = current_pid k"
    and r: "op_read wait ops fd buf n k = Some (r, k')"
  have "wait_ok wait" unfolding wait_ok_def using w by blast
  with k r show "kinv k' \<and> current_pid k' = current_pid k"
    by (cases ops) (auto simp: op_read_def bad_call_def dest: k_terminal_read_keeps k_rtc_read_keeps
        directory_read_keeps fs_read_keeps)
next
  fix k k' r ops buf n prev
  assume "kinv k" and "op_write prev ops buf n k = Some (r, k')"
  then show "kinv k' \<and> current_pid k' = current_pid k"
    by (cases ops) (auto simp: op_write_def fs_stubs
        dest: k_terminal_write_keeps rtc_write_keeps)
next
  fix k k' r ops prev
  assume k: "kinv k" and "op_open prev ops k = Some (r, k')"
  then show "kinv k' \<and> current_pid k' = current_pid k"
    using kinv_set_rtc_freq [OF kinv_rtc_set_freq [OF k, of prev 2], of 2]
      k_rtc_set_freq_simps(8) [of prev 2 k]
    by (cases ops) (auto simp: op_open_def fs_stubs rtc_open_def case_prod_beta)
next
  fix k k' r ops
  assume "kinv k" and "op_close ops k = Some (r, k')"
  then show "kinv k' \<and> current_pid k' = current_pid k"
    by (cases ops) (auto simp: op_close_def fs_stubs rtc_close_def kinv_set_rtc_freq)
qed

section \<open>read, write, close, getargs, vidmap\<close>

lemma sys_read_keeps:
  assumes "kinv k" and "wait_ok (in_wait inp)" and "sys_read inp fd buf n k = Some (r, k')"
  shows "kinv k' \<and> current_pid k' = current_pid k"
proof -
  have w: "\<And>k k'. kinv k \<Longrightarrow> in_wait inp k = Some k' \<Longrightarrow> kinv k' \<and> current_pid k' = current_pid k"
    using assms(2) unfolding wait_ok_def by blast
  have "(r, k') = (-1, k) \<or>
      op_read (in_wait inp) (fops (fd_arr (cur_pcb k) ! nat fd)) fd buf n k = Some (r, k')"
    using assms(3) by (auto simp: sys_read_def Let_def split: if_splits)
  then show ?thesis
  proof
    assume "op_read (in_wait inp) (fops (fd_arr (cur_pcb k) ! nat fd)) fd buf n k = Some (r, k')"
    from drv.rd_keeps [OF assms(1) _ this] w show ?thesis by blast
  qed (use assms(1) in simp)
qed

lemma sys_write_keeps:
  assumes "kinv k" and "sys_write inp fd buf n k = Some (r, k')"
  shows "kinv k' \<and> current_pid k' = current_pid k"
proof -
  have "(r, k') = (-1, k) \<or>
      op_write (in_prev inp) (fops (fd_arr (cur_pcb k) ! nat fd)) buf n k = Some (r, k')"
    using assms(2) by (auto simp: sys_write_def Let_def split: if_splits)
  then show ?thesis
    using assms(1) by (auto dest: drv.wr_keeps)
qed

text \<open>Opening or closing a descriptor above the two of the terminal.\<close>

lemma desc_ok_flags:
  "2 \<le> i \<Longrightarrow> desc_ok True i d \<Longrightarrow> desc_ok True i (d\<lparr>fflags := FDFLAG_CLOSED\<rparr>)"
  "2 \<le> i \<Longrightarrow> fops d \<in> {RTC_OPS, DIR_OPS, FS_OPS} \<Longrightarrow> desc_ok True i (d\<lparr>fflags := FDFLAG_OPEN\<rparr>)"
  by (auto simp: desc_ok_def FDFLAG_OPEN_def FDFLAG_CLOSED_def split: if_splits)

lemma kinv_set_fd_close:
  assumes "kinv k" and "2 \<le> fd"
  shows "kinv (upd_pcb (current_pid k) (set_fd_close fd) k)"
proof (rule kinv_upd_pcb [OF assms(1) kinvD(8) [OF assms(1)]])
  have "fds_ok True (set_fd_close fd (cur_pcb k))"
    unfolding set_fd_close_def
    by (rule fds_ok_upd_fd [OF kinvD_cur(1) [OF assms(1)]], rule desc_ok_flags) (use assms(2) in auto)
  then show "fds_ok (process_queue k (current_pid k) \<noteq> NOT_LOADED) (set_fd_close fd (cur_pcb k))"
    using kinvD(9) [OF assms(1)] by simp
qed (simp_all add: set_fd_close_def)

lemma sys_close_keeps:
  assumes "kinv k" and "sys_close fd k = Some (r, k')"
  shows "kinv k' \<and> current_pid k' = current_pid k"
proof -
  let ?k = "upd_pcb (current_pid k) (set_fd_close fd) k"
  have "(r, k') = (-1, k) \<or> 2 \<le> fd \<and> op_close (fops (fd_arr (cur_pcb ?k) ! nat fd)) ?k = Some (r, k')"
    using assms(2) by (auto simp: sys_close_def Let_def STDIN_def STDOUT_def split: if_splits)
  then show ?thesis
  proof
    assume "2 \<le> fd \<and> op_close (fops (fd_arr (cur_pcb ?k) ! nat fd)) ?k = Some (r, k')"
    then have "kinv ?k" "op_close (fops (fd_arr (cur_pcb ?k) ! nat fd)) ?k = Some (r, k')"
      using kinv_set_fd_close [OF assms(1)] by auto
    from drv.cls_keeps [OF this] show ?thesis by simp
  qed (use assms(1) in simp)
qed

lemma getargs_keeps:
  assumes "kinv k" and "getargs buf n k = Some (r, k')"
  shows "kinv k' \<and> current_pid k' = current_pid k"
proof -
  have "k' = k \<or> (\<exists>bs. put_user buf bs k = Some k')"
    using assms(2) by (auto simp: getargs_def Let_def bind_eq_Some_conv split: if_splits)
  then show ?thesis using assms(1) kinv_put_user by blast
qed

lemma vidmap_keeps:
  assumes "kinv k" and "vidmap a k = Some (r, k')"
  shows "kinv k' \<and> current_pid k' = current_pid k"
proof -
  have "k' = k \<or> (\<exists>bs. put_user a bs k = Some k')"
    using assms(2) by (auto simp: vidmap_def Let_def bind_eq_Some_conv split: if_splits)
  then show ?thesis using assms(1) kinv_put_user by blast
qed

section \<open>open\<close>

lemma closed_fd_cases:
  "closed_fd pcb [0..7] = 8 \<and> (\<forall>j\<in>{0..7}. fd_is_open j pcb) \<or>
   closed_fd pcb [0..7] \<in> {0..7} \<and> \<not> fd_is_open (closed_fd pcb [0..7]) pcb \<and>
     (\<forall>j\<in>{0..7}. j < closed_fd pcb [0..7] \<longrightarrow> fd_is_open j pcb)"
proof -
  have e: "[0..7] = [0, 1, 2, 3, 4, 5, 6, 7 :: int]" by (simp add: upto_rec1)
  have s: "{0..7} = {0, 1, 2, 3, 4, 5, 6, 7 :: int}" by auto
  show ?thesis by (simp add: e s MAX_NUM_FD_def)
qed

lemma open_fds_12:
  "fds_ok True p \<Longrightarrow> fd_is_open 0 p \<and> fd_is_open 1 p"
  by (simp add: fds_ok_def fd_is_open_def) (auto simp: desc_ok_def)

lemma closed_fd_ge2:
  assumes "fds_ok True p" and "closed_fd p [0..7] \<noteq> 8"
  shows "2 \<le> closed_fd p [0..7]" and "closed_fd p [0..7] \<le> 7"
proof -
  let ?i = "closed_fd p [0..7]"
  have "?i \<in> {0..7}" "\<not> fd_is_open ?i p" using closed_fd_cases [of p] assms(2) by auto
  moreover from this have "?i \<noteq> 0" "?i \<noteq> 1" using open_fds_12 [OF assms(1)] by auto
  ultimately show "2 \<le> ?i" "?i \<le> 7" by auto
qed

lemma ops_of_type_ops: "ops_of_type t = Some ops \<Longrightarrow> ops \<in> {RTC_OPS, DIR_OPS, FS_OPS}"
  by (auto simp: ops_of_type_def split: if_splits)

lemma upd_fd_nth:
  "0 \<le> fd \<Longrightarrow> fd < int (length (fd_arr p)) \<Longrightarrow>
   fd_arr (upd_fd fd f p) ! nat fd' = (if nat fd' = nat fd then f (fd_arr p ! nat fd) else fd_arr p ! nat fd')"
  by (auto simp: upd_fd_def nth_list_update)

lemma upd_fd_twice: "upd_fd i g (upd_fd i f p) = upd_fd i (\<lambda>d. g (f d)) p"
proof (cases "nat i < length (fd_arr p)")
  case False
  then show ?thesis by (simp add: upd_fd_def list_update_beyond)
qed (simp add: upd_fd_def)

lemma op_open_fd_arr:
  "op_open prev ops k = Some (r, k') \<Longrightarrow> fd_arr (pcbs k' p) = fd_arr (pcbs k p)"
  by (cases ops) (auto simp: op_open_def fs_stubs rtc_open_def case_prod_beta
      set_rtc_freq_def split: if_splits)

lemma sys_open_cases:
  assumes "sys_open inp name k = Some (r, k')"
  obtains (failed) "r = -1" "k' = k"
  | (opened) fname e d ops r1 k1 where "name = Some fname" "r = closed_fd (cur_pcb k) [0..7]" "r \<noteq> 8"
      "read_dentry_by_name (kfs k) fname (in_dentry inp) = Some (e, d)" "e \<noteq> -1"
      "ops_of_type (ftype d) = Some ops"
      "op_open (in_prev inp) ops
        (upd_cur_fd r (\<lambda>x. x\<lparr>fops := ops, inode := inode_num d, file_pos := 0\<rparr>) k) = Some (r1, k1)"
      "k' = upd_pcb (current_pid k1) (set_fd_open r) k1"
proof (cases "r = -1 \<and> k' = k")
  case True
  then show ?thesis by (intro failed) auto
next
  case False
  let ?i = "closed_fd (cur_pcb k) [0..7]"
  obtain fname where n: "name = Some fname"
    using assms False by (auto simp: sys_open_def split: option.splits)
  have i: "?i \<noteq> 8" using assms False by (auto simp: sys_open_def n Let_def MAX_NUM_FD_def)
  obtain e d where d: "read_dentry_by_name (kfs k) fname (in_dentry inp) = Some (e, d)"
    using assms i by (auto simp: sys_open_def n Let_def MAX_NUM_FD_def bind_eq_Some_conv)
  have e: "e \<noteq> -1" using assms False i d by (auto simp: sys_open_def n Let_def MAX_NUM_FD_def)
  obtain ops where ops: "ops_of_type (ftype d) = Some ops"
    using assms False i d e by (auto simp: sys_open_def n Let_def MAX_NUM_FD_def split: option.splits)
  obtain r1 k1 where "op_open (in_prev inp) ops
      (upd_cur_fd ?i (\<lambda>x. x\<lparr>fops := ops, inode := inode_num d, file_pos := 0\<rparr>) k) = Some (r1, k1)"
    and "k' = upd_pcb (current_pid k1) (set_fd_open ?i) k1" and "r = ?i"
    using assms i d e ops by (auto simp: sys_open_def n Let_def MAX_NUM_FD_def bind_eq_Some_conv)
  then show ?thesis using n i d e ops by (intro opened [of fname e d ops r1 k1]) auto
qed

lemma sys_open_keeps:
  assumes k: "kinv k" and "sys_open inp name k = Some (r, k')"
  shows "kinv k' \<and> current_pid k' = current_pid k"
  using assms(2)
proof (cases rule: sys_open_cases)
  case failed
  then show ?thesis using k by simp
next
  case (opened fname e d ops r1 k1)
  let ?i = "closed_fd (cur_pcb k) [0..7]" and ?c = "current_pid k"
  have i: "?i \<noteq> 8" using opened(2,3) by simp
  note ops = opened(6) and o = opened(7) [unfolded opened(2)] and k' = opened(8) [unfolded opened(2)]
  let ?f = "\<lambda>x. x\<lparr>fops := ops, inode := inode_num d, file_pos := 0\<rparr>"
  note c = kinvD(8) [OF k] and f1 = kinvD_cur(1) [OF k]
  have i2: "2 \<le> ?i" "?i \<le> 7" using closed_fd_ge2 [OF f1 i] by auto
  have closed: "\<not> fd_is_open ?i (cur_pcb k)" using closed_fd_cases [of "cur_pcb k"] i by auto
  have ops3: "ops \<in> {RTC_OPS, DIR_OPS, FS_OPS}" using ops_of_type_ops [OF ops] .
  have len: "length (fd_arr (cur_pcb k)) = 8" using f1 by (simp add: fds_ok_def)
  have "fds_ok True (upd_fd ?i ?f (cur_pcb k))"
  proof (rule fds_ok_upd_fd [OF f1])
    fix d' assume "desc_ok True (nat ?i) d'"
    then show "desc_ok True (nat ?i) (?f d')" using i2 ops3 by (auto simp: desc_ok_def split: if_splits)
  qed
  then have k0: "kinv (upd_cur_fd ?i ?f k)"
    unfolding upd_cur_fd_def using kinvD(9) [OF k]
    by (intro kinv_upd_pcb [OF k c]) simp_all
  have k1: "kinv k1" "current_pid k1 = ?c"
    using drv.opn_keeps [OF k0 o] by (simp_all add: upd_cur_fd_def)
  have "fd_arr (cur_pcb k1) = fd_arr (upd_fd ?i ?f (cur_pcb k))"
    using op_open_fd_arr [OF o, of ?c] k1(2) by (simp add: upd_cur_fd_def)
  then have "fops (fd_arr (cur_pcb k1) ! nat ?i) = ops"
    using i2 len by (simp add: upd_fd_nth)
  then have "fds_ok True (set_fd_open ?i (cur_pcb k1))"
    using kinvD_cur(1) [OF k1(1)] i2 ops3
    by (auto simp: fds_ok_def set_fd_open_def upd_fd_def nth_list_update desc_ok_def)
  then have "kinv k'"
    unfolding k' using kinvD(8,9) [OF k1(1)]
    by (intro kinv_upd_pcb [OF k1(1)]) (simp_all add: set_fd_open_def)
  then show ?thesis using k1(2) by (simp add: k')
qed

section \<open>execute\<close>

lemma init_stdio_simps [simp]:
  "parent_id (init_stdio p) = parent_id p" "pterm_num (init_stdio p) = pterm_num p"
  "process_id (init_stdio p) = process_id p" "argument (init_stdio p) = argument p"
  "base_ptr (init_stdio p) = base_ptr p" "stack_ptr (init_stdio p) = stack_ptr p"
  "sched_bp (init_stdio p) = sched_bp p" "pentry (init_stdio p) = pentry p"
  "rtc_freq (init_stdio p) = rtc_freq p"
  by (simp_all add: init_stdio_def set_fd_open_def)

lemma set_queue_simps [simp]:
  "process_queue (set_queue p v k) = (process_queue k)(p := v)" "pcbs (set_queue p v k) = pcbs k"
  "process_arr (set_queue p v k) = process_arr k" "current_pid (set_queue p v k) = current_pid k"
  "kpg (set_queue p v k) = kpg k" "tss_esp0 (set_queue p v k) = tss_esp0 k"
  "kfs (set_queue p v k) = kfs k" "kkbd (set_queue p v k) = kkbd k" "krtc (set_queue p v k) = krtc k"
  "kpic (set_queue p v k) = kpic k" "kcon (set_queue p v k) = kcon k" "pmem (set_queue p v k) = pmem k"
  by (simp_all add: set_queue_def)

text \<open>The control block that \<^verbatim>\<open>execute\<close> leaves for the new process.\<close>

definition exec_pcb :: "inputs \<Rightarrow> int \<Rightarrow> int \<Rightarrow> u32 \<Rightarrow> pcb \<Rightarrow> pcb" where
  "exec_pcb inp p parent e q = (init_stdio q)\<lparr>process_id := p, parent_id := parent, pentry := e,
     sched_bp := 0, rtc_freq := -1, base_ptr := in_ebp inp, stack_ptr := in_esp inp\<rparr>"

lemma init_stdio_upd:
  "init_stdio (q\<lparr>process_id := a, parent_id := b\<rparr>) = (init_stdio q)\<lparr>process_id := a, parent_id := b\<rparr>"
  by (simp add: init_stdio_def set_fd_open_def upd_fd_def)

lemma exec_prepare_simps [simp]:
  "pcbs (exec_prepare p k) = (pcbs k)(p := (pcbs k p)\<lparr>process_id := p\<rparr>)"
  "process_arr (exec_prepare p k) = (process_arr k)(p := 1)"
  "kpg (exec_prepare p k) = page_map_user (word_of_int p) (kpg k)"
  "process_queue (exec_prepare p k) = process_queue k" "current_pid (exec_prepare p k) = current_pid k"
  "tss_esp0 (exec_prepare p k) = tss_esp0 k" "kfs (exec_prepare p k) = kfs k"
  "kkbd (exec_prepare p k) = kkbd k" "krtc (exec_prepare p k) = krtc k"
  "kpic (exec_prepare p k) = kpic k" "kcon (exec_prepare p k) = kcon k" "pmem (exec_prepare p k) = pmem k"
  by (simp_all add: exec_prepare_def Let_def)

lemma exec_commit_simps:
  assumes "parent \<noteq> -1" and "process_id (pcbs k p) = p"
  shows "pcbs (exec_commit inp p parent e k) = (pcbs k)(p := exec_pcb inp p parent e (pcbs k p))"
    "process_queue (exec_commit inp p parent e k) = (process_queue k)(parent := LOADED, p := SCHEDULED)"
    "process_arr (exec_commit inp p parent e k) = process_arr k"
    "kpg (exec_commit inp p parent e k) = kpg k" "current_pid (exec_commit inp p parent e k) = current_pid k"
    "tss_esp0 (exec_commit inp p parent e k) = get_kernel_stack (current_pid k)"
    "kfs (exec_commit inp p parent e k) = kfs k"
    "kkbd (exec_commit inp p parent e k) = kkbd k" "krtc (exec_commit inp p parent e k) = krtc k"
    "kpic (exec_commit inp p parent e k) = kpic k" "kcon (exec_commit inp p parent e k) = kcon k"
    "pmem (exec_commit inp p parent e k) = pmem k"
proof -
  have u: "(pcbs k p)\<lparr>parent_id := parent\<rparr> = (pcbs k p)\<lparr>process_id := p, parent_id := parent\<rparr>"
    using assms(2) by (metis pcb.surjective pcb.update_convs(2))
  show "pcbs (exec_commit inp p parent e k) = (pcbs k)(p := exec_pcb inp p parent e (pcbs k p))"
    using assms by (simp add: exec_commit_def Let_def sched_queue_process_def exec_pcb_def u init_stdio_upd)
qed (use assms in \<open>simp_all add: exec_commit_def Let_def sched_queue_process_def\<close>)

text \<open>A failed call changes at most the control block of a free process.\<close>

definition exec_fail_pcb :: "nat \<Rightarrow> u8 list \<Rightarrow> pcb \<Rightarrow> pcb" where
  "exec_fail_pcb tm arg q = q\<lparr>pterm_num := tm, argument := arg\<rparr>"

lemma execute_cases:
  assumes "execute inp command k = Some (fl, k')"
  obtains (no_pid) "get_available_pid k = -1" "fl = Return (-1)" "k' = k"
  | (failed) p tm arg where "p = get_available_pid k" "p \<in> pids" "process_queue k p = NOT_LOADED"
      "fl = Return (-1)" "k' = upd_pcb p (exec_fail_pcb tm arg) k"
      "length (argument (pcbs k p)) = MAX_ARGS \<Longrightarrow> length arg = MAX_ARGS"
  | (started) p cmd program arg v e k1 k2 where "p = get_available_pid k" "p \<in> pids"
      "process_queue k p = NOT_LOADED" "command = Some cmd" "parse_command cmd = Some (program, arg)"
      "program_valid (kfs k) program (in_dentry inp) (in_header inp) = Some v" "v \<noteq> 0"
      "k1 = upd_pcb p (exec_fail_pcb (if current_pid k = -1 then nat p else pterm_num (cur_pcb k))
        (overlay arg (argument (pcbs k p)))) k"
      "k_program_load program (in_dentry inp) (in_entry inp) (exec_prepare p k1) = Some (e, k2)"
      "(fl, k') = sched (in_esp inp) (in_ebp inp) (in_prev inp)
        (exec_commit inp p (current_pid k) e k2)"
proof (cases rule: get_available_pid_cases [of k])
  case 1
  then show ?thesis using assms by (intro no_pid) (simp_all add: execute_def)
next
  case 2
  let ?p = "get_available_pid k"
  let ?tm = "if current_pid k = -1 then nat ?p else pterm_num (cur_pcb k)"
  have np: "?p \<noteq> -1" using 2 by (auto simp: in_pids)
  let ?k1 = "\<lambda>arg. upd_pcb ?p (exec_fail_pcb ?tm (overlay arg (argument (pcbs k ?p)))) k"
  have u: "upd_pcb ?p (\<lambda>q. q\<lparr>argument := overlay arg (argument q)\<rparr>)
      (upd_pcb ?p (\<lambda>q. q\<lparr>pterm_num := ?tm\<rparr>) k) = ?k1 arg" for arg
    by (simp add: upd_pcb_def exec_fail_pcb_def)
  have kf: "kfs (?k1 arg) = kfs k" for arg by simp
  show ?thesis
  proof (cases command)
    case None
    then have "fl = Return (-1)" "k' = upd_pcb ?p (exec_fail_pcb ?tm (argument (pcbs k ?p))) k"
      using assms np by (simp_all add: execute_def Let_def upd_pcb_def exec_fail_pcb_def)
    then show ?thesis using 2 by (intro failed) auto
  next
    case (Some cmd)
    then obtain program arg where pc: "parse_command cmd = Some (program, arg)"
      using assms np by (auto simp: execute_def Let_def bind_eq_Some_conv)
    then have la: "length arg \<le> MAX_ARGS"
      by (auto simp: parse_command_def bind_eq_Some_conv split: if_splits)
    obtain v where v: "program_valid (kfs k) program (in_dentry inp) (in_header inp) = Some v"
      using assms np Some pc by (auto simp: execute_def Let_def bind_eq_Some_conv)
    have ex: "execute inp command k = (if v = 0 then Some (Return (-1), ?k1 arg)
        else Option.bind (k_program_load program (in_dentry inp) (in_entry inp) (exec_prepare ?p (?k1 arg)))
          (\<lambda>(e, k2). Some (sched (in_esp inp) (in_ebp inp) (in_prev inp)
            (exec_commit inp ?p (current_pid k) e k2))))"
      using np Some pc v unfolding execute_def Let_def u by simp
    show ?thesis
    proof (cases "v = 0")
      case True
      then have "fl = Return (-1)" "k' = ?k1 arg" using assms ex by auto
      moreover have "length (argument (pcbs k ?p)) = MAX_ARGS \<Longrightarrow>
          length (overlay arg (argument (pcbs k ?p))) = MAX_ARGS"
        using la by (simp add: overlay_def)
      ultimately show ?thesis
        using 2 failed [of ?p ?tm "overlay arg (argument (pcbs k ?p))"] by simp
    next
      case False
      then obtain e k2 where
        "k_program_load program (in_dentry inp) (in_entry inp) (exec_prepare ?p (?k1 arg)) = Some (e, k2)"
        "(fl, k') = sched (in_esp inp) (in_ebp inp) (in_prev inp) (exec_commit inp ?p (current_pid k) e k2)"
        using assms ex by (auto simp: bind_eq_Some_conv)
      then show ?thesis using 2 Some pc v False by (intro started) auto
    qed
  qed
qed

text \<open>A change to a process that is not loaded.\<close>

lemma kinv_unloaded:
  assumes k: "kinv k" and p: "p \<in> pids" "process_queue k p = NOT_LOADED"
    and f: "fds_ok False (f (pcbs k p))"
  shows "kinv (upd_pcb p f k)"
proof -
  have "tree_of (upd_pcb p f k)"
    unfolding tree_of_def upd_pcb_simps
    by (rule tree_inv_cong [OF kinvD(5) [OF k, unfolded tree_of_def]])
      (use p(2) in \<open>auto simp: loaded_def\<close>)
  then show ?thesis
    using k p f by (auto simp: kinv_def ctx_ok_def)
qed

lemma fds_ok_exec_fail:
  "fds_ok l q \<Longrightarrow> length arg = MAX_ARGS \<Longrightarrow> fds_ok l (exec_fail_pcb tm arg q)"
  by (simp add: fds_ok_def exec_fail_pcb_def)

lemma fds_ok_init_stdio:
  assumes "fds_ok False q"
  shows "fds_ok True (init_stdio q)"
proof -
  have "desc_ok True i (fd_arr (init_stdio q) ! i)" if "i < 8" for i
    using assms that
    by (auto simp: fds_ok_def init_stdio_def set_fd_open_def upd_fd_def desc_ok_def nth_list_update
        STDIN_def STDOUT_def)
  then show ?thesis using assms by (auto simp: fds_ok_def init_stdio_def set_fd_open_def)
qed

lemma page_map_user_frame:
  assumes "p \<in> pids"
  shows "drop_bit 22 (page_dir (page_map_user (word_of_int p) s) 32) = word_of_int (p + 2)"
proof -
  have "unat (word_of_int p :: u32) < 1022" using assms by (auto simp: pids_eq)
  then show ?thesis by (simp add: user_frame)
qed

text \<open>From the committed state to the scheduler's choice.\<close>

lemma kinv_sched:
  assumes "kb_ok (kkbd k, kcon k, kpg k, kpic k)"
    and "current_pid k \<in> pids"
    and "\<exists>p\<in>pids. p \<noteq> current_pid k \<and> process_queue k p = SCHEDULED"
    and "\<And>c. c \<in> pids \<Longrightarrow> process_queue k c = SCHEDULED \<Longrightarrow>
      tree_inv (process_queue k) (\<lambda>p. parent_id (pcbs k p)) (\<lambda>p. pterm_num (pcbs k p))
        (\<lambda>p. process_id (pcbs k p)) c"
    and "\<forall>p\<in>pids. fds_ok (process_queue k p \<noteq> NOT_LOADED) (pcbs k p)"
  shows "kinv (snd (sched esp ebp prev k))"
proof -
  let ?k = "snd (sched esp ebp prev k)" and ?r = "sched_pick (process_queue k) (current_pid k)"
  have r: "?r \<in> pids" "process_queue k ?r = SCHEDULED"
    using sched_pick_scheduled [OF assms(2,3)] by auto
  have c: "current_pid k \<noteq> -1" using assms(2) by (auto simp: in_pids)
  have e: "(\<lambda>p. parent_id (pcbs ?k p)) = (\<lambda>p. parent_id (pcbs k p))"
    "(\<lambda>p. pterm_num (pcbs ?k p)) = (\<lambda>p. pterm_num (pcbs k p))"
    "(\<lambda>p. process_id (pcbs ?k p)) = (\<lambda>p. process_id (pcbs k p))"
    using c by (auto simp: fun_eq_iff)
  have "tree_of ?k" unfolding tree_of_def e using assms(4) [OF r] by simp
  moreover have "kb_ok (kkbd ?k, kcon ?k, kpg ?k, kpic ?k)"
    using assms(1) by (auto simp: kb_ok_def video_mapped_def intro: pg_inv_map_user)
  moreover have "ctx_ok ?k" using r by (simp add: ctx_ok_def page_map_user_frame)
  moreover have "\<forall>p\<in>pids. fds_ok (process_queue ?k p \<noteq> NOT_LOADED) (pcbs ?k p)"
    using assms(5) c by (auto simp: fds_ok_def)
  ultimately show ?thesis by (simp add: kinv_def)
qed

lemma execute_keeps:
  assumes k: "kinv k" and "execute inp command k = Some (fl, k')"
  shows "kinv k'"
  using assms(2)
proof (cases rule: execute_cases)
  case no_pid
  then show ?thesis using k by simp
next
  case (failed p tm arg)
  have "fds_ok False (pcbs k p)" using kinvD(7) [OF k failed(2)] failed(3) by simp
  then show ?thesis
    unfolding failed(5) using failed(6)
    by (intro kinv_unloaded [OF k failed(2,3)] fds_ok_exec_fail) (simp_all add: fds_ok_def)
next
  case (started p cmd program arg v e k1 k2)
  let ?c = "current_pid k" and ?k3 = "exec_commit inp p (current_pid k) e k2"
  note c = kinvD(8,9) [OF k] and c1 = kinvD_cur(4) [OF k]
  have m: "mem_only (exec_prepare p k1) k2" using k_program_load_mem_only [OF started(9)] .
  note M = mem_only_eqs [OF m]
  have ne: "p \<noteq> ?c" using started(3) c by auto
  have k1: "process_queue k1 = process_queue k" "current_pid k1 = ?c" "kpg k1 = kpg k"
    "kcon k1 = kcon k" "kkbd k1 = kkbd k" "kpic k1 = kpic k" by (simp_all add: started(8))
  have pid: "process_id (pcbs k2 p) = p" by (simp add: M)
  note C = exec_commit_simps [OF c1 pid, of inp e]
  have la: "length (argument (pcbs k p)) = MAX_ARGS" "fds_ok False (pcbs k p)"
    using kinvD(7) [OF k started(2)] started(3) by (simp_all add: fds_ok_def)
  have larg: "length arg \<le> MAX_ARGS"
    using started(5) by (auto simp: parse_command_def bind_eq_Some_conv split: if_splits)
  have f1: "fds_ok False (pcbs k1 p)"
    unfolding started(8) using la larg by (simp add: fds_ok_exec_fail overlay_def)
  have q: "process_queue ?k3 = (process_queue k)(?c := LOADED, p := SCHEDULED)"
    by (simp add: C M k1)
  have pc: "pcbs ?k3 = (pcbs k1)(p := exec_pcb inp p ?c e ((pcbs k1 p)\<lparr>process_id := p\<rparr>))"
    by (simp add: C M)
  have "kinv (snd (sched (in_esp inp) (in_ebp inp) (in_prev inp) ?k3))"
  proof (rule kinv_sched)
    have "con_inv (kcon k2)"
      using m kinvD(1) [OF k] by (auto simp: mem_only_def k1)
    then show "kb_ok (kkbd ?k3, kcon ?k3, kpg ?k3, kpic ?k3)"
      using kinvD(2-4) [OF k]
      by (auto simp: kb_ok_def C M k1 video_mapped_def intro: pg_inv_map_user)
    show "current_pid ?k3 \<in> pids" using c by (simp add: C M k1)
    show "\<exists>x\<in>pids. x \<noteq> current_pid ?k3 \<and> process_queue ?k3 x = SCHEDULED"
      using started(2) ne by (intro bexI [of _ p]) (simp_all add: C M k1)
    show "\<forall>x\<in>pids. fds_ok (process_queue ?k3 x \<noteq> NOT_LOADED) (pcbs ?k3 x)"
    proof
      fix x assume x: "x \<in> pids"
      have "fds_ok True (exec_pcb inp p ?c e ((pcbs k1 p)\<lparr>process_id := p\<rparr>))"
        using fds_ok_init_stdio [of "(pcbs k1 p)\<lparr>process_id := p\<rparr>"] f1
        by (simp add: fds_ok_def exec_pcb_def)
      then show "fds_ok (process_queue ?k3 x \<noteq> NOT_LOADED) (pcbs ?k3 x)"
        using kinvD(7) [OF k x] c by (auto simp: q pc started(8))
    qed
    fix x assume x: "x \<in> pids" "process_queue ?k3 x = SCHEDULED"
    have e: "(\<lambda>y. parent_id (pcbs ?k3 y)) = (\<lambda>y. parent_id (pcbs k y))(p := ?c)"
      "(\<lambda>y. pterm_num (pcbs ?k3 y)) = (\<lambda>y. pterm_num (pcbs k y))(p := pterm_num (pcbs k ?c))"
      "(\<lambda>y. process_id (pcbs ?k3 y)) = (\<lambda>y. process_id (pcbs k y))(p := p)"
      using c1 by (auto simp: fun_eq_iff pc started(8) exec_pcb_def exec_fail_pcb_def)
    show "tree_inv (process_queue ?k3) (\<lambda>y. parent_id (pcbs ?k3 y)) (\<lambda>y. pterm_num (pcbs ?k3 y))
        (\<lambda>y. process_id (pcbs ?k3 y)) x"
      unfolding e q
      by (rule tree_inv_exec [OF kinvD(5) [OF k, unfolded tree_of_def] started(2,3) x(1)])
        (use x(2) q in simp)
  qed
  then show ?thesis using started(10) by (metis snd_conv)
qed

section \<open>halt\<close>

text \<open>What closing descriptors leaves of a control block: all but the descriptors and the clock rate.\<close>

definition pcb_core ::
  "pcb \<Rightarrow> int \<times> u32 \<times> u32 \<times> u32 \<times> int \<times> u32 \<times> nat \<times> u8 list" where
  "pcb_core q = (process_id q, stack_ptr q, base_ptr q, sched_bp q, parent_id q, pentry q,
     pterm_num q, argument q)"

definition closable :: "pcb \<Rightarrow> bool" where
  "closable q \<longleftrightarrow> length (fd_arr q) = 8 \<and>
     (\<forall>i. 2 \<le> i \<and> i < 8 \<and> fd_is_open i q \<longrightarrow> fops (fd_arr q ! nat i) \<noteq> NO_OPS)"

definition put_pcb :: "int \<Rightarrow> pcb \<Rightarrow> kernel \<Rightarrow> kernel" where
  "put_pcb pid q k = k\<lparr>pcbs := (pcbs k)(pid := q)\<rparr>"

lemma upd_put_pcb: "upd_pcb pid f (put_pcb pid q k) = put_pcb pid (f q) k"
  by (simp add: upd_pcb_def put_pcb_def)

lemma set_fd_close_props:
  assumes "closable q" and "0 \<le> i" and "i < 8"
  shows "closable (set_fd_close i q)" and "pcb_core (set_fd_close i q) = pcb_core q"
    and "0 \<le> j \<Longrightarrow> fd_is_open j (set_fd_close i q) \<longleftrightarrow> fd_is_open j q \<and> j \<noteq> i"
    and "fops (fd_arr (set_fd_close i q) ! nat j) = fops (fd_arr q ! nat j)"
proof -
  have len: "length (fd_arr q) = 8" using assms(1) by (simp add: closable_def)
  have nth: "fd_arr (set_fd_close i q) ! nat j =
      (if nat j = nat i then (fd_arr q ! nat i)\<lparr>fflags := 0\<rparr> else fd_arr q ! nat j)" for j
    using assms(2,3) len by (simp add: set_fd_close_def upd_fd_nth FDFLAG_CLOSED_def)
  show o: "fd_is_open j (set_fd_close i q) \<longleftrightarrow> fd_is_open j q \<and> j \<noteq> i" if "0 \<le> j" for j
    using that assms(2) by (auto simp: fd_is_open_def nth FDFLAG_OPEN_def)
  show f: "fops (fd_arr (set_fd_close i q) ! nat j) = fops (fd_arr q ! nat j)" for j by (simp add: nth)
  show "pcb_core (set_fd_close i q) = pcb_core q" by (simp add: pcb_core_def set_fd_close_def)
  show "closable (set_fd_close i q)"
    using assms(1) o f by (auto simp: closable_def set_fd_close_def)
qed

lemma sys_close_put:
  assumes "closable q" and "2 \<le> i" and "i < 8" and "current_pid k = pid"
  shows "\<exists>r q'. sys_close i (put_pcb pid q k) = Some (r, put_pcb pid q' k) \<and> closable q' \<and>
    pcb_core q' = pcb_core q \<and> (\<forall>j. 0 \<le> j \<longrightarrow> (fd_is_open j q' \<longleftrightarrow> fd_is_open j q \<and> j \<noteq> i))"
proof (cases "fd_is_open i q")
  case False
  then show ?thesis
    using assms by (intro exI [of _ "-1"] exI [of _ q])
      (auto simp: sys_close_def STDIN_def STDOUT_def MAX_NUM_FD_def put_pcb_def)
next
  case True
  let ?q = "set_fd_close i q"
  have i: "0 \<le> i" using assms(2) by simp
  note P = set_fd_close_props [OF assms(1) i assms(3)]
  have c: "current_pid (put_pcb pid q k) = pid" "cur_pcb (put_pcb pid q k) = q"
    using assms(4) by (simp_all add: put_pcb_def)
  have e: "sys_close i (put_pcb pid q k) = op_close (fops (fd_arr q ! nat i)) (put_pcb pid ?q k)"
    using True assms c P(4) [of i]
    by (simp add: sys_close_def STDIN_def STDOUT_def MAX_NUM_FD_def Let_def upd_put_pcb)
      (simp add: put_pcb_def)
  have "fops (fd_arr q ! nat i) \<noteq> NO_OPS" using assms True by (simp add: closable_def)
  moreover have "set_rtc_freq (-1) (put_pcb pid ?q k) = put_pcb pid (?q\<lparr>rtc_freq := -1\<rparr>) k"
    using assms(4) by (simp add: set_rtc_freq_def put_pcb_def upd_pcb_def)
  ultimately obtain r where r: "sys_close i (put_pcb pid q k) = Some (r, put_pcb pid ?q k) \<or>
      sys_close i (put_pcb pid q k) = Some (r, put_pcb pid (?q\<lparr>rtc_freq := -1\<rparr>) k)"
    unfolding e by (cases "fops (fd_arr q ! nat i)")
      (auto simp: op_close_def fs_stubs rtc_close_def)
  have "closable (?q\<lparr>rtc_freq := -1\<rparr>)" "pcb_core (?q\<lparr>rtc_freq := -1\<rparr>) = pcb_core q"
    "\<forall>j. 0 \<le> j \<longrightarrow> (fd_is_open j (?q\<lparr>rtc_freq := -1\<rparr>) \<longleftrightarrow> fd_is_open j q \<and> j \<noteq> i)"
    using P by (simp_all add: closable_def pcb_core_def fd_is_open_def)
  with r P show ?thesis by blast
qed

lemma close_loop:
  assumes "set is \<subseteq> {0..7}" and "closable q" and "current_pid k = pid"
  shows "\<exists>q'. foldM (\<lambda>i k. if i \<noteq> STDIN \<and> i \<noteq> STDOUT then map_option snd (sys_close i k)
      else Some (upd_pcb pid (set_fd_close i) k)) is (put_pcb pid q k) = Some (put_pcb pid q' k) \<and>
    closable q' \<and> pcb_core q' = pcb_core q \<and>
    (\<forall>j. 0 \<le> j \<longrightarrow> (fd_is_open j q' \<longleftrightarrow> fd_is_open j q \<and> j \<notin> set is))"
  using assms(1,2)
proof (induction "is" arbitrary: q)
  case (Cons i "is")
  have i: "0 \<le> i" "i < 8" using Cons.prems(1) by auto
  have "\<exists>q1. (if i \<noteq> STDIN \<and> i \<noteq> STDOUT then map_option snd (sys_close i (put_pcb pid q k))
      else Some (upd_pcb pid (set_fd_close i) (put_pcb pid q k))) = Some (put_pcb pid q1 k) \<and>
    closable q1 \<and> pcb_core q1 = pcb_core q \<and>
    (\<forall>j. 0 \<le> j \<longrightarrow> (fd_is_open j q1 \<longleftrightarrow> fd_is_open j q \<and> j \<noteq> i))"
  proof (cases "2 \<le> i")
    case True
    from sys_close_put [OF Cons.prems(2) True i(2) assms(3)] True show ?thesis
      by (auto simp: STDIN_def STDOUT_def)
  next
    case False
    then show ?thesis
      using i set_fd_close_props [OF Cons.prems(2) i]
      by (intro exI [of _ "set_fd_close i q"]) (auto simp: STDIN_def STDOUT_def upd_put_pcb)
  qed
  then obtain q1 where 1: "(if i \<noteq> STDIN \<and> i \<noteq> STDOUT then map_option snd (sys_close i (put_pcb pid q k))
      else Some (upd_pcb pid (set_fd_close i) (put_pcb pid q k))) = Some (put_pcb pid q1 k)"
    "closable q1" "pcb_core q1 = pcb_core q"
    "\<forall>j. 0 \<le> j \<longrightarrow> (fd_is_open j q1 \<longleftrightarrow> fd_is_open j q \<and> j \<noteq> i)" by blast
  have "set is \<subseteq> {0..7}" using Cons.prems(1) by simp
  from Cons.IH [OF this 1(2)] obtain q' where
    "foldM (\<lambda>i k. if i \<noteq> STDIN \<and> i \<noteq> STDOUT then map_option snd (sys_close i k)
      else Some (upd_pcb pid (set_fd_close i) k)) is (put_pcb pid q1 k) = Some (put_pcb pid q' k)"
    "closable q'" "pcb_core q' = pcb_core q1"
    "\<forall>j. 0 \<le> j \<longrightarrow> (fd_is_open j q' \<longleftrightarrow> fd_is_open j q1 \<and> j \<notin> set is)" by blast
  with 1 show ?case by (intro exI [of _ q']) (simp only: foldM.simps option.case, auto)
next
  case (Nil q)
  then show ?case by (intro exI [of _ q]) simp
qed

lemma close_fds_eq:
  assumes "closable (pcbs k pid)" and "current_pid k = pid"
  obtains q where "close_fds pid k = Some (put_pcb pid q k)" and "closable q"
    and "pcb_core q = pcb_core (pcbs k pid)" and "\<And>j. 0 \<le> j \<Longrightarrow> j < 8 \<Longrightarrow> \<not> fd_is_open j q"
proof -
  have "set [0..MAX_NUM_FD - 1] \<subseteq> {0..7}" by (simp add: MAX_NUM_FD_def)
  from close_loop [OF this assms] obtain q where
    "close_fds pid (put_pcb pid (pcbs k pid) k) = Some (put_pcb pid q k)"
    "closable q" "pcb_core q = pcb_core (pcbs k pid)"
    "\<forall>j. 0 \<le> j \<longrightarrow> (fd_is_open j q \<longleftrightarrow> fd_is_open j (pcbs k pid) \<and> j \<notin> set [0..MAX_NUM_FD - 1])"
    unfolding close_fds_def by blast
  then show ?thesis by (intro that [of q]) (auto simp: put_pcb_def MAX_NUM_FD_def)
qed

lemma closable_fds_ok: "fds_ok True p \<Longrightarrow> closable p"
proof -
  assume p: "fds_ok True p"
  have "fops (fd_arr p ! nat i) \<noteq> NO_OPS" if "2 \<le> i" "i < 8" "fd_is_open i p" for i
  proof -
    have "desc_ok True (nat i) (fd_arr p ! nat i)" using p that by (simp add: fds_ok_def)
    then show ?thesis using that by (auto simp: desc_ok_def fd_is_open_def split: if_splits)
  qed
  then show ?thesis using p by (simp add: closable_def fds_ok_def)
qed

lemma fds_ok_all_closed:
  assumes "closable q" and "\<And>j. 0 \<le> j \<Longrightarrow> j < 8 \<Longrightarrow> \<not> fd_is_open j q"
    and "length (argument q) = MAX_ARGS"
  shows "fds_ok False q"
proof -
  have "fflags (fd_arr q ! i) \<noteq> FDFLAG_OPEN" if "i < 8" for i
    using assms(2) [of "int i"] that by (simp add: fd_is_open_def)
  then show ?thesis using assms(1,3) by (simp add: fds_ok_def desc_ok_def closable_def)
qed

text \<open>
  A child's \<^verbatim>\<open>halt\<close> always comes back in the parent: the status and the frame of the
  \<^verbatim>\<open>execute\<close> that started it.
\<close>

lemma halt32_child:
  assumes k: "kinv k" and par: "parent_id (cur_pcb k) \<noteq> -1"
  defines "c \<equiv> current_pid k" and "p \<equiv> parent_id (cur_pcb k)"
  obtains q k' where "halt32 inp status k =
      Some (Halt_ret (stack_ptr (pcbs k c)) (base_ptr (pcbs k c)) status, k')"
    and "closable q" and "pcb_core q = pcb_core (pcbs k c)"
    and "\<And>j. 0 \<le> j \<Longrightarrow> j < 8 \<Longrightarrow> \<not> fd_is_open j q"
    and "p \<in> pids" and "process_queue k p = LOADED" and "p \<noteq> c"
    and "k' = k\<lparr>process_arr := (process_arr k)(c := 0), kcon := sti (cli (kcon k)),
        pcbs := (pcbs k)(c := q), current_pid := p, tss_esp0 := get_kernel_stack p,
        process_queue := (process_queue k)(c := NOT_LOADED, p := SCHEDULED),
        kpg := page_map_user (word_of_int p) (kpg k)\<rparr>"
proof -
  note T = kinvD(5) [OF k, unfolded tree_of_def] and C = kinvD(8,9) [OF k]
  have lc: "loaded (process_queue k) c" using C by (simp add: loaded_def c_def)
  then have "c \<in> {0, 1, 2} \<or> child (process_queue k) c" using C(1) c_def loaded_cases by blast
  then have ch: "child (process_queue k) c"
    using tree_invD(2) [OF T] par by (auto simp: c_def)
  have p: "p \<in> pids" "process_queue k p = LOADED"
    using tree_invD(6,7) [OF T ch] by (simp_all add: p_def c_def)
  have pc: "p \<noteq> c" "p \<noteq> -1" "c \<noteq> -1" using p C by (auto simp: c_def in_pids)
  have pp: "process_id (pcbs k p) = p"
    using tree_invD(4) [OF T, of p] p by (simp add: loaded_def)
  let ?k0 = "k\<lparr>process_arr := (process_arr k)(c := 0), kcon := cli (kcon k)\<rparr>"
  have cl: "closable (pcbs ?k0 c)" "current_pid ?k0 = c"
    using closable_fds_ok [OF kinvD_cur(1) [OF k]] by (simp_all add: c_def)
  from close_fds_eq [OF cl] obtain q where q: "close_fds c ?k0 = Some (put_pcb c q ?k0)" "closable q"
    "pcb_core q = pcb_core (pcbs k c)" "\<And>j. 0 \<le> j \<Longrightarrow> j < 8 \<Longrightarrow> \<not> fd_is_open j q"
    by auto
  have core: "parent_id q = p" "stack_ptr q = stack_ptr (pcbs k c)" "base_ptr q = base_ptr (pcbs k c)"
    using q(3) by (simp_all add: pcb_core_def p_def c_def)
  show ?thesis
  proof (rule that [OF _ q(2,3,4) p pc(1) refl])
    show "halt32 inp status k = Some (Halt_ret (stack_ptr (pcbs k c)) (base_ptr (pcbs k c)) status,
      k\<lparr>process_arr := (process_arr k)(c := 0), kcon := sti (cli (kcon k)),
        pcbs := (pcbs k)(c := q), current_pid := p, tss_esp0 := get_kernel_stack p,
        process_queue := (process_queue k)(c := NOT_LOADED, p := SCHEDULED),
        kpg := page_map_user (word_of_int p) (kpg k)\<rparr>)"
      using par q(1) core pc pp
      by (simp add: halt32_def Let_def c_def [symmetric] put_pcb_def sched_queue_process_def set_queue_def)
  qed
qed

lemma halt32_child_keeps:
  assumes k: "kinv k" and par: "parent_id (cur_pcb k) \<noteq> -1"
    and "halt32 inp status k = Some (fl, k')"
  shows "kinv k'"
proof (rule halt32_child [OF k par, of inp status])
  let ?c = "current_pid k" and ?p = "parent_id (cur_pcb k)"
  fix q k1
  assume h: "halt32 inp status k = Some (Halt_ret (stack_ptr (cur_pcb k)) (base_ptr (cur_pcb k)) status, k1)"
    and q: "closable q" "pcb_core q = pcb_core (cur_pcb k)"
      "\<And>j. 0 \<le> j \<Longrightarrow> j < 8 \<Longrightarrow> \<not> fd_is_open j q"
    and p: "?p \<in> pids" "process_queue k ?p = LOADED" "?p \<noteq> ?c"
    and k1: "k1 = k\<lparr>process_arr := (process_arr k)(?c := 0), kcon := sti (cli (kcon k)),
        pcbs := (pcbs k)(?c := q), current_pid := ?p, tss_esp0 := get_kernel_stack ?p,
        process_queue := (process_queue k)(?c := NOT_LOADED, ?p := SCHEDULED),
        kpg := page_map_user (word_of_int ?p) (kpg k)\<rparr>"
  have core: "parent_id q = ?p" "pterm_num q = pterm_num (cur_pcb k)"
    "process_id q = process_id (cur_pcb k)" "argument q = argument (cur_pcb k)"
    using q(2) by (simp_all add: pcb_core_def)
  have e: "(\<lambda>x. parent_id (pcbs k1 x)) = (\<lambda>x. parent_id (pcbs k x))"
    "(\<lambda>x. pterm_num (pcbs k1 x)) = (\<lambda>x. pterm_num (pcbs k x))"
    "(\<lambda>x. process_id (pcbs k1 x)) = (\<lambda>x. process_id (pcbs k x))"
    using core by (auto simp: fun_eq_iff k1)
  have "tree_of k1"
    unfolding tree_of_def e
    using tree_inv_halt [OF kinvD(5) [OF k, unfolded tree_of_def]] par by (simp add: k1)
  moreover have "kb_ok (kkbd k1, kcon k1, kpg k1, kpic k1)"
    using kinvD(1-4) [OF k] by (auto simp: k1 kb_ok_def video_mapped_def intro: pg_inv_map_user)
  moreover have "ctx_ok k1" using p(1) by (simp add: k1 ctx_ok_def page_map_user_frame)
  moreover have "\<forall>x\<in>pids. fds_ok (process_queue k1 x \<noteq> NOT_LOADED) (pcbs k1 x)"
  proof
    fix x assume x: "x \<in> pids"
    have "fds_ok False q"
      using q core kinvD_cur(1) [OF k] by (intro fds_ok_all_closed) (auto simp: fds_ok_def)
    then show "fds_ok (process_queue k1 x \<noteq> NOT_LOADED) (pcbs k1 x)"
      using kinvD(7) [OF k x] p by (auto simp: k1)
  qed
  ultimately show "kinv k'" using h assms(3) by (simp add: kinv_def)
qed

lemma halt32_keeps:
  assumes k: "kinv k" and h: "halt32 inp status k = Some (fl, k')"
  shows "kinv k'"
proof (cases "parent_id (cur_pcb k) = -1")
  case False
  then show ?thesis using halt32_child_keeps k h by blast
next
  case True
  let ?c = "current_pid k"
  note T = kinvD(5) [OF k, unfolded tree_of_def] and C = kinvD(8,9) [OF k]
  have "?c \<in> {0, 1, 2} \<or> child (process_queue k) ?c"
    using C loaded_cases [OF C(1)] by (simp add: loaded_def)
  moreover have "\<not> child (process_queue k) ?c"
    using tree_invD(6) [OF T, of ?c] True by (auto simp: in_pids)
  ultimately have "pterm_num (cur_pcb k) = nat ?c" using tree_invD(3) [OF T] by auto
  then have t: "int (pterm_num (cur_pcb k)) = ?c" using C by (simp add: in_pids)
  obtain e k1 where l: "k_program_load shell_name (in_dentry inp) (in_entry inp)
      (k\<lparr>process_arr := (process_arr k)(?c := 0)\<rparr>) = Some (e, k1)"
    and k': "k' = upd_pcb ?c (\<lambda>p. p\<lparr>pentry := e\<rparr>) k1"
    using h True t by (auto simp: halt32_def Let_def bind_eq_Some_conv)
  have k1: "kinv k1" "current_pid k1 = ?c"
    using kinv_mem_only [OF k_program_load_mem_only [OF l]] kinv_arr [OF k]
      mem_only_eqs(4) [OF k_program_load_mem_only [OF l]] by simp_all
  show ?thesis unfolding k'
    by (rule kinv_upd_pcb [OF k1(1) C(1)]) (use kinvD(7) [OF k1(1) C(1)] in \<open>auto simp: fds_ok_def\<close>)
qed
end
