(* ===== verification/Idt.thy ===== *)
theory Idt
  imports Prelude
begin

text \<open>
  The interrupt descriptor table (\<^verbatim>\<open>student-distrib/idt.c\<close>, with the gate layout of
  \<^verbatim>\<open>x86_desc.h\<close>) and the messages of the exception handlers (\<^verbatim>\<open>exceptions.c\<close>). The
  addresses of the handlers are the linker's: an argument \<open>addr\<close>.
\<close>

section \<open>Vectors, handlers, gates\<close>

definition NUM_VEC :: nat where "NUM_VEC = 256"
definition RESERVED_NUMS :: nat where "RESERVED_NUMS = 0x20"
definition KERNEL_CS :: u16 where "KERNEL_CS = 0x0010"
definition KERNEL_DS :: u16 where "KERNEL_DS = 0x0018"
definition USER_DS :: u16 where "USER_DS = 0x002B"
definition IDT_SYSTEM_CALL :: nat where "IDT_SYSTEM_CALL = 0x80"
definition IDT_KEYBOARD :: nat where "IDT_KEYBOARD = 0x21"
definition IDT_RTC :: nat where "IDT_RTC = 0x28"
definition IDT_PIT :: nat where "IDT_PIT = 0x20"

lemmas idt_consts = NUM_VEC_def RESERVED_NUMS_def KERNEL_CS_def IDT_SYSTEM_CALL_def
  IDT_KEYBOARD_def IDT_RTC_def IDT_PIT_def

datatype handler =
    divide_error_exception | debug_exception | nmi_interrupt | breakpoint_exception
  | overflow_exception | bound_range_exceeded_exception | invalid_opcode_exception
  | device_not_available_exception | double_fault_exception
  | coprocessor_segment_overrun_exception | invalid_tss_exception
  | segment_not_present_exception | stack_fault_exception | general_protection_exception
  | page_fault_exception | fpu_floating_point_error | alignment_check_exception
  | machine_check_exception | simd_floating_point_exception | reserved
  | keyboard_interrupt_assembly | rtc_interrupt_assembly | pit_interrupt_assembly
  | syscall_assembly

record idt_desc =
  offset_15_00 :: u16
  seg_selector :: u16
  reserved4 :: u8
  reserved3 :: bool
  reserved2 :: bool
  reserved1 :: bool
  size :: bool
  reserved0 :: bool
  dpl :: "2 word"
  present :: bool
  offset_31_16 :: u16

type_synonym idt = "nat \<Rightarrow> idt_desc"

section \<open>Operations\<close>

definition SET_IDT_ENTRY :: "nat \<Rightarrow> u32 \<Rightarrow> idt \<Rightarrow> idt" where
  "SET_IDT_ENTRY i h t =
     t(i := (t i)\<lparr>offset_31_16 := ucast (drop_bit 16 (h AND 0xFFFF0000)),
                  offset_15_00 := ucast (h AND 0xFFFF)\<rparr>)"

definition set_int_gate :: "nat \<Rightarrow> idt \<Rightarrow> idt" where
  "set_int_gate i t =
     t(i := (t i)\<lparr>reserved0 := False, reserved1 := True, reserved2 := True,
                  reserved3 := False, reserved4 := 0\<rparr>)"

definition set_trap_gate :: "nat \<Rightarrow> idt \<Rightarrow> idt" where
  "set_trap_gate i t =
     t(i := (t i)\<lparr>reserved0 := False, reserved1 := True, reserved2 := True,
                  reserved3 := True, reserved4 := 0\<rparr>)"

definition upd_gate :: "nat \<Rightarrow> (idt_desc \<Rightarrow> idt_desc) \<Rightarrow> idt \<Rightarrow> idt" where
  "upd_gate i f t = t(i := f (t i))"

text \<open>One iteration of the loop; the assignments run from the innermost outwards.\<close>

definition init_idt_step :: "(handler \<Rightarrow> u32) \<Rightarrow> nat \<Rightarrow> idt \<Rightarrow> idt" where
  "init_idt_step addr i t =
     (if i = IDT_KEYBOARD \<or> i = IDT_RTC \<or> i = IDT_PIT
      then upd_gate i (\<lambda>g. g\<lparr>present := True\<rparr>) else id)
     ((if i = IDT_SYSTEM_CALL then upd_gate i (\<lambda>g. g\<lparr>dpl := 3, present := True\<rparr>) else id)
     ((if i < RESERVED_NUMS
       then SET_IDT_ENTRY i (addr reserved) \<circ> upd_gate i (\<lambda>g. g\<lparr>present := True\<rparr>) else id)
     (upd_gate i (\<lambda>g. g\<lparr>size := True, dpl := 0, present := False, seg_selector := KERNEL_CS\<rparr>)
     ((if i = IDT_SYSTEM_CALL then set_trap_gate i else set_int_gate i) t))))"

text \<open>The entries set after the loop, in the code's order.\<close>

definition idt_vectors :: "(nat \<times> handler) list" where
  "idt_vectors =
     [(0x00, divide_error_exception), (0x01, debug_exception), (0x02, nmi_interrupt),
      (0x03, breakpoint_exception), (0x04, overflow_exception),
      (0x05, bound_range_exceeded_exception), (0x06, invalid_opcode_exception),
      (0x07, device_not_available_exception), (0x08, double_fault_exception),
      (0x09, coprocessor_segment_overrun_exception), (0x0A, invalid_tss_exception),
      (0x0B, segment_not_present_exception), (0x0C, stack_fault_exception),
      (0x0D, general_protection_exception), (0x0E, page_fault_exception),
      (0x10, fpu_floating_point_error), (0x11, alignment_check_exception),
      (0x12, machine_check_exception), (0x13, simd_floating_point_exception),
      (IDT_KEYBOARD, keyboard_interrupt_assembly), (IDT_RTC, rtc_interrupt_assembly),
      (IDT_SYSTEM_CALL, syscall_assembly), (IDT_PIT, pit_interrupt_assembly)]"

definition init_idt :: "(handler \<Rightarrow> u32) \<Rightarrow> idt \<Rightarrow> idt" where
  "init_idt addr t =
     fold (\<lambda>(i, h). SET_IDT_ENTRY i (addr h)) idt_vectors
       (fold (init_idt_step addr) [0..<NUM_VEC] t)"

text \<open>The text each exception handler prints, without the final newline.\<close>

definition exception_messages :: "(handler \<times> string) list" where
  "exception_messages =
    [(divide_error_exception, ''EXCEPTION: DIVIDE_ERROR_EXCEPTION! ''),
     (debug_exception, ''EXCEPTION: DEBUG_EXCEPTION! ''),
     (nmi_interrupt, ''EXCEPTION: NMI_INTERRUPT! ''),
     (breakpoint_exception, ''EXCEPTION: BREAKPOINT_EXCEPTION! ''),
     (overflow_exception, ''EXCEPTION: OVERFLOW_EXCEPTION! ''),
     (bound_range_exceeded_exception, ''EXCEPTION: BOUND_RANGE_EXCEEDED_EXCEPTION! ''),
     (invalid_opcode_exception, ''EXCEPTION: INVALID_OPCODE_EXCEPTION! ''),
     (device_not_available_exception, ''EXCEPTION: DEVICE_NOT_AVAILABLE_EXCEPTION! ''),
     (double_fault_exception, ''EXCEPTION: DOUBLE_FAULT_EXCEPTION! ''),
     (coprocessor_segment_overrun_exception, ''EXCEPTION: COPROCESSOR_SEGMENT_OVERRUN_EXCEPTION! ''),
     (invalid_tss_exception, ''EXCEPTION: INVALID_TSS_EXCEPTION! ''),
     (segment_not_present_exception, ''EXCEPTION: SEGMENT_NOT_PRESENT_EXCEPTION! ''),
     (stack_fault_exception, ''EXCEPTION: STACK_FAULT_EXCEPTION! ''),
     (general_protection_exception, ''EXCEPTION: GENERAL_PROTECTION_EXCEPTION! ''),
     (page_fault_exception, ''EXCEPTION: PAGE_FAULT_EXCEPTION! ''),
     (fpu_floating_point_error, ''EXCEPTION: FPU_FLOATING_POINT_EXCEPTION! ''),
     (alignment_check_exception, ''EXCEPTION: ALIGNMENT_CHECK_EXCEPTION! ''),
     (machine_check_exception, ''EXCEPTION: MACHINE_CHECK_EXCEPTION! ''),
     (simd_floating_point_exception, ''EXCEPTION: SIMD_FLOATING_POINT_EXCEPTION! ''),
     (reserved, ''EXCEPTION: RESERVED! '')]"

definition exception_message :: "handler \<Rightarrow> string option" where
  "exception_message h = map_of exception_messages h"

section \<open>Lemmas\<close>

text \<open>The handler address a gate names.\<close>

definition gate_offset :: "idt_desc \<Rightarrow> u32" where
  "gate_offset g = push_bit 16 (ucast (offset_31_16 g)) OR ucast (offset_15_00 g)"

lemma bit_FFFF: "bit (0xFFFF :: u32) n \<longleftrightarrow> n < 16"
proof -
  have "(0xFFFF :: u32) = mask 16" by (simp add: mask_eq_exp_minus_1)
  then show ?thesis by (simp only: bit_mask_iff) auto
qed

lemma bit_FFFF_16: "bit (0xFFFF :: u16) n \<longleftrightarrow> n < 16"
proof -
  have "(0xFFFF :: u16) = mask 16" by (simp add: mask_eq_exp_minus_1)
  then show ?thesis by (simp only: bit_mask_iff) auto
qed

lemma bit_FFFF0000: "bit (0xFFFF0000 :: u32) n \<longleftrightarrow> 16 \<le> n \<and> n < 32"
proof -
  have "(0xFFFF0000 :: u32) = push_bit 16 (mask 16)"
    by (simp add: push_bit_eq_mult mask_eq_exp_minus_1)
  then show ?thesis by (simp only: bit_push_bit_iff bit_mask_iff) auto
qed

lemma gate_offset_set: "gate_offset (SET_IDT_ENTRY i h t i) = h"
proof -
  have hi: "(ucast (drop_bit 16 (h AND 0xFFFF0000)) :: u16) = ucast (drop_bit 16 h)"
    by (rule bit_word_eqI)
      (simp only: bit_ucast_iff bit_drop_bit_eq bit_and_iff bit_FFFF0000 o_apply, auto)
  have lo: "(ucast (h AND 0xFFFF) :: u16) = ucast h"
    by (rule bit_word_eqI) (simp only: bit_ucast_iff bit_and_iff bit_FFFF, auto)
  show ?thesis
    unfolding gate_offset_def SET_IDT_ENTRY_def fun_upd_same hi lo
    by (rule bit_word_eqI) (auto simp: bit_simps)
qed

lemma SET_IDT_ENTRY_simps [simp]:
  "j \<noteq> i \<Longrightarrow> SET_IDT_ENTRY i h t j = t j"
  "present (SET_IDT_ENTRY i h t j) = present (t j)"
  "dpl (SET_IDT_ENTRY i h t j) = dpl (t j)"
  "seg_selector (SET_IDT_ENTRY i h t j) = seg_selector (t j)"
  "reserved3 (SET_IDT_ENTRY i h t j) = reserved3 (t j)"
  by (simp_all add: SET_IDT_ENTRY_def)

lemma idt_vectors_attrs [simp]:
  "present (fold (\<lambda>(i, h). SET_IDT_ENTRY i (addr h)) vs t j) = present (t j)"
  "dpl (fold (\<lambda>(i, h). SET_IDT_ENTRY i (addr h)) vs t j) = dpl (t j)"
  "seg_selector (fold (\<lambda>(i, h). SET_IDT_ENTRY i (addr h)) vs t j) = seg_selector (t j)"
  "reserved3 (fold (\<lambda>(i, h). SET_IDT_ENTRY i (addr h)) vs t j) = reserved3 (t j)"
  by (induction vs arbitrary: t) auto

lemma idt_vectors_other:
  "j \<notin> fst ` set vs \<Longrightarrow> fold (\<lambda>(i, h). SET_IDT_ENTRY i (addr h)) vs t j = t j"
  by (induction vs arbitrary: t) auto

lemma idt_vectors_offset:
  "distinct (map fst vs) \<Longrightarrow> (j, h) \<in> set vs \<Longrightarrow>
   gate_offset (fold (\<lambda>(i, h). SET_IDT_ENTRY i (addr h)) vs t j) = addr h"
proof (induction vs arbitrary: t)
  case (Cons v vs)
  show ?case
  proof (cases "v = (j, h)")
    case True
    with Cons.prems(1) have "j \<notin> fst ` set vs" by simp
    with True show ?thesis by (simp add: idt_vectors_other gate_offset_set)
  next
    case False
    with Cons.prems have "(j, h) \<in> set vs" and "distinct (map fst vs)" by auto
    from Cons.IH [OF this(2,1)] show ?thesis by (simp add: case_prod_unfold)
  qed
qed simp

lemma upd_gate_apply: "upd_gate i f t j = (if j = i then f (t i) else t j)"
  by (simp add: upd_gate_def)

lemma if_stage_other:
  "f t j = t j \<Longrightarrow> g t j = t j \<Longrightarrow> (if b then f else g) t j = t j"
  by simp

lemma init_idt_step_other: "j \<noteq> i \<Longrightarrow> init_idt_step addr i t j = t j"
  unfolding init_idt_step_def
  by (simp add: if_stage_other set_trap_gate_def set_int_gate_def upd_gate_apply split del: if_split)

lemma init_idt_step_self:
  "present (init_idt_step addr i t i) \<longleftrightarrow> i < 0x20 \<or> i \<in> {0x20, 0x21, 0x28, 0x80}"
  "dpl (init_idt_step addr i t i) = (if i = 0x80 then 3 else 0)"
  "reserved3 (init_idt_step addr i t i) \<longleftrightarrow> i = 0x80"
  "seg_selector (init_idt_step addr i t i) = KERNEL_CS"
  by (simp_all add: init_idt_step_def set_trap_gate_def set_int_gate_def idt_consts
      upd_gate_apply)

lemma init_idt_step_offset:
  "i < 0x20 \<Longrightarrow> gate_offset (init_idt_step addr i t i) = addr reserved"
  by (simp add: init_idt_step_def idt_consts gate_offset_set)

text \<open>After the loop every entry is what its own iteration made of it.\<close>

lemma init_idt_loop:
  "j < n \<Longrightarrow> \<exists>t'. fold (init_idt_step addr) [0..<n] t j = init_idt_step addr j t' j"
  by (induction n) (auto simp: less_Suc_eq init_idt_step_other)

section \<open>Properties\<close>

text \<open>The handler an interrupt or exception number must reach.\<close>

definition idt_handler :: "nat \<Rightarrow> handler option" where
  "idt_handler j =
     (case map_of idt_vectors j of Some h \<Rightarrow> Some h
      | None \<Rightarrow> if j < 0x20 then Some reserved else None)"

definition idt_zero :: idt where
  "idt_zero = (\<lambda>_. \<lparr>offset_15_00 = 0, seg_selector = 0, reserved4 = 0, reserved3 = False,
     reserved2 = False, reserved1 = False, size = False, reserved0 = False, dpl = 0,
     present = False, offset_31_16 = 0\<rparr>)"

lemma idt_vectors_distinct: "distinct (map fst idt_vectors)"
  by (simp add: idt_vectors_def idt_consts)

lemma idt_vectors_present:
  "(j, h) \<in> set idt_vectors \<Longrightarrow> j < 0x20 \<or> j \<in> {0x20, 0x21, 0x28, 0x80}"
  by (auto simp: idt_vectors_def idt_consts)

lemma init_idt_entry:
  assumes "j < 256"
  obtains t' where "init_idt addr t j =
    fold (\<lambda>(i, h). SET_IDT_ENTRY i (addr h)) idt_vectors t' j" and "\<exists>u. t' j = init_idt_step addr j u j"
  using init_idt_loop [of j NUM_VEC addr t] assms by (auto simp: init_idt_def NUM_VEC_def)

text \<open>
  C34: The descriptor table: the present gates are the 32 exceptions, the timer, the keyboard,
  the clock and the system call; each leads to its handler in the kernel's code segment; only
  the system call is open to user programs, and only it is a trap gate, which leaves interrupts
  enabled.
\<close>

theorem idt_routes_vectors:
  assumes "j < 256"
  shows "(case idt_handler j of None \<Rightarrow> \<not> present (init_idt addr t j)
      | Some h \<Rightarrow> present (init_idt addr t j) \<and> gate_offset (init_idt addr t j) = addr h) \<and>
    seg_selector (init_idt addr t j) = KERNEL_CS \<and>
    dpl (init_idt addr t j) = (if j = 0x80 then 3 else 0) \<and>
    (reserved3 (init_idt addr t j) \<longleftrightarrow> j = 0x80)"
proof (rule init_idt_entry [OF assms, of addr t])
  fix t'
  let ?g = "fold (\<lambda>(i, h). SET_IDT_ENTRY i (addr h)) idt_vectors t' j"
  assume e: "init_idt addr t j = ?g" and "\<exists>u. t' j = init_idt_step addr j u j"
  then obtain u where u: "t' j = init_idt_step addr j u j" by blast
  have p: "present ?g \<longleftrightarrow> j < 0x20 \<or> j \<in> {0x20, 0x21, 0x28, 0x80}"
    by (simp add: u init_idt_step_self)
  have "case idt_handler j of None \<Rightarrow> \<not> present ?g | Some h \<Rightarrow> present ?g \<and> gate_offset ?g = addr h"
  proof (cases "map_of idt_vectors j")
    case None
    then have "j \<notin> fst ` set idt_vectors" by (simp add: map_of_eq_None_iff)
    moreover from this have "j \<notin> {0x20, 0x21, 0x28, 0x80}"
      by (auto simp: idt_vectors_def idt_consts)
    ultimately show ?thesis
      using p None by (simp add: idt_handler_def idt_vectors_other u init_idt_step_offset)
  next
    case (Some h)
    then have h: "(j, h) \<in> set idt_vectors" by (rule map_of_SomeD)
    then have "present ?g" using p idt_vectors_present by blast
    then show ?thesis
      using Some idt_vectors_offset [OF idt_vectors_distinct h] by (simp add: idt_handler_def)
  qed
  then show ?thesis unfolding e by (simp add: u init_idt_step_self)
qed

theorem idt_routes_vectors_witness:
  "present (init_idt (\<lambda>h. if h = syscall_assembly then 0x401234 else 0) idt_zero 0x80) \<and>
   gate_offset (init_idt (\<lambda>h. if h = syscall_assembly then 0x401234 else 0) idt_zero 0x80) = 0x401234"
  using idt_routes_vectors [where j = "0x80" and t = idt_zero and
      addr = "\<lambda>h. if h = syscall_assembly then 0x401234 else 0"]
  by (simp add: idt_handler_def idt_vectors_def idt_consts)

end
