(* ===== verification/Machine.thy ===== *)
theory Machine
  imports KernelInv Idt
begin

text \<open>
  The kernel as a machine: the interrupt handlers on its whole state, the exception handler,
  the start-up code of \<^verbatim>\<open>kernel.c\<close> from the paging to the first schedule, and the relation of
  its steps with the states it reaches.
\<close>

section \<open>Interrupts and exceptions\<close>

definition k_keyboard_int :: "u8 \<Rightarrow> kernel \<Rightarrow> kernel option" where
  "k_keyboard_int sc k =
     map_option (\<lambda>(b, c, pg, p). k\<lparr>kkbd := b, kcon := c, kpg := pg, kpic := p\<rparr>)
       (keyboard_int sc (kkbd k, kcon k, kpg k, kpic k))"

definition k_rtc_int :: "kernel \<Rightarrow> kernel" where
  "k_rtc_int k = (let (c, p) = rtc_int (krtc k, kpic k) in k\<lparr>krtc := c, kpic := p\<rparr>)"

text \<open>
  \<^verbatim>\<open>print_exception\<close>: \<open>user\<close> tells whether \<^verbatim>\<open>ds\<close> holds the user's selector. \<^verbatim>\<open>printf\<close> and
  \<^verbatim>\<open>clear\<close> go to the current terminal.
\<close>

definition EXCEPTION_STATUS :: u32 where "EXCEPTION_STATUS = 256"

definition k_putc :: "u8 \<Rightarrow> kernel \<Rightarrow> kernel" where
  "k_putc c k = k\<lparr>kcon := term_putc c (get_current_terminal k) (kcon k)\<rparr>"

definition k_printf :: "(u32 \<Rightarrow> u8 list) \<Rightarrow> u8 list \<Rightarrow> u32 list \<Rightarrow> kernel \<Rightarrow> kernel option" where
  "k_printf strs fmt args k = map_option (\<lambda>out. fold k_putc out k) (printf_fmt strs fmt args)"

definition k_clear :: "kernel \<Rightarrow> kernel" where
  "k_clear k = k\<lparr>kcon := term_clear (get_current_terminal k) (kcon k)\<rparr>"

definition print_exception :: "inputs \<Rightarrow> bool \<Rightarrow> u8 list \<Rightarrow> kernel \<Rightarrow> (flow \<times> kernel) option" where
  "print_exception inp user str k =
     (if user then Option.bind (k_printf (\<lambda>_. []) str [] k) (halt32 inp EXCEPTION_STATUS)
      else map_option (\<lambda>k. (Hang, k)) (k_printf (\<lambda>_. []) str [] (k_clear k)))"

text \<open>An exception through its gate: the handlers only pass their message on.\<close>

definition exception_gate :: "inputs \<Rightarrow> bool \<Rightarrow> handler \<Rightarrow> kernel \<Rightarrow> (flow \<times> kernel) option" where
  "exception_gate inp user h k =
     (case exception_message h of None \<Rightarrow> None
      | Some m \<Rightarrow> print_exception inp user (asc m @ [10, 0]) k)"

section \<open>Start-up\<close>

text \<open>
  \<^verbatim>\<open>entry\<close> from \<^verbatim>\<open>init_pages\<close> to \<^verbatim>\<open>sched\<close>: \<open>cli\<close>, the three shells, the timer, the message,
  \<open>sti\<close> and the first schedule.
\<close>

definition start_shells :: "inputs \<Rightarrow> kernel \<Rightarrow> (flow \<times> kernel) option" where
  "start_shells inp k =
     do { let k = k\<lparr>kpg := init_pages (kpg k)\<rparr>;
          let k = k\<lparr>kcon := cli (kcon k)\<rparr>;
          k \<leftarrow> init_shells (in_dentry inp) (in_entry inp) k;
          p \<leftarrow> pit_init 50 (kpic k);
          let k = k\<lparr>kpic := p\<rparr>;
          k \<leftarrow> k_printf (\<lambda>_. []) (asc ''Enabling Interrupts'' @ [10, 0]) [] k;
          let k = k\<lparr>kcon := sti (kcon k)\<rparr>;
          Some (sched (in_esp inp) (in_ebp inp) (in_prev inp) k) }"


section \<open>Steps\<close>

text \<open>
  One step of the machine. The registers and the other inputs of a step are arbitrary. A
  blocking read is two steps, so that other processes run in between; the kernel's exception
  loop is a state without steps.
\<close>

inductive kstep :: "kernel \<Rightarrow> kernel \<Rightarrow> bool" where
  tick: "kstep k (snd (pit_int esp ebp prev k))"
| key: "k_keyboard_int sc k = Some k' \<Longrightarrow> kstep k k'"
| clock: "kstep k (k_rtc_int k)"
| call: "do_syscall inp eax ebx ecx edx k = Some (fl, k') \<Longrightarrow>
    (\<And>k. in_wait inp k = None) \<Longrightarrow> kstep k k'"
| read_start: "kstep k (terminal_read_start k)"
| read_end: "terminal_read_end (get_current_terminal k) buf n k = Some (r, k') \<Longrightarrow> kstep k k'"
| clock_start: "kstep k (set_int_flag False k)"
| fault: "exception_gate inp True h k = Some (fl, k') \<Longrightarrow> kstep k k'"
| user_store: "translate True (kpg k) va = Some a \<Longrightarrow> phys_store a v k = Some k' \<Longrightarrow> kstep k k'"

inductive reachable :: "kernel \<Rightarrow> kernel \<Rightarrow> bool" for k0 where
  start: "reachable k0 k0"
| step: "reachable k0 k \<Longrightarrow> kstep k k' \<Longrightarrow> reachable k0 k'"

section \<open>Every step keeps the invariant\<close>

lemma pit_int_keeps:
  assumes k: "kinv k"
  shows "kinv (snd (pit_int esp ebp prev k))"
proof -
  let ?k = "k\<lparr>kpic := send_eoi PIT_IRQ (kpic k)\<rparr>"
  have k': "kinv ?k" by (rule kinv_pic [OF k])
  note T = kinvD(5) [OF k', unfolded tree_of_def]
  have other: "\<exists>p\<in>pids. p \<noteq> current_pid ?k \<and> process_queue ?k p = SCHEDULED"
  proof -
    let ?tm = "\<lambda>p. pterm_num (pcbs ?k p)"
    obtain p0 where p0: "p0 \<in> pids" "process_queue ?k p0 = SCHEDULED" "?tm p0 = 0"
      using one_scheduled [OF T, of 0] by auto
    obtain p1 where p1: "p1 \<in> pids" "process_queue ?k p1 = SCHEDULED" "?tm p1 = 1"
      using one_scheduled [OF T, of 1] by auto
    have "p0 \<noteq> p1" using p0(3) p1(3) by auto
    then show ?thesis using p0 p1 by metis
  qed
  show ?thesis
    unfolding pit_int_def
  proof (rule kinv_sched [OF _ _ other])
    show "kb_ok (kkbd ?k, kcon ?k, kpg ?k, kpic ?k)" using k' by (simp add: kinv_def)
    show "current_pid ?k \<in> pids" by (rule kinvD(8) [OF k'])
    show "\<forall>p\<in>pids. fds_ok (process_queue ?k p \<noteq> NOT_LOADED) (pcbs ?k p)" using kinvD(7) [OF k'] by blast
    fix c assume "c \<in> pids" "process_queue ?k c = SCHEDULED"
    with T show "tree_inv (process_queue ?k) (\<lambda>p. parent_id (pcbs ?k p)) (\<lambda>p. pterm_num (pcbs ?k p))
        (\<lambda>p. process_id (pcbs ?k p)) c" by (rule tree_inv_switch)
  qed
qed

text \<open>The keyboard handler does not touch the page directory.\<close>

lemma show_terminal_page_dir:
  "show_terminal t (s, pg) = (r, s', pg') \<Longrightarrow> page_dir pg' = page_dir pg"
  by (auto simp: show_terminal_def Let_def page_map_4kb_def split: if_splits)

lemma keyboard_int_page_dir:
  assumes "keyboard_int sc (k, s, pg, pc) = Some (k', s', pg', pc')"
  shows "page_dir pg' = page_dir pg"
proof -
  have sw: "switch_to t (k, s, pg, pc) = (k', s', pg', pc') \<Longrightarrow> page_dir pg' = page_dir pg" for t k s
    by (auto simp: switch_to_def Let_def split: prod.splits dest: show_terminal_page_dir)
  show ?thesis
    using assms
    by (auto simp: keyboard_int_def Let_def key_char_eq split: if_splits prod.splits option.splits
        dest!: sw)
qed

lemma k_keyboard_int_keeps:
  assumes k: "kinv k" and "k_keyboard_int sc k = Some k'"
  shows "kinv k'"
proof -
  obtain b c pg p where s: "keyboard_int sc (kkbd k, kcon k, kpg k, kpic k) = Some (b, c, pg, p)"
    and k': "k' = k\<lparr>kkbd := b, kcon := c, kpg := pg, kpic := p\<rparr>"
    using assms(2) by (auto simp: k_keyboard_int_def)
  have "kb_ok (kkbd k, kcon k, kpg k, kpic k)" using k by (simp add: kinv_def)
  from keyboard_int_cases [OF this, of sc] s have "kb_ok (b, c, pg, p)"
    by (auto simp: kb_step_ok_def)
  then show ?thesis
    using k keyboard_int_page_dir [OF s] by (simp add: kinv_def k' tree_of_def ctx_ok_def)
qed

lemma k_rtc_int_keeps: "kinv k \<Longrightarrow> kinv (k_rtc_int k)"
  by (simp add: k_rtc_int_def case_prod_beta kinv_rtc kinv_pic)

lemma kinv_putc: "kinv k \<Longrightarrow> kinv (k_putc c k) \<and> current_pid (k_putc c k) = current_pid k"
  unfolding k_putc_def using kinvD_cur(5,6) [of k] kinvD(1) [of k]
  by (auto intro!: kinv_con simp: con_inv_putc term_putc_keeps)

lemma kinv_printf: "kinv k \<Longrightarrow> k_printf strs fmt args k = Some k' \<Longrightarrow> kinv k'"
proof -
  have "kinv k \<Longrightarrow> kinv (fold k_putc out k)" for out k
    by (induction out arbitrary: k) (auto simp: kinv_putc)
  then show "kinv k \<Longrightarrow> k_printf strs fmt args k = Some k' \<Longrightarrow> kinv k'"
    by (auto simp: k_printf_def)
qed

lemma exception_gate_keeps:
  "kinv k \<Longrightarrow> exception_gate inp True h k = Some (fl, k') \<Longrightarrow> kinv k'"
  by (auto simp: exception_gate_def print_exception_def bind_eq_Some_conv split: option.splits
      dest: kinv_printf halt32_keeps)

lemma syscall_keeps:
  assumes k: "kinv k" and w: "wait_ok (in_wait inp)"
    and s: "do_syscall inp eax ebx ecx edx k = Some (fl, k')"
  shows "kinv k'"
proof -
  have r: "ret x = Some (fl, k') \<Longrightarrow> (\<And>v k1. x = Some (v, k1) \<Longrightarrow> kinv k1) \<Longrightarrow> kinv k'" for x
    by (auto simp: ret_def)
  consider "k' = k" | "halt inp (ucast ebx) k = Some (fl, k')"
    | st where "execute inp st k = Some (fl, k')"
    | "ret (sys_read inp (sint ebx) ecx edx k) = Some (fl, k')"
    | "ret (sys_write inp (sint ebx) ecx edx k) = Some (fl, k')"
    | st where "ret (sys_open inp st k) = Some (fl, k')"
    | "ret (sys_close (sint ebx) k) = Some (fl, k')"
    | "ret (getargs ebx (sint ecx) k) = Some (fl, k')"
    | "ret (vidmap ebx k) = Some (fl, k')"
    using s unfolding do_syscall_def Let_def
    by (auto simp: bind_eq_Some_conv ret_def set_handler_def sigreturn_def split: if_splits)
  then show ?thesis
  proof cases
    case 2
    then show ?thesis unfolding halt_def using halt32_keeps k by blast
  next
    case 3
    then show ?thesis using execute_keeps k by blast
  next
    case 4
    then show ?thesis using r sys_read_keeps k w by blast
  next
    case 5
    then show ?thesis using r sys_write_keeps k by blast
  next
    case 6
    then show ?thesis using r sys_open_keeps k by blast
  next
    case 7
    then show ?thesis using r sys_close_keeps k by blast
  next
    case 8
    then show ?thesis using r getargs_keeps k by blast
  next
    case 9
    then show ?thesis using r vidmap_keeps k by blast
  qed (use k in simp)
qed

lemma kstep_keeps:
  assumes "kstep k k'" and k: "kinv k"
  shows "kinv k'"
  using assms(1)
proof cases
  case (tick esp ebp prev)
  then show ?thesis using pit_int_keeps k by simp
next
  case (key sc)
  then show ?thesis using k_keyboard_int_keeps k by blast
next
  case clock
  then show ?thesis using k_rtc_int_keeps k by simp
next
  case (call inp eax ebx ecx edx fl)
  have "wait_ok (in_wait inp)" using call(2) by (simp add: wait_ok_def)
  then show ?thesis using syscall_keeps k call(1) by blast
next
  case read_start
  then show ?thesis using kinv_terminal_read_start k by simp
next
  case (read_end buf n r)
  then show ?thesis using terminal_read_end_keeps [OF k _ read_end] kinvD_cur [OF k] by simp
next
  case clock_start
  then show ?thesis using kinv_set_int_flag k by simp
next
  case (fault inp h fl)
  then show ?thesis using exception_gate_keeps k by blast
next
  case (user_store va a v)
  then show ?thesis using kinv_mem_only phys_store_mem_only k by blast
qed

lemma reachable_keeps: "reachable k0 k \<Longrightarrow> kinv k0 \<Longrightarrow> kinv k"
  by (induction rule: reachable.induct) (auto intro: kstep_keeps)
end
