(* ===== verification/Boot.thy ===== *)
theory Boot
  imports Machine
begin

text \<open>
  The start-up sequence establishes the invariant: from zeroed control blocks and an empty
  queue, \<open>start_shells\<close> (when the shell's file loads) ends in the first shell of terminal 0,
  with the three shells runnable.
\<close>

text \<open>
  The state in which \<^verbatim>\<open>init_pages\<close> is called: terminals initialised, no process, no
  descriptor open.
\<close>

definition boot_state :: "kernel \<Rightarrow> bool" where
  "boot_state k \<longleftrightarrow> kbd_inv (kkbd k) \<and> con_inv (kcon k) \<and> display_term (kcon k) = 0 \<and>
     (\<exists>d p v. kpg k = paging_boot d p v \<and> drop_bit 12 p \<noteq> drop_bit 12 v) \<and>
     current_pid k = -1 \<and>
     (\<forall>p\<in>pids. process_queue k p = NOT_LOADED \<and> fds_ok False (pcbs k p))"

definition shells_up :: "int \<Rightarrow> kernel \<Rightarrow> bool" where
  "shells_up n k \<longleftrightarrow> kb_ok (kkbd k, kcon k, kpg k, kpic k) \<and> current_pid k = -1 \<and>
     (\<forall>p\<in>pids. process_queue k p = (if p < n then SCHEDULED else NOT_LOADED) \<and>
        fds_ok (p < n) (pcbs k p) \<and>
        (p < n \<longrightarrow> process_id (pcbs k p) = p \<and> parent_id (pcbs k p) = -1 \<and>
          pterm_num (pcbs k p) = nat p \<and> sched_bp (pcbs k p) = 0))"

lemma shells_up_start:
  "boot_state k \<Longrightarrow> shells_up 0 (k\<lparr>kpg := init_pages (kpg k), kcon := cli (kcon k)\<rparr>)"
  by (auto simp: boot_state_def shells_up_def kb_ok_def pg_inv_init video_mapped_init in_pids)

lemma init_stdio_eq:
  "set_fd_open STDOUT (upd_fd STDOUT (\<lambda>d. d\<lparr>fops := STDOUT_OPS\<rparr>)
     (set_fd_open STDIN (upd_fd STDIN (\<lambda>d. d\<lparr>fops := STDIN_OPS\<rparr>) q))) = init_stdio q"
  by (simp add: init_stdio_def)

lemma execute_sh_up:
  assumes "shells_up n k" and "0 \<le> n" and "n < 3" and "execute_sh n dj ej k = Some k'"
  shows "shells_up (n + 1) k'"
proof -
  let ?s = "(pcbs k n)\<lparr>pterm_num := nat n, process_id := n, parent_id := -1,
      stack_ptr := get_kernel_stack n, argument := (argument (pcbs k n))[0 := 0]\<rparr>"
  let ?q = "(init_stdio ?s)\<lparr>rtc_freq := -1, sched_bp := 0\<rparr>"
  let ?k = "sh_prepare n k"
  obtain e k1 where l: "k_program_load shell_name dj ej ?k = Some (e, k1)"
    and k': "k' = upd_pcb n (\<lambda>p. p\<lparr>pentry := e, stack_ptr := get_kernel_stack (current_pid k1)\<rparr>) k1"
    using assms(4) by (auto simp: execute_sh_def bind_eq_Some_conv)
  have S: "pcbs ?k = (pcbs k)(n := ?q)" "process_queue ?k = (process_queue k)(n := SCHEDULED)"
    "kpg ?k = page_map_user (word_of_int n) (kpg k)" "kcon ?k = kcon k" "kkbd ?k = kkbd k"
    "kpic ?k = kpic k" "current_pid ?k = current_pid k"
    by (simp_all add: sh_prepare_def Let_def sched_queue_process_def set_queue_def init_stdio_def set_fd_open_def)
  have m: "mem_only ?k k1" by (rule k_program_load_mem_only [OF l])
  note M = mem_only_eqs [OF m]
  have np: "n \<in> pids" using assms(2,3) by (simp add: in_pids)
  have f: "fds_ok False (pcbs k n)" using assms(1) np by (auto simp: shells_up_def)
  then have "fds_ok False ?s" by (simp add: fds_ok_def)
  then have "fds_ok True (init_stdio ?s)" by (rule fds_ok_init_stdio)
  then have f1: "fds_ok True (?q\<lparr>pentry := e, stack_ptr := s\<rparr>)" for s by (simp add: fds_ok_def)
  have c: "con_inv (kcon k1)"
    using m assms(1) by (auto simp: mem_only_def shells_up_def kb_ok_def S)
  have kb: "kb_ok (kkbd k', kcon k', kpg k', kpic k')"
    using assms(1) c by (auto simp: k' M S shells_up_def kb_ok_def video_mapped_def intro: pg_inv_map_user)
  show ?thesis
    using assms(1) f1 kb assms(2)
    by (auto simp: shells_up_def k' M S)
qed

lemma shells_up_putc: "shells_up 3 k \<Longrightarrow> shells_up 3 (k_putc c k)"
proof -
  assume s: "shells_up 3 k"
  then have "get_current_terminal k = 0" "con_inv (kcon k)"
    by (simp_all add: get_current_terminal_def shells_up_def kb_ok_def)
  then show ?thesis
    using s by (simp add: k_putc_def shells_up_def kb_ok_def con_inv_putc term_putc_keeps)
qed

lemma kinv_first_sched:
  assumes s: "shells_up 3 k"
  shows "kinv (snd (sched esp ebp prev k))" and "current_pid (snd (sched esp ebp prev k)) = 0"
    and "fst (sched esp ebp prev k) = Enter_user (pentry (pcbs k 0))"
proof -
  have c: "current_pid k = -1" and q: "\<And>p. p \<in> pids \<Longrightarrow>
      process_queue k p = (if p < 3 then SCHEDULED else NOT_LOADED)"
    using s by (auto simp: shells_up_def)
  have "process_queue k 0 = SCHEDULED" using q [of 0] by (simp add: in_pids)
  then have pick: "sched_pick (process_queue k) (-1) = 0" by (simp add: sched_pick_unfold)
  then show "current_pid (snd (sched esp ebp prev k)) = 0" by (simp add: c)
  let ?k = "snd (sched esp ebp prev k)"
  have P: "p \<in> pids \<Longrightarrow> p < 3 \<Longrightarrow> process_id (pcbs k p) = p \<and> parent_id (pcbs k p) = -1 \<and>
      pterm_num (pcbs k p) = nat p \<and> sched_bp (pcbs k p) = 0" for p
    using s by (simp add: shells_up_def)
  have ld: "loaded (process_queue k) p \<longleftrightarrow> p \<in> {0, 1, 2}" for p
  proof -
    have "p \<in> pids \<and> p < 3 \<longleftrightarrow> p \<in> {0, 1, 2}" by (auto simp: in_pids)
    then show ?thesis using q [of p] by (auto simp: loaded_def)
  qed
  have ch: "\<not> child (process_queue k) p" for p using ld by (auto simp: child_def)
  have nl: "p \<in> pids \<Longrightarrow> process_queue k p \<noteq> LOADED" for p using q by simp
  have "tree_inv (process_queue k) (\<lambda>p. parent_id (pcbs k p)) (\<lambda>p. pterm_num (pcbs k p))
      (\<lambda>p. process_id (pcbs k p)) 0"
    unfolding tree_inv_def using ld ch nl P q by (auto simp: in_pids)
  then have "tree_of ?k" by (simp add: tree_of_def c pick)
  moreover have "kb_ok (kkbd ?k, kcon ?k, kpg ?k, kpic ?k)"
    using s by (auto simp: shells_up_def kb_ok_def video_mapped_def intro: pg_inv_map_user)
  moreover have "ctx_ok ?k"
    using page_map_user_frame [of 0 "kpg k"] by (simp add: ctx_ok_def c pick in_pids)
  moreover have "\<forall>p\<in>pids. fds_ok (process_queue ?k p \<noteq> NOT_LOADED) (pcbs ?k p)"
    using s by (auto simp: shells_up_def c)
  ultimately show "kinv ?k" by (simp add: kinv_def)
  show "fst (sched esp ebp prev k) = Enter_user (pentry (pcbs k 0))"
    using P [of 0] by (simp add: sched_flow c pick in_pids)
qed

lemma init_shells_up:
  assumes "shells_up 0 k" and "init_shells dj ej k = Some k'"
  shows "shells_up 3 k'"
proof -
  have "[0..int TERM_MAX - 1] = [0, 1, 2]" by (simp add: TERM_MAX_def upto_rec1)
  then obtain k1 k2 where "execute_sh 0 dj ej k = Some k1" "execute_sh 1 dj ej k1 = Some k2"
    "execute_sh 2 dj ej k2 = Some k'"
    using assms(2) by (auto simp: init_shells_def split: option.splits)
  then show ?thesis
    using execute_sh_up [OF assms(1), of dj ej k1] execute_sh_up [of 1 k1 dj ej k2]
      execute_sh_up [of 2 k2 dj ej k'] by simp
qed

lemma start_shells_kinv:
  assumes "boot_state k" and "start_shells inp k = Some (fl, k')"
  shows "kinv k' \<and> current_pid k' = 0 \<and> (\<exists>e. fl = Enter_user e)"
proof -
  let ?k0 = "k\<lparr>kpg := init_pages (kpg k), kcon := cli (kcon k)\<rparr>"
  obtain k1 p k2 where 1: "init_shells (in_dentry inp) (in_entry inp) ?k0 = Some k1"
    and 2: "k_printf (\<lambda>_. []) (asc ''Enabling Interrupts'' @ [10, 0]) [] (k1\<lparr>kpic := p\<rparr>) = Some k2"
    and 3: "(fl, k') = sched (in_esp inp) (in_ebp inp) (in_prev inp) (k2\<lparr>kcon := sti (kcon k2)\<rparr>)"
    using assms(2) by (auto simp: start_shells_def Let_def bind_eq_Some_conv)
  have "shells_up 3 k1" using init_shells_up [OF shells_up_start [OF assms(1)] 1] .
  then have "shells_up 3 (k1\<lparr>kpic := p\<rparr>)" by (simp add: shells_up_def kb_ok_def)
  moreover have "shells_up 3 k \<Longrightarrow> shells_up 3 (fold k_putc out k)" for out k
    by (induction out arbitrary: k) (auto simp: shells_up_putc)
  moreover obtain out where "k2 = fold k_putc out (k1\<lparr>kpic := p\<rparr>)"
    using 2 unfolding k_printf_def by blast
  ultimately have "shells_up 3 k2" by blast
  then have "shells_up 3 (k2\<lparr>kcon := sti (kcon k2)\<rparr>)" by (simp add: shells_up_def kb_ok_def)
  from kinv_first_sched [OF this] 3 show ?thesis by (metis fst_conv snd_conv)
qed

end
