(* ===== verification/ProcProps.thy ===== *)
theory ProcProps
  imports Boot
begin

text \<open>
  What the processes can rely on: fair scheduling, the effect of starting and ending a
  program, and the isolation of program memory. The last section holds the properties.
\<close>

section \<open>Fair scheduling\<close>

text \<open>A run of timer interrupts, each with the registers it finds.\<close>

definition ticks :: "(u32 \<times> u32 \<times> u8) list \<Rightarrow> kernel \<Rightarrow> kernel" where
  "ticks = fold (\<lambda>(esp, ebp, prev) k. snd (pit_int esp ebp prev k))"

lemma pit_int_simps [simp]:
  "process_queue (snd (pit_int esp ebp prev k)) = process_queue k"
  "current_pid (snd (pit_int esp ebp prev k)) = sched_pick (process_queue k) (current_pid k)"
  by (simp_all add: pit_int_def)

lemma rr_dist_bounds: "0 \<le> rr_dist c p" "rr_dist c p < 6"
  by (simp_all add: rr_dist_def)

lemma rr_dist_step:
  assumes "c \<in> pids" and "p \<in> pids" and "r \<in> pids" and "r \<noteq> p"
    and "rr_dist c r \<le> rr_dist c p"
  shows "rr_dist r p < rr_dist c p"
proof -
  have l: "c = 0 \<or> c = 1 \<or> c = 2 \<or> c = 3 \<or> c = 4 \<or> c = 5"
    "p = 0 \<or> p = 1 \<or> p = 2 \<or> p = 3 \<or> p = 4 \<or> p = 5"
    "r = 0 \<or> r = 1 \<or> r = 2 \<or> r = 3 \<or> r = 4 \<or> r = 5"
    using assms(1-3) by (simp_all add: pids_eq)
  have m: "rr_dist x y = (if y - x - 1 < 0 then y - x + 5 else y - x - 1)"
    if "x \<in> pids" "y \<in> pids" for x y
  proof (cases "y - x - 1 < 0")
    case True
    then have b: "0 \<le> y - x + 5" "y - x + 5 < 6" using that by (auto simp: in_pids)
    have "(y - x - 1) mod 6 = (y - x - 1 + 6) mod 6" by (simp only: mod_add_self2)
    also have "\<dots> = (y - x + 5) mod 6" by (rule arg_cong) simp
    finally show ?thesis using True b by (simp add: rr_dist_def)
  next
    case False
    then show ?thesis using that by (simp add: rr_dist_def in_pids)
  qed
  show ?thesis
    using assms by (simp add: m in_pids split: if_splits)
qed

lemma ticks_reach:
  assumes "current_pid k \<in> pids" and "p \<in> pids" and "process_queue k p = SCHEDULED"
    and "p \<noteq> current_pid k" and "rr_dist (current_pid k) p < int (length rs)"
  shows "\<exists>n\<le>length rs. current_pid (ticks (take n rs) k) = p"
  using assms
proof (induction rs arbitrary: k)
  case Nil
  then show ?case using rr_dist_bounds(1) [of "current_pid k" p] by simp
next
  case (Cons t rs)
  obtain esp ebp prev where t: "t = (esp, ebp, prev)" by (metis prod_cases3)
  let ?k = "snd (pit_int esp ebp prev k)" and ?r = "sched_pick (process_queue k) (current_pid k)"
  have "\<exists>x\<in>pids. x \<noteq> current_pid k \<and> process_queue k x = SCHEDULED" using Cons.prems by blast
  note S = sched_pick_scheduled [OF Cons.prems(1) this]
  show ?case
  proof (cases "?r = p")
    case True
    then show ?thesis by (intro exI [of _ 1]) (simp add: ticks_def t)
  next
    case False
    have le: "rr_dist (current_pid k) ?r \<le> rr_dist (current_pid k) p" using S Cons.prems(2-4) by blast
    have "rr_dist ?r p < rr_dist (current_pid k) p"
      using rr_dist_step [OF Cons.prems(1,2) _ False le] S by blast
    then have "\<exists>n\<le>length rs. current_pid (ticks (take n rs) ?k) = p"
      using Cons.prems S False by (intro Cons.IH) auto
    then obtain n where "n \<le> length rs" "current_pid (ticks (take n rs) ?k) = p" by blast
    then show ?thesis by (intro exI [of _ "Suc n"]) (simp add: ticks_def t)
  qed
qed

section \<open>Isolation\<close>

text \<open>Where the kernel's own accesses go: below 8 MB or into the current program's frame.\<close>

lemma push_or_less:
  fixes q va :: u32
  assumes "unat q < 2 ^ (23 - n)" and "n \<le> 22"
  shows "drop_bit 23 (push_bit n q OR take_bit n va) = 0"
proof (rule bit_word_eqI)
  fix m assume "m < LENGTH(32)"
  have "\<not> bit q (23 + m - n)"
  proof
    assume "bit q (23 + m - n)"
    then have "bit (unat q) (23 + m - n)" by (simp add: bit_unsigned_iff)
    moreover have "(2 :: nat) ^ (23 - n) \<le> 2 ^ (23 + m - n)" by (rule power_increasing) auto
    ultimately show False using assms(1) by (simp add: bit_iff_odd)
  qed
  then show "bit (drop_bit 23 (push_bit n q OR take_bit n va)) m = bit (0 :: u32) m"
    using assms(2) by (auto simp: bit_simps)
qed

lemma translate_where:
  assumes inv: "pg_inv s" and t: "translate False s va = Some a"
    and vid: "\<And>i. i \<in> video_slots \<Longrightarrow> unat (drop_bit 12 (vmem_page_table s i)) < 2 ^ 11"
  shows "drop_bit 23 a = 0 \<or> drop_bit 22 a = drop_bit 22 (page_dir s 32)"
proof -
  let ?d = "unat (drop_bit 22 va)" and ?i = "unat (take_bit 10 (drop_bit 12 va))"
  have i: "?i < 1024"
    using take_bit_nat_less_exp [of 10 "unat (drop_bit 12 va)"] by (simp add: unsigned_take_bit_eq)
  consider "?d = 32" | "?d = 0" | "?d = 1" | "?d = 2" | "?d \<notin> {0, 1, 2, 32}" by auto
  then show ?thesis
  proof cases
    case 1
    then have a: "a = push_bit 22 (drop_bit 22 (page_dir s 32)) OR take_bit 22 va"
      using inv t by (simp add: translate_def pg_inv_def Let_def)
    have "unat (drop_bit 22 (page_dir s 32)) < 1024"
      using unat_lt32 [of "page_dir s 32"]
      by (simp add: unsigned_drop_bit_eq drop_bit_eq_div unat_div less_mult_imp_div_less)
    then show ?thesis using drop_bit_22_or unfolding a by blast
  next
    case 2
    then have p: "bit (page_table s ?i) 0"
      and a: "a = push_bit 12 (drop_bit 12 (page_table s ?i)) OR take_bit 12 va"
      using inv t by (auto simp: translate_def pg_inv_def table_at_def Let_def split: if_splits)
    then have "?i \<in> insert 0xB8 video_slots" using inv i by (auto simp: pg_inv_def)
    then have "unat (drop_bit 12 (page_table s ?i)) < 2 ^ (23 - 12)"
      using inv by (auto simp: pg_inv_def video_slots_def)
    then show ?thesis unfolding a using push_or_less [of "drop_bit 12 (page_table s ?i)" 12 va] by simp
  next
    case 3
    then have "a = push_bit 22 1 OR take_bit 22 va"
      using inv t by (simp add: translate_def pg_inv_def Let_def)
    then show ?thesis using push_or_less [of 1 22 va] by simp
  next
    case 4
    then have p: "bit (vmem_page_table s ?i) 0"
      and a: "a = push_bit 12 (drop_bit 12 (vmem_page_table s ?i)) OR take_bit 12 va"
      using inv t by (auto simp: translate_def pg_inv_def table_at_def Let_def split: if_splits)
    then have "?i \<in> video_slots" using inv i by (auto simp: pg_inv_def)
    with vid [of ?i] show ?thesis
      unfolding a using push_or_less [of "drop_bit 12 (vmem_page_table s ?i)" 12 va] by simp
  next
    case 5
    then show ?thesis using inv t by (simp add: translate_def pg_inv_def Let_def)
  qed
qed

text \<open>The frame of process \<open>p\<close> is left alone.\<close>

definition frame_kept :: "int \<Rightarrow> kernel \<Rightarrow> kernel \<Rightarrow> bool" where
  "frame_kept p k k' \<longleftrightarrow> (\<forall>a. drop_bit 22 a = word_of_int (p + 2) \<longrightarrow> pmem k' a = pmem k a)"

lemma frame_kept_refl [simp]: "frame_kept p k k"
  and frame_kept_trans: "frame_kept p a b \<Longrightarrow> frame_kept p b c \<Longrightarrow> frame_kept p a c"
  and frame_kept_pmem: "pmem k' = pmem k \<Longrightarrow> frame_kept p k k'"
  by (simp_all add: frame_kept_def)

definition mapped_for :: "int \<Rightarrow> paging \<Rightarrow> bool" where
  "mapped_for c pg \<longleftrightarrow> pg_inv pg \<and> drop_bit 22 (page_dir pg 32) = word_of_int (c + 2) \<and>
     (\<exists>d<3. video_mapped d pg)"

lemma video_slots_small:
  assumes "video_mapped d pg" and "i \<in> video_slots"
  shows "unat (drop_bit 12 (vmem_page_table pg i)) < 2 ^ 11"
proof -
  obtain j where j: "j < 3" "i = 0xB9 + j"
    using assms(2) by (auto simp: video_slots_def intro: that [of 0] that [of 1] that [of 2])
  then have "drop_bit 12 (vmem_page_table pg i) = (if j = d then VMEM_MAP else term_vid_addr j)"
    using assms(1) by (simp add: video_mapped_def base_frame)
  moreover have "j \<in> {0, 1, 2}" using j by auto
  ultimately show ?thesis by (auto simp: term_vid_addr_def page_consts)
qed

lemma pids_frames_distinct:
  assumes "p \<in> pids" and "c \<in> pids" and "p \<noteq> c"
  shows "(word_of_int (p + 2) :: u32) \<noteq> word_of_int (c + 2)"
    and "push_bit 22 (word_of_int (p + 2) :: u32) \<noteq> 0"
  using assms by (auto simp: pids_eq)

lemma vstore8_frame:
  assumes m: "mapped_for c (kpg k)" and p: "p \<in> pids" "c \<in> pids" "p \<noteq> c"
    and s: "vstore8 va v k = Some k'"
  shows "frame_kept p k k' \<and> kpg k' = kpg k"
proof -
  obtain a where t: "translate False (kpg k) va = Some a" and a: "phys_store a v k = Some k'"
    using s by (auto simp: vstore8_def bind_eq_Some_conv)
  obtain d where d: "d < 3" "video_mapped d (kpg k)" using m by (auto simp: mapped_for_def)
  have w: "drop_bit 23 a = 0 \<or> drop_bit 22 a = word_of_int (c + 2)"
    using translate_where [OF _ t video_slots_small [OF d(2)]] m by (simp add: mapped_for_def)
  have "drop_bit 22 a \<noteq> word_of_int (p + 2)"
  proof
    assume e: "drop_bit 22 a = word_of_int (p + 2)"
    then have "drop_bit 23 a = 0" using w pids_frames_distinct(1) [OF p] by metis
    then have "drop_bit 1 (drop_bit 22 a) = 0" by simp
    then have "drop_bit 1 (word_of_int (p + 2) :: u32) = 0" by (simp only: e)
    then show False using p(1) by (auto simp: pids_eq)
  qed
  then show ?thesis
    using a by (auto simp: phys_store_def frame_kept_def split: if_splits)
qed

lemma put_user_frame:
  assumes "mapped_for c (kpg k)" and "p \<in> pids" "c \<in> pids" "p \<noteq> c"
  shows "put_user va bs k = Some k' \<Longrightarrow> frame_kept p k k' \<and> kpg k' = kpg k"
  using assms(1)
proof (induction bs arbitrary: va k)
  case (Cons b bs)
  then obtain k1 where 1: "vstore8 va b k = Some k1" "put_user (va + 1) bs k1 = Some k'"
    by (auto simp: bind_eq_Some_conv)
  with vstore8_frame [OF Cons.prems(2) assms(2-4) 1(1)] Cons.IH [OF 1(2)] Cons.prems(2)
  show ?case using frame_kept_trans by metis
qed simp

lemma put_chunks_frame:
  assumes "mapped_for c (kpg k)" and "p \<in> pids" "c \<in> pids" "p \<noteq> c"
  shows "put_chunks cs k = Some k' \<Longrightarrow> frame_kept p k k' \<and> kpg k' = kpg k"
  using assms(1)
proof (induction cs arbitrary: k)
  case (Cons x cs)
  obtain va bs where x: "x = (va, bs)" by fastforce
  with Cons.prems obtain k1 where 1: "put_user va bs k = Some k1" "put_chunks cs k1 = Some k'"
    by (auto simp: bind_eq_Some_conv)
  with put_user_frame [OF Cons.prems(2) assms(2-4) 1(1)] Cons.IH [OF 1(2)] Cons.prems(2)
  show ?case using frame_kept_trans by metis
qed simp

lemma k_program_load_frame:
  assumes "mapped_for c (kpg k)" and "p \<in> pids" "c \<in> pids" "p \<noteq> c"
    and "k_program_load cmd dj ej k = Some (e, k')"
  shows "frame_kept p k k'"
  using put_chunks_frame [OF assms(1-4)] assms(5)
  by (auto simp: k_program_load_def bind_eq_Some_conv)

lemma mapped_for_cur: "kinv k \<Longrightarrow> mapped_for (current_pid k) (kpg k)"
  using kinvD(1,2,4,6) [of k] con_invD(1) [of "kcon k"]
  by (auto simp: mapped_for_def ctx_ok_def)

lemma mapped_for_user: "kinv k \<Longrightarrow> p \<in> pids \<Longrightarrow> mapped_for p (page_map_user (word_of_int p) (kpg k))"
  using kinvD(1,2,4) [of k] con_invD(1) [of "kcon k"] page_map_user_frame [of p "kpg k"]
  by (auto simp: mapped_for_def video_mapped_def intro!: pg_inv_map_user)

lemma kept_put_user:
  assumes "kinv k" and "p \<in> pids" and "p \<noteq> current_pid k" and "put_user va bs k = Some k'"
  shows "frame_kept p k k'"
  using put_user_frame [OF mapped_for_cur [OF assms(1)] assms(2) kinvD(8) [OF assms(1)] assms(3,4)] by blast

lemma pmem_simps [simp]:
  "pmem (advance_pos fd cnt k) = pmem k" "pmem (set_rtc_freq f k) = pmem k"
  "pmem (set_int_flag b k) = pmem k"
  by (simp_all add: advance_pos_def set_rtc_freq_def set_int_flag_def)

lemma op_read_stores:
  assumes "op_read (\<lambda>_. None) ops fd buf n k = Some (r, k')"
  shows "k' = k \<or> (\<exists>bs k1. put_user buf bs k = Some k1 \<and> pmem k' = pmem k1)"
proof (cases ops)
  case DIR_OPS
  obtain cnt bs where e: "read_dir_file (kfs k) (file_pos (fd_arr (cur_pcb k) ! nat fd)) n = (cnt, bs)"
    by fastforce
  with assms DIR_OPS show ?thesis
    by (auto simp: op_read_def directory_read_def Let_def bind_eq_Some_conv split: if_splits)
      (metis pmem_simps(1))
next
  case FS_OPS
  let ?d = "fd_arr (cur_pcb k) ! nat fd"
  obtain cnt bs where e: "read_data (kfs k) (inode ?d) (file_pos ?d) n = (cnt, bs)" by fastforce
  with assms FS_OPS show ?thesis
    by (auto simp: op_read_def fs_read_def Let_def bind_eq_Some_conv split: if_splits)
      (metis pmem_simps(1))+
qed (use assms in \<open>auto simp: op_read_def k_terminal_read_def bad_call_def k_rtc_read_def Let_def
    split: if_splits\<close>)

lemma op_read_frame:
  assumes "kinv k" and "p \<in> pids" and "p \<noteq> current_pid k"
    and "op_read (\<lambda>_. None) ops fd buf n k = Some (r, k')"
  shows "frame_kept p k k'"
  using op_read_stores [OF assms(4)] kept_put_user [OF assms(1-3)] frame_kept_trans frame_kept_pmem
    frame_kept_refl by metis

lemma op_write_pmem: "op_write prev ops buf n k = Some (r, k') \<Longrightarrow> pmem k' = pmem k"
proof (cases ops)
  case RTC_OPS
  assume "op_write prev ops buf n k = Some (r, k')"
  then obtain bs where bs: "get_user buf 4 k = Some bs" and w: "rtc_write prev buf k = Some (r, k')"
    using RTC_OPS by (auto simp: op_write_def rtc_write_def bind_eq_Some_conv)
  obtain r1 k1 where e: "k_rtc_set_freq prev (sint (le32 bs)) k = (r1, k1)" by fastforce
  have "pmem k1 = pmem k" using k_rtc_set_freq_simps(10) [of prev "sint (le32 bs)" k] by (simp add: e)
  then show ?thesis using w bs e by (auto simp: rtc_write_def Let_def split: if_splits)
qed (auto simp: op_write_def fs_stubs k_terminal_write_def bind_eq_Some_conv
    Let_def case_prod_beta split: if_splits)

lemma op_open_pmem: "op_open prev ops k = Some (r, k') \<Longrightarrow> pmem k' = pmem k"
  by (cases ops) (auto simp: op_open_def fs_stubs rtc_open_def case_prod_beta)

lemma op_close_pmem: "op_close ops k = Some (r, k') \<Longrightarrow> pmem k' = pmem k"
  by (cases ops) (auto simp: op_close_def fs_stubs rtc_close_def)

lemma sys_open_pmem: "sys_open inp name k = Some (r, k') \<Longrightarrow> pmem k' = pmem k"
  by (erule sys_open_cases) (auto simp: upd_cur_fd_def dest: op_open_pmem)

lemma execute_frame:
  assumes k: "kinv k" and p: "p \<in> pids" "process_queue k p \<noteq> NOT_LOADED"
    and "execute inp cmd k = Some (fl, k')"
  shows "frame_kept p k k'"
  using assms(4)
proof (cases rule: execute_cases)
  case (started n c program arg v e k1 k2)
  have ne: "p \<noteq> n" using p(2) started(3) by auto
  have kp: "kpg k1 = kpg k" by (simp add: started(8))
  have "frame_kept p (exec_prepare n k1) k2"
    using k_program_load_frame [OF _ p(1) started(2) ne started(9)] mapped_for_user [OF k started(2)]
    by (simp add: kp)
  then have "frame_kept p k k2" by (simp add: frame_kept_def started(8))
  moreover have "pmem k' = pmem (exec_commit inp n (current_pid k) e k2)"
    using started(10) sched_simps(6) by (metis snd_conv)
  moreover have "pmem (exec_commit inp n (current_pid k) e k2) = pmem k2"
    by (simp add: exec_commit_def Let_def sched_queue_process_def)
  ultimately show ?thesis by (simp add: frame_kept_def)
qed (simp_all add: frame_kept_def)

lemma halt32_frame:
  assumes k: "kinv k" and p: "p \<in> pids" "p \<noteq> current_pid k"
    and h: "halt32 inp status k = Some (fl, k')"
  shows "frame_kept p k k'"
proof (cases "parent_id (cur_pcb k) = -1")
  case True
  then obtain e k1 where l: "k_program_load shell_name (in_dentry inp) (in_entry inp)
      (k\<lparr>process_arr := (process_arr k)(current_pid k := 0), current_pid := int (pterm_num (cur_pcb k))\<rparr>)
      = Some (e, k1)" and k': "k' = upd_pcb (current_pid k) (\<lambda>p. p\<lparr>pentry := e\<rparr>) k1"
    using h by (auto simp: halt32_def Let_def bind_eq_Some_conv)
  have "frame_kept p (k\<lparr>process_arr := (process_arr k)(current_pid k := 0),
      current_pid := int (pterm_num (cur_pcb k))\<rparr>) k1"
    using k_program_load_frame [OF _ p(1) kinvD(8) [OF k] p(2) l] mapped_for_cur [OF k] by simp
  then show ?thesis by (simp add: frame_kept_def k')
next
  case False
  from halt32_child [OF k False, of inp status] h show ?thesis
    by (metis (no_types, lifting) frame_kept_pmem kernel.select_convs(12) kernel.surjective
        kernel.update_convs option.inject prod.inject)
qed

section \<open>Where a program is loaded\<close>

text \<open>The physical address behind an address of the program page of process \<open>p\<close>.\<close>

definition prog_addr :: "int \<Rightarrow> u32 \<Rightarrow> u32" where
  "prog_addr p va = push_bit 22 (word_of_int (p + 2)) OR take_bit 22 va"

lemma vstore8_prog:
  assumes m: "mapped_for p (kpg k)" and p: "p \<in> pids" and va: "drop_bit 22 va = 32"
  shows "vstore8 va v k = Some (k\<lparr>pmem := (pmem k)(prog_addr p va := v)\<rparr>)"
proof -
  have "unat (drop_bit 22 va) = 32" using va by simp
  then have t: "translate False (kpg k) va = Some (prog_addr p va)"
    using m by (simp add: translate_def mapped_for_def pg_inv_def Let_def prog_addr_def)
  have "unat (word_of_int (p + 2) :: u32) < 1024" using p by (auto simp: pids_eq)
  from drop_bit_22_or [OF this, of va] have d: "drop_bit 22 (prog_addr p va) = word_of_int (p + 2)"
    by (simp add: prog_addr_def)
  have "unat (prog_addr p va) div 2 ^ 22 = nat (p + 2)"
    using arg_cong [OF d, of unat] p
    by (auto simp: unsigned_drop_bit_eq drop_bit_eq_div unat_div pids_eq)
  moreover have "2 \<le> nat (p + 2)" using p by (auto simp: in_pids)
  ultimately have "2 * 2 ^ 22 \<le> unat (prog_addr p va)"
    by (metis div_le_mono2 div_mult_self_is_m le_trans mult.commute nat_mult_le_cancel_disj
        times_div_less_eq_dividend)
  then have "0x800000 \<le> prog_addr p va" "\<not> prog_addr p va < 0xBC000"
    by (simp_all add: word_le_nat_alt word_less_nat_alt)
  then show ?thesis using t by (simp add: vstore8_def phys_store_def)
qed

definition prog_writes :: "int \<Rightarrow> (u32 \<times> u8) list \<Rightarrow> (u32 \<Rightarrow> u8) \<Rightarrow> u32 \<Rightarrow> u8" where
  "prog_writes p ws = fold (\<lambda>(va, b) m. m(prog_addr p va := b)) ws"

lemma put_user_prog:
  assumes "p \<in> pids"
  shows "mapped_for p (kpg k) \<Longrightarrow> (\<And>i. i < length bs \<Longrightarrow> drop_bit 22 (va + of_nat i) = 32) \<Longrightarrow>
    put_user va bs k =
      Some (k\<lparr>pmem := prog_writes p (map (\<lambda>i. (va + of_nat i, bs ! i)) [0..<length bs]) (pmem k)\<rparr>)"
proof (induction bs arbitrary: va k)
  case Nil
  then show ?case by (simp add: prog_writes_def)
next
  case (Cons b bs)
  let ?k = "k\<lparr>pmem := (pmem k)(prog_addr p va := b)\<rparr>"
  have "drop_bit 22 va = 32" using Cons.prems(2) [of 0] by simp
  then have s: "vstore8 va b k = Some ?k" using vstore8_prog [OF Cons.prems(1) assms] by blast
  have "drop_bit 22 (va + 1 + of_nat i) = 32" if "i < length bs" for i
    using Cons.prems(2) [of "Suc i"] that by (simp add: add_ac)
  then have "put_user (va + 1) bs ?k =
      Some (?k\<lparr>pmem := prog_writes p (map (\<lambda>i. (va + 1 + of_nat i, bs ! i)) [0..<length bs]) (pmem ?k)\<rparr>)"
    using Cons.prems(1) by (intro Cons.IH) auto
  moreover have "map (\<lambda>i. (va + of_nat i, (b # bs) ! i)) [0..<length (b # bs)] =
      (va, b) # map (\<lambda>i. (va + 1 + of_nat i, bs ! i)) [0..<length bs]"
    by (simp add: upt_conv_Cons map_Suc_upt [symmetric] comp_def add_ac del: upt_Suc)
  ultimately show ?case using s by (simp add: prog_writes_def)
qed

lemma put_chunks_prog:
  assumes "p \<in> pids"
  shows "mapped_for p (kpg k) \<Longrightarrow> (\<And>va b. (va, b) \<in> set (chunk_writes cs) \<Longrightarrow> drop_bit 22 va = 32) \<Longrightarrow>
    put_chunks cs k = Some (k\<lparr>pmem := prog_writes p (chunk_writes cs) (pmem k)\<rparr>)"
proof (induction cs arbitrary: k)
  case Nil
  then show ?case by (simp add: chunk_writes_def prog_writes_def)
next
  case (Cons c cs)
  obtain va bs where c: "c = (va, bs)" by fastforce
  let ?k = "k\<lparr>pmem := prog_writes p (map (\<lambda>i. (va + of_nat i, bs ! i)) [0..<length bs]) (pmem k)\<rparr>"
  have "drop_bit 22 (va + of_nat i) = 32" if "i < length bs" for i
    using Cons.prems(2) [of "va + of_nat i" "bs ! i"] that by (auto simp: c chunk_writes_Cons)
  then have "put_user va bs k = Some ?k" using put_user_prog [OF assms Cons.prems(1)] by blast
  moreover have "put_chunks cs ?k = Some (?k\<lparr>pmem := prog_writes p (chunk_writes cs) (pmem ?k)\<rparr>)"
    using Cons.prems by (intro Cons.IH) (auto simp: c chunk_writes_Cons)
  ultimately show ?case by (simp add: c chunk_writes_Cons prog_writes_def)
qed

lemma prog_page_addr:
  assumes "j < 0x3B8000"
  shows "drop_bit 22 (PROGRAM_VIRTUAL_START + of_nat j) = 32"
    and "take_bit 22 (PROGRAM_VIRTUAL_START + of_nat j) = of_nat (0x48000 + j)"
proof -
  have u: "unat (PROGRAM_VIRTUAL_START + of_nat j) = 0x8048000 + j"
    using assms by (simp add: PROGRAM_VIRTUAL_START_def unat_add_of_nat)
  have "(0x8048000 + j) div 2 ^ 22 = 32" using assms by simp
  then show "drop_bit 22 (PROGRAM_VIRTUAL_START + of_nat j) = 32"
    using u by (simp add: word_unat_eq_iff unsigned_drop_bit_eq drop_bit_eq_div unat_div)
  have "0x8048000 + j = 0x48000 + j + 32 * 2 ^ 22" by simp
  then have "(0x8048000 + j) mod 2 ^ 22 = (0x48000 + j) mod 2 ^ 22" by (simp only: mod_mult_self1)
  also have "\<dots> = 0x48000 + j" using assms by (intro mod_less) simp
  finally have "(0x8048000 + j) mod 2 ^ 22 = 0x48000 + j" .
  then show "take_bit 22 (PROGRAM_VIRTUAL_START + of_nat j) = of_nat (0x48000 + j)"
    using u assms
    by (simp add: word_unat_eq_iff take_bit_eq_mod unat_mod del: of_nat_add)
qed

lemma prog_addr_inj:
  assumes "i < 0x3B8000" and "j < 0x3B8000"
    and "prog_addr p (PROGRAM_VIRTUAL_START + of_nat i) = prog_addr p (PROGRAM_VIRTUAL_START + of_nat j)"
  shows "i = j"
proof -
  have t: "take_bit 22 (prog_addr p va) = take_bit 22 va" for va
    by (rule bit_word_eqI) (auto simp: prog_addr_def bit_simps)
  have "(of_nat (0x48000 + i) :: u32) = of_nat (0x48000 + j)"
    using arg_cong [OF assms(3), of "take_bit 22"] prog_page_addr(2) assms(1,2) by (simp only: t)
  then show ?thesis
    using assms(1,2) of_nat_eq_iff32 [of "0x48000 + i" "0x48000 + j"] by (simp del: of_nat_add)
qed

lemma prog_writes_data:
  assumes "length d \<le> 0x3B8000" and "j < length d"
  shows "prog_writes p (map (\<lambda>i. (PROGRAM_VIRTUAL_START + of_nat i, d ! i)) [0..<length d]) m
    (prog_addr p (PROGRAM_VIRTUAL_START + of_nat j)) = d ! j"
proof -
  have "j < n \<longrightarrow> prog_writes p (map (\<lambda>i. (PROGRAM_VIRTUAL_START + of_nat i, d ! i)) [0..<n]) m
    (prog_addr p (PROGRAM_VIRTUAL_START + of_nat j)) = d ! j" if "n \<le> length d" for n
    using that
  proof (induction n)
    case (Suc n)
    then show ?case
      using prog_addr_inj [of j n p] assms by (auto simp: prog_writes_def less_Suc_eq)
  qed simp
  from this [of "length d"] assms(2) show ?thesis by simp
qed

text \<open>The loader of the kernel: total, with the file's bytes at their place in the program page.\<close>

lemma k_program_load_eq:
  assumes m: "mapped_for p (kpg k)" and p: "p \<in> pids"
    and d: "read_dentry_by_name (kfs k) cmd dj = Some (r, d)"
    and v: "valid_inode (kfs k) (inode_num d)" and l: "length (file_data (kfs k) (inode_num d)) \<le> 0x3B8000"
  shows "\<exists>k'. k_program_load cmd dj ej k =
      Some (le32 (overlay (take 4 (drop 24 (file_data (kfs k) (inode_num d)))) ej), k') \<and> mem_only k k' \<and> kcon k' = kcon k \<and>
    (\<forall>j<length (file_data (kfs k) (inode_num d)).
      pmem k' (prog_addr p (PROGRAM_VIRTUAL_START + of_nat j)) = file_data (kfs k) (inode_num d) ! j)"
proof -
  let ?d = "file_data (kfs k) (inode_num d)"
  let ?cs = "program_load_loop (kfs k) (inode_num d) 0 PROGRAM_VIRTUAL_START"
  have w: "chunk_writes ?cs = map (\<lambda>i. (PROGRAM_VIRTUAL_START + of_nat i, ?d ! i)) [0..<length ?d]"
    using program_load_loop_eq [OF v, of 0 PROGRAM_VIRTUAL_START] l by simp
  have r: "read_data (kfs k) (inode_num d) ENTRY_OFFSET 4 =
      (int (length (take 4 (drop 24 ?d))), take 4 (drop 24 ?d))"
    using read_data_eq [OF v, of 24 4] by (simp add: ENTRY_OFFSET_def)
  have pl: "program_load (kfs k) cmd dj ej = Some (le32 (overlay (take 4 (drop 24 ?d)) ej), ?cs)"
    by (simp add: program_load_def d r Let_def)
  have "put_chunks ?cs k = Some (k\<lparr>pmem := prog_writes p (chunk_writes ?cs) (pmem k)\<rparr>)"
    using l prog_page_addr(1) by (intro put_chunks_prog [OF p m]) (auto simp: w)
  then have e: "k_program_load cmd dj ej k = Some (le32 (overlay (take 4 (drop 24 ?d)) ej),
      k\<lparr>pmem := prog_writes p (chunk_writes ?cs) (pmem k)\<rparr>)"
    by (simp add: k_program_load_def pl)
  show ?thesis
    using e k_program_load_mem_only [OF e] prog_writes_data [OF l] by (auto simp: w)
qed
end
