(* ===== verification/Calls.thy ===== *)
theory Calls
  imports ProcProps
begin

text \<open>
  The results of start-up and of the system calls as functions of the state: which calls
  succeed, what they return and what they leave in the caller's memory.
\<close>

section \<open>Start-up\<close>

definition shell_entry :: "kernel \<Rightarrow> dir_entry \<Rightarrow> u8 list \<Rightarrow> u32" where
  "shell_entry k d ej = le32 (overlay (take 4 (drop 24 (file_data (kfs k) (inode_num d)))) ej)"

definition has_shell :: "kernel \<Rightarrow> dir_entry \<Rightarrow> dir_entry \<Rightarrow> bool" where
  "has_shell k dj d \<longleftrightarrow> (\<exists>r. read_dentry_by_name (kfs k) shell_name dj = Some (r, d)) \<and>
     valid_inode (kfs k) (inode_num d) \<and> length (file_data (kfs k) (inode_num d)) \<le> 0x3B8000"

lemma shells_up_mapped:
  assumes "shells_up n k" and "p \<in> pids"
  shows "mapped_for p (page_map_user (word_of_int p) (kpg k))"
  using assms page_map_user_frame [OF assms(2), of "kpg k"] con_invD(1) [of "kcon k"]
  by (auto simp: shells_up_def kb_ok_def mapped_for_def video_mapped_def intro!: pg_inv_map_user)

lemma sh_prepare_simps:
  "kpg (sh_prepare n k) = page_map_user (word_of_int n) (kpg k)" "kfs (sh_prepare n k) = kfs k"
  "p \<noteq> n \<Longrightarrow> pcbs (sh_prepare n k) p = pcbs k p"
  by (simp_all add: sh_prepare_def Let_def sched_queue_process_def set_queue_def)

lemma execute_sh_total:
  assumes "shells_up n k" and "0 \<le> n" and "n < 3" and "has_shell k dj d"
  obtains k' where "execute_sh n dj ej k = Some k'" and "shells_up (n + 1) k'" and "kfs k' = kfs k"
    and "pentry (pcbs k' n) = shell_entry k d ej" and "\<And>p. p \<noteq> n \<Longrightarrow> pcbs k' p = pcbs k p"
proof -
  have n: "n \<in> pids" using assms(2,3) by (simp add: in_pids)
  have m: "mapped_for n (kpg (sh_prepare n k))"
    using shells_up_mapped [OF assms(1) n] by (simp add: sh_prepare_simps)
  obtain r where "read_dentry_by_name (kfs (sh_prepare n k)) shell_name dj = Some (r, d)"
    using assms(4) by (auto simp: has_shell_def sh_prepare_simps)
  from k_program_load_eq [OF m n this, of ej] assms(4) obtain k1 where
    l: "k_program_load shell_name dj ej (sh_prepare n k) = Some (shell_entry k d ej, k1)"
    and "mem_only (sh_prepare n k) k1"
    by (auto simp: has_shell_def sh_prepare_simps shell_entry_def)
  note M = mem_only_eqs [OF this(2)]
  have e: "execute_sh n dj ej k = Some (upd_pcb n (\<lambda>p. p\<lparr>pentry := shell_entry k d ej,
      stack_ptr := get_kernel_stack (current_pid k1)\<rparr>) k1)"
    by (simp add: execute_sh_def l)
  show ?thesis
    by (rule that [OF e execute_sh_up [OF assms(1-3) e]]) (simp_all add: M sh_prepare_simps)
qed

lemma init_shells_total:
  assumes "shells_up 0 k" and "has_shell k dj d"
  obtains k' where "init_shells dj ej k = Some k'" and "shells_up 3 k'"
    and "pentry (pcbs k' 0) = shell_entry k d ej"
proof -
  have l: "[0..int TERM_MAX - 1] = [0, 1, 2]" by (simp add: TERM_MAX_def upto_rec1)
  have hs: "kfs k' = kfs k \<Longrightarrow> has_shell k' dj d" for k' using assms(2) by (simp add: has_shell_def)
  obtain k1 where 1: "execute_sh 0 dj ej k = Some k1" "shells_up 1 k1" "kfs k1 = kfs k"
    "pentry (pcbs k1 0) = shell_entry k d ej"
    by (rule execute_sh_total [OF assms(1) _ _ assms(2), of ej]) auto
  obtain k2 where 2: "execute_sh 1 dj ej k1 = Some k2" "shells_up 2 k2" "kfs k2 = kfs k"
    "pcbs k2 0 = pcbs k1 0"
    by (rule execute_sh_total [OF 1(2) _ _ hs [OF 1(3)], of ej]) (auto simp: 1(3))
  obtain k3 where 3: "execute_sh 2 dj ej k2 = Some k3" "shells_up 3 k3" "pcbs k3 0 = pcbs k2 0"
    by (rule execute_sh_total [OF 2(2) _ _ hs [OF 2(3)], of ej]) auto
  show ?thesis
    by (rule that [of k3]) (use 1 2 3 in \<open>simp_all add: init_shells_def l\<close>)
qed

lemma printf_plain:
  "37 \<notin> set s \<Longrightarrow> 0 \<notin> set s \<Longrightarrow> printf_fmt strs (s @ [0]) args = Some s"
  by (induction s) auto

lemma fold_putc_pcbs: "pcbs (fold k_putc out k) = pcbs k"
  by (induction out arbitrary: k) (simp_all add: k_putc_def)

lemma start_shells_total:
  assumes "boot_state k" and "has_shell k (in_dentry inp) d"
  shows "\<exists>k'. start_shells inp k = Some (Enter_user (shell_entry k d (in_entry inp)), k') \<and>
    kinv k' \<and> current_pid k' = 0"
proof -
  let ?k0 = "k\<lparr>kpg := init_pages (kpg k), kcon := cli (kcon k)\<rparr>"
  have "has_shell ?k0 (in_dentry inp) d" using assms(2) by (simp add: has_shell_def)
  from init_shells_total [OF shells_up_start [OF assms(1)] this, of "in_entry inp"] obtain k1 where
    k1: "init_shells (in_dentry inp) (in_entry inp) ?k0 = Some k1" "shells_up 3 k1"
    "pentry (pcbs k1 0) = shell_entry k d (in_entry inp)"
    by (auto simp: shell_entry_def)
  obtain p where p: "pit_init 50 (kpic k1) = Some p" by (auto simp: pit_init_def Let_def)
  let ?s = "asc ''Enabling Interrupts'' @ [10]"
  have "printf_fmt (\<lambda>_. []) (?s @ [0]) [] = Some ?s" by (rule printf_plain) (simp_all add: asc_def)
  then have pf: "k_printf (\<lambda>_. []) (asc ''Enabling Interrupts'' @ [10, 0]) [] (k1\<lparr>kpic := p\<rparr>) =
      Some (fold k_putc ?s (k1\<lparr>kpic := p\<rparr>))"
    by (simp only: k_printf_def append_assoc append_Cons append_Nil option.map)
  let ?k2 = "fold k_putc ?s (k1\<lparr>kpic := p\<rparr>)"
  have up: "shells_up 3 (fold k_putc out k)" if "shells_up 3 k" for out k
    using that by (induction out arbitrary: k) (auto simp: shells_up_putc)
  have "shells_up 3 (k1\<lparr>kpic := p\<rparr>)" using k1(2) by (simp add: shells_up_def kb_ok_def)
  then have "shells_up 3 ?k2" by (rule up)
  then have "shells_up 3 (?k2\<lparr>kcon := sti (kcon ?k2)\<rparr>)" unfolding shells_up_def kb_ok_def by simp
  note S = kinv_first_sched [OF this, of "in_esp inp" "in_ebp inp" "in_prev inp"]
  let ?r = "sched (in_esp inp) (in_ebp inp) (in_prev inp) (?k2\<lparr>kcon := sti (kcon ?k2)\<rparr>)"
  have st: "start_shells inp k = Some ?r"
    unfolding start_shells_def Let_def using k1(1) p pf by simp
  have "fst ?r = Enter_user (shell_entry k d (in_entry inp))"
    using S(3) k1(3) fold_putc_pcbs [of ?s "k1\<lparr>kpic := p\<rparr>"] by simp
  then have "start_shells inp k = Some (Enter_user (shell_entry k d (in_entry inp)), snd ?r)"
    using st by (metis prod.collapse)
  then show ?thesis using S(1,2) by blast
qed

section \<open>execute and halt\<close>

definition file_entry :: "kernel \<Rightarrow> dir_entry \<Rightarrow> u8 list \<Rightarrow> u32" where
  "file_entry k d ej = le32 (overlay (take 4 (drop 24 (file_data (kfs k) (inode_num d)))) ej)"

text \<open>The checks and the load succeed, so the call starts the program.\<close>

lemma execute_success:
  assumes k: "kinv k" and p: "get_available_pid k \<noteq> -1" and pc: "parse_command cmd = Some (prog, arg)"
    and pv: "program_valid (kfs k) prog (in_dentry inp) (in_header inp) = Some 1"
    and d: "read_dentry_by_name (kfs k) prog (in_dentry inp) = Some (r, d)"
    and v: "valid_inode (kfs k) (inode_num d)" and l: "length (file_data (kfs k) (inode_num d)) \<le> 0x3B8000"
  defines "n \<equiv> get_available_pid k" and "c \<equiv> current_pid k"
  obtains fl k' where "execute inp (Some cmd) k = Some (fl, k')"
    and "process_queue k' = (process_queue k)(c := LOADED, n := SCHEDULED)"
    and "process_arr k' = (process_arr k)(n := 1)"
    and "pcbs k' n = exec_pcb inp n c (file_entry k d (in_entry inp))
       ((exec_fail_pcb (pterm_num (pcbs k c)) (overlay arg (argument (pcbs k n))) (pcbs k n))\<lparr>process_id := n\<rparr>)"
    and "\<And>j. j < length (file_data (kfs k) (inode_num d)) \<Longrightarrow>
      pmem k' (prog_addr n (PROGRAM_VIRTUAL_START + of_nat j)) = file_data (kfs k) (inode_num d) ! j"
    and "\<And>q. q \<noteq> n \<Longrightarrow> q \<noteq> c \<Longrightarrow> pcbs k' q = pcbs k q"
    and "pcbs k' c = (pcbs k c)\<lparr>sched_bp := in_ebp inp, stack_ptr := in_esp inp\<rparr>"
    and "current_pid k' = sched_pick (process_queue k') c"
    and "kfs k' = kfs k" and "kkbd k' = kkbd k" and "terminals (kcon k') = terminals (kcon k)"
    and "vram (kcon k') = vram (kcon k)" and "display_term (kcon k') = display_term (kcon k)"
proof -
  have np: "n \<in> pids" "process_queue k n = NOT_LOADED"
    using p get_available_pid_cases [of k] by (auto simp: n_def)
  note c1 = kinvD_cur(4) [OF k]
  have ne: "n \<noteq> c" using np kinvD(9) [OF k] by (auto simp: c_def)
  let ?k1 = "upd_pcb n (exec_fail_pcb (pterm_num (pcbs k c)) (overlay arg (argument (pcbs k n)))) k"
  let ?k2 = "exec_prepare n ?k1"
  have m: "mapped_for n (kpg ?k2)" using mapped_for_user [OF k np(1)] by simp
  have kf: "kfs ?k2 = kfs k" by simp
  from k_program_load_eq [OF m np(1), of prog "in_dentry inp" r d "in_entry inp"] d v l obtain k3 where
    ld: "k_program_load prog (in_dentry inp) (in_entry inp) ?k2 = Some (file_entry k d (in_entry inp), k3)"
    and mo: "mem_only ?k2 k3" and kc: "kcon k3 = kcon ?k2"
    and mem: "\<forall>j<length (file_data (kfs k) (inode_num d)).
      pmem k3 (prog_addr n (PROGRAM_VIRTUAL_START + of_nat j)) = file_data (kfs k) (inode_num d) ! j"
    by (auto simp: kf file_entry_def)
  note M = mem_only_eqs [OF mo]
  let ?e = "file_entry k d (in_entry inp)"
  let ?k4 = "exec_commit inp n c ?e k3"
  have pid: "process_id (pcbs k3 n) = n" by (simp add: M)
  note C = exec_commit_simps [OF c1 [folded c_def] pid, of inp ?e]
  let ?r = "sched (in_esp inp) (in_ebp inp) (in_prev inp) ?k4"
  have ex: "execute inp (Some cmd) k = Some (fst ?r, snd ?r)"
  proof -
    have u: "upd_pcb n (\<lambda>q. q\<lparr>argument := overlay arg (argument q)\<rparr>)
        (upd_pcb n (\<lambda>q. q\<lparr>pterm_num := pterm_num (pcbs k c)\<rparr>) k) = ?k1"
      by (simp add: upd_pcb_def exec_fail_pcb_def)
    show ?thesis
      using p pc pv ld c1 unfolding execute_def Let_def n_def [symmetric] c_def [symmetric]
      by (simp add: u)
  qed
  have q: "process_queue (snd ?r) = (process_queue k)(c := LOADED, n := SCHEDULED)"
    by (simp add: C M)
  show ?thesis
  proof (rule that [OF ex q])
    show "process_arr (snd ?r) = (process_arr k)(n := 1)" by (simp add: C M)
    show "pcbs (snd ?r) n = exec_pcb inp n c ?e ((exec_fail_pcb (pterm_num (pcbs k c))
        (overlay arg (argument (pcbs k n))) (pcbs k n))\<lparr>process_id := n\<rparr>)"
      using ne c1 by (simp add: C M flip: c_def)
    show "j < length (file_data (kfs k) (inode_num d)) \<Longrightarrow>
        pmem (snd ?r) (prog_addr n (PROGRAM_VIRTUAL_START + of_nat j)) =
          file_data (kfs k) (inode_num d) ! j" for j
      using mem by (simp add: C)
    show "q \<noteq> n \<Longrightarrow> q \<noteq> c \<Longrightarrow> pcbs (snd ?r) q = pcbs k q" for q
      using c1 by (simp add: C M flip: c_def)
    show "pcbs (snd ?r) c = (pcbs k c)\<lparr>sched_bp := in_ebp inp, stack_ptr := in_esp inp\<rparr>"
      using ne c1 by (simp add: C M flip: c_def)
    show "current_pid (snd ?r) = sched_pick (process_queue (snd ?r)) c" by (simp add: C M flip: c_def)
  qed (simp_all add: C M kc)
qed

section \<open>open\<close>

lemma sys_open_result:
  assumes k: "kinv k" and "sys_open inp name k = Some (r, k')" and "r \<noteq> -1"
  shows "2 \<le> r \<and> r < 8 \<and> \<not> fd_is_open r (cur_pcb k) \<and>
    (\<forall>j. 0 \<le> j \<and> j < r \<longrightarrow> fd_is_open j (cur_pcb k)) \<and>
    (\<forall>j. 0 \<le> j \<and> j < 8 \<longrightarrow> (fd_is_open j (cur_pcb k') \<longleftrightarrow> fd_is_open j (cur_pcb k) \<or> j = r)) \<and>
    file_pos (fd_arr (cur_pcb k') ! nat r) = 0"
  using assms(2)
proof (cases rule: sys_open_cases)
  case failed
  then show ?thesis using assms(3) by simp
next
  case (opened fname e d ops r1 k1)
  let ?f = "\<lambda>x. x\<lparr>fops := ops, inode := inode_num d, file_pos := 0\<rparr>"
  note f = kinvD_cur(1) [OF k]
  have r: "2 \<le> r" "r \<le> 7" using closed_fd_ge2 [OF f] opened(2,3) by auto
  have c: "\<not> fd_is_open r (cur_pcb k)" "\<forall>j\<in>{0..7}. j < r \<longrightarrow> fd_is_open j (cur_pcb k)"
    using closed_fd_cases [of "cur_pcb k"] opened(2,3) by auto
  have len: "length (fd_arr (cur_pcb k)) = 8" using f by (simp add: fds_ok_def)
  have pid: "current_pid k1 = current_pid k"
    using opened(7) by (cases ops) (auto simp: op_open_def fs_stubs rtc_open_def
        case_prod_beta upd_cur_fd_def)
  have a: "fd_arr (cur_pcb k1) = fd_arr (upd_fd r ?f (cur_pcb k))"
    using op_open_fd_arr [OF opened(7), of "current_pid k"] pid by (simp add: upd_cur_fd_def)
  have n: "fd_arr (cur_pcb k') ! nat j = (if nat j = nat r then (?f (fd_arr (cur_pcb k) ! nat r))\<lparr>fflags := FDFLAG_OPEN\<rparr>
      else fd_arr (cur_pcb k) ! nat j)" for j
    using a r len by (simp add: opened(8) pid set_fd_open_def upd_fd_def nth_list_update)
  show ?thesis
    using r c n by (auto simp: fd_is_open_def)
qed

text \<open>The null pointer, a descriptor out of range and a closed one are refused without effect.\<close>

lemma bad_fd_refused:
  assumes "fd < 0 \<or> 8 \<le> fd \<or> \<not> fd_is_open fd (cur_pcb k)"
  shows "sys_read inp fd buf n k = Some (-1, k)" and "sys_write inp fd buf n k = Some (-1, k)"
    and "sys_close fd k = Some (-1, k)"
  using assms by (auto simp: sys_read_def sys_write_def sys_close_def MAX_NUM_FD_def Let_def)

section \<open>Reading a file\<close>

definition in_prog_page :: "u32 \<Rightarrow> nat \<Rightarrow> bool" where
  "in_prog_page buf n \<longleftrightarrow> 0x8000000 \<le> unat buf \<and> unat buf + n \<le> 0x8400000"

lemma in_prog_page_addr:
  assumes "in_prog_page buf n" and "i < n"
  shows "drop_bit 22 (buf + of_nat i) = 32"
proof -
  have "unat (buf + of_nat i) = unat buf + i"
    using assms by (intro unat_add_of_nat) (simp add: in_prog_page_def)
  moreover have "(unat buf + i) div 2 ^ 22 = 32"
    by (rule div_nat_eqI) (use assms in \<open>auto simp: in_prog_page_def\<close>)
  ultimately show ?thesis by (simp add: word_unat_eq_iff unsigned_drop_bit_eq drop_bit_eq_div unat_div)
qed

lemma prog_addr_inj_page:
  assumes "drop_bit 22 va = drop_bit 22 vb" and "prog_addr p va = prog_addr p vb"
  shows "va = vb"
proof -
  have t: "take_bit 22 (prog_addr p x) = take_bit 22 x" for x
    by (rule bit_word_eqI) (auto simp: prog_addr_def bit_simps)
  have "take_bit 22 va = take_bit 22 vb" using arg_cong [OF assms(2), of "take_bit 22"] by (simp only: t)
  then have "push_bit 22 (drop_bit 22 va) + take_bit 22 va = push_bit 22 (drop_bit 22 vb) + take_bit 22 vb"
    using assms(1) by simp
  then show ?thesis by (simp only: bits_ident)
qed

lemma prog_writes_list:
  assumes "in_prog_page buf (length bs)" and "j < length bs"
  shows "prog_writes p (map (\<lambda>i. (buf + of_nat i, bs ! i)) [0..<length bs]) m
    (prog_addr p (buf + of_nat j)) = bs ! j"
proof -
  have inj: "i = j" if "i < length bs" "prog_addr p (buf + of_nat i) = prog_addr p (buf + of_nat j)" for i
  proof -
    have "buf + of_nat i = buf + of_nat j"
      using prog_addr_inj_page [OF _ that(2)] in_prog_page_addr [OF assms(1)] that(1) assms(2) by metis
    moreover have "i < 2 ^ 32" "j < 2 ^ 32" using assms that(1) by (auto simp: in_prog_page_def)
    ultimately show ?thesis using of_nat_eq_iff32 by simp
  qed
  have "j < n \<longrightarrow> prog_writes p (map (\<lambda>i. (buf + of_nat i, bs ! i)) [0..<n]) m
    (prog_addr p (buf + of_nat j)) = bs ! j" if "n \<le> length bs" for n
    using that
  proof (induction n)
    case (Suc n)
    then show ?case using inj [of n] by (auto simp: prog_writes_def less_Suc_eq)
  qed simp
  from this [of "length bs"] assms(2) show ?thesis by simp
qed

text \<open>Bytes of the current program's memory, by virtual address.\<close>

definition prog_bytes :: "kernel \<Rightarrow> u32 \<Rightarrow> nat \<Rightarrow> u8 list" where
  "prog_bytes k va n = map (\<lambda>i. pmem k (prog_addr (current_pid k) (va + of_nat i))) [0..<n]"

lemma put_user_cur:
  assumes k: "kinv k" and b: "in_prog_page va (length bs)"
  obtains k' where "put_user va bs k = Some k'" and "mem_only k k'" and "prog_bytes k' va (length bs) = bs"
    and "kcon k' = kcon k"
proof -
  let ?k = "k\<lparr>pmem := prog_writes (current_pid k) (map (\<lambda>i. (va + of_nat i, bs ! i)) [0..<length bs]) (pmem k)\<rparr>"
  have e: "put_user va bs k = Some ?k"
    by (rule put_user_prog [OF kinvD(8) [OF k] mapped_for_cur [OF k]]) (rule in_prog_page_addr [OF b])
  have "prog_bytes ?k va (length bs) = bs"
    unfolding prog_bytes_def
    by (rule nth_equalityI) (use prog_writes_list [OF b] in simp_all)
  from that [OF e put_user_mem_only [OF e] this] show ?thesis by simp
qed

lemma in_prog_page_mono: "in_prog_page va n \<Longrightarrow> m \<le> n \<Longrightarrow> in_prog_page va m"
  by (simp add: in_prog_page_def)

lemma prog_page_nonnull: "in_prog_page va n \<Longrightarrow> va \<noteq> 0"
  by (auto simp: in_prog_page_def)

lemma sys_read_file:
  assumes k: "kinv k" and fd: "0 \<le> fd" "fd < 8" "fd_is_open fd (cur_pcb k)"
    "fops (fd_arr (cur_pcb k) ! nat fd) = FS_OPS"
    and v: "valid_inode (kfs k) (inode (fd_arr (cur_pcb k) ! nat fd))"
    and pos: "file_pos (fd_arr (cur_pcb k) ! nat fd) = of_nat pos" "pos + n < 2 ^ 31"
    and b: "in_prog_page buf n"
  defines "bs \<equiv> take n (drop pos (file_data (kfs k) (inode (fd_arr (cur_pcb k) ! nat fd))))"
  obtains k' where "sys_read inp fd buf (of_nat n) k = Some (int (length bs), k')"
    and "prog_bytes k' buf (length bs) = bs"
    and "file_pos (fd_arr (cur_pcb k') ! nat fd) = of_nat (pos + length bs)"
    and "\<And>j. nat j \<noteq> nat fd \<Longrightarrow> fd_arr (cur_pcb k') ! nat j = fd_arr (cur_pcb k) ! nat j"
    and "current_pid k' = current_pid k" and "kinv k'"
proof -
  let ?d = "fd_arr (cur_pcb k) ! nat fd"
  have r: "read_data (kfs k) (inode ?d) (file_pos ?d) (of_nat n) = (int (length bs), bs)"
    using read_data_eq [OF v, of pos n] pos by (simp add: bs_def)
  have "in_prog_page buf (length bs)" using b by (rule in_prog_page_mono) (simp add: bs_def)
  from put_user_cur [OF k this] obtain k1 where
    1: "put_user buf bs k = Some k1" "mem_only k k1" "prog_bytes k1 buf (length bs) = bs" by metis
  note M = mem_only_eqs [OF 1(2)]
  let ?k = "advance_pos fd (int (length bs)) k1"
  have e: "sys_read inp fd buf (of_nat n) k = Some (int (length bs), ?k)"
    using fd prog_page_nonnull [OF b] r 1(1)
    by (simp add: sys_read_def MAX_NUM_FD_def op_read_def fs_read_def Let_def)
  have len: "length (fd_arr (cur_pcb k)) = 8" using kinvD_cur(1) [OF k] by (simp add: fds_ok_def)
  show ?thesis
  proof (rule that [OF e])
    show "prog_bytes ?k buf (length bs) = bs"
      using 1(3) by (simp add: prog_bytes_def advance_pos_def)
    show "file_pos (fd_arr (cur_pcb ?k) ! nat fd) = of_nat (pos + length bs)"
      using fd len pos(1) by (simp add: advance_pos_def M upd_fd_def)
    show "nat j \<noteq> nat fd \<Longrightarrow> fd_arr (cur_pcb ?k) ! nat j = fd_arr (cur_pcb k) ! nat j" for j
      by (simp add: advance_pos_def M upd_fd_def)
    show "current_pid ?k = current_pid k" by (simp add: M)
    show "kinv ?k" using kinv_advance_pos [OF kinv_mem_only [OF 1(2) k]] .
  qed
qed

section \<open>Arguments\<close>

lemma skip_spaces_replicate: "cs \<noteq> [] \<Longrightarrow> hd cs \<noteq> 32 \<Longrightarrow> skip_spaces (replicate i 32 @ cs) = Some cs"
  by (induction i) (cases cs, auto)+

lemma copy_word_append:
  "32 \<notin> set w \<Longrightarrow> 0 \<notin> set w \<Longrightarrow> cs \<noteq> [] \<Longrightarrow> hd cs = 32 \<or> hd cs = 0 \<Longrightarrow>
   copy_word (w @ cs) = Some (w, cs)"
  by (induction w) (cases cs, auto)+

lemma copy_rest_append: "0 \<notin> set a \<Longrightarrow> copy_rest (a @ 0 # cs) = Some a"
  by (induction a) auto

lemma parse_command_parts:
  assumes "w \<noteq> []" and "32 \<notin> set w" and "0 \<notin> set w" and "length w \<le> 128"
    and "a \<noteq> []" and "hd a \<noteq> 32" and "0 \<notin> set a" and "length a \<le> 127"
  shows "parse_command (replicate i 32 @ w @ replicate (Suc j) 32 @ a @ [0]) = Some (w @ [0], a @ [0])"
proof -
  have "hd w \<noteq> 32" using assms(1,2) by (cases w) auto
  then have 1: "skip_spaces (replicate i 32 @ w @ replicate (Suc j) 32 @ a @ [0]) =
      Some (w @ replicate (Suc j) 32 @ a @ [0])"
    using assms(1) by (intro skip_spaces_replicate) auto
  have 2: "copy_word (w @ replicate (Suc j) 32 @ a @ [0]) = Some (w, replicate (Suc j) 32 @ a @ [0])"
    using assms(2,3) by (intro copy_word_append) auto
  have 3: "skip_spaces (replicate (Suc j) 32 @ a @ [0]) = Some (a @ [0])"
    using assms(5,6) by (intro skip_spaces_replicate) auto
  have 4: "copy_rest (a @ [0]) = Some a" using copy_rest_append [OF assms(7), of "[]"] by simp
  show ?thesis
    using assms(4,8) unfolding parse_command_def 1 2 3 4
    by (simp add: 1 2 3 4 KB_BUF_SIZE_def MAX_ARGS_def del: replicate_Suc)
qed

lemma getargs_loop_eq:
  "0 \<notin> set a \<Longrightarrow> int (length a) < n \<Longrightarrow> getargs_loop (a @ 0 # rest) n = Some a"
  by (induction a arbitrary: n) auto

lemma getargs_loop_short:
  "0 \<notin> set a \<Longrightarrow> n \<le> int (length a) \<Longrightarrow> getargs_loop (a @ rest) n = Some (take (nat n) a)"
proof (induction a arbitrary: n)
  case Nil
  then show ?case by (cases rest) auto
next
  case (Cons x a)
  then show ?case by (cases "n \<le> 0") (auto simp: nat_diff_distrib take_Cons')
qed

lemma getargs_result:
  assumes k: "kinv k" and arg: "argument (cur_pcb k) = a @ 0 # rest" and a: "a \<noteq> []" "0 \<notin> set a"
    and n: "int (length a) < n" and b: "in_prog_page buf (length a + 1)"
  obtains k' where "getargs buf n k = Some (0, k')" and "prog_bytes k' buf (length a + 1) = a @ [0]"
    and "mem_only k k'"
proof -
  have l: "getargs_loop (argument (cur_pcb k)) n = Some a" using arg a n by (simp add: getargs_loop_eq)
  have "in_prog_page buf (length (a @ [0]))" using b by simp
  from put_user_cur [OF k this] obtain k' where
    1: "put_user buf (a @ [0]) k = Some k'" "mem_only k k'" "prog_bytes k' buf (length (a @ [0])) = a @ [0]"
    by metis
  have "argument (cur_pcb k) ! 0 \<noteq> 0" using arg a by (cases a) auto
  then have "getargs buf n k = Some (0, k')"
    using l n 1(1) prog_page_nonnull [OF b] by (simp add: getargs_def Let_def)
  then show ?thesis using 1(2,3) by (intro that) auto
qed

section \<open>The video page\<close>

lemma vidmap_addr:
  assumes "i < 3"
  shows "drop_bit 22 (USER_VMEM_VADDR + push_bit 12 (term_vid_addr i)) = 2"
    and "take_bit 10 (drop_bit 12 (USER_VMEM_VADDR + push_bit 12 (term_vid_addr i))) = 0xB9 + of_nat i"
proof -
  have "i \<in> {0, 1, 2}" using assms by auto
  then show "drop_bit 22 (USER_VMEM_VADDR + push_bit 12 (term_vid_addr i)) = 2"
    and "take_bit 10 (drop_bit 12 (USER_VMEM_VADDR + push_bit 12 (term_vid_addr i))) = 0xB9 + of_nat i"
    by (auto simp: USER_VMEM_VADDR_def term_vid_addr_def page_consts)
qed

lemma vidmap_translate:
  assumes inv: "pg_inv pg" and v: "video_mapped d pg" and d: "d < 3" and i: "i < 3"
  shows "translate True pg (USER_VMEM_VADDR + push_bit 12 (term_vid_addr i)) =
    Some (word_of_int (base d i))"
proof -
  let ?va = "USER_VMEM_VADDR + push_bit 12 (term_vid_addr i)"
  have u: "unat (take_bit 10 (drop_bit 12 ?va)) = 0xB9 + i"
    using vidmap_addr(2) [OF i] term_vid_addr_simps [OF i] by simp
  have s: "0xB9 + i \<in> video_slots" using i by (auto simp: video_slots_def)
  have t0: "take_bit 12 ?va = 0"
  proof -
    have "i \<in> {0, 1, 2}" using i by auto
    then show ?thesis by (auto simp: USER_VMEM_VADDR_def term_vid_addr_def page_consts)
  qed
  have "translate True pg ?va = Some (push_bit 12 (drop_bit 12 (vmem_page_table pg (0xB9 + i))))"
    using vidmap_addr(1) [OF i] s t0 by (simp add: translate_user [OF inv] Let_def u)
  also have "drop_bit 12 (vmem_page_table pg (0xB9 + i)) = word_of_int (base d i div 4096)"
    using v i by (simp add: video_mapped_def)
  also have "push_bit 12 (word_of_int (base d i div 4096) :: u32) = word_of_int (base d i)"
  proof -
    have "4096 dvd base d i" using i by (auto simp: base_def own_page_def term_consts)
    then have "base d i div 4096 * 4096 = base d i" by simp
    then show ?thesis by (simp add: push_bit_eq_mult flip: of_int_mult) (metis of_int_mult of_int_numeral mult.commute)
  qed
  finally show ?thesis .
qed

lemma vidmap_result:
  assumes k: "kinv k" and a: "0x8000000 \<le> unat a" "unat a < 0x83FFFFC"
  obtains k' where "vidmap a k = Some (0, k')"
    and "prog_bytes k' a 4 = bytes32 (USER_VMEM_VADDR + push_bit 12 (term_vid_addr (pterm_num (cur_pcb k))))"
    and "mem_only k k'"
proof -
  let ?bs = "bytes32 (USER_VMEM_VADDR + push_bit 12 (term_vid_addr (pterm_num (cur_pcb k))))"
  have b: "in_prog_page a (length ?bs)" using a by (simp add: in_prog_page_def bytes32_def)
  from put_user_cur [OF k b] obtain k' where
    1: "put_user a ?bs k = Some k'" "mem_only k k'" "prog_bytes k' a (length ?bs) = ?bs" by metis
  have "vidmap a k = Some (0, k')"
    using a 1(1) by (auto simp: vidmap_def Let_def USER_PAGE_VMIN_def USER_PAGE_VMAX_def page_consts
        word_le_nat_alt word_less_nat_alt)
  moreover have "length ?bs = 4" by (simp add: bytes32_def)
  ultimately show ?thesis using 1(2,3) by (intro that) auto
qed

section \<open>Isolation of the calls\<close>

lemma sys_close_pmem: "sys_close fd k = Some (r, k') \<Longrightarrow> pmem k' = pmem k"
  by (auto simp: sys_close_def Let_def split: if_splits dest: op_close_pmem)

lemma call_frame:
  assumes k: "kinv k" and w: "in_wait inp = (\<lambda>_. None)"
    and s: "do_syscall inp eax ebx ecx edx k = Some (fl, k')"
    and p: "p \<in> pids" "process_queue k p \<noteq> NOT_LOADED" "p \<noteq> current_pid k"
  shows "frame_kept p k k'"
proof -
  consider "k' = k" | "halt inp (ucast ebx) k = Some (fl, k')"
    | st where "execute inp st k = Some (fl, k')"
    | v where "sys_read inp (sint ebx) ecx edx k = Some (v, k')"
    | v where "sys_write inp (sint ebx) ecx edx k = Some (v, k')"
    | st v where "sys_open inp st k = Some (v, k')"
    | v where "sys_close (sint ebx) k = Some (v, k')"
    | v where "getargs ebx (sint ecx) k = Some (v, k')"
    | v where "vidmap ebx k = Some (v, k')"
    using s unfolding do_syscall_def Let_def
    by (auto simp: bind_eq_Some_conv ret_def set_handler_def sigreturn_def split: if_splits)
  then show ?thesis
  proof cases
    case 2
    then show ?thesis unfolding halt_def by (rule halt32_frame [OF k p(1,3)])
  next
    case 3
    then show ?thesis by (rule execute_frame [OF k p(1,2)])
  next
    case 4
    then have "k' = k \<or> op_read (\<lambda>_. None) (fops (fd_arr (cur_pcb k) ! nat (sint ebx))) (sint ebx) ecx edx k
        = Some (v, k')"
      by (auto simp: sys_read_def Let_def w split: if_splits)
    then show ?thesis using op_read_frame [OF k p(1,3)] by auto
  next
    case 5
    then have "k' = k \<or> op_write (in_prev inp) (fops (fd_arr (cur_pcb k) ! nat (sint ebx))) ecx edx k
        = Some (v, k')"
      by (auto simp: sys_write_def Let_def split: if_splits)
    then show ?thesis using op_write_pmem frame_kept_pmem by auto
  next
    case 6
    then show ?thesis using sys_open_pmem frame_kept_pmem by blast
  next
    case 7
    then show ?thesis using sys_close_pmem frame_kept_pmem by blast
  next
    case 8
    then have "k' = k \<or> (\<exists>bs. put_user ebx bs k = Some k')"
      by (auto simp: getargs_def Let_def bind_eq_Some_conv split: if_splits)
    then show ?thesis using kept_put_user [OF k p(1,3)] by auto
  next
    case 9
    then have "k' = k \<or> (\<exists>bs. put_user ebx bs k = Some k')"
      by (auto simp: vidmap_def Let_def bind_eq_Some_conv split: if_splits)
    then show ?thesis using kept_put_user [OF k p(1,3)] by auto
  qed simp
qed
end
