(* ===== verification/Demo.thy ===== *)
theory Demo
  imports ProcProps
begin

text \<open>
  A small concrete system for the witnesses: an image with a directory and one program named
  \<^verbatim>\<open>shell\<close> of 28 bytes, the state before the shells are started, and a running state with the
  three shells.
\<close>

section \<open>The image\<close>

definition demo_base :: u32 where "demo_base = 0x500000"

text \<open>
  Offsets and bytes: the counts, the entries \<^verbatim>\<open>.\<close> and \<^verbatim>\<open>shell\<close>, the inode (length 28, data block
  0) and the data block with the ELF magic and the entry point 0x08048094; then the boot loader's
  information (flags 0, 1, 3 and 6), its module table and a memory map of one entry.
\<close>

definition demo_bytes :: "(u32 \<times> u8) list" where
  "demo_bytes =
    [(0, 2), (4, 1), (8, 1),
     (64, 46), (96, 1),
     (128, 115), (129, 104), (130, 101), (131, 108), (132, 108), (160, 2),
     (4096, 28),
     (8192, 0x7F), (8193, 69), (8194, 76), (8195, 70), (8216, 0x94), (8217, 0x80), (8218, 0x04),
     (8219, 0x08),
     (16384, 0x4B), (16404, 1), (16409, 0x41), (16410, 0x50), (16428, 24), (16433, 0x42), (16434, 0x50),
     (16642, 0x50), (16896, 20)]"

definition demo_fs :: fs_image where
  "demo_fs = \<lparr>fs = demo_base,
     fs_mem = (\<lambda>a. case map_of demo_bytes (a - demo_base) of None \<Rightarrow> 0 | Some b \<Rightarrow> b)\<rparr>"

lemmas demo_fs_defs = demo_fs_def demo_base_def demo_bytes_def

lemma demo_counts:
  "bb_dentry_count demo_fs = 2" "bb_inodes_count demo_fs = 1" "bb_blocks_count demo_fs = 1"
  by (simp_all add: bb_dentry_count_def bb_inodes_count_def bb_blocks_count_def load32_def demo_fs_defs)

lemma demo_inode:
  "inode_addr demo_fs 0 = 0x501000" "node_length demo_fs 0x501000 = 28"
  "node_data_block demo_fs 0x501000 0 = 0"
  by (simp_all add: inode_addr_def node_length_def node_data_block_def BLOCK_SIZE_def load32_def demo_fs_defs)

lemma demo_valid_inode: "valid_inode demo_fs 0"
  by (simp add: valid_inode_def demo_counts demo_inode upt_rec)

lemma demo_length: "length (file_data demo_fs 0) = 28"
  by (simp add: demo_inode)

lemma take_4: "4 \<le> length xs \<Longrightarrow> take 4 xs = [xs ! 0, xs ! 1, xs ! 2, xs ! 3]"
  by (auto simp: numeral_eq_Suc Suc_le_length_iff)

lemma demo_byte: "j < 28 \<Longrightarrow> file_data demo_fs 0 ! j = fs_mem demo_fs (0x502000 + of_nat j)"
  by (simp add: file_data_def demo_inode file_byte_def demo_counts)
    (simp add: demo_fs_def demo_base_def BLOCK_SIZE_def)

lemma demo_mem:
  "fs_mem demo_fs 0x502000 = 0x7F" "fs_mem demo_fs 0x502001 = 69" "fs_mem demo_fs 0x502002 = 76"
  "fs_mem demo_fs 0x502003 = 70" "fs_mem demo_fs 0x502018 = 0x94" "fs_mem demo_fs 0x502019 = 0x80"
  "fs_mem demo_fs 0x50201A = 0x04" "fs_mem demo_fs 0x50201B = 0x08"
  by (simp_all add: demo_fs_defs)

lemma demo_data:
  "take 4 (file_data demo_fs 0) = [0x7F, 69, 76, 70]"
  "take 4 (drop 24 (file_data demo_fs 0)) = [0x94, 0x80, 0x04, 0x08]"
  using take_4 [of "file_data demo_fs 0"] take_4 [of "drop 24 (file_data demo_fs 0)"]
  by (simp_all add: demo_length demo_byte demo_mem del: length_file_data)

section \<open>Names\<close>

definition demo_dentry :: dir_entry where
  "demo_dentry = \<lparr>filename = replicate 32 0, ftype = 9, inode_num = 9\<rparr>"

lemma demo_names:
  "entry_name demo_fs 0 = [46]" "entry_name demo_fs 1 = [115, 104, 101, 108, 108]"
  by (simp_all add: entry_name_def load_bytes_def dentry_addr_def demo_fs_defs upt_rec)

lemma demo_lookup:
  "read_dentry_by_name demo_fs (shell_name) demo_dentry = Some (0, dentry_of demo_fs 1 demo_dentry)"
  "ftype (dentry_of demo_fs 1 d) = 2" "inode_num (dentry_of demo_fs 1 d) = 0"
proof -
  have c: "cstr shell_name = [115, 104, 101, 108, 108]" "0 \<in> set shell_name" "length shell_name = 6"
    by (simp_all add: shell_name_def)
  have "[0..<unat (bb_dentry_count demo_fs)] = [0, 1]" by (simp add: demo_counts upt_rec)
  then show "read_dentry_by_name demo_fs shell_name demo_dentry = Some (0, dentry_of demo_fs 1 demo_dentry)"
    using read_dentry_by_name_eq [of shell_name demo_dentry demo_fs] c demo_names
    by (simp add: demo_dentry_def)
  show "ftype (dentry_of demo_fs 1 d) = 2" "inode_num (dentry_of demo_fs 1 d) = 0"
    by (simp_all add: dentry_of_def load32_def dentry_addr_def demo_fs_defs)
qed

section \<open>The kernel before and after start-up\<close>

definition demo_desc :: file_desc where
  "demo_desc = \<lparr>fops = NO_OPS, inode = 0, file_pos = 0, fflags = 0\<rparr>"

definition demo_free :: pcb where
  "demo_free = \<lparr>fd_arr = replicate 8 demo_desc, process_id = 0, stack_ptr = 0, base_ptr = 0,
     sched_bp = 0, parent_id = 0, pentry = 0, pterm_num = 0, argument = replicate 128 0, rtc_freq = 0\<rparr>"

definition demo_boot :: kernel where
  "demo_boot = \<lparr>kkbd = kbd_boot, kcon = demo_con, kpg = paging_boot 0x400000 0x401000 0x402000,
     kpic = \<lparr>master_mask = 0xFF, slave_mask = 0xFF, pic_out = []\<rparr>, krtc = rtc_boot, kfs = demo_fs,
     pcbs = (\<lambda>_. demo_free), process_arr = (\<lambda>_. 0), process_queue = (\<lambda>_. NOT_LOADED),
     current_pid = -1, tss_esp0 = 0x800000, pmem = (\<lambda>_. 0)\<rparr>"

definition demo_inputs :: inputs where
  "demo_inputs = \<lparr>in_esp = 0x7FDF00, in_ebp = 0x7FDF40, in_prev = 0x26, in_dentry = demo_dentry,
     in_entry = [0, 0, 0, 0], in_header = [0, 0, 0, 0], in_wait = (\<lambda>_. None)\<rparr>"

definition demo_shell :: "int \<Rightarrow> pcb" where
  "demo_shell t = (init_stdio demo_free)\<lparr>process_id := t, parent_id := -1, pterm_num := nat t,
     pentry := 0x08048094, rtc_freq := -1\<rparr>"

text \<open>The shell of terminal 0 runs; the others have not been entered yet.\<close>

definition demo_run :: kernel where
  "demo_run = demo_boot\<lparr>
     kpg := page_map_user 0 (init_pages (paging_boot 0x400000 0x401000 0x402000)),
     pcbs := (\<lambda>p. if p \<in> {0, 1, 2} then demo_shell p else demo_free),
     process_queue := (\<lambda>p. if p \<in> {0, 1, 2} then SCHEDULED else NOT_LOADED),
     current_pid := 0, tss_esp0 := get_kernel_stack 0\<rparr>"

lemma demo_fds: "fds_ok False demo_free" "fds_ok True (demo_shell t)"
proof -
  show f: "fds_ok False demo_free"
    by (simp add: fds_ok_def demo_free_def MAX_ARGS_def desc_ok_def demo_desc_def FDFLAG_OPEN_def)
  show "fds_ok True (demo_shell t)"
    using fds_ok_init_stdio [OF f] by (simp add: fds_ok_def demo_shell_def)
qed

lemma demo_boot_state: "boot_state demo_boot"
proof -
  have "\<exists>d p v. kpg demo_boot = paging_boot d p v \<and> drop_bit 12 p \<noteq> drop_bit 12 v"
    by (rule exI [of _ "0x400000"], rule exI [of _ "0x401000"], rule exI [of _ "0x402000"])
      (simp add: demo_boot_def)
  then show ?thesis
    by (simp add: boot_state_def demo_boot_def kbd_inv_boot demo_con_inv demo_fds)
qed

lemma demo_run_kinv: "kinv demo_run"
proof -
  let ?pg = "init_pages (paging_boot 0x400000 0x401000 0x402000)"
  have "pg_inv ?pg" by (rule pg_inv_init) simp
  then have pg: "pg_inv (page_map_user 0 ?pg)" by (rule pg_inv_map_user)
  have "video_mapped 0 (page_map_user 0 ?pg)"
    using video_mapped_init [of "0x400000" "0x401000" "0x402000"] by (simp add: video_mapped_def)
  then have "kb_ok (kkbd demo_run, kcon demo_run, kpg demo_run, kpic demo_run)"
    using pg by (simp add: kb_ok_def demo_run_def demo_boot_def kbd_inv_boot demo_con_inv)
  moreover have "tree_of demo_run"
    by (auto simp: tree_of_def tree_inv_def child_def loaded_def demo_run_def demo_shell_def in_pids)
  moreover have "ctx_ok demo_run"
    using page_map_user_frame [of 0 ?pg] by (simp add: ctx_ok_def demo_run_def in_pids)
  ultimately show ?thesis
    by (auto simp: kinv_def demo_run_def demo_fds)
qed

text \<open>Terminal 0 runs a program started by its shell.\<close>

definition demo_prog :: pcb where
  "demo_prog = (demo_shell 0)\<lparr>process_id := 3, parent_id := 0, stack_ptr := 0x7FDE00,
     base_ptr := 0x7FDE40, argument := [104, 105] @ replicate 126 0\<rparr>"

definition demo_child :: kernel where
  "demo_child = demo_run\<lparr>
     kpg := page_map_user 3 (init_pages (paging_boot 0x400000 0x401000 0x402000)),
     pcbs := (pcbs demo_run)(3 := demo_prog),
     process_queue := (process_queue demo_run)(0 := LOADED, 3 := SCHEDULED),
     current_pid := 3, tss_esp0 := get_kernel_stack 3\<rparr>"

lemma demo_child_kinv: "kinv demo_child"
proof -
  let ?pg = "init_pages (paging_boot 0x400000 0x401000 0x402000)"
  have "pg_inv ?pg" by (rule pg_inv_init) simp
  then have pg: "pg_inv (page_map_user 3 ?pg)" by (rule pg_inv_map_user)
  have "video_mapped 0 (page_map_user 3 ?pg)"
    using video_mapped_init [of "0x400000" "0x401000" "0x402000"] by (simp add: video_mapped_def)
  then have "kb_ok (kkbd demo_child, kcon demo_child, kpg demo_child, kpic demo_child)"
    using pg by (simp add: kb_ok_def demo_child_def demo_run_def demo_boot_def kbd_inv_boot demo_con_inv)
  moreover have "tree_of demo_child"
  proof -
    have q: "process_queue demo_child =
        (\<lambda>p. if p = 0 then LOADED else if p \<in> {1, 2, 3} then SCHEDULED else NOT_LOADED)"
      by (auto simp: demo_child_def demo_run_def fun_eq_iff)
    have ld: "loaded (process_queue demo_child) p \<longleftrightarrow> p \<in> {0, 1, 2, 3}" for p
      by (auto simp: loaded_def q in_pids)
    have ch: "child (process_queue demo_child) p \<longleftrightarrow> p = 3" for p
      by (auto simp: child_def ld)
    have v: "parent_id (pcbs demo_child 3) = 0" "pterm_num (pcbs demo_child 3) = 0"
      "process_id (pcbs demo_child 3) = 3"
      "t \<in> {0, 1, 2} \<Longrightarrow> pcbs demo_child t = demo_shell t" "parent_id (demo_shell t) = -1"
      "pterm_num (demo_shell t) = nat t" "process_id (demo_shell t) = t" "current_pid demo_child = 3" for t
      by (auto simp: demo_child_def demo_run_def demo_prog_def demo_shell_def)
    have l: "(\<forall>p. p \<in> {0, 1, 2, 3} \<longrightarrow> P p) \<longleftrightarrow> P 0 \<and> P 1 \<and> P 2 \<and> P 3" for P :: "int \<Rightarrow> bool" by auto
    have w: "p \<in> pids \<Longrightarrow> process_queue demo_child p = LOADED \<Longrightarrow> p = 0" for p
      by (simp add: q split: if_splits)
    have "\<forall>t\<in>{0, 1, 2}. process_queue demo_child t \<noteq> NOT_LOADED \<and> parent_id (pcbs demo_child t) = -1 \<and>
        pterm_num (pcbs demo_child t) = nat t"
      by (simp add: q v)
    moreover have "\<forall>p. p \<in> {0, 1, 2, 3} \<longrightarrow> process_id (pcbs demo_child p) = p \<and> pterm_num (pcbs demo_child p) < 3"
      unfolding l by (simp add: v)
    moreover have "3 \<in> pids" "0 \<in> pids" by (simp_all add: in_pids)
    moreover have "pterm_num (pcbs demo_child 0) = 0" using v(4,6) [of 0] by simp
    moreover have "process_queue demo_child 0 = LOADED" "process_queue demo_child 3 = SCHEDULED"
      by (simp_all add: q)
    moreover have "\<forall>p\<in>pids. process_queue demo_child p = LOADED \<longrightarrow> (\<exists>c. c = 3 \<and> parent_id (pcbs demo_child c) = p)"
      using w v(1) by blast
    ultimately show ?thesis
      unfolding tree_of_def tree_inv_def ld ch v(8) using v(1,2) by metis
  qed
  moreover have "ctx_ok demo_child"
    using page_map_user_frame [of 3 ?pg] by (simp add: ctx_ok_def demo_child_def demo_run_def in_pids)
  moreover have "fds_ok True demo_prog"
    using demo_fds(2) [of 0] by (simp add: fds_ok_def demo_prog_def MAX_ARGS_def)
  ultimately show ?thesis
    by (auto simp: kinv_def demo_child_def demo_run_def demo_fds)
qed

text \<open>The shell of terminal 0 has opened its own file.\<close>

definition demo_file :: kernel where
  "demo_file = upd_pcb 0 (set_fd_open 2)
     (upd_cur_fd 2 (\<lambda>d. d\<lparr>fops := FS_OPS, inode := 0, file_pos := 0\<rparr>) demo_run)"

lemma demo_open: "sys_open demo_inputs (Some shell_name) demo_run = Some (2, demo_file)"
proof -
  have c: "current_pid demo_run = 0" "kfs demo_run = demo_fs" "in_dentry demo_inputs = demo_dentry"
    by (simp_all add: demo_run_def demo_boot_def demo_inputs_def)
  have f: "closed_fd (pcbs demo_run 0) [0..7] = 2"
    by (simp add: upto_rec1 fd_is_open_def demo_run_def demo_shell_def demo_free_def
        init_stdio_def set_fd_open_def upd_fd_def demo_desc_def FDFLAG_OPEN_def STDIN_def STDOUT_def)
  show ?thesis
    using demo_lookup
    by (simp add: sys_open_def Let_def f c MAX_NUM_FD_def ops_of_type_def FTYPE_RTC_def FTYPE_DIR_def
        FTYPE_FILE_def op_open_def fs_stubs demo_file_def upd_cur_fd_def)
qed

lemma demo_file_kinv: "kinv demo_file" "current_pid demo_file = 0" "kfs demo_file = demo_fs"
  using sys_open_keeps [OF demo_run_kinv demo_open]
  by (simp_all add: demo_file_def upd_cur_fd_def demo_run_def demo_boot_def)

end
