(* ===== verification/Isolation.thy ===== *)
theory Isolation
  imports Calls Demo
begin

text \<open>
  Results over whole steps of the machine: no step touches the program memory of a process
  that does not run, a preempted process goes on where it was, and what becomes of a program
  that faults or of a shell that ends.
\<close>

section \<open>Every step\<close>

lemma pit_int_pmem: "pmem (snd (pit_int esp ebp prev k)) = pmem k"
  by (simp add: pit_int_def)

lemma k_keyboard_int_pmem: "k_keyboard_int sc k = Some k' \<Longrightarrow> pmem k' = pmem k"
  by (auto simp: k_keyboard_int_def split: prod.splits)

lemma k_printf_pmem: "k_printf strs fmt args k = Some k' \<Longrightarrow> pmem k' = pmem k \<and> current_pid k' = current_pid k"
proof -
  have "pmem (fold k_putc out k) = pmem k \<and> current_pid (fold k_putc out k) = current_pid k" for out k
    by (induction out arbitrary: k) (auto simp: k_putc_def)
  then show "k_printf strs fmt args k = Some k' \<Longrightarrow> ?thesis" by (auto simp: k_printf_def)
qed

lemma terminal_read_end_frame:
  assumes k: "kinv k" and p: "p \<in> pids" "p \<noteq> current_pid k"
    and e: "terminal_read_end t buf n k = Some (r, k')"
  shows "frame_kept p k k'"
proof -
  obtain c bs where "put_user buf bs (k\<lparr>kcon := c\<rparr>) = Some k'"
    using e by (auto simp: terminal_read_end_def case_prod_beta bind_eq_Some_conv split: if_splits)
  moreover have "mapped_for (current_pid k) (kpg (k\<lparr>kcon := c\<rparr>))" using mapped_for_cur [OF k] by simp
  ultimately have "frame_kept p (k\<lparr>kcon := c\<rparr>) k'"
    using put_user_frame [OF _ p(1) kinvD(8) [OF k] p(2)] by blast
  then show ?thesis by (simp add: frame_kept_def)
qed

lemma user_store_frame:
  assumes k: "kinv k" and p: "p \<in> pids" "p \<noteq> current_pid k"
    and t: "translate True (kpg k) va = Some a" and s: "phys_store a v k = Some k'"
  shows "frame_kept p k k'"
proof -
  have m: "mapped_for (current_pid k) (kpg k)" by (rule mapped_for_cur [OF k])
  have "translate False (kpg k) va = Some a"
    using t by (auto simp: translate_def Let_def split: if_splits option.splits)
  then have "vstore8 va v k = Some k'" using s by (simp add: vstore8_def)
  then show ?thesis using vstore8_frame [OF m p(1) kinvD(8) [OF k] p(2)] by blast
qed

lemma exception_gate_frame:
  assumes k: "kinv k" and p: "p \<in> pids" "p \<noteq> current_pid k"
    and e: "exception_gate inp True h k = Some (fl, k')"
  shows "frame_kept p k k'"
proof -
  obtain m k1 where 1: "k_printf (\<lambda>_. []) (asc m @ [10, 0]) [] k = Some k1"
    and 2: "halt32 inp EXCEPTION_STATUS k1 = Some (fl, k')"
    using e by (auto simp: exception_gate_def print_exception_def bind_eq_Some_conv split: option.splits)
  have "pmem k1 = pmem k" "current_pid k1 = current_pid k" "kinv k1"
    using k_printf_pmem [OF 1] kinv_printf [OF k 1] by auto
  then show ?thesis using halt32_frame [OF _ p(1) _ 2] p(2) by (simp add: frame_kept_def)
qed

lemma kstep_frame:
  assumes "kstep k k'" and k: "kinv k"
    and p: "p \<in> pids" "process_queue k p \<noteq> NOT_LOADED" "p \<noteq> current_pid k"
  shows "frame_kept p k k'"
  using assms(1)
proof cases
  case (tick esp ebp prev)
  then show ?thesis using pit_int_pmem frame_kept_pmem by blast
next
  case (key sc)
  then show ?thesis using k_keyboard_int_pmem frame_kept_pmem by blast
next
  case clock
  then show ?thesis by (simp add: frame_kept_def k_rtc_int_def case_prod_beta)
next
  case (call inp eax ebx ecx edx fl)
  have "in_wait inp = (\<lambda>_. None)" using call(2) by auto
  then show ?thesis by (rule call_frame [OF k _ call(1) p])
next
  case read_start
  then show ?thesis by (simp add: frame_kept_def terminal_read_start_def)
next
  case (read_end buf n r)
  then show ?thesis using terminal_read_end_frame [OF k p(1,3)] by blast
next
  case clock_start
  then show ?thesis by (simp add: frame_kept_def set_int_flag_def)
next
  case (fault inp h fl)
  then show ?thesis using exception_gate_frame [OF k p(1,3)] by blast
next
  case (user_store va a v)
  then show ?thesis using user_store_frame [OF k p(1,3)] by blast
qed

section \<open>Control blocks\<close>

text \<open>Only the current process's control block changes, and no process starts or ends.\<close>

definition cur_only :: "kernel \<Rightarrow> kernel \<Rightarrow> bool" where
  "cur_only k k' \<longleftrightarrow> (\<forall>p. p \<noteq> current_pid k \<longrightarrow> pcbs k' p = pcbs k p) \<and>
     process_queue k' = process_queue k \<and> current_pid k' = current_pid k"

lemma cur_only_refl [simp]: "cur_only k k"
  and cur_only_trans: "cur_only a b \<Longrightarrow> cur_only b c \<Longrightarrow> cur_only a c"
  and cur_only_mem: "mem_only k k' \<Longrightarrow> cur_only k k'"
  and cur_only_upd: "current_pid k = p \<Longrightarrow> cur_only k (upd_pcb p f k)"
  and cur_only_advance: "cur_only k (advance_pos fd cnt k)"
  and cur_only_freq: "cur_only k (set_rtc_freq fr k)"
  and cur_only_rtc: "cur_only k (snd (k_rtc_set_freq prev fr k))"
  by (auto simp: cur_only_def mem_only_eqs advance_pos_def set_rtc_freq_def)

lemma cur_only_put_user: "put_user va bs k = Some k' \<Longrightarrow> cur_only k k'"
  using put_user_mem_only cur_only_mem by blast

lemma op_read_cur_only:
  assumes "op_read (\<lambda>_. None) ops fd buf n k = Some (r, k')"
  shows "cur_only k k'"
proof (cases ops)
  case DIR_OPS
  then show ?thesis
    using assms by (auto simp: op_read_def directory_read_def Let_def bind_eq_Some_conv case_prod_beta
        split: if_splits intro: cur_only_trans [OF cur_only_put_user cur_only_advance])
next
  case FS_OPS
  then show ?thesis
    using assms by (auto simp: op_read_def fs_read_def Let_def bind_eq_Some_conv case_prod_beta
        split: if_splits intro: cur_only_put_user cur_only_trans [OF cur_only_put_user cur_only_advance])
qed (use assms in \<open>auto simp: op_read_def k_terminal_read_def bad_call_def k_rtc_read_def Let_def
    split: if_splits\<close>)

lemma rtc_write_cur_only: "rtc_write prev buf k = Some (r, k') \<Longrightarrow> cur_only k k'"
  by (auto simp: rtc_write_def bind_eq_Some_conv case_prod_beta Let_def split: if_splits
      intro: cur_only_rtc cur_only_trans [OF cur_only_rtc cur_only_freq])

lemma op_write_cur_only: "op_write prev ops buf n k = Some (r, k') \<Longrightarrow> cur_only k k'"
  by (cases ops) (auto simp: op_write_def fs_stubs k_terminal_write_def bind_eq_Some_conv
      case_prod_beta cur_only_def split: if_splits dest: rtc_write_cur_only [unfolded cur_only_def])

lemma op_open_cur_only: "op_open prev ops k = Some (r, k') \<Longrightarrow> cur_only k k'"
  by (cases ops) (auto simp: op_open_def fs_stubs rtc_open_def case_prod_beta
      intro: cur_only_trans [OF cur_only_rtc cur_only_freq])

lemma op_close_cur_only: "op_close ops k = Some (r, k') \<Longrightarrow> cur_only k k'"
  by (cases ops) (auto simp: op_close_def fs_stubs rtc_close_def intro: cur_only_freq)

lemma sys_open_cur_only: "sys_open inp name k = Some (r, k') \<Longrightarrow> cur_only k k'"
proof (erule sys_open_cases)
  fix fname e d ops r1 k1
  let ?k = "upd_cur_fd r (\<lambda>x. x\<lparr>fops := ops, inode := inode_num d, file_pos := 0\<rparr>) k"
  assume o: "op_open (in_prev inp) ops ?k = Some (r1, k1)"
    and k': "k' = upd_pcb (current_pid k1) (set_fd_open r) k1"
  have "cur_only k ?k" by (simp add: upd_cur_fd_def cur_only_upd)
  moreover have "cur_only ?k k1" by (rule op_open_cur_only [OF o])
  moreover have "cur_only k1 k'" by (simp add: k' cur_only_upd)
  ultimately show "cur_only k k'" using cur_only_trans by blast
qed simp

lemma sys_close_cur_only:
  assumes "sys_close fd k = Some (r, k')"
  shows "cur_only k k'"
proof -
  let ?k = "upd_pcb (current_pid k) (set_fd_close fd) k"
  consider "k' = k" | ops where "op_close ops ?k = Some (r, k')"
    using assms by (auto simp: sys_close_def Let_def split: if_splits)
  then show ?thesis
  proof cases
    case 2
    then show ?thesis using cur_only_trans [OF _ op_close_cur_only [OF 2]] cur_only_upd by blast
  qed simp
qed

text \<open>What every step leaves of the processes that do not run.\<close>

definition others_kept :: "kernel \<Rightarrow> kernel \<Rightarrow> bool" where
  "others_kept k k' \<longleftrightarrow> (\<forall>p\<in>pids. p \<noteq> current_pid k \<and> process_queue k p \<noteq> NOT_LOADED \<longrightarrow>
     pcbs k' p = pcbs k p \<and> process_queue k' p \<noteq> NOT_LOADED)"

lemma others_cur_only: "cur_only k k' \<Longrightarrow> others_kept k k'"
  by (simp add: cur_only_def others_kept_def)

lemma others_same:
  "pcbs k' = pcbs k \<Longrightarrow> process_queue k' = process_queue k \<Longrightarrow> others_kept k k'"
  by (simp add: others_kept_def)

lemma pit_int_others: "others_kept k (snd (pit_int esp ebp prev k))"
  by (simp add: pit_int_def others_kept_def)

lemma execute_others:
  assumes k: "kinv k" and "execute inp command k = Some (fl, k')"
  shows "others_kept k k'"
  using assms(2)
proof (cases rule: execute_cases)
  case (started n c program arg v e k1 k2)
  let ?k3 = "exec_commit inp n (current_pid k) e k2"
  have mo: "mem_only (exec_prepare n k1) k2" by (rule k_program_load_mem_only [OF started(9)])
  note M = mem_only_eqs [OF mo]
  have c1: "current_pid k \<noteq> -1" by (rule kinvD_cur(4) [OF k])
  have "process_id (pcbs k2 n) = n" by (simp add: M)
  note C = exec_commit_simps [OF c1 this, of inp e]
  have k': "k' = snd (sched (in_esp inp) (in_ebp inp) (in_prev inp) ?k3)"
    using started(10) by (metis snd_conv)
  show ?thesis
    using started(3) c1 by (auto simp: others_kept_def k' C M started(8))
qed (auto simp: others_kept_def)

lemma halt32_others:
  assumes k: "kinv k" and h: "halt32 inp status k = Some (fl, k')"
  shows "others_kept k k'"
proof (cases "parent_id (cur_pcb k) = -1")
  case True
  then obtain e k1 where l: "k_program_load shell_name (in_dentry inp) (in_entry inp)
      (k\<lparr>process_arr := (process_arr k)(current_pid k := 0), current_pid := int (pterm_num (cur_pcb k))\<rparr>)
      = Some (e, k1)" and k': "k' = upd_pcb (current_pid k) (\<lambda>p. p\<lparr>pentry := e\<rparr>) k1"
    using h by (auto simp: halt32_def Let_def bind_eq_Some_conv)
  note M = mem_only_eqs [OF k_program_load_mem_only [OF l]]
  show ?thesis by (simp add: others_kept_def k' M)
next
  case False
  show ?thesis
    by (rule halt32_child [OF k False, of inp status]) (use h in \<open>auto simp: others_kept_def\<close>)
qed

lemma k_printf_same:
  "k_printf strs fmt args k = Some k' \<Longrightarrow>
   pcbs k' = pcbs k \<and> process_queue k' = process_queue k \<and> current_pid k' = current_pid k"
proof -
  have "pcbs (fold k_putc out k) = pcbs k \<and> process_queue (fold k_putc out k) = process_queue k \<and>
      current_pid (fold k_putc out k) = current_pid k" for out k
    by (induction out arbitrary: k) (auto simp: k_putc_def)
  then show "k_printf strs fmt args k = Some k' \<Longrightarrow> ?thesis" by (auto simp: k_printf_def)
qed

lemma exception_gate_others:
  assumes k: "kinv k" and e: "exception_gate inp True h k = Some (fl, k')"
  shows "others_kept k k'"
proof -
  obtain m k1 where 1: "k_printf (\<lambda>_. []) (asc m @ [10, 0]) [] k = Some k1"
    and 2: "halt32 inp EXCEPTION_STATUS k1 = Some (fl, k')"
    using e by (auto simp: exception_gate_def print_exception_def bind_eq_Some_conv split: option.splits)
  from halt32_others [OF kinv_printf [OF k 1] 2] k_printf_same [OF 1] show ?thesis
    by (simp add: others_kept_def)
qed

lemma call_others:
  assumes k: "kinv k" and w: "in_wait inp = (\<lambda>_. None)"
    and s: "do_syscall inp eax ebx ecx edx k = Some (fl, k')"
  shows "others_kept k k'"
proof -
  consider "k' = k" | "halt inp (ucast ebx) k = Some (fl, k')"
    | st where "execute inp st k = Some (fl, k')"
    | v where "sys_read inp (sint ebx) ecx edx k = Some (v, k')"
    | v where "sys_write inp (sint ebx) ecx edx k = Some (v, k')"
    | st v where "sys_open inp st k = Some (v, k')"
    | v where "sys_close (sint ebx) k = Some (v, k')"
    | bs where "put_user ebx bs k = Some k'"
    using s unfolding do_syscall_def Let_def getargs_def vidmap_def
    by (auto simp: bind_eq_Some_conv ret_def set_handler_def sigreturn_def split: if_splits)
  then show ?thesis
  proof cases
    case 2
    then show ?thesis unfolding halt_def by (rule halt32_others [OF k])
  next
    case 3
    then show ?thesis by (rule execute_others [OF k])
  next
    case 4
    then have "cur_only k k'"
      by (auto simp: sys_read_def Let_def w split: if_splits dest: op_read_cur_only)
    then show ?thesis by (rule others_cur_only)
  next
    case 5
    then have "cur_only k k'"
      by (auto simp: sys_write_def Let_def split: if_splits dest: op_write_cur_only)
    then show ?thesis by (rule others_cur_only)
  next
    case 6
    then show ?thesis using sys_open_cur_only others_cur_only by blast
  next
    case 7
    then show ?thesis using sys_close_cur_only others_cur_only by blast
  next
    case 8
    then show ?thesis using cur_only_put_user others_cur_only by blast
  qed (simp add: others_kept_def)
qed

lemma kstep_others:
  assumes "kstep k k'" and k: "kinv k"
  shows "others_kept k k'"
  using assms(1)
proof cases
  case (tick esp ebp prev)
  then show ?thesis using pit_int_others by simp
next
  case (key sc)
  then show ?thesis by (intro others_same) (auto simp: k_keyboard_int_def)
next
  case clock
  then show ?thesis by (intro others_same) (simp_all add: k_rtc_int_def case_prod_beta)
next
  case (call inp eax ebx ecx edx fl)
  have "in_wait inp = (\<lambda>_. None)" using call(2) by auto
  then show ?thesis by (rule call_others [OF k _ call(1)])
next
  case read_start
  then show ?thesis by (intro others_same) (simp_all add: terminal_read_start_def)
next
  case (read_end buf n r)
  then obtain c bs where "put_user buf bs (k\<lparr>kcon := c\<rparr>) = Some k'"
    by (auto simp: terminal_read_end_def case_prod_beta bind_eq_Some_conv split: if_splits)
  from cur_only_put_user [OF this] show ?thesis by (simp add: cur_only_def others_kept_def)
next
  case clock_start
  then show ?thesis by (intro others_same) (simp_all add: set_int_flag_def)
next
  case (fault inp h fl)
  then show ?thesis using exception_gate_others [OF k] by blast
next
  case (user_store va a v)
  then show ?thesis using phys_store_mem_only cur_only_mem others_cur_only by blast
qed

section \<open>Preemption\<close>

text \<open>A run of the machine in which process \<open>p\<close> does not run.\<close>

inductive away :: "int \<Rightarrow> kernel \<Rightarrow> kernel \<Rightarrow> bool" for p k0 where
  away_start: "away p k0 k0"
| away_step: "away p k0 k \<Longrightarrow> current_pid k \<noteq> p \<Longrightarrow> kstep k k' \<Longrightarrow> away p k0 k'"

lemma away_kept:
  assumes "away p k0 k" and "kinv k0" and "p \<in> pids" and "process_queue k0 p \<noteq> NOT_LOADED"
  shows "kinv k \<and> process_queue k p \<noteq> NOT_LOADED \<and> pcbs k p = pcbs k0 p \<and> frame_kept p k0 k"
  using assms(1)
proof induction
  case away_start
  then show ?case using assms(2,4) by simp
next
  case (away_step k k')
  then have k: "kinv k" "process_queue k p \<noteq> NOT_LOADED" and ne: "p \<noteq> current_pid k"
    and f: "frame_kept p k0 k" by auto
  have "frame_kept p k k'" by (rule kstep_frame [OF away_step(3) k(1) assms(3) k(2) ne])
  then have "frame_kept p k0 k'" by (rule frame_kept_trans [OF f])
  then show ?case
    using kstep_others [OF away_step(3) k(1)] kstep_keeps [OF away_step(3) k(1)] away_step.IH ne k(2) assms(3)
    by (simp add: others_kept_def)
qed

lemma pit_int_leaves:
  assumes k: "kinv k"
  shows "current_pid (snd (pit_int esp ebp prev k)) \<noteq> current_pid k"
proof -
  note T = kinvD(5) [OF k, unfolded tree_of_def]
  obtain p0 where p0: "p0 \<in> pids" "process_queue k p0 = SCHEDULED" "pterm_num (pcbs k p0) = 0"
    using one_scheduled [OF T, of 0] by auto
  obtain p1 where p1: "p1 \<in> pids" "process_queue k p1 = SCHEDULED" "pterm_num (pcbs k p1) = 1"
    using one_scheduled [OF T, of 1] by auto
  have "p0 \<noteq> p1" using p0(3) p1(3) by auto
  then have "\<exists>p\<in>pids. p \<noteq> current_pid k \<and> process_queue k p = SCHEDULED" using p0 p1 by metis
  from sched_pick_scheduled [OF kinvD(8) [OF k] this] show ?thesis by simp
qed

lemma preempt_resume:
  assumes k: "kinv k" and away: "away (current_pid k) (snd (pit_int esp ebp prev k)) k2"
    and ne: "current_pid k2 \<noteq> current_pid k"
    and bk: "current_pid (snd (pit_int esp' ebp' prev' k2)) = current_pid k"
  shows "fst (pit_int esp' ebp' prev' k2) =
      (if ebp = 0 then Enter_user (pentry (cur_pcb k)) else Resume ebp) \<and>
    pcbs (snd (pit_int esp' ebp' prev' k2)) (current_pid k) =
      (cur_pcb k)\<lparr>sched_bp := ebp, stack_ptr := esp\<rparr> \<and>
    frame_kept (current_pid k) k (snd (pit_int esp' ebp' prev' k2))"
proof -
  let ?c = "current_pid k" and ?k1 = "snd (pit_int esp ebp prev k)"
  note C = kinvD(8,9) [OF k] and c1 = kinvD_cur(4) [OF k]
  have p1: "pcbs ?k1 ?c = (cur_pcb k)\<lparr>sched_bp := ebp, stack_ptr := esp\<rparr>"
    using c1 by (simp add: pit_int_def)
  have A: "kinv k2" "pcbs k2 ?c = pcbs ?k1 ?c" "frame_kept ?c ?k1 k2"
    using away_kept [OF away pit_int_keeps [OF k] C(1)] C(2) by simp_all
  have pick: "sched_pick (process_queue k2) (current_pid k2) = ?c" using bk by simp
  have f: "frame_kept ?c k ?k1" "frame_kept ?c k2 (snd (pit_int esp' ebp' prev' k2))"
    by (simp_all add: frame_kept_pmem pit_int_pmem)
  have "pcbs (snd (pit_int esp' ebp' prev' k2)) ?c = pcbs k2 ?c" using ne by (simp add: pit_int_def)
  moreover have "frame_kept ?c k (snd (pit_int esp' ebp' prev' k2))"
    using frame_kept_trans [OF frame_kept_trans [OF f(1) A(3)] f(2)] .
  moreover have "fst (pit_int esp' ebp' prev' k2) =
      (if ebp = 0 then Enter_user (pentry (cur_pcb k)) else Resume ebp)"
    using pick ne A(2) p1 unfolding pit_int_def by (subst sched_flow) auto
  ultimately show ?thesis using A(2) p1 by simp
qed

section \<open>The end of a program\<close>

lemma base_terminal:
  assumes k: "kinv k" and par: "parent_id (cur_pcb k) = -1"
  shows "int (pterm_num (cur_pcb k)) = current_pid k"
proof -
  let ?c = "current_pid k"
  note T = kinvD(5) [OF k, unfolded tree_of_def] and C = kinvD(8,9) [OF k]
  have "?c \<in> {0, 1, 2} \<or> child (process_queue k) ?c"
    using C loaded_cases [OF C(1)] by (simp add: loaded_def)
  moreover have "\<not> child (process_queue k) ?c"
    using tree_invD(6) [OF T, of ?c] par by (auto simp: in_pids)
  ultimately have "pterm_num (cur_pcb k) = nat ?c" using tree_invD(3) [OF T] by auto
  then show ?thesis using C by (simp add: in_pids)
qed

text \<open>A base shell that ends is loaded again and entered at its entry point.\<close>

lemma halt32_base:
  assumes k: "kinv k" and par: "parent_id (cur_pcb k) = -1" and sh: "has_shell k (in_dentry inp) d"
  defines "c \<equiv> current_pid k"
  obtains k' where "halt32 inp status k = Some (Enter_user (shell_entry k d (in_entry inp)), k')"
    and "kinv k'" and "current_pid k' = c" and "process_queue k' = process_queue k"
    and "\<And>p. p \<noteq> c \<Longrightarrow> pcbs k' p = pcbs k p"
    and "\<And>j. j < length (file_data (kfs k) (inode_num d)) \<Longrightarrow>
      pmem k' (prog_addr c (PROGRAM_VIRTUAL_START + of_nat j)) = file_data (kfs k) (inode_num d) ! j"
proof -
  let ?k = "k\<lparr>process_arr := (process_arr k)(c := 0)\<rparr>"
  have m: "mapped_for c (kpg ?k)" using mapped_for_cur [OF k] by (simp add: c_def)
  have c: "c \<in> pids" unfolding c_def by (rule kinvD(8) [OF k])
  obtain r where r: "read_dentry_by_name (kfs ?k) shell_name (in_dentry inp) = Some (r, d)"
    and v: "valid_inode (kfs ?k) (inode_num d)" "length (file_data (kfs ?k) (inode_num d)) \<le> 0x3B8000"
    using sh by (auto simp: has_shell_def)
  from k_program_load_eq [OF m c r v, of "in_entry inp"] obtain k1 where
    l: "k_program_load shell_name (in_dentry inp) (in_entry inp) ?k =
      Some (shell_entry k d (in_entry inp), k1)" and mo: "mem_only ?k k1"
    and mem: "\<forall>j<length (file_data (kfs k) (inode_num d)).
      pmem k1 (prog_addr c (PROGRAM_VIRTUAL_START + of_nat j)) = file_data (kfs k) (inode_num d) ! j"
    by (auto simp: shell_entry_def)
  note M = mem_only_eqs [OF mo]
  let ?r = "upd_pcb c (\<lambda>p. p\<lparr>pentry := shell_entry k d (in_entry inp)\<rparr>) k1"
  have id: "?k\<lparr>current_pid := c\<rparr> = ?k" by (simp add: c_def)
  have h: "halt32 inp status k = Some (Enter_user (shell_entry k d (in_entry inp)), ?r)"
    using par base_terminal [OF k par] l id unfolding halt32_def Let_def c_def by simp
  show ?thesis
    by (rule that [OF h halt32_keeps [OF k h]]) (use mem in \<open>simp_all add: M c_def\<close>)
qed

lemma exception_message_plain:
  assumes "exception_message h = Some m"
  shows "37 \<notin> set (asc m @ [10])" and "0 \<notin> set (asc m @ [10])"
proof -
  have "\<forall>(h, m)\<in>set exception_messages. 37 \<notin> set (asc m @ [10]) \<and> 0 \<notin> set (asc m @ [10])"
    by (simp add: exception_messages_def asc_def)
  then show "37 \<notin> set (asc m @ [10])" "0 \<notin> set (asc m @ [10])"
    using map_of_SomeD [OF assms [unfolded exception_message_def]] by auto
qed

lemma exception_prints:
  assumes "exception_message h = Some m"
  shows "k_printf strs (asc m @ [10, 0]) args k = Some (fold k_putc (asc m @ [10]) k)"
proof -
  have e: "asc m @ [10, 0] = (asc m @ [10]) @ [0]" by simp
  show ?thesis
    unfolding e k_printf_def printf_plain [OF exception_message_plain [OF assms]] by simp
qed

lemma fold_putc_keeps:
  "kinv k \<Longrightarrow> kinv (fold k_putc out k) \<and> pcbs (fold k_putc out k) = pcbs k \<and>
     current_pid (fold k_putc out k) = current_pid k \<and>
     process_queue (fold k_putc out k) = process_queue k"
  by (induction out arbitrary: k) (auto simp: kinv_putc, simp_all add: k_putc_def)

lemma user_fault:
  assumes k: "kinv k" and par: "parent_id (cur_pcb k) \<noteq> -1" and m: "exception_message h = Some m"
  obtains k' where "exception_gate inp True h k =
      Some (Halt_ret (stack_ptr (cur_pcb k)) (base_ptr (cur_pcb k)) 256, k')"
    and "current_pid k' = parent_id (cur_pcb k)"
    and "process_queue k' = (process_queue k)(current_pid k := NOT_LOADED, parent_id (cur_pcb k) := SCHEDULED)"
proof -
  define k1 where "k1 = fold k_putc (asc m @ [10]) k"
  have F: "kinv k1" "pcbs k1 = pcbs k" "current_pid k1 = current_pid k" "process_queue k1 = process_queue k"
    using fold_putc_keeps [OF k] unfolding k1_def by blast+
  have e: "exception_gate inp True h k = halt32 inp EXCEPTION_STATUS k1"
    using exception_prints [OF m] by (simp add: exception_gate_def m print_exception_def k1_def)
  have par': "parent_id (cur_pcb k1) \<noteq> -1" using par by (simp add: F)
  show ?thesis
  proof (rule halt32_child [OF F(1) par', of inp EXCEPTION_STATUS])
    fix q k2
    assume h: "halt32 inp EXCEPTION_STATUS k1 = Some (Halt_ret (stack_ptr (pcbs k1 (current_pid k1)))
        (base_ptr (pcbs k1 (current_pid k1))) EXCEPTION_STATUS, k2)"
      and k2: "k2 = k1\<lparr>process_arr := (process_arr k1)(current_pid k1 := 0),
        kcon := sti (cli (kcon k1)), pcbs := (pcbs k1)(current_pid k1 := q),
        current_pid := parent_id (pcbs k1 (current_pid k1)),
        tss_esp0 := get_kernel_stack (parent_id (pcbs k1 (current_pid k1))),
        process_queue := (process_queue k1)(current_pid k1 := NOT_LOADED,
          parent_id (pcbs k1 (current_pid k1)) := SCHEDULED),
        kpg := page_map_user (word_of_int (parent_id (pcbs k1 (current_pid k1)))) (kpg k1)\<rparr>"
    have "current_pid k2 = parent_id (cur_pcb k)" "process_queue k2 =
        (process_queue k)(current_pid k := NOT_LOADED, parent_id (cur_pcb k) := SCHEDULED)"
      unfolding k2 by (simp_all add: F)
    then show thesis
      using h by (intro that) (simp_all add: e F EXCEPTION_STATUS_def)
  qed
qed

end
