(* ===== verification/FileProps.thy ===== *)
theory FileProps
  imports Demo
begin

text \<open>
  The properties of the file system and the program loader, each with an example on the
  image of \<^verbatim>\<open>Demo\<close>.
\<close>

text \<open>
  C30: Lookup by name: the first entry with that name is found and copied, with the name
  padded to 32 bytes; without one the result is -1 and the caller's entry is unchanged. Names
  of 32 characters, stored without a terminator, are found too, and longer ones never are.
\<close>

theorem lookup_finds_first_entry:
  assumes "0 \<in> set fname" and "length fname < 2 ^ 31" and "32 \<le> length (filename d)"
  shows "(\<exists>i<unat (bb_dentry_count g). entry_name g i = cstr fname \<and>
        (\<forall>j<i. entry_name g j \<noteq> cstr fname) \<and>
        read_dentry_by_name g fname d = Some (0, dentry_of g i d)) \<or>
    ((\<forall>i<unat (bb_dentry_count g). entry_name g i \<noteq> cstr fname) \<and>
        read_dentry_by_name g fname d = Some (-1, d))"
proof (cases "find (\<lambda>i. entry_name g i = cstr fname) [0..<unat (bb_dentry_count g)]")
  case None
  moreover from this have "\<forall>i<unat (bb_dentry_count g). entry_name g i \<noteq> cstr fname"
    by (auto simp: find_None_iff)
  ultimately show ?thesis using read_dentry_by_name_eq [OF assms, of g] by simp
next
  case (Some i)
  moreover from this have "i < unat (bb_dentry_count g) \<and> entry_name g i = cstr fname \<and>
      (\<forall>j<i. entry_name g j \<noteq> cstr fname)"
    by (auto simp: find_Some_iff)
  ultimately show ?thesis using read_dentry_by_name_eq [OF assms, of g] by auto
qed

theorem lookup_finds_first_entry_witness:
  "\<exists>i<2. entry_name demo_fs i = cstr shell_name \<and>
     read_dentry_by_name demo_fs shell_name demo_dentry = Some (0, dentry_of demo_fs i demo_dentry)"
  using lookup_finds_first_entry [of shell_name demo_dentry demo_fs] demo_lookup(1)
  by (auto simp: shell_name_def demo_dentry_def demo_counts)

text \<open>
  The directory by index and by name agree: the entry that \<^verbatim>\<open>read_dentry_by_index\<close> gives at
  an index below the count is the entry that a search for its name gives, when no earlier
  entry has that name.
\<close>

lemma index_and_name_agree:
  assumes "i < unat (bb_dentry_count g)" and "32 \<le> length (filename d)"
    and "\<forall>j<i. entry_name g j \<noteq> entry_name g i"
  shows "read_dentry_by_index g (of_nat i) d = read_dentry_by_name g (entry_name g i @ [0]) d"
proof -
  have c: "cstr (entry_name g i @ [0]) = entry_name g i"
    using cstr_id [of "entry_name g i" "[]"] by (simp add: entry_name_def)
  have "find (\<lambda>j. entry_name g j = entry_name g i) [0..<unat (bb_dentry_count g)] = Some i"
    using assms(1,3) by (auto simp: find_Some_iff intro!: exI [of _ i])
  then show ?thesis
    using read_dentry_by_name_eq [of "entry_name g i @ [0]" d g] assms(2) length_entry_name [of g i]
      read_dentry_by_index_eq [OF assms(1,2)] by (simp add: c)
qed

lemma index_and_name_agree_witness:
  "read_dentry_by_index demo_fs 1 demo_dentry = read_dentry_by_name demo_fs shell_name demo_dentry"
  using index_and_name_agree [of 1 demo_fs demo_dentry] demo_names
  by (simp add: demo_counts demo_dentry_def shell_name_def asc_def)

text \<open>
  Reading: in a valid inode a read of any length at any offset returns exactly the bytes
  of the file from there, and their number, across block boundaries and cut off at the end.
\<close>

lemma read_data_returns_file:
  assumes "valid_inode g ino" and "off + n < 2 ^ 32" and "n < 2 ^ 31"
  shows "read_data g ino (of_nat off) (of_nat n) =
    (int (min n (length (file_data g ino) - off)), take n (drop off (file_data g ino)))"
  using read_data_eq [OF assms] by (simp add: min.commute)

lemma read_data_returns_file_witness:
  "read_data demo_fs 0 24 100 = (4, [0x94, 0x80, 0x04, 0x08])"
  using read_data_returns_file [OF demo_valid_inode, of 24 100] demo_data(2) demo_length
  by (simp del: length_file_data)

text \<open>
  A program that reads a file in pieces of any positive size until it gets 0, as the user
  programs do, ends after at most one read per byte and one more, and has read the whole file.
\<close>

lemma repeated_reads_return_file:
  assumes "valid_inode g ino" and "0 < n" and "length (file_data g ino) + n < 2 ^ 31"
  shows "\<exists>chunks. read_all (\<lambda>off n. read_data g ino (of_nat off) (of_nat n)) n
      (length (file_data g ino) + 1) 0 = Some chunks \<and> concat chunks = file_data g ino"
  using fdata.read_all_data [of g ino n 0] assms by (simp del: length_file_data read_all.simps)

lemma repeated_reads_return_file_witness:
  "\<exists>chunks. read_all (\<lambda>off n. read_data demo_fs 0 (of_nat off) (of_nat n)) 5 29 0 = Some chunks \<and>
     concat chunks = file_data demo_fs 0"
  using repeated_reads_return_file [OF demo_valid_inode, of 5] demo_length
  by (simp del: length_file_data)

text \<open>
  The directory as a file: reading it in pieces of any positive size gives the names of
  all entries, 32 bytes each.
\<close>

lemma repeated_reads_return_directory:
  assumes "valid_dir g" and "0 < n" and "length (dir_data g) + n < 2 ^ 31"
  shows "\<exists>chunks. read_all (\<lambda>off n. read_dir_file g (of_nat off) (of_nat n)) n
      (length (dir_data g) + 1) 0 = Some chunks \<and> concat chunks = dir_data g"
  using ddata.read_all_data [of g n 0] assms by (simp del: length_dir_data read_all.simps)

lemma repeated_reads_return_directory_witness:
  "\<exists>chunks. read_all (\<lambda>off n. read_dir_file demo_fs (of_nat off) (of_nat n)) 32 65 0 = Some chunks \<and>
     concat chunks = dir_data demo_fs"
  using repeated_reads_return_directory [of demo_fs 32]
  by (simp add: valid_dir_def demo_counts)

text \<open>
  Loading: the stores of the loader are exactly the bytes of the file at consecutive
  addresses from the program's start, in order, whatever the file's length.
\<close>

lemma loader_stores_file:
  assumes "valid_inode g (inode_num e)" and "length (file_data g (inode_num e)) + 4096 < 2 ^ 31"
    and "read_dentry_by_name g cmd d = Some (r, e)"
  shows "\<exists>entry cs. program_load g cmd d junk = Some (entry, cs) \<and>
    chunk_writes cs = map (\<lambda>j. (PROGRAM_VIRTUAL_START + of_nat j, file_data g (inode_num e) ! j))
      [0..<length (file_data g (inode_num e))]"
  using program_load_loop_eq [OF assms(1,2), of 0 PROGRAM_VIRTUAL_START] assms(3)
  by (auto simp: program_load_def case_prod_beta)

lemma loader_stores_file_witness:
  "\<exists>entry cs. program_load demo_fs shell_name demo_dentry [0, 0, 0, 0] = Some (entry, cs) \<and>
     chunk_writes cs = map (\<lambda>j. (PROGRAM_VIRTUAL_START + of_nat j, file_data demo_fs 0 ! j)) [0..<28]"
  using loader_stores_file [of demo_fs "dentry_of demo_fs 1 demo_dentry" shell_name demo_dentry 0
      "[0, 0, 0, 0]"] demo_valid_inode demo_lookup demo_length
  by (simp del: length_file_data)

end
