(* ===== verification/UserMem.thy ===== *)
theory UserMem
  imports Isolation
begin

text \<open>
  The memory of the running program as its system calls see it: what was stored in the program
  page is loaded back, and storing changes nothing else of the kernel's state.
\<close>

lemma kinv_pmem [simp]: "kinv (k\<lparr>pmem := m\<rparr>) = kinv k"
  by (simp add: kinv_def kb_ok_def tree_of_def ctx_ok_def)

lemma load8_prog:
  assumes m: "mapped_for p (kpg k)" and p: "p \<in> pids" and va: "drop_bit 22 va = 32"
  shows "load8 va k = Some (pmem k (prog_addr p va))"
proof -
  have "unat (drop_bit 22 va) = 32" using va by simp
  then have t: "translate False (kpg k) va = Some (prog_addr p va)"
    using m by (simp add: translate_def mapped_for_def pg_inv_def Let_def prog_addr_def)
  have "unat (word_of_int (p + 2) :: u32) < 1024" using p by (auto simp: pids_eq)
  from drop_bit_22_or [OF this, of va] have d: "drop_bit 22 (prog_addr p va) = word_of_int (p + 2)"
    by (simp add: prog_addr_def)
  have "unat (prog_addr p va) div 2 ^ 22 = nat (p + 2)"
    using arg_cong [OF d, of unat] p
    by (auto simp: unsigned_drop_bit_eq drop_bit_eq_div unat_div pids_eq)
  moreover have "2 \<le> nat (p + 2)" using p by (auto simp: in_pids)
  ultimately have "2 * 2 ^ 22 \<le> unat (prog_addr p va)"
    by (metis div_le_mono2 div_mult_self_is_m le_trans mult.commute nat_mult_le_cancel_disj
        times_div_less_eq_dividend)
  then have "0x800000 \<le> prog_addr p va" "\<not> prog_addr p va < 0xBC000"
    by (simp_all add: word_le_nat_alt word_less_nat_alt)
  then show ?thesis using t by (simp add: load8_def phys_load_def)
qed

lemma in_prog_page_Suc:
  assumes "in_prog_page va (Suc n)"
  shows "in_prog_page (va + 1) n" and "drop_bit 22 va = 32"
proof -
  have "unat (va + 1) = unat va + 1"
    using assms unat_add_of_nat [of va 1] by (simp add: in_prog_page_def)
  then show "in_prog_page (va + 1) n" using assms by (simp add: in_prog_page_def)
  show "drop_bit 22 va = 32" using in_prog_page_addr [OF assms, of 0] by simp
qed

lemma prog_bytes_Suc: "prog_bytes k va (Suc n) = pmem k (prog_addr (current_pid k) va) # prog_bytes k (va + 1) n"
  by (simp add: prog_bytes_def upt_conv_Cons map_Suc_upt [symmetric] comp_def add_ac del: upt_Suc)

lemma length_prog_bytes [simp]: "length (prog_bytes k va n) = n"
  by (simp add: prog_bytes_def)

lemma take_prog_bytes: "m \<le> n \<Longrightarrow> take m (prog_bytes k va n) = prog_bytes k va m"
  by (simp add: prog_bytes_def take_map take_upt del: upt_Suc)

lemma get_user_prog:
  assumes k: "kinv k"
  shows "in_prog_page va n \<Longrightarrow> get_user va n k = Some (prog_bytes k va n)"
proof (induction n arbitrary: va)
  case 0
  then show ?case by (simp add: prog_bytes_def)
next
  case (Suc n)
  note p = in_prog_page_Suc [OF Suc.prems]
  show ?case
    using load8_prog [OF mapped_for_cur [OF k] kinvD(8) [OF k] p(2)] Suc.IH [OF p(1)]
    by (simp add: prog_bytes_Suc)
qed

lemma prog_writes_other:
  assumes "\<And>i. i < n \<Longrightarrow> prog_addr p (va + of_nat i) \<noteq> a"
  shows "prog_writes p (map (\<lambda>i. (va + of_nat i, f i)) [0..<n]) m a = m a"
  using assms by (induction n) (auto simp: prog_writes_def)

lemma putE:
  assumes k: "kinv k" and b: "in_prog_page va (length bs)"
  obtains m where "put_user va bs k = Some (k\<lparr>pmem := m\<rparr>)"
    and "\<And>n. length bs \<le> n \<Longrightarrow> in_prog_page va n \<Longrightarrow>
      prog_bytes (k\<lparr>pmem := m\<rparr>) va n = bs @ drop (length bs) (prog_bytes k va n)"
proof -
  let ?c = "current_pid k"
  let ?m = "prog_writes ?c (map (\<lambda>i. (va + of_nat i, bs ! i)) [0..<length bs]) (pmem k)"
  have e: "put_user va bs k = Some (k\<lparr>pmem := ?m\<rparr>)"
    by (rule put_user_prog [OF kinvD(8) [OF k] mapped_for_cur [OF k]]) (rule in_prog_page_addr [OF b])
  show ?thesis
  proof (rule that [OF e])
    fix n assume n: "length bs \<le> n" "in_prog_page va n"
    show "prog_bytes (k\<lparr>pmem := ?m\<rparr>) va n = bs @ drop (length bs) (prog_bytes k va n)"
    proof (rule nth_equalityI)
      fix j assume "j < length (prog_bytes (k\<lparr>pmem := ?m\<rparr>) va n)"
      then have j: "j < n" by simp
      show "prog_bytes (k\<lparr>pmem := ?m\<rparr>) va n ! j = (bs @ drop (length bs) (prog_bytes k va n)) ! j"
      proof (cases "j < length bs")
        case True
        then show ?thesis
          using prog_writes_list [OF b True] j by (simp add: prog_bytes_def nth_append)
      next
        case False
        have "?m (prog_addr ?c (va + of_nat j)) = pmem k (prog_addr ?c (va + of_nat j))"
        proof (rule prog_writes_other)
          fix i assume i: "i < length bs"
          show "prog_addr ?c (va + of_nat i) \<noteq> prog_addr ?c (va + of_nat j)"
          proof
            assume "prog_addr ?c (va + of_nat i) = prog_addr ?c (va + of_nat j)"
            then have "va + of_nat i = va + of_nat j"
              using prog_addr_inj_page in_prog_page_addr [OF n(2)] i n(1) j by (metis less_le_trans)
            moreover have "i < 2 ^ 32" "j < 2 ^ 32" using i j n by (auto simp: in_prog_page_def)
            ultimately show False using of_nat_eq_iff32 i False by simp
          qed
        qed
        then show ?thesis using False j n(1) by (simp add: prog_bytes_def nth_append)
      qed
    qed (use n in simp)
  qed
qed

text \<open>A whole object is stored, and later the bytes at its start are stored again.\<close>

lemma put_objE:
  assumes "kinv k" and "in_prog_page va (length bs)"
  obtains m where "put_user va bs k = Some (k\<lparr>pmem := m\<rparr>)"
    and "prog_bytes (k\<lparr>pmem := m\<rparr>) va (length bs) = bs"
  by (rule putE [OF assms]) (use assms(2) in auto)

lemma put_get:
  assumes k: "kinv k" and b: "in_prog_page va n" "length bs \<le> n"
  obtains m where "put_user va bs k = Some (k\<lparr>pmem := m\<rparr>)"
    and "get_user va n (k\<lparr>pmem := m\<rparr>) = Some (bs @ drop (length bs) (prog_bytes k va n))"
proof (rule putE [OF k in_prog_page_mono [OF b]])
  fix m assume m: "put_user va bs k = Some (k\<lparr>pmem := m\<rparr>)"
    "\<And>n. length bs \<le> n \<Longrightarrow> in_prog_page va n \<Longrightarrow>
      prog_bytes (k\<lparr>pmem := m\<rparr>) va n = bs @ drop (length bs) (prog_bytes k va n)"
  show thesis
    by (rule that [OF m(1)]) (use get_user_prog [of "k\<lparr>pmem := m\<rparr>"] k b m(2) in simp)
qed

text \<open>A string in the program's memory.\<close>

lemma user_string_prog:
  assumes k: "kinv k"
  shows "prog_bytes k va (length (s @ [0])) = s @ [0] \<Longrightarrow> 0 \<notin> set s \<Longrightarrow> in_prog_page va (length (s @ [0])) \<Longrightarrow>
    user_string k va = Some (s @ [0])"
proof (induction s arbitrary: va)
  case Nil
  have p: "in_prog_page va (Suc 0)" using Nil.prems(3) by simp
  show ?case
    using load8_prog [OF mapped_for_cur [OF k] kinvD(8) [OF k] in_prog_page_Suc(2) [OF p]] Nil.prems(1)
    by (subst user_string.simps) (simp add: prog_bytes_Suc prog_bytes_def)
next
  case (Cons c s)
  have p: "in_prog_page va (Suc (length (s @ [0])))" using Cons.prems(3) by simp
  have b: "pmem k (prog_addr (current_pid k) va) = c" "prog_bytes k (va + 1) (length (s @ [0])) = s @ [0]"
    using Cons.prems(1) by (simp_all add: prog_bytes_Suc)
  have "user_string k (va + 1) = Some (s @ [0])"
    using Cons.prems(2) by (intro Cons.IH [OF b(2)] in_prog_page_Suc(1) [OF p]) simp
  then show ?case
    using load8_prog [OF mapped_for_cur [OF k] kinvD(8) [OF k] in_prog_page_Suc(2) [OF p]] b(1) Cons.prems(2)
    by (subst user_string.simps) simp
qed

lemma str_arg_prog:
  assumes "kinv k" and "prog_bytes k va (length (s @ 0 # rest)) = s @ 0 # rest" and "0 \<notin> set s"
    and "in_prog_page va (length (s @ 0 # rest))"
  shows "str_arg k va = Some (Some (s @ [0]))"
proof -
  have "prog_bytes k va (length (s @ [0])) = take (length (s @ [0])) (prog_bytes k va (length (s @ 0 # rest)))"
    by (rule take_prog_bytes [symmetric]) simp
  then have "prog_bytes k va (length (s @ [0])) = s @ [0]" using assms(2) by simp
  moreover have "in_prog_page va (length (s @ [0]))" using assms(4) by (rule in_prog_page_mono) simp
  ultimately show ?thesis
    using user_string_prog [OF assms(1) _ assms(3)] prog_page_nonnull [OF assms(4)] by (simp add: str_arg_def)
qed

end
