(* ===== verification/UserLib.thy ===== *)
theory UserLib
  imports LibC Idt
begin

text \<open>
  The library of the user programs (\<^verbatim>\<open>src/syscalls/ece391support.c\<close>) and the interface through
  which they reach the kernel. A program is a function of the system calls it makes, the
  record \<open>os\<close>, and of the state behind them, of any type; its result is \<^term>\<open>None\<close> when it leaves an
  object's bounds or never comes back. An object whose address a call gets is the list of its
  bytes, and a call that stores into it returns the new list.
\<close>

section \<open>The system calls a program sees\<close>

record 's os =
  os_execute :: "u8 list \<Rightarrow> 's \<Rightarrow> (int \<times> 's) option"
  os_read :: "int \<Rightarrow> u8 list \<Rightarrow> int \<Rightarrow> 's \<Rightarrow> (int \<times> u8 list \<times> 's) option"
  os_write :: "int \<Rightarrow> u8 list \<Rightarrow> int \<Rightarrow> 's \<Rightarrow> (int \<times> 's) option"
  os_open :: "u8 list \<Rightarrow> 's \<Rightarrow> (int \<times> 's) option"
  os_close :: "int \<Rightarrow> 's \<Rightarrow> (int \<times> 's) option"
  os_getargs :: "u8 list \<Rightarrow> int \<Rightarrow> 's \<Rightarrow> (int \<times> u8 list \<times> 's) option"
  os_vidmap :: "u32 \<Rightarrow> 's \<Rightarrow> (int \<times> 's) option"
  os_set_handler :: "int \<Rightarrow> u32 \<Rightarrow> 's \<Rightarrow> (int \<times> 's) option"
  os_sys :: "int \<Rightarrow> 's \<Rightarrow> (int \<times> 's) option"
  os_load :: "u32 \<Rightarrow> 's \<Rightarrow> u8 option"
  os_store :: "u32 \<Rightarrow> u8 \<Rightarrow> 's \<Rightarrow> 's option"

text \<open>
  The last two are the accesses of the program itself to an address; \<^term>\<open>None\<close> is a page
  fault. A program ends with a result or with an exception.
\<close>

type_synonym ending = "handler + int"

definition exits :: "('s \<Rightarrow> (int \<times> 's) option) \<Rightarrow> 's \<Rightarrow> (ending \<times> 's) option" where
  "exits main st = map_option (\<lambda>(r, st). (Inr r, st)) (main st)"

section \<open>Objects\<close>

text \<open>Access by an \<^verbatim>\<open>int32_t\<close> index; \<^term>\<open>None\<close> outside the object.\<close>

definition idx :: "'a list \<Rightarrow> int \<Rightarrow> 'a option" where
  "idx xs i = (if 0 \<le> i \<and> i < int (length xs) then Some (xs ! nat i) else None)"

definition put :: "'a list \<Rightarrow> int \<Rightarrow> 'a \<Rightarrow> 'a list option" where
  "put xs i v = (if 0 \<le> i \<and> i < int (length xs) then Some (xs[nat i := v]) else None)"

text \<open>A pointer into an object is its index; what the pointer points to are the bytes from there.\<close>

definition at_index :: "'a list \<Rightarrow> int \<Rightarrow> 'a list option" where
  "at_index xs i = (if 0 \<le> i \<and> i \<le> int (length xs) then Some (drop (nat i) xs) else None)"

lemma idx_nat [simp]: "idx xs (int i) = (if i < length xs then Some (xs ! i) else None)"
  and put_nat [simp]: "put xs (int i) v = (if i < length xs then Some (xs[i := v]) else None)"
  and at_index_nat [simp]: "at_index xs (int i) = (if i \<le> length xs then Some (drop i xs) else None)"
  by (simp_all add: idx_def put_def at_index_def)

lemma idx_0 [simp]: "idx xs 0 = (case xs of [] \<Rightarrow> None | x # _ \<Rightarrow> Some x)"
  by (cases xs) (simp_all add: idx_def)

text \<open>String literals, without and with a newline.\<close>

definition lit :: "string \<Rightarrow> u8 list" where "lit t = asc t @ [0]"
definition litn :: "string \<Rightarrow> u8 list" where "litn t = asc t @ [10, 0]"

section \<open>Strings\<close>

fun ece391_strlen_from :: "u8 list \<Rightarrow> u32 \<Rightarrow> u32 option" where
  "ece391_strlen_from [] len = None"
| "ece391_strlen_from (c # s) len = (if 0 \<noteq> c then ece391_strlen_from s (len + 1) else Some len)"

definition ece391_strlen :: "u8 list \<Rightarrow> u32 option" where
  "ece391_strlen s = ece391_strlen_from s 0"

text \<open>Source and destination are indices into one object, since the caller's overlap.\<close>

function ece391_strcpy :: "u8 list \<Rightarrow> int \<Rightarrow> int \<Rightarrow> u8 list option" where
  "ece391_strcpy obj dst src =
     (if 0 \<le> src \<and> src < int (length obj) then
        do { c \<leftarrow> idx obj src;
             obj \<leftarrow> put obj dst c;
             if c \<noteq> 0 then ece391_strcpy obj (dst + 1) (src + 1) else Some obj }
      else None)"
  by pat_completeness auto
termination
  by (relation "measure (\<lambda>(obj, dst, src). nat (int (length obj) - src))")
    (auto simp: put_def split: if_splits)

declare ece391_strcpy.simps [simp del]

definition ece391_fdputs :: "'s os \<Rightarrow> int \<Rightarrow> u8 list \<Rightarrow> 's \<Rightarrow> 's option" where
  "ece391_fdputs os fd s st =
     do { n \<leftarrow> ece391_strlen s;
          (_, st) \<leftarrow> os_write os fd s (sint n) st;
          Some st }"

fun ece391_strcmp :: "u8 list \<Rightarrow> u8 list \<Rightarrow> int option" where
  "ece391_strcmp (a # s1) (b # s2) =
     (if a = b then if a = 0 then Some 0 else ece391_strcmp s1 s2
      else Some (uint a - uint b))"
| "ece391_strcmp _ _ = None"

fun ece391_strncmp_loop :: "u8 list \<Rightarrow> u8 list \<Rightarrow> u32 \<Rightarrow> int option" where
  "ece391_strncmp_loop (a # s1) (b # s2) n =
     (if a = b then
        if a = 0 \<or> n - 1 = 0 then Some 0 else ece391_strncmp_loop s1 s2 (n - 1)
      else Some (uint a - uint b))"
| "ece391_strncmp_loop _ _ n = None"

definition ece391_strncmp :: "u8 list \<Rightarrow> u8 list \<Rightarrow> u32 \<Rightarrow> int option" where
  "ece391_strncmp s1 s2 n = (if 0 = n then Some 0 else ece391_strncmp_loop s1 s2 n)"

function ece391_strrev_loop :: "u8 list \<Rightarrow> int \<Rightarrow> int \<Rightarrow> u8 list option" where
  "ece391_strrev_loop s beg end =
     (if beg < end then
        do { tmp \<leftarrow> idx s end;
             c \<leftarrow> idx s beg;
             s \<leftarrow> put s end c;
             s \<leftarrow> put s beg tmp;
             ece391_strrev_loop s (beg + 1) (end - 1) }
      else Some s)"
  by pat_completeness auto
termination
  by (relation "measure (\<lambda>(s, beg, end). nat (end - beg))") auto

declare ece391_strrev_loop.simps [simp del]

definition ece391_strrev :: "u8 list \<Rightarrow> u8 list option" where
  "ece391_strrev s =
     do { n \<leftarrow> ece391_strlen s;
          let end = sint (n - 1);
          if end \<le> 0 then Some s else ece391_strrev_loop s 0 end }"

text \<open>
  The digits from \<^verbatim>\<open>newbuf\<close> on: the remainder is unsigned and read back as an \<^verbatim>\<open>int32_t\<close> index
  into the 37 bytes of the table.
\<close>

fun ece391_itoa_loop :: "u8 list \<Rightarrow> u32 \<Rightarrow> u32 \<Rightarrow> u8 list option" where
  "ece391_itoa_loop [] newval radix = None"
| "ece391_itoa_loop (b # newbuf) newval radix =
     (if newval > 0 then
        if radix = 0 then None
        else do { c \<leftarrow> idx itoa_lookup (sint (newval mod radix));
                  bs \<leftarrow> ece391_itoa_loop newbuf (newval div radix) radix;
                  Some (c # bs) }
      else Some (0 # newbuf))"

definition ece391_itoa :: "u32 \<Rightarrow> u8 list \<Rightarrow> u32 \<Rightarrow> u8 list option" where
  "ece391_itoa num buf radix =
     (if num = 0 then do { buf \<leftarrow> put buf 0 48; put buf 1 0 }
      else do { buf \<leftarrow> ece391_itoa_loop buf num radix; ece391_strrev buf })"

section \<open>The same functions as the kernel's\<close>

lemma ece391_strlen_from_kernel: "ece391_strlen_from s n = strlen_from s n"
  by (induction s arbitrary: n) auto

lemma ece391_strlen_kernel: "ece391_strlen s = strlen s"
  by (simp add: ece391_strlen_def strlen_def ece391_strlen_from_kernel)

lemmas ece391_strlen_eq = strlen_eq [folded ece391_strlen_kernel]

lemma ece391_strrev_loop_kernel:
  "0 \<le> beg \<Longrightarrow> end < int (length s) \<Longrightarrow> ece391_strrev_loop s beg end = Some (strrev_loop s beg end)"
proof (induction s beg "end" rule: strrev_loop.induct)
  case (1 s beg "end")
  show ?case
  proof (cases "beg < end")
    case True
    then show ?thesis
      using 1
      by (subst ece391_strrev_loop.simps, subst strrev_loop.simps) (simp add: idx_def put_def Let_def)
  next
    case False
    then show ?thesis by (subst ece391_strrev_loop.simps, subst strrev_loop.simps) simp
  qed
qed

lemma ece391_strrev_kernel:
  assumes "0 \<in> set s" and "length s < 2 ^ 31"
  shows "ece391_strrev s = strrev s"
proof -
  have n: "length (cstr s) < length s" using assms(1) by (rule length_cstr_less)
  have e: "sint (of_nat (length (cstr s)) - 1 :: u32) = int (length (cstr s)) - 1"
  proof -
    have "sint (word_of_int (int (length (cstr s)) - 1) :: u32) = int (length (cstr s)) - 1"
      using n assms(2) by (intro sint_word_of_int) auto
    then show ?thesis by simp
  qed
  show ?thesis
  proof (cases "int (length (cstr s)) - 1 \<le> 0")
    case True
    then have "strrev_loop s 0 (int (length (cstr s)) - 1) = s" by (subst strrev_loop.simps) simp
    then show ?thesis using True assms(1) by (simp add: ece391_strrev_def strrev_def ece391_strlen_kernel strlen_eq e)
  next
    case False
    then show ?thesis
      using assms(1) n ece391_strrev_loop_kernel [of 0 "int (length (cstr s)) - 1" s]
      by (simp add: ece391_strrev_def strrev_def ece391_strlen_kernel strlen_eq e)
  qed
qed

lemma ece391_itoa_loop_kernel: "ece391_itoa_loop buf v r = itoa_loop buf v r"
proof (induction buf v r rule: ece391_itoa_loop.induct)
  case (2 b newbuf v r)
  have "ece391_itoa_loop newbuf (v div r) r = itoa_loop newbuf (v div r) r"
    if "0 < v" "r \<noteq> 0" "idx itoa_lookup (sint (v mod r)) = Some c" for c
    using "2.IH" [OF that] .
  then show ?case
    by (auto simp: idx_def Let_def bind_map_option map_option_case split: option.splits)
qed simp

lemma ece391_itoa_eq:
  assumes r: "2 \<le> unat r" "unat r \<le> 36" and k: "unat v < unat r ^ k" "0 < k" "k < length buf"
    and buf: "length buf < 2 ^ 31"
  shows "\<exists>rest. ece391_itoa v buf r = Some (numeral_text (unat r) (unat v) @ 0 # rest) \<and>
    length rest + length (numeral_text (unat r) (unat v)) + 1 = length buf"
proof (cases "v = 0")
  case True
  from k obtain a b rest where "buf = a # b # rest" by (cases buf; cases "tl buf") auto
  with True show ?thesis by (simp add: ece391_itoa_def numeral_text_def put_def)
next
  case False
  let ?l = "ls_digits (unat r) (unat v)"
  have len: "length ?l < length buf" using length_ls_digits [of "unat r" "unat v" k] r k by simp
  let ?b = "?l @ 0 # drop (Suc (length ?l)) buf"
  have "cstr ?b = ?l" by (rule cstr_id) (use ls_digits_props [OF r] in blast)
  moreover have b: "0 \<in> set ?b" "length ?b = length buf" using len by auto
  ultimately have "ece391_strrev ?b = Some (rev ?l @ drop (length ?l) ?b)"
    using buf by (simp only: ece391_strrev_kernel strrev_eq)
  with False len show ?thesis
    by (simp add: ece391_itoa_def ece391_itoa_loop_kernel itoa_loop_eq [OF r len] numeral_text_def
        unat_eq_zero)
qed

section \<open>Comparison\<close>

lemma ece391_strcmp_eq:
  "0 \<in> set s1 \<Longrightarrow> 0 \<in> set s2 \<Longrightarrow>
   \<exists>d. ece391_strcmp s1 s2 = Some d \<and> (d = 0 \<longleftrightarrow> cstr s1 = cstr s2)"
  by (induction s1 s2 rule: ece391_strcmp.induct) (auto simp: word_uint_eq_iff)

lemma ece391_strncmp_loop_eq:
  "0 \<in> set s1 \<Longrightarrow> 0 \<in> set s2 \<Longrightarrow> n \<noteq> 0 \<Longrightarrow>
   \<exists>d. ece391_strncmp_loop s1 s2 n = Some d \<and>
     (d = 0 \<longleftrightarrow> take (unat n) (cstr s1) = take (unat n) (cstr s2))"
proof (induction s1 s2 n rule: ece391_strncmp_loop.induct)
  case (1 a s1 b s2 n)
  have n: "unat n = Suc (unat (n - 1))"
    using "1.prems"(3) by (metis Suc_pred' unat_gt_0 unat_minus_one word_neq_0_conv One_nat_def)
  show ?case
  proof (cases "a = b \<and> a \<noteq> 0 \<and> n - 1 \<noteq> 0")
    case True
    then show ?thesis using 1 n by auto
  next
    case False
    have "unat (n - 1) = 0" if "n - 1 = 0" using that by simp
    then show ?thesis
      using False n by (cases "a = b"; cases "n - 1 = 0") (auto simp flip: word_uint_eq_iff)
  qed
qed auto

lemma ece391_strncmp_eq:
  assumes "0 \<in> set s1" and "0 \<in> set s2"
  shows "\<exists>d. ece391_strncmp s1 s2 n = Some d \<and>
    (d = 0 \<longleftrightarrow> take (unat n) (cstr s1) = take (unat n) (cstr s2))"
  using ece391_strncmp_loop_eq [OF assms, of n] by (auto simp: ece391_strncmp_def)

section \<open>Copying within one object\<close>

lemma ece391_strcpy_nat:
  "ece391_strcpy obj (int d) (int s) =
     (if s < length obj \<and> d < length obj then
        if obj ! s \<noteq> 0 then ece391_strcpy (obj[d := obj ! s]) (int (Suc d)) (int (Suc s))
        else Some (obj[d := 0])
      else None)"
  by (subst ece391_strcpy.simps) (auto simp: add.commute)

lemma ece391_strcpy_down:
  "obj = front @ mid @ s @ 0 # rest \<Longrightarrow> 0 \<notin> set s \<Longrightarrow>
   \<exists>x. ece391_strcpy obj (int (length front)) (int (length front + length mid)) =
     Some (front @ s @ 0 # x @ rest) \<and> length x = length mid \<and> (x \<noteq> [] \<longrightarrow> last x = 0)"
proof (induction s arbitrary: obj front mid)
  case Nil
  have n: "obj ! (length front + length mid) = 0" using Nil.prems by (simp add: nth_append)
  have "\<exists>x. obj[length front := 0] = front @ 0 # x @ rest \<and> length x = length mid \<and> (x \<noteq> [] \<longrightarrow> last x = 0)"
  proof (cases mid)
    case (Cons m ms)
    then show ?thesis using Nil.prems by (intro exI [of _ "ms @ [0]"]) (simp add: list_update_append)
  qed (use Nil.prems in \<open>simp add: list_update_append\<close>)
  then show ?case using Nil.prems n by (subst ece391_strcpy_nat) auto
next
  case (Cons c s)
  obtain mid' where o: "obj[length front := c] = (front @ [c]) @ mid' @ s @ 0 # rest"
    "length mid' = length mid"
  proof (cases mid)
    case Nil
    then show ?thesis using that [of "[]"] Cons.prems by (simp add: list_update_append)
  next
    case (Cons m ms)
    then show ?thesis using that [of "ms @ [c]"] \<open>obj = _\<close> by (simp add: list_update_append)
  qed
  have n: "obj ! (length front + length mid) = c" using Cons.prems by (simp add: nth_append)
  have "\<exists>x. ece391_strcpy (obj[length front := c]) (int (length (front @ [c])))
      (int (length (front @ [c]) + length mid')) = Some ((front @ [c]) @ s @ 0 # x @ rest) \<and>
      length x = length mid' \<and> (x \<noteq> [] \<longrightarrow> last x = 0)"
    using Cons.IH [OF o(1)] Cons.prems by simp
  then show ?case using Cons.prems n o(2) by (subst ece391_strcpy_nat) simp
qed

end
