(* ===== verification/UserProgs.thy ===== *)
theory UserProgs
  imports UserLib "HOL-Library.Signed_Division"
begin

text \<open>
  The user programs (\<^verbatim>\<open>src/syscalls/ece391*.c\<close>). An uninitialised local array is an argument. What
  \<^verbatim>\<open>main\<close> returns is the program's status; a loop of which nobody knows that it ends is a
  \<open>partial_function\<close>, and its non-termination is \<^term>\<open>None\<close>.
\<close>

section \<open>cat, ls, hello, testprint\<close>

partial_function (option) cat_loop :: "'s os \<Rightarrow> int \<Rightarrow> u8 list \<Rightarrow> 's \<Rightarrow> (int \<times> 's) option" where
  [code]: "cat_loop os fd buf st =
     do { (cnt, buf, st) \<leftarrow> os_read os fd buf 1024 st;
          if cnt = 0 then Some (0, st)
          else if cnt = -1 then
            do { st \<leftarrow> ece391_fdputs os 1 (litn ''file read failed'') st; Some (3, st) }
          else
            do { (r, st) \<leftarrow> os_write os 1 buf cnt st;
                 if r = -1 then Some (3, st) else cat_loop os fd buf st } }"

definition cat_main :: "'s os \<Rightarrow> u8 list \<Rightarrow> 's \<Rightarrow> (int \<times> 's) option" where
  "cat_main os buf st =
     do { (r, buf, st) \<leftarrow> os_getargs os buf 1024 st;
          if r \<noteq> 0 then
            do { st \<leftarrow> ece391_fdputs os 1 (litn ''could not read arguments'') st; Some (3, st) }
          else
            do { (fd, st) \<leftarrow> os_open os buf st;
                 if fd = -1 then
                   do { st \<leftarrow> ece391_fdputs os 1 (litn ''file not found'') st; Some (2, st) }
                 else cat_loop os fd buf st } }"

partial_function (option) ls_loop :: "'s os \<Rightarrow> int \<Rightarrow> u8 list \<Rightarrow> 's \<Rightarrow> (int \<times> 's) option" where
  [code]: "ls_loop os fd buf st =
     do { (cnt, buf, st) \<leftarrow> os_read os fd buf 32 st;
          if cnt = 0 then Some (0, st)
          else if cnt = -1 then
            do { st \<leftarrow> ece391_fdputs os 1 (litn ''directory entry read failed'') st; Some (3, st) }
          else
            do { buf \<leftarrow> put buf cnt 10;
                 (r, st) \<leftarrow> os_write os 1 buf (cnt + 1) st;
                 if r = -1 then Some (3, st) else ls_loop os fd buf st } }"

definition ls_main :: "'s os \<Rightarrow> u8 list \<Rightarrow> 's \<Rightarrow> (int \<times> 's) option" where
  "ls_main os buf st =
     do { (fd, st) \<leftarrow> os_open os (lit ''.'') st;
          if fd = -1 then
            do { st \<leftarrow> ece391_fdputs os 1 (litn ''directory open failed'') st; Some (2, st) }
          else ls_loop os fd buf st }"

definition ask_name :: string where "ask_name = ''Hi, what'' @ CHR 0x27 # ''s your name? ''"

definition hello_main :: "'s os \<Rightarrow> u8 list \<Rightarrow> 's \<Rightarrow> (int \<times> 's) option" where
  "hello_main os buf st =
     do { st \<leftarrow> ece391_fdputs os 1 (lit ask_name) st;
          (cnt, buf, st) \<leftarrow> os_read os 0 buf 1023 st;
          if cnt = -1 then
            do { st \<leftarrow> ece391_fdputs os 1 (litn (''Can'' @ CHR 0x27 # ''t read name from keyboard.'')) st;
                 Some (3, st) }
          else
            do { buf \<leftarrow> put buf cnt 0;
                 st \<leftarrow> ece391_fdputs os 1 (lit ''Hello, '') st;
                 st \<leftarrow> ece391_fdputs os 1 buf st;
                 Some (0, st) } }"

definition testprint_main :: "'s os \<Rightarrow> 's \<Rightarrow> (int \<times> 's) option" where
  "testprint_main os st =
     do { st \<leftarrow> ece391_fdputs os 1 (litn ''Hello, if this ran, the program was correct. Yay!'') st;
          Some (0, st) }"

section \<open>grep\<close>

text \<open>
  \<^verbatim>\<open>while (line_end < last && '\n' != data[line_end]) line_end++;\<close>, where \<open>hi\<close> is \<^verbatim>\<open>last\<close>.
\<close>

function find_line_end :: "u8 list \<Rightarrow> int \<Rightarrow> int \<Rightarrow> int option" where
  "find_line_end data hi line_end =
     (if line_end < hi then
        do { c \<leftarrow> idx data line_end;
             if c \<noteq> 10 then find_line_end data hi (line_end + 1) else Some line_end }
      else Some line_end)"
  by pat_completeness auto
termination
  by (relation "measure (\<lambda>(data, hi, line_end). nat (hi - line_end))") auto

declare find_line_end.simps [simp del]

text \<open>
  The search of one line, from the position \<^verbatim>\<open>check\<close>; the line is printed once. \<^verbatim>\<open>s[0]\<close> is a
  signed \<^verbatim>\<open>char\<close> and \<^verbatim>\<open>data[check]\<close> an unsigned one.
\<close>

function search_line ::
  "'s os \<Rightarrow> u8 list \<Rightarrow> u8 list \<Rightarrow> u32 \<Rightarrow> u8 list \<Rightarrow> int \<Rightarrow> int \<Rightarrow> int \<Rightarrow> 's \<Rightarrow> 's option" where
  "search_line os s fname s_len data line_start line_end check st =
     (if check < line_end then
        do { c0 \<leftarrow> idx s 0;
             c \<leftarrow> idx data check;
             p \<leftarrow> at_index data check;
             d \<leftarrow> (if sint c0 = uint c then ece391_strncmp p s s_len else Some 1);
             if d = 0 then
               do { st \<leftarrow> ece391_fdputs os 1 fname st;
                    st \<leftarrow> ece391_fdputs os 1 (lit '':'') st;
                    text \<leftarrow> at_index data line_start;
                    st \<leftarrow> ece391_fdputs os 1 text st;
                    ece391_fdputs os 1 (litn '''') st }
             else search_line os s fname s_len data line_start line_end (check + 1) st }
      else Some st)"
  by pat_completeness auto
termination
  by (relation "measure (\<lambda>(os, s, fname, s_len, data, line_start, line_end, check, st). nat (line_end - check))")
    auto

declare search_line.simps [simp del]

text \<open>
  The loop over the lines of the buffer. The result is the new \<^verbatim>\<open>last\<close> and the buffer: what is
  left at its end is copied to its start when more is to be read.
\<close>

partial_function (option) search_lines ::
  "'s os \<Rightarrow> u8 list \<Rightarrow> u8 list \<Rightarrow> u32 \<Rightarrow> int \<Rightarrow> int \<Rightarrow> int \<Rightarrow> u8 list \<Rightarrow> 's \<Rightarrow> (int \<times> u8 list \<times> 's) option"
  where
  [code]: "search_lines os s fname s_len cnt hi line_start data st =
     do { line_end \<leftarrow> find_line_end data hi line_start;
          c \<leftarrow> idx data line_end;
          if 10 \<noteq> c \<and> 0 \<noteq> cnt \<and> line_start \<noteq> 0 then
            do { data \<leftarrow> put data line_end 0;
                 data \<leftarrow> ece391_strcpy data 0 line_start;
                 Some (hi - line_start, data, st) }
          else
            do { data \<leftarrow> put data line_end 0;
                 st \<leftarrow> search_line os s fname s_len data line_start line_end line_start st;
                 if line_end + 1 \<ge> hi then Some (0, data, st)
                 else search_lines os s fname s_len cnt hi (line_end + 1) data st } }"

partial_function (option) grep_loop ::
  "'s os \<Rightarrow> u8 list \<Rightarrow> u8 list \<Rightarrow> u32 \<Rightarrow> int \<Rightarrow> int \<Rightarrow> u8 list \<Rightarrow> 's \<Rightarrow> (int \<times> 's) option" where
  [code]: "grep_loop os s fname s_len fd hi data st =
     do { buf \<leftarrow> at_index data hi;
          (cnt, buf, st) \<leftarrow> os_read os fd buf (1024 - hi) st;
          let data = take (nat hi) data @ buf;
          if cnt = -1 then
            do { st \<leftarrow> ece391_fdputs os 1 (litn ''file read failed'') st; Some (-1, st) }
          else
            do { (hi, data, st) \<leftarrow> search_lines os s fname s_len cnt (hi + cnt) 0 data st;
                 if 0 = cnt then Some (0, st)
                 else grep_loop os s fname s_len fd hi data st } }"

definition do_one_file ::
  "'s os \<Rightarrow> u8 list \<Rightarrow> u8 list \<Rightarrow> u8 list \<Rightarrow> 's \<Rightarrow> (int \<times> 's) option" where
  "do_one_file os s fname data st =
     do { s_len \<leftarrow> ece391_strlen s;
          (fd, st) \<leftarrow> os_open os fname st;
          if fd = -1 then
            do { st \<leftarrow> ece391_fdputs os 1 (litn ''file open failed'') st; Some (-1, st) }
          else
            do { (r, st) \<leftarrow> grep_loop os s fname s_len fd 0 data st;
                 if r = -1 then Some (-1, st)
                 else
                   do { (r, st) \<leftarrow> os_close os fd st;
                        if r = -1 then
                          do { st \<leftarrow> ece391_fdputs os 1 (litn ''file close failed'') st; Some (-1, st) }
                        else Some (0, st) } } }"

text \<open>\<open>data\<close> is the uninitialised buffer of each call of \<^verbatim>\<open>do_one_file\<close>.\<close>

partial_function (option) grep_files ::
  "'s os \<Rightarrow> u8 list \<Rightarrow> u8 list \<Rightarrow> int \<Rightarrow> u8 list \<Rightarrow> 's \<Rightarrow> (int \<times> 's) option" where
  [code]: "grep_files os search data fd buf st =
     do { (cnt, buf, st) \<leftarrow> os_read os fd buf 32 st;
          if cnt = 0 then Some (0, st)
          else if cnt = -1 then
            do { st \<leftarrow> ece391_fdputs os 1 (litn ''directory entry read failed'') st; Some (3, st) }
          else
            do { c \<leftarrow> idx buf 0;
                 if c = 46 then grep_files os search data fd buf st
                 else
                   do { buf \<leftarrow> put buf cnt 0;
                        (r, st) \<leftarrow> do_one_file os search buf data st;
                        if r \<noteq> 0 then Some (3, st) else grep_files os search data fd buf st } } }"

definition grep_main :: "'s os \<Rightarrow> u8 list \<Rightarrow> u8 list \<Rightarrow> u8 list \<Rightarrow> 's \<Rightarrow> (int \<times> 's) option" where
  "grep_main os search buf data st =
     do { (r, search, st) \<leftarrow> os_getargs os search 1024 st;
          if r \<noteq> 0 then
            do { st \<leftarrow> ece391_fdputs os 1 (litn ''could not read argument'') st; Some (3, st) }
          else
            do { (fd, st) \<leftarrow> os_open os (lit ''.'') st;
                 if fd = -1 then
                   do { st \<leftarrow> ece391_fdputs os 1 (litn ''directory open failed'') st; Some (2, st) }
                 else grep_files os search data fd buf st } }"

section \<open>The shell\<close>

definition report_status :: "'s os \<Rightarrow> int \<Rightarrow> 's \<Rightarrow> 's option" where
  "report_status os rval st =
     (if rval = -1 then ece391_fdputs os 1 (litn ''no such command'') st
      else if rval = 256 then ece391_fdputs os 1 (litn ''program terminated by exception'') st
      else if rval \<noteq> 0 then ece391_fdputs os 1 (litn ''program terminated abnormally'') st
      else Some st)"

partial_function (option) shell_loop :: "'s os \<Rightarrow> u8 list \<Rightarrow> 's \<Rightarrow> (int \<times> 's) option" where
  [code]: "shell_loop os buf st =
     do { st \<leftarrow> ece391_fdputs os 1 (lit ''391OS> '') st;
          (cnt, buf, st) \<leftarrow> os_read os 0 buf 1023 st;
          if cnt = -1 then
            do { st \<leftarrow> ece391_fdputs os 1 (litn ''read from keyboard failed'') st; Some (3, st) }
          else
            do { c \<leftarrow> (if cnt > 0 then idx buf (cnt - 1) else Some 0);
                 let cnt = (if cnt > 0 \<and> c = 10 then cnt - 1 else cnt);
                 buf \<leftarrow> put buf cnt 0;
                 r \<leftarrow> ece391_strcmp buf (lit ''exit'');
                 if r = 0 then Some (0, st)
                 else
                   do { c0 \<leftarrow> idx buf 0;
                        if c0 = 0 then shell_loop os buf st
                        else
                          do { (rval, st) \<leftarrow> os_execute os buf st;
                               st \<leftarrow> report_status os rval st;
                               shell_loop os buf st } } } }"

definition shell_main :: "'s os \<Rightarrow> u8 list \<Rightarrow> 's \<Rightarrow> (int \<times> 's) option" where
  "shell_main os buf st =
     do { st \<leftarrow> ece391_fdputs os 1 (litn ''Starting 391 Shell'') st; shell_loop os buf st }"

section \<open>counter and mytest\<close>

definition counter_step :: "'s os \<Rightarrow> nat \<Rightarrow> u8 list \<times> 's \<Rightarrow> (u8 list \<times> 's) option" where
  "counter_step os i = (\<lambda>(buf, st).
     do { buf \<leftarrow> ece391_itoa (of_nat i + 1) buf 10;
          st \<leftarrow> ece391_fdputs os 1 buf st;
          st \<leftarrow> ece391_fdputs os 1 (litn '''') st;
          Some (buf, st) })"

definition counter_main :: "'s os \<Rightarrow> u8 list \<Rightarrow> 's \<Rightarrow> (int \<times> 's) option" where
  "counter_main os buf st =
     do { st \<leftarrow> ece391_fdputs os 1 (litn ''Enter the Test Number: (0): 100, (1): 10000, (2): 100000'') st;
          (cnt, buf, st) \<leftarrow> os_read os 0 buf 1023 st;
          if cnt = -1 then
            do { st \<leftarrow> ece391_fdputs os 1 (litn (''Can'' @ CHR 0x27 # ''t read the number from keyboard.'')) st;
                 Some (3, st) }
          else
            do { buf \<leftarrow> put buf cnt 0;
                 n \<leftarrow> ece391_strlen buf;
                 c \<leftarrow> idx buf 0;
                 if n > 2 \<or> n = 2 \<and> (c < 48 \<or> c > 50) then
                   do { st \<leftarrow> ece391_fdputs os 1 (litn ''Wrong Choice!'') st; Some (0, st) }
                 else
                   do { let max = (if c = 48 then 100 else if c = 49 then 10000
                                   else if c = 50 then 100000 else 0);
                        (buf, st) \<leftarrow> foldM (counter_step os) [0..<max] (buf, st);
                        Some (0, st) } } }"

definition mytest_main :: "'s os \<Rightarrow> u8 list \<Rightarrow> 's \<Rightarrow> (int \<times> 's) option" where
  "mytest_main os buf st =
     do { st \<leftarrow> ece391_fdputs os 1 (litn ''attempting to run mytest2'') st;
          (retval, st) \<leftarrow> os_execute os (lit ''mytest2'') st;
          buf \<leftarrow> ece391_itoa (word_of_int retval) buf 10;
          st \<leftarrow> ece391_fdputs os 1 (lit ''return value: '') st;
          st \<leftarrow> ece391_fdputs os 1 buf st;
          st \<leftarrow> ece391_fdputs os 1 (litn '''') st;
          Some (0, st) }"

definition mytest2_main :: "'s os \<Rightarrow> 's \<Rightarrow> (int \<times> 's) option" where
  "mytest2_main os st = Some (-1, st)"

section \<open>mytest3, mytest4 and sigtest\<close>

definition mytest3_main :: "'s \<Rightarrow> (ending \<times> 's) option" where
  "mytest3_main st =
     (let a = 5; b = 0 :: int in
      if b = 0 then Some (Inl divide_error_exception, st) else Some (Inr (a sdiv b), st))"

text \<open>The load of an \<^verbatim>\<open>int\<close> is that of its four bytes.\<close>

definition mytest4_main :: "'s os \<Rightarrow> 's \<Rightarrow> (ending \<times> 's) option" where
  "mytest4_main os st =
     (case those (map (\<lambda>i. os_load os (0x400000 + i) st) [0, 1, 2, 3]) of
        None \<Rightarrow> Some (Inl page_fault_exception, st)
      | Some test \<Rightarrow> Some (Inr 0, st))"

text \<open>
  \<^verbatim>\<open>badbuf\<close> is null and \<^verbatim>\<open>charbuf\<close> is 0 until a signal handler changes them; \<open>h1\<close> and \<open>h2\<close> are the
  addresses of the handlers, which a kernel without signals never calls.
\<close>

definition SEGFAULT :: int where "SEGFAULT = 1"
definition ALARM :: int where "ALARM = 3"

definition sigtest_main :: "'s os \<Rightarrow> u32 \<Rightarrow> u32 \<Rightarrow> u8 list \<Rightarrow> 's \<Rightarrow> (ending \<times> 's) option" where
  "sigtest_main os h1 h2 buf st =
     do { (r, buf, st) \<leftarrow> os_getargs os buf 1024 st;
          if r \<noteq> 0 then
            do { st \<leftarrow> ece391_fdputs os 1 (litn ''could not read argument'') st; Some (Inr 3, st) }
          else
            do { c \<leftarrow> idx buf 0;
                 st \<leftarrow> (if c = 49 then
                         do { st \<leftarrow> ece391_fdputs os 1 (litn ''Installing signal handlers'') st;
                              (_, st) \<leftarrow> os_set_handler os SEGFAULT h1 st;
                              (_, st) \<leftarrow> os_set_handler os ALARM h2 st;
                              Some st }
                       else Some st);
                 st \<leftarrow> ece391_fdputs os 1 (lit ask_name) st;
                 (cnt, buf, st) \<leftarrow> os_read os 0 buf 1023 st;
                 if cnt = -1 then
                   do { st \<leftarrow> ece391_fdputs os 1 (litn (''Can'' @ CHR 0x27 # ''t read name from keyboard.'')) st;
                        Some (Inr 3, st) }
                 else
                   case os_store os 0 1 st of None \<Rightarrow> Some (Inl page_fault_exception, st)
                   | Some st \<Rightarrow>
                     do { buf \<leftarrow> put buf cnt 0;
                          st \<leftarrow> ece391_fdputs os 1 (lit ''Hello, '') st;
                          st \<leftarrow> ece391_fdputs os 1 buf st;
                          let charbuf = (0 :: u8);
                          st \<leftarrow> ece391_fdputs os 1 (litn (if charbuf = 1 then ''success'' else ''failure'')) st;
                          Some (Inr 0, st) } } }"

section \<open>pingpong\<close>

definition clear_inner :: "u8 list \<Rightarrow> u8 list" where
  "clear_inner buf = fold (\<lambda>i b. b[i := 32]) [2..<78] buf"

definition pingpong_walls :: "u8 list \<Rightarrow> u8 list" where
  "pingpong_walls buf =
     (let buf = fold (\<lambda>i b. b[i := 32]) [0..<81] buf;
          buf = buf[80 := 0];
          buf = buf[79 := 10];
          buf = buf[78 := 124]
      in buf[1 := 124])"

definition pingpong_frame :: "'s os \<Rightarrow> int \<Rightarrow> u8 \<Rightarrow> nat \<Rightarrow> u8 list \<times> u8 list \<times> 's \<Rightarrow>
    (u8 list \<times> u8 list \<times> 's) option" where
  "pingpong_frame os rtc_fd curchar j = (\<lambda>(buf, garbage, st).
     do { let buf = (clear_inner buf)[j := curchar];
          st \<leftarrow> ece391_fdputs os 1 buf st;
          (_, garbage, st) \<leftarrow> os_read os rtc_fd garbage 4 st;
          Some (buf, garbage, st) })"

text \<open>One turn of the endless loop: out, back, and the next letter.\<close>

definition pingpong_turn :: "'s os \<Rightarrow> int \<Rightarrow> u8 \<times> u8 list \<times> u8 list \<times> 's \<Rightarrow>
    (u8 \<times> u8 list \<times> u8 list \<times> 's) option" where
  "pingpong_turn os rtc_fd = (\<lambda>(curchar, s).
     do { s \<leftarrow> foldM (pingpong_frame os rtc_fd curchar) [2..<78] s;
          s \<leftarrow> foldM (pingpong_frame os rtc_fd curchar) (rev [2..<78]) s;
          Some (if curchar = 90 then 65 else curchar + 1, s) })"

partial_function (option) pingpong_loop ::
  "'s os \<Rightarrow> int \<Rightarrow> u8 \<times> u8 list \<times> u8 list \<times> 's \<Rightarrow> (int \<times> 's) option" where
  [code]: "pingpong_loop os rtc_fd s = do { s \<leftarrow> pingpong_turn os rtc_fd s; pingpong_loop os rtc_fd s }"

definition pingpong_main :: "'s os \<Rightarrow> u8 list \<Rightarrow> u8 list \<Rightarrow> 's \<Rightarrow> (int \<times> 's) option" where
  "pingpong_main os buf garbage st =
     do { let buf = pingpong_walls buf;
          (rtc_fd, st) \<leftarrow> os_open os (lit ''rtc'') st;
          (_, st) \<leftarrow> os_write os rtc_fd [32, 0, 0, 0] 4 st;
          pingpong_loop os rtc_fd (65, buf, garbage, st) }"

end
