(* ===== verification/SysErr.thy ===== *)
theory SysErr
  imports UserLib
begin

text \<open>
  The error tests of the system calls (\<^verbatim>\<open>src/syscalls/ece391syserr.c\<close>). Each returns 0 when
  every call in it behaved as the test expects, and 2 otherwise.
\<close>

definition NEG_FD :: int where "NEG_FD = -1073741823"
definition BIG_FD :: int where "BIG_FD = 1073741823"
definition BIG_NUM :: int where "BIG_NUM = 1073741823"
definition NEG_NUM :: int where "NEG_NUM = -1073741823"

text \<open>\<^verbatim>\<open>if (-1 != r) { fail = 2; fdputs(...); }\<close>, and the report at the end of a test.\<close>

definition complain :: "'s os \<Rightarrow> int \<Rightarrow> u8 list \<Rightarrow> int \<Rightarrow> 's \<Rightarrow> (int \<times> 's) option" where
  "complain os r msg failed st =
     (if -1 \<noteq> r then do { st \<leftarrow> ece391_fdputs os 1 msg st; Some (2, st) } else Some (failed, st))"

definition verdict :: "'s os \<Rightarrow> string \<Rightarrow> int \<Rightarrow> 's \<Rightarrow> (int \<times> 's) option" where
  "verdict os name failed st =
     do { st \<leftarrow> ece391_fdputs os 1 (litn (name @ (if failed \<noteq> 0 then '': FAIL'' else '': PASS''))) st;
          Some (failed, st) }"

definition err_neg_fd :: "'s os \<Rightarrow> u8 list \<Rightarrow> 's \<Rightarrow> (int \<times> 's) option" where
  "err_neg_fd os buf st =
     do { (r, buf, st) \<leftarrow> os_read os NEG_FD buf 31 st;
          (failed, st) \<leftarrow> complain os r (litn ''read fail'') 0 st;
          (r, st) \<leftarrow> os_write os NEG_FD buf 31 st;
          (failed, st) \<leftarrow> complain os r (litn ''write fail'') failed st;
          (r, st) \<leftarrow> os_close os NEG_FD st;
          (failed, st) \<leftarrow> complain os r (litn ''close fail'') failed st;
          verdict os ''err_neg_fd'' failed st }"

definition err_big_fd :: "'s os \<Rightarrow> u8 list \<Rightarrow> 's \<Rightarrow> (int \<times> 's) option" where
  "err_big_fd os buf st =
     do { (r, buf, st) \<leftarrow> os_read os BIG_FD buf 31 st;
          (failed, st) \<leftarrow> complain os r (litn ''read fail'') 0 st;
          (r, st) \<leftarrow> os_write os BIG_FD buf 31 st;
          (failed, st) \<leftarrow> complain os r (litn ''write fail'') failed st;
          (r, st) \<leftarrow> os_close os BIG_FD st;
          (failed, st) \<leftarrow> complain os r (litn ''close fail'') failed st;
          verdict os ''err_big_fd'' failed st }"

text \<open>Seven calls of \<^verbatim>\<open>open\<close>, of which exactly the last must fail.\<close>

definition open_each :: "'s os \<Rightarrow> nat \<Rightarrow> int \<times> 's \<Rightarrow> (int \<times> 's) option" where
  "open_each os i = (\<lambda>(cnt, st).
     do { (r, st) \<leftarrow> os_open os (lit ''.'') st; Some (if -1 = r then cnt + 1 else cnt, st) })"

definition err_open_lots :: "'s os \<Rightarrow> 's \<Rightarrow> (int \<times> 's) option" where
  "err_open_lots os st =
     do { (cnt, st) \<leftarrow> foldM (open_each os) [0..<7] (0, st);
          st \<leftarrow> foldM (\<lambda>i st. do { (_, st) \<leftarrow> os_close os i st; Some st }) [2..7] st;
          if cnt = 1 then do { st \<leftarrow> ece391_fdputs os 1 (litn ''err_open_lots: PASS'') st; Some (0, st) }
          else do { st \<leftarrow> ece391_fdputs os 1 (litn ''err_open_lots: FAIL'') st; Some (2, st) } }"

definition err_open :: "'s os \<Rightarrow> 's \<Rightarrow> (int \<times> 's) option" where
  "err_open os st =
     do { (r, st) \<leftarrow> os_open os (lit ''helloo'') st;
          (failed, st) \<leftarrow> complain os r (litn (CHR 0x27 # ''helloo'' @ CHR 0x27 # '' fail'')) 0 st;
          (r, st) \<leftarrow> os_open os (lit ''shel'') st;
          (failed, st) \<leftarrow> complain os r (litn (CHR 0x27 # ''shel'' @ CHR 0x27 # '' fail'')) failed st;
          (r, st) \<leftarrow> os_open os (lit '''') st;
          (failed, st) \<leftarrow> complain os r (litn ''empty string fail'') failed st;
          verdict os ''err_open'' failed st }"

definition close_each :: "'s os \<Rightarrow> int \<Rightarrow> int \<times> 's \<Rightarrow> (int \<times> 's) option" where
  "close_each os i = (\<lambda>(failed, st).
     do { (r, st) \<leftarrow> os_close os i st;
          complain os r (litn ''close unopened or invalid fd fail'') failed st })"

definition read_each :: "'s os \<Rightarrow> int \<Rightarrow> u8 list \<times> int \<times> 's \<Rightarrow> (u8 list \<times> int \<times> 's) option" where
  "read_each os i = (\<lambda>(buf, failed, st).
     do { (r, buf, st) \<leftarrow> os_read os i buf 31 st;
          (failed, st) \<leftarrow> complain os r (litn ''read from unopened fd fail'') failed st;
          Some (buf, failed, st) })"

definition write_each :: "'s os \<Rightarrow> u8 list \<Rightarrow> int \<Rightarrow> int \<times> 's \<Rightarrow> (int \<times> 's) option" where
  "write_each os buf i = (\<lambda>(failed, st).
     do { (r, st) \<leftarrow> os_write os i buf 31 st;
          complain os r (litn ''write to unopened fd fail'') failed st })"

definition err_unopened :: "'s os \<Rightarrow> u8 list \<Rightarrow> 's \<Rightarrow> (int \<times> 's) option" where
  "err_unopened os buf st =
     do { (failed, st) \<leftarrow> foldM (close_each os) [0..7] (0, st);
          (buf, failed, st) \<leftarrow> foldM (read_each os) [2..7] (buf, failed, st);
          (failed, st) \<leftarrow> foldM (write_each os buf) [2..7] (failed, st);
          verdict os ''err_unopened'' failed st }"

definition err_vidmap :: "'s os \<Rightarrow> 's \<Rightarrow> (int \<times> 's) option" where
  "err_vidmap os st =
     do { (r, st) \<leftarrow> os_vidmap os 0 st;
          (failed, st) \<leftarrow> complain os r (litn ''Null pointer fail'') 0 st;
          (r, st) \<leftarrow> os_vidmap os 0x400000 st;
          (failed, st) \<leftarrow> complain os r (litn ''Kernel pointer fail fail'') failed st;
          verdict os ''err_vidmap'' failed st }"

definition err_stdin_out :: "'s os \<Rightarrow> u8 list \<Rightarrow> 's \<Rightarrow> (int \<times> 's) option" where
  "err_stdin_out os buf st =
     do { (r, st) \<leftarrow> os_write os 0 buf 31 st;
          (failed, st) \<leftarrow> complain os r (litn ''write to stdin fail'') 0 st;
          (r, buf, st) \<leftarrow> os_read os 1 buf 31 st;
          (failed, st) \<leftarrow> complain os r (litn ''read from stdout fail'') failed st;
          verdict os ''err_stdin_out'' failed st }"

text \<open>\<^verbatim>\<open>int $0x80\<close> with the number in \<^verbatim>\<open>eax\<close>, whatever the argument registers hold.\<close>

definition call_sys :: "'s os \<Rightarrow> int \<Rightarrow> 's \<Rightarrow> (int \<times> 's) option" where
  "call_sys os num st = os_sys os num st"

definition err_syscall_num :: "'s os \<Rightarrow> 's \<Rightarrow> (int \<times> 's) option" where
  "err_syscall_num os st =
     do { (r, st) \<leftarrow> call_sys os BIG_NUM st;
          (failed, st) \<leftarrow> complain os r (litn ''syscall 0 fail'') 0 st;
          (r, st) \<leftarrow> call_sys os NEG_NUM st;
          (failed, st) \<leftarrow> complain os r (litn ''big num syscall fail'') failed st;
          (r, st) \<leftarrow> call_sys os 0 st;
          (failed, st) \<leftarrow> complain os r (litn ''neg num syscall fail'') failed st;
          verdict os ''err_syscall_num'' failed st }"

text \<open>
  The tests in order; \<open>b1\<close> to \<open>b4\<close> are the uninitialised buffers of those that have one.
\<close>

definition all_tests ::
  "'s os \<Rightarrow> u8 list \<Rightarrow> u8 list \<Rightarrow> u8 list \<Rightarrow> u8 list \<Rightarrow> ('s \<Rightarrow> (int \<times> 's) option) list" where
  "all_tests os b1 b2 b3 b4 =
     [err_neg_fd os b1, err_big_fd os b2, err_open_lots os, err_open os, err_unopened os b3,
      err_vidmap os, err_stdin_out os b4, err_syscall_num os]"

definition add_result :: "('s \<Rightarrow> (int \<times> 's) option) \<Rightarrow> int \<times> 's \<Rightarrow> (int \<times> 's) option" where
  "add_result t = (\<lambda>(failed, st). do { (r, st) \<leftarrow> t st; Some (failed + r, st) })"

definition syserr_main ::
  "'s os \<Rightarrow> u8 list \<Rightarrow> u8 list \<Rightarrow> u8 list \<Rightarrow> u8 list \<Rightarrow> u8 list \<Rightarrow> 's \<Rightarrow> (int \<times> 's) option" where
  "syserr_main os buf b1 b2 b3 b4 st =
     do { st \<leftarrow> ece391_fdputs os 1 (lit ''Choose from tests 1-8. 0 to run all: '') st;
          (cnt, buf, st) \<leftarrow> os_read os 0 buf 127 st;
          if cnt = -1 then
            do { st \<leftarrow> ece391_fdputs os 1 (litn (''Can'' @ CHR 0x27 # ''t read test #'')) st; Some (2, st) }
          else
            do { c \<leftarrow> idx buf 0;
                 let select = uint c - 48;
                 if select = 0 then
                   do { (failed, st) \<leftarrow> foldM add_result (all_tests os b1 b2 b3 b4) (0, st);
                        st \<leftarrow> ece391_fdputs os 1 (10 # litn (if failed \<noteq> 0 then ''Overall Tests: FAIL''
                          else ''Overall Tests: PASS'')) st;
                        Some (failed, st) }
                 else if 1 \<le> select \<and> select \<le> 8 then (all_tests os b1 b2 b3 b4 ! nat (select - 1)) st
                 else
                   do { st \<leftarrow> ece391_fdputs os 1
                          (lit ''Invalid test number. Choose from tests 1-8 or 0'') st;
                        Some (0, st) } } }"

end
