(* ===== verification/UserCalls.thy ===== *)
theory UserCalls
  imports UserMem UserProgs SysErr
begin

text \<open>
  The system calls of the user programs on the kernel: the wrappers of
  \<^verbatim>\<open>src/syscalls/ece391syscall.S\<close> and \<^verbatim>\<open>_start\<close>, over the kernel's dispatch. An object whose
  address a call gets lies at the address \<open>ue_at\<close> of the program page: its bytes are there when
  the call is made and are read back from there when it has returned. Between two calls of a
  program nothing else happens; while a read of the keyboard waits the next line is typed, and
  while a read of the clock waits the clock ticks.
\<close>

section \<open>The world of a program\<close>

text \<open>\<open>typed\<close>: the scan codes of the lines still to be typed, without their Enter.\<close>

record world =
  wk :: kernel
  typed :: "u8 list list"

text \<open>
  What a program does not control: the uninitialised values of the calls, where its objects
  are, the registers that timer interrupts find, and what the executables of the image do.
\<close>

record uenv =
  ue_inp :: inputs
  ue_at :: u32
  ue_ticks :: "(u32 \<times> u32 \<times> u8) list"
  ue_prog :: "u8 list \<Rightarrow> world \<Rightarrow> (ending \<times> world) option"

definition type_line_keys :: "u8 list list \<Rightarrow> kernel \<Rightarrow> kernel option" where
  "type_line_keys lines k =
     (case lines of [] \<Rightarrow> None | scs # _ \<Rightarrow> foldM k_keyboard_int (scs @ [ENTER]) k)"

section \<open>The wrappers\<close>

text \<open>\<^verbatim>\<open>DO_CALL\<close>: the number in \<^verbatim>\<open>eax\<close>, three arguments, and back with \<^verbatim>\<open>eax\<close>.\<close>

definition do_call :: "inputs \<Rightarrow> u32 \<Rightarrow> u32 \<Rightarrow> u32 \<Rightarrow> u32 \<Rightarrow> kernel \<Rightarrow> (int \<times> kernel) option" where
  "do_call inp num b c d k =
     do { (fl, k) \<leftarrow> do_syscall inp num b c d k;
          case fl of Return r \<Rightarrow> Some (r, k) | _ \<Rightarrow> None }"

definition obj_call :: "uenv \<Rightarrow> (kernel \<Rightarrow> kernel option) \<Rightarrow> u8 list \<Rightarrow> u32 \<Rightarrow> u32 \<Rightarrow> u32 \<Rightarrow> u32 \<Rightarrow>
    world \<Rightarrow> (int \<times> u8 list \<times> world) option" where
  "obj_call e wait obj num b c d w =
     do { k \<leftarrow> put_user (ue_at e) obj (wk w);
          (r, k) \<leftarrow> do_call ((ue_inp e)\<lparr>in_wait := wait\<rparr>) num b c d k;
          obj \<leftarrow> get_user (ue_at e) (length obj) k;
          Some (r, obj, w\<lparr>wk := k\<rparr>) }"

definition no_wait :: "kernel \<Rightarrow> kernel option" where "no_wait k = None"

definition k_os_read :: "uenv \<Rightarrow> int \<Rightarrow> u8 list \<Rightarrow> int \<Rightarrow> world \<Rightarrow> (int \<times> u8 list \<times> world) option" where
  "k_os_read e fd buf n w =
     (let wait = (if fd = 0 then type_line_keys (typed w) else (\<lambda>k. Some (k_rtc_int k))) in
      do { (r, buf, w) \<leftarrow> obj_call e wait buf 3 (word_of_int fd) (ue_at e) (word_of_int n) w;
           Some (r, buf, if fd = 0 then w\<lparr>typed := tl (typed w)\<rparr> else w) })"

definition k_os_write :: "uenv \<Rightarrow> int \<Rightarrow> u8 list \<Rightarrow> int \<Rightarrow> world \<Rightarrow> (int \<times> world) option" where
  "k_os_write e fd buf n w =
     do { (r, _, w) \<leftarrow> obj_call e no_wait buf 4 (word_of_int fd) (ue_at e) (word_of_int n) w; Some (r, w) }"

definition k_os_open :: "uenv \<Rightarrow> u8 list \<Rightarrow> world \<Rightarrow> (int \<times> world) option" where
  "k_os_open e name w = do { (r, _, w) \<leftarrow> obj_call e no_wait name 5 (ue_at e) 0 0 w; Some (r, w) }"

definition k_os_close :: "uenv \<Rightarrow> int \<Rightarrow> world \<Rightarrow> (int \<times> world) option" where
  "k_os_close e fd w = do { (r, _, w) \<leftarrow> obj_call e no_wait [] 6 (word_of_int fd) 0 0 w; Some (r, w) }"

definition k_os_getargs :: "uenv \<Rightarrow> u8 list \<Rightarrow> int \<Rightarrow> world \<Rightarrow> (int \<times> u8 list \<times> world) option" where
  "k_os_getargs e buf n w = obj_call e no_wait buf 7 (ue_at e) (word_of_int n) 0 w"

text \<open>A call with plain numbers as arguments.\<close>

definition k_os_plain :: "uenv \<Rightarrow> u32 \<Rightarrow> u32 \<Rightarrow> u32 \<Rightarrow> world \<Rightarrow> (int \<times> world) option" where
  "k_os_plain e num b c w = do { (r, _, w) \<leftarrow> obj_call e no_wait [] num b c 0 w; Some (r, w) }"

text \<open>The program's own accesses go through the page tables in user mode.\<close>

definition k_os_load :: "u32 \<Rightarrow> world \<Rightarrow> u8 option" where
  "k_os_load va w = do { a \<leftarrow> translate True (kpg (wk w)) va; phys_load a (wk w) }"

definition k_os_store :: "u32 \<Rightarrow> u8 \<Rightarrow> world \<Rightarrow> world option" where
  "k_os_store va v w = do { a \<leftarrow> translate True (kpg (wk w)) va; k \<leftarrow> phys_store a v (wk w); Some (w\<lparr>wk := k\<rparr>) }"

section \<open>execute\<close>

text \<open>The other processes are preempted at once until \<open>p\<close> runs.\<close>

fun until_runs :: "int \<Rightarrow> (u32 \<times> u32 \<times> u8) list \<Rightarrow> kernel \<Rightarrow> kernel option" where
  "until_runs p [] k = (if current_pid k = p then Some k else None)"
| "until_runs p ((esp, ebp, prev) # rs) k =
     (if current_pid k = p then Some k else until_runs p rs (snd (pit_int esp ebp prev k)))"

text \<open>
  \<^verbatim>\<open>_start\<close>: \<^verbatim>\<open>main\<close>, then \<^verbatim>\<open>ece391_halt\<close> with its result; an exception ends \<^verbatim>\<open>main\<close> in the kernel.
\<close>

definition finish :: "inputs \<Rightarrow> ending \<Rightarrow> kernel \<Rightarrow> (flow \<times> kernel) option" where
  "finish inp fin k =
     (case fin of Inl h \<Rightarrow> exception_gate inp True h k
      | Inr r \<Rightarrow> do_syscall inp 1 (word_of_int r) 0 0 k)"

definition k_start :: "inputs \<Rightarrow> (world \<Rightarrow> (ending \<times> world) option) \<Rightarrow> world \<Rightarrow> (flow \<times> world) option" where
  "k_start inp main w =
     do { (fin, w) \<leftarrow> main w;
          (fl, k) \<leftarrow> finish inp fin (wk w);
          Some (fl, w\<lparr>wk := k\<rparr>) }"

definition k_os_execute :: "uenv \<Rightarrow> u8 list \<Rightarrow> world \<Rightarrow> (int \<times> world) option" where
  "k_os_execute e cmd w =
     do { k \<leftarrow> put_user (ue_at e) cmd (wk w);
          let child = get_available_pid k;
          (fl, k) \<leftarrow> do_syscall ((ue_inp e)\<lparr>in_wait := no_wait\<rparr>) 2 (ue_at e) 0 0 k;
          case fl of Return r \<Rightarrow> Some (r, w\<lparr>wk := k\<rparr>)
          | _ \<Rightarrow>
            do { (program, _) \<leftarrow> parse_command (cstr cmd @ [0]);
                 k \<leftarrow> until_runs child (ue_ticks e) k;
                 (fl, w) \<leftarrow> k_start ((ue_inp e)\<lparr>in_wait := no_wait\<rparr>) (ue_prog e (cstr program)) (w\<lparr>wk := k\<rparr>);
                 case fl of Halt_ret _ _ status \<Rightarrow> Some (sint status, w) | _ \<Rightarrow> None } }"

definition kernel_os :: "uenv \<Rightarrow> world os" where
  "kernel_os e = \<lparr>os_execute = k_os_execute e, os_read = k_os_read e, os_write = k_os_write e,
     os_open = k_os_open e, os_close = k_os_close e, os_getargs = k_os_getargs e,
     os_vidmap = (\<lambda>a. k_os_plain e 8 a 0),
     os_set_handler = (\<lambda>sig a. k_os_plain e 9 (word_of_int sig) a),
     os_sys = (\<lambda>num. k_os_plain e (word_of_int num) 0 0), os_load = k_os_load, os_store = k_os_store\<rparr>"

lemma kernel_os_simps [simp]:
  "os_execute (kernel_os e) = k_os_execute e" "os_read (kernel_os e) = k_os_read e"
  "os_write (kernel_os e) = k_os_write e" "os_open (kernel_os e) = k_os_open e"
  "os_close (kernel_os e) = k_os_close e" "os_getargs (kernel_os e) = k_os_getargs e"
  "os_vidmap (kernel_os e) = (\<lambda>a. k_os_plain e 8 a 0)"
  "os_set_handler (kernel_os e) = (\<lambda>sig a. k_os_plain e 9 (word_of_int sig) a)"
  "os_sys (kernel_os e) = (\<lambda>num. k_os_plain e (word_of_int num) 0 0)"
  "os_load (kernel_os e) = k_os_load" "os_store (kernel_os e) = k_os_store"
  by (simp_all add: kernel_os_def)

end
