(* ===== verification/UserSpec.thy ===== *)
theory UserSpec
  imports UserProgs SysErr
begin

text \<open>
  What the programs rely on, and what they then do. The state behind the system calls is seen
  through an abstract one: the argument, the files by name, the open descriptors with the
  content and the position of each, the lines still to be typed, and the output. The laws of
  the calls are the assumptions of the locales \<open>out_api\<close>, \<open>file_api\<close>, \<open>line_api\<close> and \<open>err_api\<close>; the
  programs are proved correct inside them.
\<close>

section \<open>Computations that end with a result\<close>

text \<open>\<open>runs m Q\<close>: \<open>m\<close> comes back, with a result that satisfies \<open>Q\<close>.\<close>

definition runs :: "'a option \<Rightarrow> ('a \<Rightarrow> bool) \<Rightarrow> bool" where
  "runs m Q \<longleftrightarrow> (case m of None \<Rightarrow> False | Some r \<Rightarrow> Q r)"

lemma runs_simps [simp]: "runs (Some r) Q = Q r" "runs None Q = False"
  by (simp_all add: runs_def)

lemma runs_iff: "runs m Q \<longleftrightarrow> (\<exists>r. m = Some r \<and> Q r)"
  by (cases m) auto

lemma runs_bind: "runs (Option.bind m f) Q = runs m (\<lambda>r. runs (f r) Q)"
  by (cases m) auto

lemma runs_mono: "runs m P \<Longrightarrow> (\<And>r. P r \<Longrightarrow> Q r) \<Longrightarrow> runs m Q"
  by (cases m) auto

lemma runs_bindI: "runs m P \<Longrightarrow> (\<And>r. P r \<Longrightarrow> runs (f r) Q) \<Longrightarrow> runs (Option.bind m f) Q"
  by (cases m) auto

lemma take_drop_length: "take n xs @ drop (length (take n xs)) xs = xs"
  by (cases "n \<le> length xs") simp_all

fun pieces :: "nat \<Rightarrow> 'a list \<Rightarrow> 'a list list" where
  "pieces n xs = (if n = 0 \<or> xs = [] then [] else take n xs # pieces n (drop n xs))"

declare pieces.simps [simp del]

lemma pieces_Nil [simp]: "pieces n [] = []"
  by (simp add: pieces.simps)

lemma pieces_step: "0 < n \<Longrightarrow> xs \<noteq> [] \<Longrightarrow> pieces n xs = take n xs # pieces n (drop (length (take n xs)) xs)"
  by (cases "n \<le> length xs") (simp_all add: pieces.simps [of n xs])

text \<open>The values of an \<^verbatim>\<open>int32_t\<close>.\<close>

definition int32 :: "int \<Rightarrow> bool" where
  "int32 i \<longleftrightarrow> - (2 ^ 31) \<le> i \<and> i < 2 ^ 31"

section \<open>The abstract state\<close>

record ('o, 'x) ustate =
  u_args :: "u8 list"
  u_dir :: "u8 list \<Rightarrow> u8 list option"
  u_open :: "int set"
  u_files :: "int \<Rightarrow> (u8 list \<times> nat) option"
  u_in :: "u8 list list"
  u_out :: 'o
  u_sys :: 'x

section \<open>Output\<close>

locale out_api =
  fixes os :: "'s os"
    and ok :: "'s \<Rightarrow> bool"
    and absu :: "'s \<Rightarrow> ('o, 'x) ustate"
    and emit :: "u8 list \<Rightarrow> 'o \<Rightarrow> 'o"
    and cap :: nat
  assumes cap: "1025 \<le> cap" "cap < 2 ^ 31"
    and emit_Nil [simp]: "emit [] t = t"
    and emit_append: "emit (xs @ ys) t = emit ys (emit xs t)"
    and write_out: "ok s \<Longrightarrow> m \<le> length buf \<Longrightarrow> length buf \<le> cap \<Longrightarrow>
      runs (os_write os 1 buf (int m) s) (\<lambda>(r, s'). r = int m \<and> ok s' \<and>
        absu s' = (absu s)\<lparr>u_out := emit (take m buf) (u_out (absu s))\<rparr>)"
begin

definition shows_text :: "u8 list \<Rightarrow> 's \<Rightarrow> 's \<Rightarrow> bool" where
  "shows_text xs s s' \<longleftrightarrow> ok s' \<and> absu s' = (absu s)\<lparr>u_out := emit xs (u_out (absu s))\<rparr>"

lemma shows_text_refl: "ok s \<Longrightarrow> shows_text [] s s"
  by (simp add: shows_text_def)

lemma shows_text_trans [trans]:
  "shows_text xs s s1 \<Longrightarrow> shows_text ys s1 s2 \<Longrightarrow> shows_text (xs @ ys) s s2"
  by (simp add: shows_text_def emit_append)

lemma shows_text_ok: "shows_text xs s s' \<Longrightarrow> ok s'"
  by (simp add: shows_text_def)

lemma fdputs_out:
  assumes "ok s" and "0 \<in> set str" and "length str \<le> cap"
  shows "runs (ece391_fdputs os 1 str s) (shows_text (cstr str) s)"
proof -
  have l: "length (cstr str) < length str" using assms(2) by (rule length_cstr_less)
  then have "sint (of_nat (length (cstr str)) :: u32) = int (length (cstr str))"
    using assms(3) cap by (subst sint_eq_unat) auto
  moreover have "take (length (cstr str)) str = cstr str"
    unfolding cstr_def by (rule takeWhile_eq_take [symmetric])
  ultimately show ?thesis
    using write_out [OF assms(1), of "length (cstr str)" str] l assms(2,3)
    by (auto simp: ece391_fdputs_def ece391_strlen_eq runs_bind shows_text_def elim!: runs_mono)
qed

lemma cstr_lit: "0 \<notin> set (asc t) \<Longrightarrow> cstr (lit t) = asc t"
  and cstr_litn: "0 \<notin> set (asc t) \<Longrightarrow> cstr (litn t) = asc t @ [10]"
  using cstr_id [of "asc t" "[]"] cstr_id [of "asc t @ [10]" "[]"] by (simp_all add: lit_def litn_def)

lemma fdputs_lit:
  assumes "ok s" and "length t \<le> 1000" and "0 \<notin> set (asc t)"
  shows "runs (ece391_fdputs os 1 (lit t) s) (shows_text (asc t) s)"
    and "runs (ece391_fdputs os 1 (litn t) s) (shows_text (asc t @ [10]) s)"
  using fdputs_out [OF assms(1), of "lit t"] fdputs_out [OF assms(1), of "litn t"] assms(2) cap
  by (simp_all add: cstr_lit [OF assms(3)] cstr_litn [OF assms(3)], simp_all add: lit_def litn_def)

end

section \<open>Files\<close>

definition ls_text :: "u8 list \<Rightarrow> u8 list" where
  "ls_text data = concat (map (\<lambda>p. p @ [10]) (pieces 32 data))"

locale file_api = out_api +
  assumes read_file: "ok s \<Longrightarrow> u_files (absu s) fd = Some (data, pos) \<Longrightarrow> n \<le> length buf \<Longrightarrow>
      length buf \<le> cap \<Longrightarrow>
      runs (os_read os fd buf (int n) s) (\<lambda>(r, buf', s').
        r = int (length (take n (drop pos data))) \<and>
        buf' = take n (drop pos data) @ drop (length (take n (drop pos data))) buf \<and> ok s' \<and>
        absu s' = (absu s)\<lparr>u_files := (u_files (absu s))(fd \<mapsto> (data, pos + length (take n (drop pos data))))\<rparr>)"
    and open_file: "ok s \<Longrightarrow> 0 \<in> set name \<Longrightarrow> length name \<le> cap \<Longrightarrow> u_dir (absu s) (cstr name) = Some data \<Longrightarrow>
      \<not> {2..7} \<subseteq> u_open (absu s) \<Longrightarrow>
      runs (os_open os name s) (\<lambda>(fd, s'). fd \<in> {2..7} - u_open (absu s) \<and> ok s' \<and>
        absu s' = (absu s)\<lparr>u_open := insert fd (u_open (absu s)),
          u_files := (u_files (absu s))(fd \<mapsto> (data, 0))\<rparr>)"
    and close_file: "ok s \<Longrightarrow> fd \<in> u_open (absu s) \<Longrightarrow> u_files (absu s) fd = Some f \<Longrightarrow>
      runs (os_close os fd s) (\<lambda>(r, s'). r = 0 \<and> ok s' \<and>
        absu s' = (absu s)\<lparr>u_open := u_open (absu s) - {fd}, u_files := (u_files (absu s))(fd := None)\<rparr>)"
    and get_args: "ok s \<Longrightarrow> u_args (absu s) \<noteq> [] \<Longrightarrow> length (u_args (absu s)) < n \<Longrightarrow> n \<le> length buf \<Longrightarrow>
      length buf \<le> cap \<Longrightarrow>
      runs (os_getargs os buf (int n) s) (\<lambda>(r, buf', s'). r = 0 \<and>
        buf' = u_args (absu s) @ 0 # drop (Suc (length (u_args (absu s)))) buf \<and> ok s' \<and> absu s' = absu s)"
    and args_text: "ok s \<Longrightarrow> 0 \<notin> set (u_args (absu s))"
begin

text \<open>The same laws as equations, for one piece of the file.\<close>

lemma readE:
  assumes "ok s" and "u_files (absu s) fd = Some (data, pos)" and "n \<le> length buf" and "length buf \<le> cap"
    and "bs = take n (drop pos data)"
  obtains s' where "os_read os fd buf (int n) s = Some (int (length bs), bs @ drop (length bs) buf, s')"
    and "ok s'" and "absu s' = (absu s)\<lparr>u_files := (u_files (absu s))(fd \<mapsto> (data, pos + length bs))\<rparr>"
  using read_file [OF assms(1-4)] unfolding runs_iff assms(5) [symmetric] by auto

lemma writeE:
  assumes "ok s" and "length (xs @ ys) \<le> cap"
  obtains s' where "os_write os 1 (xs @ ys) (int (length xs)) s = Some (int (length xs), s')"
    and "shows_text xs s s'"
  using write_out [OF assms(1), of "length xs" "xs @ ys"] assms(2) unfolding runs_iff shows_text_def by auto

lemma cat_loop_prints:
  assumes "ok s" and "u_files (absu s) fd = Some (data, pos)" and "pos \<le> length data"
    and "length buf = 1024"
  shows "runs (cat_loop os fd buf s) (\<lambda>(r, s'). r = 0 \<and> ok s' \<and>
    absu s' = (absu s)\<lparr>u_files := (u_files (absu s))(fd \<mapsto> (data, length data)),
      u_out := emit (drop pos data) (u_out (absu s))\<rparr>)"
  using assms
proof (induction "length data - pos" arbitrary: s pos buf rule: less_induct)
  case less
  define bs where "bs = take 1024 (drop pos data)"
  obtain s1 where 1: "os_read os fd buf 1024 s = Some (int (length bs), bs @ drop (length bs) buf, s1)"
    "ok s1" "absu s1 = (absu s)\<lparr>u_files := (u_files (absu s))(fd \<mapsto> (data, pos + length bs))\<rparr>"
    using readE [OF less.prems(1,2) _ _ bs_def, of buf] less.prems(4) cap by auto
  show ?case
  proof (cases "bs = []")
    case True
    then have "pos = length data" using less.prems(3) by (simp add: bs_def)
    with 1 True less.prems(2) show ?thesis by (subst cat_loop.simps) simp
  next
    case False
    let ?buf = "bs @ drop (length bs) buf"
    have b: "length ?buf = 1024" using less.prems(4) by (simp add: bs_def)
    obtain s2 where 2: "os_write os 1 ?buf (int (length bs)) s1 = Some (int (length bs), s2)"
      "shows_text bs s1 s2"
      by (rule writeE [OF 1(2), of bs "drop (length bs) buf"]) (use b cap in auto)
    have p: "pos < pos + length bs" "pos + length bs \<le> length data" "pos < length data"
      using False less.prems(3) by (auto simp: bs_def)
    have d: "bs @ drop (pos + length bs) data = drop pos data"
      using take_drop_length [of 1024 "drop pos data"] by (simp add: bs_def [symmetric] add.commute)
    have "runs (cat_loop os fd ?buf s2) (\<lambda>(r, s'). r = 0 \<and> ok s' \<and>
        absu s' = (absu s2)\<lparr>u_files := (u_files (absu s2))(fd \<mapsto> (data, length data)),
          u_out := emit (drop (pos + length bs) data) (u_out (absu s2))\<rparr>)"
    proof (rule less.hyps)
      show "length data - (pos + length bs) < length data - pos" using p by linarith
    qed (use 1 2 p b in \<open>simp_all add: shows_text_def\<close>)
    with 1 2 False d show ?thesis
      by (subst cat_loop.simps) (simp add: shows_text_def emit_append [symmetric])
  qed
qed

text \<open>\<^verbatim>\<open>cat\<close> prints the file named by its argument; without it, or without the file, it says so.\<close>

lemma openE:
  assumes "ok s" and "u_dir (absu s) name = Some data" and "\<not> {2..7} \<subseteq> u_open (absu s)"
    and "0 \<notin> set name" and "length (name @ 0 # rest) \<le> cap"
  obtains fd s' where "os_open os (name @ 0 # rest) s = Some (fd, s')" and "fd \<in> {2..7} - u_open (absu s)"
    and "ok s'" and "absu s' = (absu s)\<lparr>u_open := insert fd (u_open (absu s)),
      u_files := (u_files (absu s))(fd \<mapsto> (data, 0))\<rparr>"
  using open_file [OF assms(1), of "name @ 0 # rest" data] assms(2-5)
  unfolding runs_iff cstr_id [OF assms(4)] by auto

lemma cat_prints:
  assumes "ok s" and "u_args (absu s) = name" and "name \<noteq> []" and "length name < 1024"
    and "u_dir (absu s) name = Some data" and "\<not> {2..7} \<subseteq> u_open (absu s)" and "length buf = 1024"
  shows "runs (cat_main os buf s) (\<lambda>(r, s'). r = 0 \<and> ok s' \<and> (\<exists>fd. fd \<in> {2..7} - u_open (absu s) \<and>
    absu s' = (absu s)\<lparr>u_open := insert fd (u_open (absu s)),
      u_files := (u_files (absu s))(fd \<mapsto> (data, length data)), u_out := emit data (u_out (absu s))\<rparr>))"
proof -
  let ?buf = "name @ 0 # drop (Suc (length name)) buf"
  have n0: "0 \<notin> set name" using args_text [OF assms(1)] assms(2) by simp
  have b: "length ?buf = 1024" using assms(4,7) by simp
  obtain s1 where 1: "os_getargs os buf 1024 s = Some (0, ?buf, s1)" "ok s1" "absu s1 = absu s"
    using get_args [OF assms(1), of 1024 buf] assms(2-4,7) cap unfolding runs_iff by auto
  obtain fd s2 where 2: "os_open os ?buf s1 = Some (fd, s2)" "fd \<in> {2..7} - u_open (absu s1)" "ok s2"
    "absu s2 = (absu s1)\<lparr>u_open := insert fd (u_open (absu s1)),
      u_files := (u_files (absu s1))(fd \<mapsto> (data, 0))\<rparr>"
    using openE [OF 1(2) _ _ n0, of data "drop (Suc (length name)) buf"] 1(3) assms(5,6) b cap by auto
  have "runs (cat_loop os fd ?buf s2) (\<lambda>(r, s'). r = 0 \<and> ok s' \<and>
    absu s' = (absu s2)\<lparr>u_files := (u_files (absu s2))(fd \<mapsto> (data, length data)),
      u_out := emit data (u_out (absu s2))\<rparr>)"
    using cat_loop_prints [OF 2(3), of fd data 0 ?buf] 2(4) b by simp
  then have "runs (cat_main os buf s) (\<lambda>(r, s'). r = 0 \<and> ok s' \<and>
    absu s' = (absu s2)\<lparr>u_files := (u_files (absu s2))(fd \<mapsto> (data, length data)),
      u_out := emit data (u_out (absu s2))\<rparr>)"
    using 1 2 by (simp add: cat_main_def)
  then show ?thesis by (rule runs_mono) (use 1 2 in auto)
qed

text \<open>\<^verbatim>\<open>ls\<close> prints the 32 bytes of each name, a line for each.\<close>

lemma ls_loop_prints:
  assumes "ok s" and "u_files (absu s) fd = Some (data, pos)" and "pos \<le> length data"
    and "length buf = 33"
  shows "runs (ls_loop os fd buf s) (\<lambda>(r, s'). r = 0 \<and> ok s' \<and>
    absu s' = (absu s)\<lparr>u_files := (u_files (absu s))(fd \<mapsto> (data, length data)),
      u_out := emit (ls_text (drop pos data)) (u_out (absu s))\<rparr>)"
  using assms
proof (induction "length data - pos" arbitrary: s pos buf rule: less_induct)
  case less
  define bs where "bs = take 32 (drop pos data)"
  obtain s1 where 1: "os_read os fd buf 32 s = Some (int (length bs), bs @ drop (length bs) buf, s1)"
    "ok s1" "absu s1 = (absu s)\<lparr>u_files := (u_files (absu s))(fd \<mapsto> (data, pos + length bs))\<rparr>"
    using readE [OF less.prems(1,2) _ _ bs_def, of buf] less.prems(4) cap by auto
  show ?case
  proof (cases "bs = []")
    case True
    then have "pos = length data" using less.prems(3) by (simp add: bs_def)
    with 1 True less.prems(2) show ?thesis by (subst ls_loop.simps) (simp add: ls_text_def)
  next
    case False
    have lb: "length bs \<le> 32" by (simp add: bs_def)
    obtain x rest where r: "drop (length bs) buf = x # rest"
      using lb less.prems(4) by (cases "drop (length bs) buf") auto
    let ?buf = "bs @ 10 # rest"
    have b: "length ?buf = 33" using lb less.prems(4) arg_cong [OF r, of length] by simp
    have u: "put (bs @ drop (length bs) buf) (int (length bs)) 10 = Some ?buf"
      by (simp add: r list_update_append)
    obtain s2 where 2: "os_write os 1 ?buf (int (length bs) + 1) s1 = Some (int (length bs) + 1, s2)"
      "shows_text (bs @ [10]) s1 s2"
      by (rule writeE [OF 1(2), of "bs @ [10]" rest]) (use b cap in \<open>auto simp: add.commute\<close>)
    have e: "ls_loop os fd buf s = ls_loop os fd ?buf s2"
      using False by (subst ls_loop.simps) (simp add: 1(1) u 2(1) del: put_nat)
    have p: "pos < pos + length bs" "pos + length bs \<le> length data" "pos < length data"
      using False less.prems(3) by (auto simp: bs_def)
    have d: "ls_text (drop pos data) = (bs @ [10]) @ ls_text (drop (pos + length bs) data)"
      using pieces_step [of 32 "drop pos data"] False
      by (simp add: ls_text_def bs_def [symmetric] add.commute) (auto simp: bs_def)
    have d': "emit (ls_text (drop pos data)) t = emit (ls_text (drop (pos + length bs) data)) (emit (bs @ [10]) t)"
      for t unfolding d by (rule emit_append)
    have "runs (ls_loop os fd ?buf s2) (\<lambda>(r, s'). r = 0 \<and> ok s' \<and>
        absu s' = (absu s2)\<lparr>u_files := (u_files (absu s2))(fd \<mapsto> (data, length data)),
          u_out := emit (ls_text (drop (pos + length bs) data)) (u_out (absu s2))\<rparr>)"
    proof (rule less.hyps)
      show "length data - (pos + length bs) < length data - pos" using p by linarith
    qed (use 1 2 p b in \<open>simp_all add: shows_text_def\<close>)
    then show ?thesis
      unfolding e by (rule runs_mono) (use 1 2 in \<open>auto simp: d' shows_text_def\<close>)
  qed
qed

lemma ls_prints:
  assumes "ok s" and "u_dir (absu s) [46] = Some data" and "\<not> {2..7} \<subseteq> u_open (absu s)"
    and "length buf = 33"
  shows "runs (ls_main os buf s) (\<lambda>(r, s'). r = 0 \<and> ok s' \<and> (\<exists>fd. fd \<in> {2..7} - u_open (absu s) \<and>
    absu s' = (absu s)\<lparr>u_open := insert fd (u_open (absu s)),
      u_files := (u_files (absu s))(fd \<mapsto> (data, length data)), u_out := emit (ls_text data) (u_out (absu s))\<rparr>))"
proof -
  have l: "lit ''.'' = [46] @ 0 # []" by (simp add: lit_def)
  obtain fd s2 where 2: "os_open os (lit ''.'') s = Some (fd, s2)" "fd \<in> {2..7} - u_open (absu s)" "ok s2"
    "absu s2 = (absu s)\<lparr>u_open := insert fd (u_open (absu s)),
      u_files := (u_files (absu s))(fd \<mapsto> (data, 0))\<rparr>"
    unfolding l using openE [OF assms(1-3), of "[]"] cap by auto
  have "runs (ls_loop os fd buf s2) (\<lambda>(r, s'). r = 0 \<and> ok s' \<and>
    absu s' = (absu s2)\<lparr>u_files := (u_files (absu s2))(fd \<mapsto> (data, length data)),
      u_out := emit (ls_text data) (u_out (absu s2))\<rparr>)"
    using ls_loop_prints [OF 2(3), of fd data 0 buf] 2(4) assms(4) by simp
  then have "runs (ls_main os buf s) (\<lambda>(r, s'). r = 0 \<and> ok s' \<and>
    absu s' = (absu s2)\<lparr>u_files := (u_files (absu s2))(fd \<mapsto> (data, length data)),
      u_out := emit (ls_text data) (u_out (absu s2))\<rparr>)"
    using 2 by (simp add: ls_main_def)
  then show ?thesis by (rule runs_mono) (use 2 in auto)
qed

end

end
