(* ===== verification/Console.thy ===== *)
theory Console
  imports UserSpec
begin

text \<open>
  The programs that read from the keyboard (\<^verbatim>\<open>hello\<close>, \<^verbatim>\<open>counter\<close>) and the shell, over the law of
  \<^verbatim>\<open>read\<close> on the standard input (\<open>line_api\<close>) and the law of \<^verbatim>\<open>execute\<close> (\<open>shell_api\<close>).
\<close>

section \<open>Lines from the keyboard\<close>

definition hello_text :: "u8 list \<Rightarrow> u8 list" where
  "hello_text line = asc ask_name @ line @ asc ''Hello, '' @ line"

definition count_text :: "nat \<Rightarrow> u8 list" where
  "count_text n = concat (map (\<lambda>i. numeral_text 10 (i + 1) @ [10]) [0..<n])"

definition counter_max :: "u8 \<Rightarrow> nat" where
  "counter_max c = (if c = 48 then 100 else if c = 49 then 10000 else 100000)"

text \<open>A read gives the next typed line, which the terminal has echoed.\<close>

locale line_api = out_api +
  assumes read_line: "ok s \<Longrightarrow> u_in (absu s) = line # ls \<Longrightarrow> length line \<le> n \<Longrightarrow> n \<le> length buf \<Longrightarrow>
      length buf \<le> cap \<Longrightarrow>
      runs (os_read os 0 buf (int n) s) (\<lambda>(r, buf', s'). r = int (length line) \<and>
        buf' = line @ drop (length line) buf \<and> ok s' \<and>
        absu s' = (absu s)\<lparr>u_in := ls, u_out := emit line (u_out (absu s))\<rparr>)"
    and line_form: "ok s \<Longrightarrow> line \<in> set (u_in (absu s)) \<Longrightarrow>
      \<exists>l. line = l @ [10] \<and> 0 \<notin> set l \<and> length l \<le> 127"
begin

lemma lineE:
  assumes "ok s" and "u_in (absu s) = line # ls" and "128 \<le> n" and "n \<le> length buf" and "length buf \<le> cap"
  obtains l s' where "line = l @ [10]" and "0 \<notin> set l" and "length l \<le> 127"
    and "os_read os 0 buf (int n) s = Some (int (length l) + 1, l @ 10 # drop (Suc (length l)) buf, s')"
    and "ok s'" and "absu s' = (absu s)\<lparr>u_in := ls, u_out := emit (l @ [10]) (u_out (absu s))\<rparr>"
proof -
  obtain l where l: "line = l @ [10]" "0 \<notin> set l" "length l \<le> 127"
    using line_form [OF assms(1), of line] assms(2) by auto
  show ?thesis
    using read_line [OF assms(1,2) _ assms(4,5)] assms(3) l that by (auto simp: runs_iff add.commute)
qed

lemma fdputs_textE:
  assumes "ok s" and "0 \<notin> set xs" and "length xs + length rest < cap"
  obtains s' where "ece391_fdputs os 1 (xs @ 0 # rest) s = Some s'" and "shows_text xs s s'"
  using fdputs_out [OF assms(1), of "xs @ 0 # rest"] assms(2,3) cstr_id [OF assms(2)]
  unfolding runs_iff by auto

lemma fdputs_litE:
  assumes "ok s" and "length t \<le> 1000" and "0 \<notin> set (asc t)"
  obtains s' where "ece391_fdputs os 1 (lit t) s = Some s'" and "shows_text (asc t) s s'"
  using fdputs_lit(1) [OF assms] unfolding runs_iff by auto

lemma fdputs_litnE:
  assumes "ok s" and "length t \<le> 1000" and "0 \<notin> set (asc t)"
  obtains s' where "ece391_fdputs os 1 (litn t) s = Some s'" and "shows_text (asc t @ [10]) s s'"
  using fdputs_lit(2) [OF assms] unfolding runs_iff by auto

section \<open>hello\<close>

lemma hello_greets:
  assumes "ok s" and "u_in (absu s) = line # ls" and "length buf = 1024"
  shows "runs (hello_main os buf s) (\<lambda>(r, s'). r = 0 \<and> ok s' \<and>
    absu s' = (absu s)\<lparr>u_in := ls, u_out := emit (hello_text line) (u_out (absu s))\<rparr>)"
proof -
  obtain s1 where 1: "ece391_fdputs os 1 (lit ask_name) s = Some s1"
    "shows_text (asc ask_name) s s1"
    by (rule fdputs_litE [OF assms(1), of ask_name]) (auto simp: ask_name_def)
  have a1: "u_in (absu s1) = line # ls" using 1(2) assms(2) by (simp add: shows_text_def)
  obtain l s2 where 2: "line = l @ [10]" "0 \<notin> set l" "length l \<le> 127"
    "os_read os 0 buf 1023 s1 = Some (int (length l) + 1, l @ 10 # drop (Suc (length l)) buf, s2)"
    "ok s2" "absu s2 = (absu s1)\<lparr>u_in := ls, u_out := emit (l @ [10]) (u_out (absu s1))\<rparr>"
    using lineE [OF shows_text_ok [OF 1(2)] a1, of 1023 buf] assms(3) cap by auto
  obtain x rest where r: "drop (Suc (length l)) buf = x # rest"
    using 2(3) assms(3) by (cases "drop (Suc (length l)) buf") auto
  let ?buf = "(l @ [10]) @ 0 # rest"
  have p: "put (l @ 10 # drop (Suc (length l)) buf) (int (length l) + 1) 0 = Some ?buf"
  proof -
    have "int (length l) + 1 = int (Suc (length l))" by simp
    then show ?thesis by (simp only: put_nat r) (simp add: list_update_append)
  qed
  have lr: "length (l @ [10]) + length rest < cap"
    using arg_cong [OF r, of length] 2(3) assms(3) cap by simp
  obtain s3 where 3: "ece391_fdputs os 1 (lit ''Hello, '') s2 = Some s3" "shows_text (asc ''Hello, '') s2 s3"
    by (rule fdputs_litE [OF 2(5), of "''Hello, ''"]) auto
  obtain s4 where 4: "ece391_fdputs os 1 ?buf s3 = Some s4" "shows_text (l @ [10]) s3 s4"
    by (rule fdputs_textE [OF shows_text_ok [OF 3(2)] _ lr]) (use 2(2) in auto)
  have "hello_main os buf s = Some (0, s4)"
    by (simp add: hello_main_def 1(1) 2(4) p 3(1) 4(1) [simplified] del: put_nat)
  then show ?thesis
    using 1(2) 2 3(2) 4(2) by (simp only: shows_text_def hello_text_def emit_append runs_simps split_conv) simp
qed

section \<open>counter\<close>

lemma counter_steps:
  assumes "ok s" and "length buf = 1024" and "n \<le> 100000"
  shows "\<exists>buf' s'. foldM (counter_step os) [0..<n] (buf, s) = Some (buf', s') \<and> length buf' = 1024 \<and>
    shows_text (count_text n) s s'"
  using assms(3)
proof (induction n)
  case 0
  then show ?case using assms(1,2) by (simp add: count_text_def shows_text_refl)
next
  case (Suc n)
  then obtain buf1 s1 where 1: "foldM (counter_step os) [0..<n] (buf, s) = Some (buf1, s1)"
    "length buf1 = 1024" "shows_text (count_text n) s s1" by auto
  have n: "unat (of_nat n + 1 :: u32) = n + 1"
    using Suc.prems unat_of_nat32 [of "n + 1"] by (simp add: add.commute)
  then have "unat (of_nat n + 1 :: u32) < unat (10 :: u32) ^ 10" using Suc.prems by simp
  from ece391_itoa_eq [OF _ _ this, of buf1] 1(2) n obtain rest where
    r: "ece391_itoa (of_nat n + 1) buf1 10 = Some (numeral_text 10 (n + 1) @ 0 # rest)"
    "length (numeral_text 10 (n + 1) @ 0 # rest) = 1024" by auto
  have z: "0 \<notin> set (numeral_text 10 (n + 1))" by (rule numeral_text_props(2)) simp_all
  obtain s2 where 2: "ece391_fdputs os 1 (numeral_text 10 (n + 1) @ 0 # rest) s1 = Some s2"
    "shows_text (numeral_text 10 (n + 1)) s1 s2"
    by (rule fdputs_textE [OF shows_text_ok [OF 1(3)] z, of rest]) (use r(2) cap in auto)
  obtain s3 where 3: "ece391_fdputs os 1 (litn []) s2 = Some s3" "shows_text (asc [] @ [10]) s2 s3"
    by (rule fdputs_litnE [OF shows_text_ok [OF 2(2)], of "[]"]) auto
  have "counter_step os n (buf1, s1) = Some (numeral_text 10 (n + 1) @ 0 # rest, s3)"
    by (simp only: counter_step_def split_conv r(1) 2(1) 3(1) bind.bind_lunit)
  then have "foldM (counter_step os) [0..<Suc n] (buf, s) = Some (numeral_text 10 (n + 1) @ 0 # rest, s3)"
    using 1(1) by (simp add: foldM_append)
  moreover have "shows_text (count_text (Suc n)) s s3"
    using shows_text_trans [OF 1(3) shows_text_trans [OF 2(2) 3(2)]] by (simp add: count_text_def)
  ultimately show ?case using r(2) by blast
qed

lemma counter_counts:
  assumes "ok s" and "u_in (absu s) = [c, 10] # ls" and "c \<in> {48, 49, 50}" and "length buf = 1024"
  shows "runs (counter_main os buf s) (\<lambda>(r, s'). r = 0 \<and> ok s' \<and> absu s' = (absu s)\<lparr>u_in := ls,
    u_out := emit (asc ''Enter the Test Number: (0): 100, (1): 10000, (2): 100000'' @ [10, c, 10] @
      count_text (counter_max c)) (u_out (absu s))\<rparr>)"
proof -
  define q where "q = ''Enter the Test Number: (0): 100, (1): 10000, (2): 100000''"
  obtain s1 where 1: "ece391_fdputs os 1 (litn q) s = Some s1" "shows_text (asc q @ [10]) s s1"
    by (rule fdputs_litnE [OF assms(1), of q]) (auto simp: q_def)
  have a1: "u_in (absu s1) = [c, 10] # ls" using 1(2) assms(2) by (simp add: shows_text_def)
  obtain b2 rest where b: "drop 2 buf = b2 # rest" using assms(4) by (cases "drop 2 buf") auto
  have lr: "length (c # 10 # b2 # rest) = 1024" using arg_cong [OF b, of length] assms(4) by simp
  obtain s2 where 2: "os_read os 0 buf 1023 s1 = Some (2, c # 10 # b2 # rest, s2)" "ok s2"
    "absu s2 = (absu s1)\<lparr>u_in := ls, u_out := emit [c, 10] (u_out (absu s1))\<rparr>"
    using read_line [OF shows_text_ok [OF 1(2)] a1, of 1023 buf] assms(4) cap b
    by (auto simp: runs_iff numeral_2_eq_2)
  have p: "put (c # 10 # b2 # rest) 2 0 = Some (c # 10 # 0 # rest)" by (simp add: put_def)
  have c: "c \<noteq> 0" "\<not> (c < 48 \<or> c > 50)" using assms(3) by auto
  then have l: "ece391_strlen (c # 10 # 0 # rest) = Some 2" by (simp add: ece391_strlen_def)
  have m: "(if c = 48 then 100 else if c = 49 then 10000 else if c = 50 then 100000 else 0) = counter_max c"
    using assms(3) by (auto simp: counter_max_def)
  have "counter_max c \<le> 100000" "length (c # 10 # 0 # rest) = 1024"
    using lr by (simp_all add: counter_max_def)
  from counter_steps [OF 2(2) this(2,1)] obtain buf' s3 where
    3: "foldM (counter_step os) [0..<counter_max c] (c # 10 # 0 # rest, s2) = Some (buf', s3)"
    "shows_text (count_text (counter_max c)) s2 s3" by auto
  have "counter_main os buf s = Some (0, s3)"
    unfolding counter_main_def q_def [symmetric]
    using c(2) by (simp add: 1(1) 2(1) p l m 3(1) Let_def del: upt_conv_Cons)
  moreover have "emit (asc q @ [10, c, 10] @ xs) t = emit xs (emit [c, 10] (emit (asc q @ [10]) t))" for xs t
    by (simp add: emit_append [symmetric])
  ultimately show ?thesis
    using 1(2) 2(3) 3(2) unfolding q_def [symmetric] by (simp add: shows_text_def)
qed

end

section \<open>The shell\<close>

definition status_text :: "int \<Rightarrow> u8 list" where
  "status_text r =
     (if r = -1 then asc ''no such command'' @ [10]
      else if r = 256 then asc ''program terminated by exception'' @ [10]
      else if r \<noteq> 0 then asc ''program terminated abnormally'' @ [10]
      else [])"

text \<open>
  \<open>effect\<close> is what a command does: the status that \<^verbatim>\<open>execute\<close> returns for it and the output. The
  session of a list of lines is the output up to the line that ends it.
\<close>

fun session :: "(u8 list \<Rightarrow> 'o \<Rightarrow> 'o) \<Rightarrow> (u8 list \<Rightarrow> 'o \<Rightarrow> int \<times> 'o) \<Rightarrow> u8 list list \<Rightarrow> 'o \<Rightarrow> 'o" where
  "session emit effect [] t = emit (asc ''391OS> '') t"
| "session emit effect (line # ls) t =
     (let t = emit line (emit (asc ''391OS> '') t); cmd = butlast line in
      if cmd = asc ''exit'' then t
      else if cmd = [] then session emit effect ls t
      else let (r, t) = effect cmd t in session emit effect ls (emit (status_text r) t))"

definition lines_left :: "u8 list list \<Rightarrow> u8 list list" where
  "lines_left ls = tl (dropWhile (\<lambda>l. l \<noteq> asc ''exit'' @ [10]) ls)"

text \<open>The commands that are executed: the lines before \<^verbatim>\<open>exit\<close> that are not empty.\<close>

definition commands :: "u8 list list \<Rightarrow> u8 list list" where
  "commands ls = filter (\<lambda>c. c \<noteq> []) (map butlast (takeWhile (\<lambda>l. l \<noteq> asc ''exit'' @ [10]) ls))"

lemma commands_Cons:
  "line \<noteq> asc ''exit'' @ [10] \<Longrightarrow>
   commands (line # ls) = (if butlast line = [] then commands ls else butlast line # commands ls)"
  by (simp add: commands_def)

locale shell_api = line_api +
  fixes effect :: "u8 list \<Rightarrow> 'b \<Rightarrow> int \<times> 'b"
    and allowed :: "u8 list \<Rightarrow> bool"
  assumes execute_effect: "ok s \<Longrightarrow> 0 \<notin> set cmd \<Longrightarrow> cmd \<noteq> [] \<Longrightarrow> length cmd \<le> 127 \<Longrightarrow>
      length rest \<le> 1024 \<Longrightarrow> allowed cmd \<Longrightarrow>
      runs (os_execute os (cmd @ 0 # rest) s) (\<lambda>(r, s'). r = fst (effect cmd (u_out (absu s))) \<and> ok s' \<and>
        absu s' = (absu s)\<lparr>u_out := snd (effect cmd (u_out (absu s)))\<rparr>)"
begin

lemma report_statusE:
  assumes "ok s"
  obtains s' where "report_status os r s = Some s'" and "shows_text (status_text r) s s'"
proof -
  note f = fdputs_litnE [OF assms]
  obtain a where a: "ece391_fdputs os 1 (litn ''no such command'') s = Some a"
    "shows_text (asc ''no such command'' @ [10]) s a"
    by (rule f [of "''no such command''"]) auto
  obtain b where b: "ece391_fdputs os 1 (litn ''program terminated by exception'') s = Some b"
    "shows_text (asc ''program terminated by exception'' @ [10]) s b"
    by (rule f [of "''program terminated by exception''"]) auto
  obtain c where c: "ece391_fdputs os 1 (litn ''program terminated abnormally'') s = Some c"
    "shows_text (asc ''program terminated abnormally'' @ [10]) s c"
    by (rule f [of "''program terminated abnormally''"]) auto
  show ?thesis
    using a b c shows_text_refl [OF assms] that
    unfolding report_status_def status_text_def by (cases "r = -1"; cases "r = 256"; cases "r = 0") simp_all
qed

text \<open>One turn of the loop up to the decision what to do with the line.\<close>

lemma shell_loop_turn:
  assumes "ok s" and "u_in (absu s) = line # ls" and "length buf = 1024"
  obtains l rest s2 where "line = l @ [10]" and "0 \<notin> set l" and "length l \<le> 127"
    and "length (l @ 0 # rest) = 1024" and "ok s2"
    and "absu s2 = (absu s)\<lparr>u_in := ls, u_out := emit line (emit (asc ''391OS> '') (u_out (absu s)))\<rparr>"
    and "shell_loop os buf s = (if l = asc ''exit'' then Some (0, s2)
      else if l = [] then shell_loop os (l @ 0 # rest) s2
      else do { (rval, st) \<leftarrow> os_execute os (l @ 0 # rest) s2; st \<leftarrow> report_status os rval st;
                shell_loop os (l @ 0 # rest) st })"
proof -
  define prompt where "prompt = ''391OS> ''"
  define quit where "quit = asc ''exit''"
  have q0: "0 \<notin> set quit" "lit ''exit'' = quit @ [0]" by (auto simp: quit_def lit_def)
  obtain s1 where 1: "ece391_fdputs os 1 (lit prompt) s = Some s1" "shows_text (asc prompt) s s1"
    by (rule fdputs_litE [OF assms(1), of prompt]) (auto simp: prompt_def)
  have a1: "u_in (absu s1) = line # ls" using 1(2) assms(2) by (simp add: shows_text_def)
  obtain l s2 where 2: "line = l @ [10]" "0 \<notin> set l" "length l \<le> 127"
    "os_read os 0 buf 1023 s1 = Some (int (length l) + 1, l @ 10 # drop (Suc (length l)) buf, s2)"
    "ok s2" "absu s2 = (absu s1)\<lparr>u_in := ls, u_out := emit (l @ [10]) (u_out (absu s1))\<rparr>"
    using lineE [OF shows_text_ok [OF 1(2)] a1, of 1023 buf] assms(3) cap by auto
  let ?rest = "drop (Suc (length l)) buf"
  have i: "idx (l @ 10 # ?rest) (int (length l)) = Some 10" by simp
  have p: "put (l @ 10 # ?rest) (int (length l)) 0 = Some (l @ 0 # ?rest)"
    by (simp add: list_update_append)
  obtain d where d: "ece391_strcmp (l @ 0 # ?rest) (quit @ [0]) = Some d" "d = 0 \<longleftrightarrow> l = quit"
    using ece391_strcmp_eq [of "l @ 0 # ?rest" "quit @ [0]"] cstr_id [OF 2(2)] cstr_id [OF q0(1)] by auto
  have z: "idx (l @ 0 # ?rest) 0 = Some (if l = [] then 0 else hd l)" by (cases l) simp_all
  have "hd l \<noteq> 0" if "l \<noteq> []" using 2(2) that by (cases l) auto
  then have loop: "shell_loop os buf s = (if l = quit then Some (0, s2)
      else if l = [] then shell_loop os (l @ 0 # ?rest) s2
      else do { (rval, st) \<leftarrow> os_execute os (l @ 0 # ?rest) s2; st \<leftarrow> report_status os rval st;
                shell_loop os (l @ 0 # ?rest) st })"
    unfolding shell_loop.simps [of os buf s] prompt_def [symmetric] q0(2)
    by (simp add: 1(1) 2(4) i p d z Let_def del: idx_nat put_nat idx_0)
  show ?thesis
    by (rule that [OF 2(1-3) _ 2(5) _ loop [unfolded quit_def]])
      (use 1(2) 2 assms(3) in \<open>simp_all add: shows_text_def prompt_def\<close>)
qed

lemma shell_loop_session:
  assumes "ok s" and "u_in (absu s) = ls" and "asc ''exit'' @ [10] \<in> set ls"
    and "\<forall>cmd\<in>set (commands ls). allowed cmd" and "length buf = 1024"
  shows "runs (shell_loop os buf s) (\<lambda>(r, s'). r = 0 \<and> ok s' \<and> absu s' = (absu s)
    \<lparr>u_in := lines_left ls, u_out := session emit effect ls (u_out (absu s))\<rparr>)"
  using assms
proof (induction ls arbitrary: s buf)
  case (Cons line ls)
  define quit where "quit = asc ''exit''"
  define t where "t = emit line (emit (asc ''391OS> '') (u_out (absu s)))"
  obtain l rest s2 where 2: "line = l @ [10]" "0 \<notin> set l" "length l \<le> 127" "length (l @ 0 # rest) = 1024"
    "ok s2" "absu s2 = (absu s)\<lparr>u_in := ls, u_out := t\<rparr>"
    "shell_loop os buf s = (if l = quit then Some (0, s2)
      else if l = [] then shell_loop os (l @ 0 # rest) s2
      else do { (rval, st) \<leftarrow> os_execute os (l @ 0 # rest) s2; st \<leftarrow> report_status os rval st;
                shell_loop os (l @ 0 # rest) st })"
    unfolding t_def quit_def by (rule shell_loop_turn [OF Cons.prems(1,2,5)])
  have line: "line = asc ''exit'' @ [10] \<longleftrightarrow> l = quit" "butlast line = l"
    using 2(1) by (simp_all add: quit_def)
  show ?case
  proof (cases "l = quit")
    case True
    then have "session emit effect (line # ls) (u_out (absu s)) = t"
      unfolding session.simps line t_def [symmetric] quit_def [symmetric] Let_def by simp
    moreover have "lines_left (line # ls) = ls" using True line(1) by (simp add: lines_left_def)
    ultimately show ?thesis using True 2 by simp
  next
    case nq: False
    have m: "asc ''exit'' @ [10] \<in> set ls" "\<forall>cmd\<in>set (commands ls). allowed cmd"
      using Cons.prems(3,4) nq line by (auto simp: commands_Cons)
    have al: "l \<noteq> [] \<Longrightarrow> allowed l" using Cons.prems(4) nq line by (simp add: commands_Cons)
    have ll: "lines_left (line # ls) = lines_left ls" using nq line by (simp add: lines_left_def)
    have ses: "session emit effect (line # ls) (u_out (absu s)) =
        (if l = [] then session emit effect ls t
         else let (r, t) = effect l t in session emit effect ls (emit (status_text r) t))"
      unfolding session.simps line t_def [symmetric] quit_def [symmetric] Let_def using nq by simp
    show ?thesis
    proof (cases "l = []")
      case True
      have "runs (shell_loop os (l @ 0 # rest) s2) (\<lambda>(r, s'). r = 0 \<and> ok s' \<and> absu s' = (absu s2)
          \<lparr>u_in := lines_left ls, u_out := session emit effect ls (u_out (absu s2))\<rparr>)"
        using 2(6) by (intro Cons.IH [OF 2(5) _ m(1,2) 2(4)]) simp
      then show ?thesis
        unfolding 2(7) if_not_P [OF nq] if_P [OF True] ll ses by (rule runs_mono) (auto simp: 2(6))
    next
      case False
      obtain s3 where 3: "os_execute os (l @ 0 # rest) s2 = Some (fst (effect l t), s3)"
        "ok s3" "absu s3 = (absu s2)\<lparr>u_out := snd (effect l t)\<rparr>"
        using execute_effect [OF 2(5,2) False 2(3) _ al [OF False], of rest] 2(4,6) unfolding runs_iff by auto
      obtain s4 where 4: "report_status os (fst (effect l t)) s3 = Some s4"
        "shows_text (status_text (fst (effect l t))) s3 s4"
        by (rule report_statusE [OF 3(2)])
      have a4: "ok s4" "absu s4 = (absu s)\<lparr>u_in := ls, u_out := emit (status_text (fst (effect l t))) (snd (effect l t))\<rparr>"
        using 4(2) 3(3) 2(6) by (simp_all add: shows_text_def)
      have "runs (shell_loop os (l @ 0 # rest) s4) (\<lambda>(r, s'). r = 0 \<and> ok s' \<and> absu s' = (absu s4)
          \<lparr>u_in := lines_left ls, u_out := session emit effect ls (u_out (absu s4))\<rparr>)"
        using a4(2) by (intro Cons.IH [OF a4(1) _ m(1,2) 2(4)]) simp
      then show ?thesis
        unfolding 2(7) if_not_P [OF nq] if_not_P [OF False] ll ses
        by (simp add: 3(1) 4(1) split_beta Let_def, elim runs_mono) (auto simp: a4(2))
    qed
  qed
qed simp

lemma shell_session:
  assumes "ok s" and "asc ''exit'' @ [10] \<in> set (u_in (absu s))"
    and "\<forall>cmd\<in>set (commands (u_in (absu s))). allowed cmd" and "length buf = 1024"
  shows "runs (shell_main os buf s) (\<lambda>(r, s'). r = 0 \<and> ok s' \<and> absu s' = (absu s)
    \<lparr>u_in := lines_left (u_in (absu s)), u_out := session emit effect (u_in (absu s))
      (emit (asc ''Starting 391 Shell'' @ [10]) (u_out (absu s)))\<rparr>)"
proof -
  define banner where "banner = ''Starting 391 Shell''"
  obtain s1 where 1: "ece391_fdputs os 1 (litn banner) s = Some s1" "shows_text (asc banner @ [10]) s s1"
    by (rule fdputs_litnE [OF assms(1), of banner]) (auto simp: banner_def)
  have a: "absu s1 = (absu s)\<lparr>u_out := emit (asc banner @ [10]) (u_out (absu s))\<rparr>"
    using 1(2) by (simp add: shows_text_def)
  have "runs (shell_loop os buf s1) (\<lambda>(r, s'). r = 0 \<and> ok s' \<and> absu s' = (absu s1)
    \<lparr>u_in := lines_left (u_in (absu s)), u_out := session emit effect (u_in (absu s)) (u_out (absu s1))\<rparr>)"
    using a assms(2-4) by (intro shell_loop_session [OF shows_text_ok [OF 1(2)]]) simp_all
  then show ?thesis
    unfolding shell_main_def banner_def [symmetric] using 1(1) by (simp add: a)
qed

end

end
