(* ===== verification/Grep.thy ===== *)
theory Grep
  imports UserSpec
begin

text \<open>
  \<^verbatim>\<open>grep\<close> prints exactly the lines that contain the pattern, although it reads the file in pieces
  of at most 1024 bytes and carries the unfinished line at the end of a piece over to the next.
\<close>

section \<open>Lines and matches\<close>

function text_lines :: "u8 list \<Rightarrow> u8 list list" where
  "text_lines xs =
     (if xs = [] then []
      else takeWhile (\<lambda>c. c \<noteq> 10) xs # text_lines (tl (dropWhile (\<lambda>c. c \<noteq> 10) xs)))"
  by pat_completeness auto
termination
proof (relation "measure length")
  show "(tl (dropWhile (\<lambda>c. c \<noteq> 10) xs), xs) \<in> measure length" if "xs \<noteq> []" for xs :: "u8 list"
    using that length_dropWhile_le [of "\<lambda>c. c \<noteq> 10" xs] by (cases xs) (auto simp: le_imp_less_Suc)
qed simp

declare text_lines.simps [simp del]

definition contains :: "u8 list \<Rightarrow> u8 list \<Rightarrow> bool" where
  "contains pat l \<longleftrightarrow> (\<exists>i<length l. take (length pat) (drop i l) = pat)"

definition line_text :: "u8 list \<Rightarrow> u8 list \<Rightarrow> u8 list \<Rightarrow> u8 list" where
  "line_text pat fname l = (if contains pat l then fname @ [58] @ l @ [10] else [])"

definition grep_text :: "u8 list \<Rightarrow> u8 list \<Rightarrow> u8 list \<Rightarrow> u8 list" where
  "grep_text pat fname t = concat (map (line_text pat fname) (text_lines t))"

lemma text_lines_Nil [simp]: "text_lines [] = []"
  by (subst text_lines.simps) simp

lemma text_lines_newline:
  assumes "10 \<notin> set l"
  shows "text_lines (l @ 10 # r) = l # text_lines r"
proof -
  have "\<forall>c\<in>set l. c \<noteq> 10" using assms by auto
  then show ?thesis by (subst text_lines.simps) (simp add: takeWhile_append dropWhile_append3)
qed

lemma text_lines_last:
  assumes "10 \<notin> set l"
  shows "text_lines l = (if l = [] then [] else [l])"
proof -
  have "\<forall>c\<in>set l. c \<noteq> 10" using assms by auto
  then have w: "takeWhile (\<lambda>c. c \<noteq> 10) l = l" "dropWhile (\<lambda>c. c \<noteq> 10) l = []"
    by (simp_all add: takeWhile_eq_all_conv dropWhile_eq_Nil_conv)
  show ?thesis by (subst text_lines.simps) (simp only: w list.sel text_lines_Nil)
qed

lemma grep_text_newline:
  "10 \<notin> set l \<Longrightarrow> grep_text pat fname (l @ 10 # r) = line_text pat fname l @ grep_text pat fname r"
  by (simp add: grep_text_def text_lines_newline)

lemma grep_text_last: "10 \<notin> set l \<Longrightarrow> grep_text pat fname l = line_text pat fname l"
  by (simp add: grep_text_def text_lines_last line_text_def contains_def)

lemma text_lines_long:
  assumes "10 \<notin> set xs" and "xs \<noteq> []"
  shows "\<exists>l\<in>set (text_lines (xs @ ys)). length xs \<le> length l"
proof -
  have "\<forall>c\<in>set xs. c \<noteq> 10" using assms(1) by auto
  then have "takeWhile (\<lambda>c. c \<noteq> 10) (xs @ ys) = xs @ takeWhile (\<lambda>c. c \<noteq> 10) ys"
    by (simp add: takeWhile_append)
  then show ?thesis using assms(2) by (subst text_lines.simps) simp
qed

definition name_of :: "u8 list \<Rightarrow> u8 list" where
  "name_of p = cstr (p @ [0])"

definition greppable :: "(u8 list \<Rightarrow> u8 list option) \<Rightarrow> u8 list \<Rightarrow> bool" where
  "greppable dir p \<longleftrightarrow> p \<noteq> [] \<and> (hd p = 46 \<or> (\<exists>t. dir (name_of p) = Some t \<and> 0 \<notin> set t \<and>
     (\<forall>l\<in>set (text_lines t). length l < 1024)))"

definition entry_text :: "(u8 list \<Rightarrow> u8 list option) \<Rightarrow> u8 list \<Rightarrow> u8 list \<Rightarrow> u8 list" where
  "entry_text dir pat p =
     (if hd p = 46 then [] else grep_text pat (name_of p) (the (dir (name_of p))))"

definition dir_text :: "(u8 list \<Rightarrow> u8 list option) \<Rightarrow> u8 list \<Rightarrow> u8 list list \<Rightarrow> u8 list" where
  "dir_text dir pat ps = concat (map (entry_text dir pat) ps)"

section \<open>The scan for the end of a line\<close>

lemma find_line_end_newline:
  "10 \<notin> set l \<Longrightarrow> length pre + length l < hi \<Longrightarrow>
   find_line_end (pre @ l @ 10 # r) (int hi) (int (length pre)) = Some (int (length pre + length l))"
proof (induction l arbitrary: pre)
  case Nil
  then show ?case by (subst find_line_end.simps) (simp add: nth_append)
next
  case (Cons c l)
  then show ?case
    using Cons.IH [of "pre @ [c]"]
    by (subst find_line_end.simps) (simp add: nth_append add.commute)
qed

lemma find_line_end_none:
  "10 \<notin> set l \<Longrightarrow>
   find_line_end (pre @ l @ r) (int (length pre + length l)) (int (length pre)) = Some (int (length pre + length l))"
proof (induction l arbitrary: pre)
  case Nil
  then show ?case by (subst find_line_end.simps) simp
next
  case (Cons c l)
  then show ?case
    using Cons.IH [of "pre @ [c]"]
    by (subst find_line_end.simps) (simp add: nth_append add.commute)
qed

section \<open>The search of a line\<close>

context out_api
begin

lemma fdputsE:
  assumes "ok s" and "0 \<in> set str" and "length str \<le> cap"
  obtains s' where "ece391_fdputs os 1 str s = Some s'" and "shows_text (cstr str) s s'"
  using fdputs_out [OF assms] unfolding runs_iff by auto

lemma litE:
  assumes "ok s" and "length t \<le> 1000" and "0 \<notin> set (asc t)"
  obtains s' s'' where "ece391_fdputs os 1 (lit t) s = Some s'" and "shows_text (asc t) s s'"
    and "ece391_fdputs os 1 (litn t) s = Some s''" and "shows_text (asc t @ [10]) s s''"
  using fdputs_lit [OF assms] unfolding runs_iff by auto

lemma search_line_prints:
  assumes "ok s" and pat: "pat \<noteq> []" "0 \<notin> set pat" "unat (hd pat) < 128" "length pat < 2 ^ 32"
    and str: "str = pat @ 0 # srest" and name: "0 \<in> set fname" "length fname \<le> cap"
    and data: "data = pre @ l @ 0 # junk" "length data \<le> cap" and l: "0 \<notin> set l" and i: "i \<le> length l"
  shows "runs (search_line os str fname (of_nat (length pat)) data (int (length pre))
      (int (length pre + length l)) (int (length pre + i)) s)
    (shows_text (if \<exists>j<length l. i \<le> j \<and> take (length pat) (drop j l) = pat
       then cstr fname @ [58] @ l @ [10] else []) s)"
  using i
proof (induction "length l - i" arbitrary: i)
  case 0
  then have n: "\<not> (\<exists>j<length l. i \<le> j \<and> take (length pat) (drop j l) = pat)" by auto
  show ?case
    unfolding if_not_P [OF n] using 0 assms(1) by (subst search_line.simps) (simp add: shows_text_refl)
next
  case (Suc n)
  then have il: "i < length l" by simp
  have p: "at_index data (int (length pre + i)) = Some (drop i l @ 0 # junk)"
    "idx data (int (length pre + i)) = Some (l ! i)"
    using il unfolding at_index_nat idx_nat by (simp_all add: data nth_append)
  have h: "idx str 0 = Some (hd pat)" using pat(1) by (cases pat) (simp_all add: str)
  have dl: "0 \<notin> set (drop i l)" using l set_drop_subset by fastforce
  have c: "cstr (drop i l @ 0 # junk) = drop i l" "cstr str = pat"
    using dl pat(2) by (simp_all add: cstr_id str)
  obtain d where d: "ece391_strncmp (drop i l @ 0 # junk) str (of_nat (length pat)) = Some d"
    "d = 0 \<longleftrightarrow> take (length pat) (drop i l) = pat"
    using ece391_strncmp_eq [of "drop i l @ 0 # junk" str "of_nat (length pat)"] pat(4)
    by (auto simp: c) (auto simp: str)
  have m: "take (length pat) (drop i l) = pat \<Longrightarrow> l ! i = hd pat"
    using pat(1) il by (metis hd_drop_conv_nth hd_take length_greater_0_conv)
  have sg: "sint (hd pat) = uint (l ! i) \<longleftrightarrow> l ! i = hd pat"
  proof -
    have "sint (hd pat) = uint (hd pat)"
    proof -
      have "int (unat (hd pat)) < int 128" using pat(3) by (simp only: of_nat_less_iff)
      then have "uint (hd pat) < 128" by simp
      moreover have "- 128 \<le> uint (hd pat)" by (rule order_trans [OF _ unsigned_greater_eq]) simp
      ultimately show ?thesis by (simp add: sint_uint signed_take_bit_int_eq_self)
    qed
    then show ?thesis by (auto simp: word_uint_eq_iff)
  qed
  show ?case
  proof (cases "take (length pat) (drop i l) = pat")
    case True
    obtain s1 where 1: "ece391_fdputs os 1 fname s = Some s1" "shows_text (cstr fname) s s1"
      using fdputsE [OF assms(1) name] by blast
    obtain s2 where 2: "ece391_fdputs os 1 (lit '':'') s1 = Some s2" "shows_text [58] s1 s2"
      using litE [OF shows_text_ok [OF 1(2)], of "'':''"] by (auto simp: asc_def)
    obtain s3 where 3: "ece391_fdputs os 1 (l @ 0 # junk) s2 = Some s3" "shows_text l s2 s3"
      using fdputsE [OF shows_text_ok [OF 2(2)], of "l @ 0 # junk"] data l by (auto simp: cstr_id)
    obtain s4 where 4: "ece391_fdputs os 1 (litn '''') s3 = Some s4" "shows_text [10] s3 s4"
      using litE [OF shows_text_ok [OF 3(2)], of "''''"] by auto
    have "shows_text (cstr fname @ [58] @ l @ [10]) s s4"
      by (rule shows_text_trans [OF 1(2) shows_text_trans [OF 2(2) shows_text_trans [OF 3(2) 4(2)]]])
    moreover have a: "at_index data (int (length pre)) = Some (l @ 0 # junk)" by (simp add: data)
    moreover have "\<exists>j<length l. i \<le> j \<and> take (length pat) (drop j l) = pat" using il True by auto
    ultimately show ?thesis
      using il m [OF True] True sg d
      by (subst search_line.simps) (simp only: p h, simp add: 1 2 3 4 a [simplified])
  next
    case False
    have e: "(\<exists>j<length l. i \<le> j \<and> take (length pat) (drop j l) = pat) \<longleftrightarrow>
        (\<exists>j<length l. Suc i \<le> j \<and> take (length pat) (drop j l) = pat)"
      using False by (metis Suc_leD Suc_leI le_neq_implies_less)
    have "runs (search_line os str fname (of_nat (length pat)) data (int (length pre))
        (int (length pre + length l)) (int (length pre + Suc i)) s)
      (shows_text (if \<exists>j<length l. Suc i \<le> j \<and> take (length pat) (drop j l) = pat
         then cstr fname @ [58] @ l @ [10] else []) s)"
      using Suc by (intro Suc.hyps) auto
    moreover have "search_line os str fname (of_nat (length pat)) data (int (length pre))
        (int (length pre + length l)) (int (length pre + i)) s =
      search_line os str fname (of_nat (length pat)) data (int (length pre))
        (int (length pre + length l)) (int (length pre + Suc i)) s"
      using il False d
      by (subst search_line.simps) (simp only: p h sg, simp add: add.commute add.left_commute)
    ultimately show ?thesis unfolding e by (simp only:)
  qed
qed

lemma search_lineE:
  assumes "ok s" and "pat \<noteq> []" "0 \<notin> set pat" "unat (hd pat) < 128" "length pat < 2 ^ 32"
    and "0 \<in> set fname" "length fname \<le> cap" and "length (pre @ l @ 0 # junk) \<le> cap" and "0 \<notin> set l"
  obtains s' where "search_line os (pat @ 0 # srest) fname (of_nat (length pat)) (pre @ l @ 0 # junk)
      (int (length pre)) (int (length pre + length l)) (int (length pre)) s = Some s'"
    and "shows_text (line_text pat (cstr fname) l) s s'"
proof -
  have e: "(\<exists>j<length l. 0 \<le> j \<and> take (length pat) (drop j l) = pat) = contains pat l"
    by (simp add: contains_def)
  show ?thesis
    using search_line_prints [OF assms(1-5) refl assms(6,7) refl assms(8,9), of 0] that
    unfolding e line_text_def runs_iff by auto
qed

text \<open>
  The loop over the lines of a buffer that holds \<open>rest\<close> from \<^verbatim>\<open>line_start\<close> to \<^verbatim>\<open>last\<close>. It shows
  the matching lines and leaves the start \<open>p\<close> of the next line in the buffer. More text \<open>foll\<close> can
  follow only when the buffer is full.
\<close>

definition carried :: "u8 list \<Rightarrow> int \<Rightarrow> u8 list \<Rightarrow> bool" where
  "carried p hi data \<longleftrightarrow> (\<exists>junk. data = p @ junk \<and> junk \<noteq> []) \<and> hi = int (length p) \<and>
     length data = 1025 \<and> last data \<noteq> 10 \<and> 10 \<notin> set p"

lemma search_lines_prints:
  assumes "ok s" and pat: "pat \<noteq> []" "0 \<notin> set pat" "unat (hd pat) < 128" "length pat < 2 ^ 32"
    and name: "0 \<in> set fname" "length fname \<le> cap"
    and data: "length (pre @ rest @ junk) = 1025" "junk \<noteq> []" "last junk \<noteq> 10" "0 \<notin> set rest"
    and foll: "foll \<noteq> [] \<Longrightarrow> cnt \<noteq> 0 \<and> length junk = 1 \<and> (pre \<noteq> [] \<or> 10 \<in> set rest)"
  shows "runs (search_lines os (pat @ 0 # srest) fname (of_nat (length pat)) cnt
      (int (length pre + length rest)) (int (length pre)) (pre @ rest @ junk) s)
    (\<lambda>(hi, data', s'). \<exists>p e. carried p hi data' \<and> set p \<subseteq> set rest \<and> (cnt = 0 \<longrightarrow> p = []) \<and>
      shows_text e s s' \<and>
      grep_text pat (cstr fname) (rest @ foll) = e @ grep_text pat (cstr fname) (p @ foll) \<and>
          set (text_lines (p @ foll)) \<subseteq> set (text_lines (rest @ foll)))"
  using assms(1) data foll
proof (induction "length rest" arbitrary: rest pre s rule: less_induct)
  case less
  let ?str = "pat @ 0 # srest" and ?n = "of_nat (length pat) :: u32"
  show ?case
  proof (cases "10 \<in> set rest")
    case True
    then obtain l r where r: "rest = l @ 10 # r" "10 \<notin> set l" by (metis split_list_first)
    have l: "0 \<notin> set l" "0 \<notin> set r" using less.prems(5) r by auto
    have f: "find_line_end (pre @ rest @ junk) (int (length pre + length rest)) (int (length pre)) =
        Some (int (length pre + length l))"
      using find_line_end_newline [OF r(2), of pre "length pre + length rest" "r @ junk"] r by simp
    have i: "idx (pre @ rest @ junk) (int (length pre + length l)) = Some 10"
      "put (pre @ rest @ junk) (int (length pre + length l)) 0 = Some (pre @ l @ 0 # r @ junk)"
      unfolding idx_nat put_nat using r by (simp_all add: nth_append list_update_append)
    have len: "length (pre @ l @ 0 # r @ junk) \<le> cap" using less.prems(2) r cap by simp
    obtain s1 where 1: "search_line os ?str fname ?n (pre @ l @ 0 # r @ junk) (int (length pre))
        (int (length pre + length l)) (int (length pre)) s = Some s1"
      "shows_text (line_text pat (cstr fname) l) s s1"
      using search_lineE [OF less.prems(1) pat name len l(1)] by metis
    have g: "grep_text pat (cstr fname) (rest @ foll) =
        line_text pat (cstr fname) l @ grep_text pat (cstr fname) (r @ foll)"
      using r by (simp add: grep_text_newline)
    have le: "int (length pre + length l) + 1 \<ge> int (length pre + length rest) \<longleftrightarrow> r = []"
      "int (length pre + length rest) \<le> 1 + int (length pre + length l) \<longleftrightarrow> r = []"
      by (cases r; simp add: r)+
    show ?thesis
    proof (cases "r = []")
      case True
      have "carried [] 0 (pre @ l @ 0 # r @ junk)"
        using less.prems(2-4) r by (simp add: carried_def)
      with 1(2) g True text_lines_newline [OF r(2), of foll] r(1) have "\<exists>p e. carried p 0 (pre @ l @ 0 # r @ junk) \<and> set p \<subseteq> set rest \<and>
          (cnt = 0 \<longrightarrow> p = []) \<and> shows_text e s s1 \<and>
          grep_text pat (cstr fname) (rest @ foll) = e @ grep_text pat (cstr fname) (p @ foll) \<and>
          set (text_lines (p @ foll)) \<subseteq> set (text_lines (rest @ foll))"
        by (intro exI [of _ "[]"] exI [of _ "line_text pat (cstr fname) l"]) auto
      then show ?thesis
        by (subst search_lines.simps) (simp add: f i 1 1(1) [unfolded True append_Nil] le True del: of_nat_add idx_nat put_nat)
    next
      case False
      let ?pre = "pre @ l @ [0]"
      have "runs (search_lines os ?str fname ?n cnt (int (length ?pre + length r)) (int (length ?pre))
          (?pre @ r @ junk) s1)
        (\<lambda>(hi, data', s'). \<exists>p e. carried p hi data' \<and> set p \<subseteq> set r \<and> (cnt = 0 \<longrightarrow> p = []) \<and>
          shows_text e s1 s' \<and>
          grep_text pat (cstr fname) (r @ foll) = e @ grep_text pat (cstr fname) (p @ foll) \<and>
          set (text_lines (p @ foll)) \<subseteq> set (text_lines (r @ foll)))"
        using less.prems r l shows_text_ok [OF 1(2)] by (intro less.hyps) auto
      then have "runs (search_lines os ?str fname ?n cnt (int (length ?pre + length r)) (int (length ?pre))
          (?pre @ r @ junk) s1)
        (\<lambda>(hi, data', s'). \<exists>p e. carried p hi data' \<and> set p \<subseteq> set rest \<and> (cnt = 0 \<longrightarrow> p = []) \<and>
          shows_text e s s' \<and>
          grep_text pat (cstr fname) (rest @ foll) = e @ grep_text pat (cstr fname) (p @ foll) \<and>
          set (text_lines (p @ foll)) \<subseteq> set (text_lines (rest @ foll)))"
      proof (rule runs_mono, clarify)
        fix hi data' s' p e
        assume "carried p hi data'" "set p \<subseteq> set r" "cnt = 0 \<longrightarrow> p = []" "shows_text e s1 s'"
          "grep_text pat (cstr fname) (r @ foll) = e @ grep_text pat (cstr fname) (p @ foll)"
          "set (text_lines (p @ foll)) \<subseteq> set (text_lines (r @ foll))"
        then show "\<exists>p e. carried p hi data' \<and> set p \<subseteq> set rest \<and> (cnt = 0 \<longrightarrow> p = []) \<and>
          shows_text e s s' \<and>
          grep_text pat (cstr fname) (rest @ foll) = e @ grep_text pat (cstr fname) (p @ foll) \<and>
          set (text_lines (p @ foll)) \<subseteq> set (text_lines (rest @ foll))"
          using shows_text_trans [OF 1(2)] g r text_lines_newline [OF r(2), of "r @ foll"]
          by (intro exI [of _ p] exI [of _ "line_text pat (cstr fname) l @ e"]) auto
      qed
      moreover have e1: "int (length pre + length l) + 1 = int (length ?pre)"
        and e2: "1 + int (length pre + length l + length r) = int (length pre + length rest)"
        by (simp_all add: r)
      moreover have "search_lines os ?str fname ?n cnt (int (length pre + length rest)) (int (length pre))
          (pre @ rest @ junk) s = search_lines os ?str fname ?n cnt (int (length ?pre + length r))
          (int (length ?pre)) (?pre @ r @ junk) s1"
        using False by (subst search_lines.simps) (simp add: f i 1 le e1 e2 del: of_nat_add idx_nat put_nat)
      ultimately show ?thesis by (simp only:)
    qed
  next
    case False
    obtain j junk' where j: "junk = j # junk'" using less.prems(3) by (cases junk) auto
    have f: "find_line_end (pre @ rest @ junk) (int (length pre + length rest)) (int (length pre)) =
        Some (int (length pre + length rest))"
      by (rule find_line_end_none [OF False])
    have i: "idx (pre @ rest @ junk) (int (length pre + length rest)) = Some j"
      "put (pre @ rest @ junk) (int (length pre + length rest)) 0 = Some (pre @ rest @ 0 # junk')"
      unfolding idx_nat put_nat using j by (simp_all add: nth_append list_update_append)
    have hl: "int (length pre + length rest) - int (length pre) = int (length rest)" by simp
    have lst: "last (0 # junk') \<noteq> 10" using less.prems(4) j by auto
    show ?thesis
    proof (cases "10 \<noteq> j \<and> 0 \<noteq> cnt \<and> pre \<noteq> []")
      case True
      obtain x where x: "ece391_strcpy (pre @ rest @ 0 # junk') 0 (int (length pre)) =
          Some (rest @ 0 # x @ junk')" "length x = length pre" "x \<noteq> [] \<longrightarrow> last x = 0"
        using ece391_strcpy_down [of _ "[]" pre rest junk'] less.prems(5) by auto
      have "carried rest (int (length rest)) (rest @ 0 # x @ junk')"
        using less.prems(2) lst x j False by (auto simp: carried_def last_append split: if_splits)
      then have "\<exists>p e. carried p (int (length rest)) (rest @ 0 # x @ junk') \<and> set p \<subseteq> set rest \<and>
          (cnt = 0 \<longrightarrow> p = []) \<and> shows_text e s s \<and>
          grep_text pat (cstr fname) (rest @ foll) = e @ grep_text pat (cstr fname) (p @ foll) \<and>
          set (text_lines (p @ foll)) \<subseteq> set (text_lines (rest @ foll))"
        using True shows_text_refl [OF less.prems(1)] by (intro exI [of _ rest] exI [of _ "[]"]) simp
      then show ?thesis
        using True by (subst search_lines.simps) (simp add: f i x hl del: of_nat_add idx_nat put_nat)
    next
      case nc: False
      have m: "foll = []"
      proof (rule ccontr)
        assume "foll \<noteq> []"
        then have "cnt \<noteq> 0" "junk' = []" "pre \<noteq> []" using less.prems(6) False j by auto
        then show False using nc less.prems(4) j by auto
      qed
      have len: "length (pre @ rest @ 0 # junk') \<le> cap" using less.prems(2) j cap by simp
      obtain s1 where 1: "search_line os ?str fname ?n (pre @ rest @ 0 # junk') (int (length pre))
          (int (length pre + length rest)) (int (length pre)) s = Some s1"
        "shows_text (line_text pat (cstr fname) rest) s s1"
        using search_lineE [OF less.prems(1) pat name len less.prems(5)] by metis
      have "carried [] 0 (pre @ rest @ 0 # junk')"
        using less.prems(2) lst j by (simp add: carried_def)
      then have "\<exists>p e. carried p 0 (pre @ rest @ 0 # junk') \<and> set p \<subseteq> set rest \<and>
          (cnt = 0 \<longrightarrow> p = []) \<and> shows_text e s s1 \<and>
          grep_text pat (cstr fname) (rest @ foll) = e @ grep_text pat (cstr fname) (p @ foll) \<and>
          set (text_lines (p @ foll)) \<subseteq> set (text_lines (rest @ foll))"
        using 1(2) m False grep_text_last [OF False, of pat "cstr fname"] grep_text_last [of "[]" pat "cstr fname"]
        by (intro exI [of _ "[]"] exI [of _ "line_text pat (cstr fname) rest"])
          (simp add: line_text_def contains_def)
      then show ?thesis
        using nc by (subst search_lines.simps) (auto simp: f i 1 simp del: of_nat_add idx_nat put_nat)
    qed
  qed
qed

end

context file_api
begin

lemma grep_loop_prints:
  assumes "ok s" and "u_files (absu s) fd = Some (t, pos)" and "pos \<le> length t" and "0 \<notin> set t"
    and "carried p hi data" and "0 \<notin> set p"
    and "\<forall>l\<in>set (text_lines (p @ drop pos t)). length l < 1024"
    and pat: "pat \<noteq> []" "0 \<notin> set pat" "unat (hd pat) < 128" "length pat < 2 ^ 32"
    and name: "0 \<in> set fname" "length fname \<le> cap"
  shows "runs (grep_loop os (pat @ 0 # srest) fname (of_nat (length pat)) fd hi data s) (\<lambda>(r, s').
    r = 0 \<and> ok s' \<and> absu s' = (absu s)\<lparr>u_files := (u_files (absu s))(fd \<mapsto> (t, length t)),
      u_out := emit (grep_text pat (cstr fname) (p @ drop pos t)) (u_out (absu s))\<rparr>)"
  using assms(1-7)
proof (induction "length t - pos" arbitrary: s pos p hi data rule: less_induct)
  case less
  let ?str = "pat @ 0 # srest" and ?n = "of_nat (length pat) :: u32" and ?f = "cstr fname"
    and ?e = "[] :: u8 list"
  obtain junk where c: "data = p @ junk" "junk \<noteq> []" "hi = int (length p)" "length (p @ junk) = 1025"
    "last junk \<noteq> 10" "10 \<notin> set p"
    using less.prems(5) by (auto simp: carried_def last_append)
  have lp: "length p < 1024"
    using text_lines_long [OF c(6), of "drop pos t"] less.prems(7) by (cases "p = []") auto
  define bs where "bs = take (1024 - length p) (drop pos t)"
  have lbs: "length p + length bs \<le> 1024" using lp by (simp add: bs_def)
  let ?junk = "drop (length bs) junk" and ?foll = "drop (pos + length bs) t"
  have hi: "1024 - hi = int (1024 - length p)" using c(3) lp by simp
  obtain s1 where 1: "os_read os fd junk (1024 - hi) s = Some (int (length bs), bs @ ?junk, s1)"
    "ok s1" "absu s1 = (absu s)\<lparr>u_files := (u_files (absu s))(fd \<mapsto> (t, pos + length bs))\<rparr>"
    unfolding hi by (rule readE [OF less.prems(1,2) _ _ bs_def, of junk]) (use c(4) cap in auto)
  have a: "at_index data hi = Some junk" by (simp add: c)
  have d: "bs @ ?foll = drop pos t"
    using take_drop_length [of "1024 - length p" "drop pos t"] by (simp add: bs_def [symmetric] add.commute)
  have j: "length ([] @ (p @ bs) @ ?junk) = 1025" "?junk \<noteq> []" "last ?junk \<noteq> 10"
    using c(2,4,5) lbs by auto
  have z: "0 \<notin> set (p @ bs)" using less.prems(4,6) d set_drop_subset [of pos t] by (metis Un_iff set_append subsetD)
  have cont: "int (length bs) \<noteq> 0 \<and> length ?junk = 1 \<and> ([] \<noteq> ([] :: u8 list) \<or> 10 \<in> set (p @ bs))" if "?foll \<noteq> []"
  proof -
    have l: "length p + length bs = 1024" using that lp by (auto simp: bs_def)
    then have "10 \<in> set (p @ bs)"
      using text_lines_long [of "p @ bs" ?foll] less.prems(7) d by (cases "p @ bs = []") fastforce+
    then show ?thesis using l c(4) lp by auto
  qed
  have "runs (search_lines os ?str fname ?n (int (length bs)) (int (length ?e + length (p @ bs))) (int (length ?e))
      (?e @ (p @ bs) @ ?junk) s1)
    (\<lambda>(hi, data', s'). \<exists>q e. carried q hi data' \<and> set q \<subseteq> set (p @ bs) \<and> (int (length bs) = 0 \<longrightarrow> q = []) \<and>
      shows_text e s1 s' \<and> grep_text pat ?f ((p @ bs) @ ?foll) = e @ grep_text pat ?f (q @ ?foll) \<and>
      set (text_lines (q @ ?foll)) \<subseteq> set (text_lines ((p @ bs) @ ?foll)))"
    by (rule search_lines_prints [OF 1(2) pat name j z cont])
  then obtain hi2 data2 s2 q e where 2: "search_lines os ?str fname ?n (int (length bs))
      (int (length p + length bs)) 0 (p @ bs @ ?junk) s1 = Some (hi2, data2, s2)"
    "carried q hi2 data2" "set q \<subseteq> set (p @ bs)" "bs = [] \<longrightarrow> q = []" "shows_text e s1 s2"
    "grep_text pat ?f (p @ drop pos t) = e @ grep_text pat ?f (q @ ?foll)"
    "set (text_lines (q @ ?foll)) \<subseteq> set (text_lines (p @ drop pos t))"
    unfolding runs_iff using d by auto
  have step: "grep_loop os ?str fname ?n fd hi data s =
      (if bs = [] then Some (0, s2) else grep_loop os ?str fname ?n fd hi2 data2 s2)"
    using 2(1) by (subst grep_loop.simps, simp only: a 1(1) bind.bind_lunit split_conv)
      (cases "bs = []", simp_all add: c add.commute)
  show ?case
  proof (cases "bs = []")
    case True
    then have "pos = length t" using less.prems(3) lp by (auto simp: bs_def)
    then show ?thesis
      using True step 1 2 by (simp add: shows_text_def grep_text_def)
  next
    case False
    then have m: "length t - (pos + length bs) < length t - pos" "pos + length bs \<le> length t"
      using less.prems(3) by (auto simp: bs_def)
    have "runs (grep_loop os ?str fname ?n fd hi2 data2 s2) (\<lambda>(r, s').
      r = 0 \<and> ok s' \<and> absu s' = (absu s2)\<lparr>u_files := (u_files (absu s2))(fd \<mapsto> (t, length t)),
        u_out := emit (grep_text pat ?f (q @ ?foll)) (u_out (absu s2))\<rparr>)"
    proof (rule less.hyps [OF m(1) _ _ m(2) less.prems(4) 2(2)])
      show "0 \<notin> set q" using 2(3) z by auto
      show "\<forall>l\<in>set (text_lines (q @ ?foll)). length l < 1024" using 2(7) less.prems(7) by auto
    qed (use 1 2 in \<open>simp_all add: shows_text_def\<close>)
    then show ?thesis
      unfolding step if_not_P [OF False]
      by (rule runs_mono) (use 1 2 in \<open>auto simp: shows_text_def emit_append\<close>)
  qed
qed

text \<open>One file: opened, its matching lines shown, closed again.\<close>

lemma do_one_file_prints:
  assumes "ok s" and "u_dir (absu s) (cstr fname) = Some t" and "\<not> {2..7} \<subseteq> u_open (absu s)"
    and "0 \<notin> set t" and "\<forall>l\<in>set (text_lines t). length l < 1024"
    and pat: "pat \<noteq> []" "0 \<notin> set pat" "unat (hd pat) < 128" "length pat < 2 ^ 32"
    and name: "0 \<in> set fname" "length fname \<le> cap"
    and data: "length data = 1025" "last data \<noteq> 10"
    and files: "\<And>fd. fd \<notin> u_open (absu s) \<Longrightarrow> u_files (absu s) fd = None"
  shows "runs (do_one_file os (pat @ 0 # srest) fname data s) (\<lambda>(r, s'). r = 0 \<and>
    shows_text (grep_text pat (cstr fname) t) s s')"
proof -
  have n: "ece391_strlen (pat @ 0 # srest) = Some (of_nat (length pat))"
    using pat(2) by (simp add: ece391_strlen_eq cstr_id)
  obtain fd s1 where 1: "os_open os fname s = Some (fd, s1)" "fd \<in> {2..7} - u_open (absu s)" "ok s1"
    "absu s1 = (absu s)\<lparr>u_open := insert fd (u_open (absu s)), u_files := (u_files (absu s))(fd \<mapsto> (t, 0))\<rparr>"
    using open_file [OF assms(1) name assms(2,3)] unfolding runs_iff by auto
  have "carried [] 0 data" using data by (auto simp: carried_def)
  then obtain s2 where 2: "grep_loop os (pat @ 0 # srest) fname (of_nat (length pat)) fd 0 data s1 = Some (0, s2)"
    "ok s2" "absu s2 = (absu s1)\<lparr>u_files := (u_files (absu s1))(fd \<mapsto> (t, length t)),
      u_out := emit (grep_text pat (cstr fname) t) (u_out (absu s1))\<rparr>"
    using grep_loop_prints [OF 1(3), of fd t 0 "[]" 0 data, OF _ _ assms(4) _ _ _ pat name, of srest] 1(4) assms(5)
    unfolding runs_iff by auto
  obtain s3 where 3: "os_close os fd s2 = Some (0, s3)" "ok s3"
    "absu s3 = (absu s2)\<lparr>u_open := u_open (absu s2) - {fd}, u_files := (u_files (absu s2))(fd := None)\<rparr>"
    using close_file [OF 2(2), of fd "(t, length t)"] 1(4) 2(3) unfolding runs_iff by auto
  have "u_files (absu s) fd = None" using files 1(2) by blast
  then have "absu s3 = (absu s)\<lparr>u_out := emit (grep_text pat (cstr fname) t) (u_out (absu s))\<rparr>"
    using 1 2 3 by (simp add: fun_upd_idem insert_absorb Diff_insert_absorb)
  then show ?thesis
    using 1(2) by (simp add: do_one_file_def n 1(1) 2(1) 3 shows_text_def)
qed

text \<open>
  The whole directory: each entry that does not start with a dot, under the name the program
  reads from the directory.
\<close>

lemma name_of_buf: "cstr (p @ 0 # rest) = name_of p"
  by (induction p) (auto simp: name_of_def)

lemma grep_files_prints:
  assumes "ok s" and "u_files (absu s) fd = Some (data, pos)" and "pos \<le> length data"
    and "length buf = 33" and "\<forall>p\<in>set (pieces 32 (drop pos data)). greppable (u_dir (absu s)) p"
    and "\<not> {2..7} \<subseteq> u_open (absu s)" and "\<And>fd. fd \<notin> u_open (absu s) \<Longrightarrow> u_files (absu s) fd = None"
    and pat: "pat \<noteq> []" "0 \<notin> set pat" "unat (hd pat) < 128" "length pat < 2 ^ 32"
    and junk: "length junk = 1025" "last junk \<noteq> 10"
  shows "runs (grep_files os (pat @ 0 # srest) junk fd buf s) (\<lambda>(r, s'). r = 0 \<and> ok s' \<and>
    absu s' = (absu s)\<lparr>u_files := (u_files (absu s))(fd \<mapsto> (data, length data)),
      u_out := emit (dir_text (u_dir (absu s)) pat (pieces 32 (drop pos data))) (u_out (absu s))\<rparr>)"
  using assms(1-7)
proof (induction "length data - pos" arbitrary: s pos buf rule: less_induct)
  case less
  let ?str = "pat @ 0 # srest" and ?dir = "u_dir (absu s)"
  define bs where "bs = take 32 (drop pos data)"
  let ?buf = "bs @ drop (length bs) buf" and ?rest = "drop (pos + length bs) data"
  obtain s1 where 1: "os_read os fd buf 32 s = Some (int (length bs), ?buf, s1)"
    "ok s1" "absu s1 = (absu s)\<lparr>u_files := (u_files (absu s))(fd \<mapsto> (data, pos + length bs))\<rparr>"
    using readE [OF less.prems(1,2) _ _ bs_def, of buf] less.prems(4) cap by auto
  show ?case
  proof (cases "bs = []")
    case True
    then have "pos = length data" using less.prems(3) by (simp add: bs_def)
    with 1 True less.prems(2) show ?thesis by (subst grep_files.simps) (simp add: dir_text_def)
  next
    case False
    have lb: "length bs \<le> 32" by (simp add: bs_def)
    have p: "length data - (pos + length bs) < length data - pos" "pos + length bs \<le> length data"
      using False less.prems(3) by (auto simp: bs_def)
    have ps: "pieces 32 (drop pos data) = bs # pieces 32 ?rest"
      using pieces_step [of 32 "drop pos data"] False by (auto simp: bs_def [symmetric] add.commute) (auto simp: bs_def)
    have g: "greppable ?dir bs" using less.prems(5) by (simp add: ps)
    have fdo: "fd \<in> u_open (absu s)" using less.prems(2,7) by fastforce
    have "\<exists>s2 buf2. length buf2 = 33 \<and> shows_text (entry_text ?dir pat bs) s1 s2 \<and>
      grep_files os ?str junk fd buf s = grep_files os ?str junk fd buf2 s2"
    proof (cases "hd bs = 46")
      case True
      have "grep_files os ?str junk fd buf s = grep_files os ?str junk fd ?buf s1"
        using False True by (subst grep_files.simps) (cases bs; simp add: 1(1))
      then show ?thesis
        using True shows_text_refl [OF 1(2)] lb less.prems(4)
        by (intro exI [of _ s1] exI [of _ ?buf]) (simp add: entry_text_def)
    next
      case nd: False
      obtain t where t: "?dir (name_of bs) = Some t" "0 \<notin> set t" "\<forall>l\<in>set (text_lines t). length l < 1024"
        using g nd by (auto simp: greppable_def)
      obtain x rest where r: "drop (length bs) buf = x # rest"
        using lb less.prems(4) by (cases "drop (length bs) buf") auto
      let ?name = "bs @ 0 # rest"
      have n: "put ?buf (int (length bs)) 0 = Some ?name" "length ?name = 33"
      proof -
        show "put ?buf (int (length bs)) 0 = Some ?name" by (simp add: r list_update_append)
        show "length ?name = 33" using lb less.prems(4) arg_cong [OF r, of length] by simp
      qed
      have "runs (do_one_file os ?str ?name junk s1) (\<lambda>(r, s'). r = 0 \<and>
          shows_text (grep_text pat (cstr ?name) t) s1 s')"
      proof (rule do_one_file_prints [OF 1(2) _ _ t(2,3) pat _ _ junk])
        show "length ?name \<le> cap" using n(2) cap by simp
        show "fd' \<notin> u_open (absu s1) \<Longrightarrow> u_files (absu s1) fd' = None" for fd'
          using less.prems(7) fdo 1(3) by auto
      qed (use t(1) 1(3) less.prems(6) in \<open>auto simp: name_of_buf\<close>)
      then obtain s2 where 2: "do_one_file os ?str ?name junk s1 = Some (0, s2)"
        "shows_text (grep_text pat (name_of bs) t) s1 s2"
        unfolding runs_iff name_of_buf by auto
      have i: "idx ?buf 0 = Some (hd bs)" using False by (cases bs) simp_all
      have "grep_files os ?str junk fd buf s = grep_files os ?str junk fd ?name s2"
        using False nd by (subst grep_files.simps) (simp add: 1(1) i n(1) 2(1) del: idx_0 put_nat)
      then show ?thesis
        using 2(2) n(2) nd t(1) by (intro exI [of _ s2] exI [of _ ?name]) (simp add: entry_text_def)
    qed
    then obtain s2 buf2 where 2: "length buf2 = 33" "shows_text (entry_text ?dir pat bs) s1 s2"
      "grep_files os ?str junk fd buf s = grep_files os ?str junk fd buf2 s2" by blast
    have a2: "absu s2 = (absu s)\<lparr>u_files := (u_files (absu s))(fd \<mapsto> (data, pos + length bs)),
        u_out := emit (entry_text ?dir pat bs) (u_out (absu s))\<rparr>"
      using 2(2) 1(3) by (simp add: shows_text_def)
    have "runs (grep_files os ?str junk fd buf2 s2) (\<lambda>(r, s'). r = 0 \<and> ok s' \<and>
      absu s' = (absu s2)\<lparr>u_files := (u_files (absu s2))(fd \<mapsto> (data, length data)),
        u_out := emit (dir_text (u_dir (absu s2)) pat (pieces 32 ?rest)) (u_out (absu s2))\<rparr>)"
    proof (rule less.hyps [OF p(1) shows_text_ok [OF 2(2)] _ p(2) 2(1)])
      show "\<forall>p\<in>set (pieces 32 ?rest). greppable (u_dir (absu s2)) p" using less.prems(5) ps a2 by simp
      show "fd' \<notin> u_open (absu s2) \<Longrightarrow> u_files (absu s2) fd' = None" for fd'
        using less.prems(7) fdo a2 by auto
    qed (use a2 less.prems(6) in simp_all)
    then show ?thesis
      unfolding 2(3) by (rule runs_mono) (auto simp: a2 ps dir_text_def emit_append)
  qed
qed

lemma grep_prints:
  assumes "ok s" and "u_args (absu s) = pat" and "u_dir (absu s) [46] = Some data"
    and "{2..7} \<inter> u_open (absu s) = {}" and "\<And>fd. fd \<notin> u_open (absu s) \<Longrightarrow> u_files (absu s) fd = None"
    and "\<forall>p\<in>set (pieces 32 data). greppable (u_dir (absu s)) p"
    and "pat \<noteq> []" "unat (hd pat) < 128" "length pat < 1024"
    and "length search = 1024" "length buf = 33" "length junk = 1025" "last junk \<noteq> 10"
  shows "runs (grep_main os search buf junk s) (\<lambda>(r, s'). r = 0 \<and> ok s' \<and> u_sys (absu s') = u_sys (absu s) \<and>
    u_in (absu s') = u_in (absu s) \<and> u_out (absu s') = emit (dir_text (u_dir (absu s)) pat (pieces 32 data)) (u_out (absu s)))"
proof -
  let ?str = "pat @ 0 # drop (Suc (length pat)) search"
  have n0: "0 \<notin> set pat" using args_text [OF assms(1)] assms(2) by simp
  have b: "length ?str = 1024" using assms(9,10) by simp
  obtain s1 where 1: "os_getargs os search 1024 s = Some (0, ?str, s1)" "ok s1" "absu s1 = absu s"
    using get_args [OF assms(1), of 1024 search] assms(2,7,9,10) cap unfolding runs_iff by auto
  have l: "lit ''.'' = [46] @ 0 # []" by (simp add: lit_def)
  have free: "x \<notin> u_open (absu s)" if "x \<in> {2..7}" for x using that assms(4) by auto
  have "2 \<in> {2..7 :: int}" "3 \<in> {2..7 :: int}" by simp_all
  then have no: "\<not> {2..7} \<subseteq> insert fd (u_open (absu s))" for fd
    using free [of 2] free [of 3] by (cases "fd = 2") (metis insert_iff subsetD numeral_eq_iff semiring_norm(88))+
  then have no1: "\<not> {2..7} \<subseteq> u_open (absu s)" by blast
  obtain fd s2 where 2: "os_open os (lit ''.'') s1 = Some (fd, s2)" "fd \<in> {2..7} - u_open (absu s)" "ok s2"
    "absu s2 = (absu s)\<lparr>u_open := insert fd (u_open (absu s)),
      u_files := (u_files (absu s))(fd \<mapsto> (data, 0))\<rparr>"
    unfolding l using openE [OF 1(2), of "[46]" data "[]"] 1(3) assms(3) no1 cap by auto
  have no2: "\<not> {2..7} \<subseteq> u_open (absu s2)" using no 2(4) by simp
  have "runs (grep_files os ?str junk fd buf s2) (\<lambda>(r, s'). r = 0 \<and> ok s' \<and>
    absu s' = (absu s2)\<lparr>u_files := (u_files (absu s2))(fd \<mapsto> (data, length data)),
      u_out := emit (dir_text (u_dir (absu s2)) pat (pieces 32 (drop 0 data))) (u_out (absu s2))\<rparr>)"
  proof (rule grep_files_prints [OF 2(3) _ _ assms(11) _ no2 _ assms(7) n0 assms(8) _ assms(12,13)])
    show "fd' \<notin> u_open (absu s2) \<Longrightarrow> u_files (absu s2) fd' = None" for fd'
      using assms(5) 2(4) by auto
  qed (use 2(4) assms(6,9) in simp_all)
  then have "runs (grep_main os search buf junk s) (\<lambda>(r, s'). r = 0 \<and> ok s' \<and>
    absu s' = (absu s2)\<lparr>u_files := (u_files (absu s2))(fd \<mapsto> (data, length data)),
      u_out := emit (dir_text (u_dir (absu s2)) pat (pieces 32 (drop 0 data))) (u_out (absu s2))\<rparr>)"
    using 1 2 by (simp add: grep_main_def)
  then show ?thesis by (rule runs_mono) (use 2(4) in auto)
qed

end

end
