(* ===== verification/SysErrSpec.thy ===== *)
theory SysErrSpec
  imports Console Grep
begin

text \<open>
  The tests of \<^verbatim>\<open>ece391syserr.c\<close> all pass over a kernel that refuses what it should: \<open>err_api\<close> adds
  to the laws of files and of the keyboard that bad descriptors, names, pointers and numbers give
  -1 and change nothing.
\<close>

definition pass_text :: "string \<Rightarrow> u8 list" where
  "pass_text name = asc name @ asc '': PASS'' @ [10]"

definition test_names :: "string list" where
  "test_names = [''err_neg_fd'', ''err_big_fd'', ''err_open_lots'', ''err_open'', ''err_unopened'',
     ''err_vidmap'', ''err_stdin_out'', ''err_syscall_num'']"

definition syserr_text :: "u8 list" where
  "syserr_text = asc ''Choose from tests 1-8. 0 to run all: '' @ [48, 10] @
     concat (map pass_text test_names) @ [10] @ asc ''Overall Tests: PASS'' @ [10]"

locale user_api = file_api + line_api

locale err_api = user_api +
  assumes read_refused: "ok s \<Longrightarrow> int32 fd \<Longrightarrow> fd \<notin> insert 0 (u_open (absu s)) \<Longrightarrow> n \<le> length buf \<Longrightarrow> length buf \<le> cap \<Longrightarrow>
      runs (os_read os fd buf (int n) s) (\<lambda>(r, buf', s'). r = -1 \<and> buf' = buf \<and> ok s' \<and> absu s' = absu s)"
    and write_refused: "ok s \<Longrightarrow> int32 fd \<Longrightarrow> fd \<notin> insert 1 (u_open (absu s)) \<Longrightarrow> n \<le> length buf \<Longrightarrow> length buf \<le> cap \<Longrightarrow>
      runs (os_write os fd buf (int n) s) (\<lambda>(r, s'). r = -1 \<and> ok s' \<and> absu s' = absu s)"
    and close_refused: "ok s \<Longrightarrow> int32 fd \<Longrightarrow> fd \<notin> u_open (absu s) \<Longrightarrow>
      runs (os_close os fd s) (\<lambda>(r, s'). r = -1 \<and> ok s' \<and> absu s' = absu s)"
    and open_refused: "ok s \<Longrightarrow> 0 \<in> set name \<Longrightarrow> length name \<le> cap \<Longrightarrow>
      u_dir (absu s) (cstr name) = None \<or> {2..7} \<subseteq> u_open (absu s) \<Longrightarrow>
      runs (os_open os name s) (\<lambda>(r, s'). r = -1 \<and> ok s' \<and> absu s' = absu s)"
    and vidmap_refused: "ok s \<Longrightarrow> unat a < 0x8000000 \<Longrightarrow>
      runs (os_vidmap os a s) (\<lambda>(r, s'). r = -1 \<and> ok s' \<and> absu s' = absu s)"
    and sys_refused: "ok s \<Longrightarrow> int32 num \<Longrightarrow> num < 1 \<or> 10 < num \<Longrightarrow>
      runs (os_sys os num s) (\<lambda>(r, s'). r = -1 \<and> ok s' \<and> absu s' = absu s)"
    and args_refused: "ok s \<Longrightarrow> u_args (absu s) = [] \<Longrightarrow> length buf \<le> cap \<Longrightarrow>
      runs (os_getargs os buf (int n) s) (\<lambda>(r, buf', s'). r = -1 \<and> buf' = buf \<and> ok s' \<and> absu s' = absu s)"
    and open_range: "ok s \<Longrightarrow> u_open (absu s) \<subseteq> {2..7}"
begin

definition same :: "'a \<Rightarrow> 'a \<Rightarrow> bool" where
  "same s s' \<longleftrightarrow> ok s' \<and> absu s' = absu s"

lemma sameD: "same s s' \<Longrightarrow> ok s'" "same s s' \<Longrightarrow> absu s' = absu s"
  by (simp_all add: same_def)

lemma read_refusedE:
  assumes "ok s" and "fd \<notin> insert 0 (u_open (absu s))" and "length buf = 32" and "int32 fd"
  obtains s' where "os_read os fd buf 31 s = Some (-1, buf, s')" and "same s s'"
  using read_refused [OF assms(1,4,2), of 31 buf] assms(3) cap by (auto simp: runs_iff same_def)

lemma write_refusedE:
  assumes "ok s" and "fd \<notin> insert 1 (u_open (absu s))" and "length buf = 32" and "int32 fd"
  obtains s' where "os_write os fd buf 31 s = Some (-1, s')" and "same s s'"
  using write_refused [OF assms(1,4,2), of 31 buf] assms(3) cap by (auto simp: runs_iff same_def)

lemma close_refusedE:
  assumes "ok s" and "int32 fd" and "fd \<notin> u_open (absu s)"
  obtains s' where "os_close os fd s = Some (-1, s')" and "same s s'"
  using close_refused [OF assms] by (auto simp: runs_iff same_def)

lemma open_refusedE:
  assumes "ok s" and "u_dir (absu s) (asc t) = None \<or> {2..7} \<subseteq> u_open (absu s)"
    and "0 \<notin> set (asc t)" and "length t \<le> 1000"
  obtains s' where "os_open os (lit t) s = Some (-1, s')" and "same s s'"
  using open_refused [OF assms(1), of "lit t"] assms(2-4) cap cstr_lit [OF assms(3)]
  by (auto simp: runs_iff same_def) (auto simp: lit_def)

lemma vidmap_refusedE:
  assumes "ok s" and "unat a < 0x8000000"
  obtains s' where "os_vidmap os a s = Some (-1, s')" and "same s s'"
  using vidmap_refused [OF assms] by (auto simp: runs_iff same_def)

lemma sys_refusedE:
  assumes "ok s" and "int32 n" and "n < 1 \<or> 10 < n"
  obtains s' where "call_sys os n s = Some (-1, s')" and "same s s'"
  using sys_refused [OF assms] by (auto simp: runs_iff same_def call_sys_def)

text \<open>\<^verbatim>\<open>cat\<close> without an argument, and with one that names no file.\<close>

lemma cat_no_argument:
  assumes "ok s" and "u_args (absu s) = []" and "length buf = 1024"
  shows "runs (cat_main os buf s) (\<lambda>(r, s'). r = 3 \<and> shows_text (asc ''could not read arguments'' @ [10]) s s')"
proof -
  define msg where "msg = ''could not read arguments''"
  obtain s1 where 1: "os_getargs os buf 1024 s = Some (-1, buf, s1)" "same s s1"
    using args_refused [OF assms(1,2), of buf 1024] assms(3) cap by (auto simp: runs_iff same_def)
  obtain s2 where 2: "ece391_fdputs os 1 (litn msg) s1 = Some s2" "shows_text (asc msg @ [10]) s1 s2"
    by (rule fdputs_litnE [OF sameD(1) [OF 1(2)], of msg]) (auto simp: msg_def)
  show ?thesis
    unfolding cat_main_def msg_def [symmetric] using 1 2 by (simp add: shows_text_def same_def)
qed

lemma cat_no_file:
  assumes "ok s" and "u_args (absu s) = name" and "name \<noteq> []" and "length name < 1024"
    and "u_dir (absu s) name = None" and "length buf = 1024"
  shows "runs (cat_main os buf s) (\<lambda>(r, s'). r = 2 \<and> shows_text (asc ''file not found'' @ [10]) s s')"
proof -
  define msg where "msg = ''file not found''"
  let ?buf = "name @ 0 # drop (Suc (length name)) buf"
  have n0: "0 \<notin> set name" using args_text [OF assms(1)] assms(2) by simp
  obtain s1 where 1: "os_getargs os buf 1024 s = Some (0, ?buf, s1)" "same s s1"
    using get_args [OF assms(1), of 1024 buf] assms(2-4,6) cap by (auto simp: runs_iff same_def)
  obtain s2 where 2: "os_open os ?buf s1 = Some (-1, s2)" "same s1 s2"
    using open_refused [OF sameD(1) [OF 1(2)], of ?buf] assms(4-6) cap sameD(2) [OF 1(2)] cstr_id [OF n0]
    by (auto simp: runs_iff same_def)
  obtain s3 where 3: "ece391_fdputs os 1 (litn msg) s2 = Some s3" "shows_text (asc msg @ [10]) s2 s3"
    by (rule fdputs_litnE [OF sameD(1) [OF 2(2)], of msg]) (auto simp: msg_def)
  show ?thesis
    unfolding cat_main_def msg_def [symmetric] using 1 2 3 by (simp add: shows_text_def same_def)
qed

lemma grep_no_argument:
  assumes "ok s" and "u_args (absu s) = []" and "length search = 1024"
  shows "runs (grep_main os search buf junk s)
    (\<lambda>(r, s'). r = 3 \<and> shows_text (asc ''could not read argument'' @ [10]) s s')"
proof -
  define msg where "msg = ''could not read argument''"
  obtain s1 where 1: "os_getargs os search 1024 s = Some (-1, search, s1)" "same s s1"
    using args_refused [OF assms(1,2), of search 1024] assms(3) cap by (auto simp: runs_iff same_def)
  obtain s2 where 2: "ece391_fdputs os 1 (litn msg) s1 = Some s2" "shows_text (asc msg @ [10]) s1 s2"
    by (rule fdputs_litnE [OF sameD(1) [OF 1(2)], of msg]) (auto simp: msg_def)
  show ?thesis
    using 2 1 unfolding grep_main_def msg_def [symmetric] by (simp add: shows_text_def same_def)
qed

lemma testprint_prints:
  assumes "ok s"
  shows "runs (testprint_main os s) (\<lambda>(r, s'). r = 0 \<and>
    shows_text (asc ''Hello, if this ran, the program was correct. Yay!'' @ [10]) s s')"
proof -
  define msg where "msg = ''Hello, if this ran, the program was correct. Yay!''"
  obtain s2 where "ece391_fdputs os 1 (litn msg) s = Some s2" "shows_text (asc msg @ [10]) s s2"
    by (rule fdputs_litnE [OF assms, of msg]) (auto simp: msg_def)
  then show ?thesis unfolding testprint_main_def msg_def [symmetric] by simp
qed

lemma complain_no [simp]: "complain os (-1) msg failed s = Some (failed, s)"
  by (simp add: complain_def)

definition passes :: "string \<Rightarrow> ('a \<Rightarrow> (int \<times> 'a) option) \<Rightarrow> 'a \<Rightarrow> bool" where
  "passes name t s \<longleftrightarrow> runs (t s) (\<lambda>(r, s'). r = 0 \<and> shows_text (pass_text name) s s')"

lemma verdict_pass:
  assumes "same s s'" and "length name \<le> 100" and "0 \<notin> set (asc name)"
  shows "runs (verdict os name 0 s') (\<lambda>(r, s'). r = 0 \<and> shows_text (pass_text name) s s')"
proof -
  have z: "0 \<notin> set (asc (name @ '': PASS''))" using assms(3) by (simp add: asc_def)
  obtain s2 where "ece391_fdputs os 1 (litn (name @ '': PASS'')) s' = Some s2"
    "shows_text (asc (name @ '': PASS'') @ [10]) s' s2"
    by (rule fdputs_litnE [OF sameD(1) [OF assms(1)] _ z]) (use assms(2) in auto)
  then show ?thesis
    using assms(1) unfolding verdict_def by (simp add: pass_text_def shows_text_def same_def asc_def)
qed

lemma same_trans [trans]: "same a b \<Longrightarrow> same b c \<Longrightarrow> same a c"
  by (simp add: same_def)

lemma not_open: "ok s \<Longrightarrow> fd < 2 \<or> 7 < fd \<Longrightarrow> fd \<notin> u_open (absu s)"
  using open_range by fastforce

lemma bad_fd_passes:
  assumes "ok s" and "length buf = 32"
  shows "passes ''err_neg_fd'' (err_neg_fd os buf) s" and "passes ''err_big_fd'' (err_big_fd os buf) s"
proof -
  have "\<exists>s1 s2 s3. os_read os fd buf 31 s = Some (-1, buf, s1) \<and> os_write os fd buf 31 s1 = Some (-1, s2) \<and>
      os_close os fd s2 = Some (-1, s3) \<and> same s s3" if fd: "fd < 0 \<or> 7 < fd" and i: "int32 fd" for fd
  proof -
    obtain s1 where 1: "os_read os fd buf 31 s = Some (-1, buf, s1)" "same s s1"
      by (rule read_refusedE [OF assms(1) _ assms(2) i]) (use fd not_open [OF assms(1)] in auto)
    obtain s2 where 2: "os_write os fd buf 31 s1 = Some (-1, s2)" "same s1 s2"
      by (rule write_refusedE [OF sameD(1) [OF 1(2)] _ assms(2) i])
        (use fd not_open [OF sameD(1) [OF 1(2)]] in auto)
    obtain s3 where 3: "os_close os fd s2 = Some (-1, s3)" "same s2 s3"
      by (rule close_refusedE [OF sameD(1) [OF 2(2)] i]) (use fd not_open [OF sameD(1) [OF 2(2)]] in auto)
    show ?thesis using 1 2 3 same_trans by blast
  qed
  from this [of NEG_FD] this [of BIG_FD]
  obtain s1 s2 s3 t1 t2 t3 where
    n: "os_read os NEG_FD buf 31 s = Some (-1, buf, s1)" "os_write os NEG_FD buf 31 s1 = Some (-1, s2)"
      "os_close os NEG_FD s2 = Some (-1, s3)" "same s s3" and
    b: "os_read os BIG_FD buf 31 s = Some (-1, buf, t1)" "os_write os BIG_FD buf 31 t1 = Some (-1, t2)"
      "os_close os BIG_FD t2 = Some (-1, t3)" "same s t3"
    by (auto simp: NEG_FD_def BIG_FD_def int32_def)
  show "passes ''err_neg_fd'' (err_neg_fd os buf) s"
    unfolding passes_def err_neg_fd_def using verdict_pass [OF n(4), of "''err_neg_fd''"] by (simp add: n)
  show "passes ''err_big_fd'' (err_big_fd os buf) s"
    unfolding passes_def err_big_fd_def using verdict_pass [OF b(4), of "''err_big_fd''"] by (simp add: b)
qed

lemma err_open_passes:
  assumes "ok s" and "u_dir (absu s) (asc ''helloo'') = None" and "u_dir (absu s) (asc ''shel'') = None"
    and "u_dir (absu s) [] = None"
  shows "passes ''err_open'' (err_open os) s"
proof -
  define a b where "a = ''helloo''" and "b = ''shel''"
  obtain s1 where 1: "os_open os (lit a) s = Some (-1, s1)" "same s s1"
    by (rule open_refusedE [OF assms(1), of a]) (use assms(2) in \<open>auto simp: a_def\<close>)
  obtain s2 where 2: "os_open os (lit b) s1 = Some (-1, s2)" "same s1 s2"
    by (rule open_refusedE [OF sameD(1) [OF 1(2)], of b])
      (use assms(3) sameD(2) [OF 1(2)] in \<open>auto simp: b_def\<close>)
  obtain s3 where 3: "os_open os (lit []) s2 = Some (-1, s3)" "same s2 s3"
    by (rule open_refusedE [OF sameD(1) [OF 2(2)], of "[]"])
      (use assms(4) sameD(2) [OF 1(2)] sameD(2) [OF 2(2)] in auto)
  have "same s s3" using 1 2 3 same_trans by blast
  from verdict_pass [OF this, of "''err_open''"] show ?thesis
    unfolding passes_def err_open_def a_def [symmetric] b_def [symmetric] by (simp add: 1(1) 2(1) 3(1))
qed

lemma err_vidmap_passes:
  assumes "ok s"
  shows "passes ''err_vidmap'' (err_vidmap os) s"
proof -
  obtain s1 where 1: "os_vidmap os 0 s = Some (-1, s1)" "same s s1"
    by (rule vidmap_refusedE [OF assms, of 0]) auto
  obtain s2 where 2: "os_vidmap os 0x400000 s1 = Some (-1, s2)" "same s1 s2"
    by (rule vidmap_refusedE [OF sameD(1) [OF 1(2)], of "0x400000"]) auto
  have "same s s2" using 1 2 same_trans by blast
  from verdict_pass [OF this, of "''err_vidmap''"] show ?thesis
    unfolding passes_def err_vidmap_def by (simp add: 1(1) 2(1))
qed

lemma err_stdin_out_passes:
  assumes "ok s" and "length buf = 32"
  shows "passes ''err_stdin_out'' (err_stdin_out os buf) s"
proof -
  obtain s1 where 1: "os_write os 0 buf 31 s = Some (-1, s1)" "same s s1"
    by (rule write_refusedE [OF assms(1) _ assms(2), of 0]) (use not_open [OF assms(1), of 0] in \<open>auto simp: int32_def\<close>)
  obtain s2 where 2: "os_read os 1 buf 31 s1 = Some (-1, buf, s2)" "same s1 s2"
    by (rule read_refusedE [OF sameD(1) [OF 1(2)] _ assms(2), of 1])
      (use not_open [OF sameD(1) [OF 1(2)], of 1] in \<open>auto simp: int32_def\<close>)
  have "same s s2" using 1 2 same_trans by blast
  from verdict_pass [OF this, of "''err_stdin_out''"] show ?thesis
    unfolding passes_def err_stdin_out_def by (simp add: 1(1) 2(1))
qed

lemma err_syscall_num_passes:
  assumes "ok s"
  shows "passes ''err_syscall_num'' (err_syscall_num os) s"
proof -
  obtain s1 where 1: "call_sys os BIG_NUM s = Some (-1, s1)" "same s s1"
    by (rule sys_refusedE [OF assms, of BIG_NUM]) (auto simp: BIG_NUM_def int32_def)
  obtain s2 where 2: "call_sys os NEG_NUM s1 = Some (-1, s2)" "same s1 s2"
    by (rule sys_refusedE [OF sameD(1) [OF 1(2)], of NEG_NUM]) (auto simp: NEG_NUM_def int32_def)
  obtain s3 where 3: "call_sys os 0 s2 = Some (-1, s3)" "same s2 s3"
    by (rule sys_refusedE [OF sameD(1) [OF 2(2)], of 0]) (auto simp: int32_def)
  have "same s s3" using 1 2 3 same_trans by blast
  from verdict_pass [OF this, of "''err_syscall_num''"] show ?thesis
    unfolding passes_def err_syscall_num_def by (simp add: 1(1) 2(1) 3(1))
qed

text \<open>Descriptors that are not open.\<close>

lemma close_all_refused:
  assumes "ok s" and "u_open (absu s) = {}" and "list_all int32 is"
  shows "\<exists>s'. foldM (close_each os) is (0, s) = Some (0, s') \<and> same s s'"
  using assms
proof (induction "is" arbitrary: s)
  case (Cons i "is")
  obtain s1 where 1: "os_close os i s = Some (-1, s1)" "same s s1"
    by (rule close_refusedE [OF Cons.prems(1), of i]) (use Cons.prems(2,3) in auto)
  obtain s2 where "foldM (close_each os) is (0, s1) = Some (0, s2)" "same s1 s2"
    using Cons.IH [OF sameD(1) [OF 1(2)]] Cons.prems(2,3) sameD(2) [OF 1(2)] by auto
  moreover have "close_each os i (0, s) = Some (0, s1)" using 1(1) by (simp add: close_each_def)
  ultimately show ?case using same_trans [OF 1(2)] by auto
qed (simp add: same_def)

lemma read_all_refused:
  assumes "ok s" and "u_open (absu s) = {}" and "0 \<notin> set is" and "length buf = 32" and "list_all int32 is"
  shows "\<exists>s'. foldM (read_each os) is (buf, 0, s) = Some (buf, 0, s') \<and> same s s'"
  using assms(1-3,5)
proof (induction "is" arbitrary: s)
  case (Cons i "is")
  obtain s1 where 1: "os_read os i buf 31 s = Some (-1, buf, s1)" "same s s1"
    by (rule read_refusedE [OF Cons.prems(1) _ assms(4), of i]) (use Cons.prems(2-4) in auto)
  obtain s2 where "foldM (read_each os) is (buf, 0, s1) = Some (buf, 0, s2)" "same s1 s2"
    using Cons.IH [OF sameD(1) [OF 1(2)]] Cons.prems(2-4) sameD(2) [OF 1(2)] by auto
  moreover have "read_each os i (buf, 0, s) = Some (buf, 0, s1)" using 1(1) by (simp add: read_each_def)
  ultimately show ?case using same_trans [OF 1(2)] by auto
qed (simp add: same_def)

lemma write_all_refused:
  assumes "ok s" and "u_open (absu s) = {}" and "1 \<notin> set is" and "length buf = 32" and "list_all int32 is"
  shows "\<exists>s'. foldM (write_each os buf) is (0, s) = Some (0, s') \<and> same s s'"
  using assms(1-3,5)
proof (induction "is" arbitrary: s)
  case (Cons i "is")
  obtain s1 where 1: "os_write os i buf 31 s = Some (-1, s1)" "same s s1"
    by (rule write_refusedE [OF Cons.prems(1) _ assms(4), of i]) (use Cons.prems(2-4) in auto)
  obtain s2 where "foldM (write_each os buf) is (0, s1) = Some (0, s2)" "same s1 s2"
    using Cons.IH [OF sameD(1) [OF 1(2)]] Cons.prems(2-4) sameD(2) [OF 1(2)] by auto
  moreover have "write_each os buf i (0, s) = Some (0, s1)" using 1(1) by (simp add: write_each_def)
  ultimately show ?case using same_trans [OF 1(2)] by auto
qed (simp add: same_def)

lemma err_unopened_passes:
  assumes "ok s" and "u_open (absu s) = {}" and "length buf = 32"
  shows "passes ''err_unopened'' (err_unopened os buf) s"
proof -
  have i: "list_all int32 [0..7]" "list_all int32 [2..7]" by (auto simp: list_all_iff int32_def)
  obtain s1 where 1: "foldM (close_each os) [0..7] (0, s) = Some (0, s1)" "same s s1"
    using close_all_refused [OF assms(1,2), of "[0..7]"] i by blast
  obtain s2 where 2: "foldM (read_each os) [2..7] (buf, 0, s1) = Some (buf, 0, s2)" "same s1 s2"
    using read_all_refused [OF sameD(1) [OF 1(2)] _ _ assms(3) i(2)] assms(2) sameD(2) [OF 1(2)] by auto
  obtain s3 where 3: "foldM (write_each os buf) [2..7] (0, s2) = Some (0, s3)" "same s2 s3"
    using write_all_refused [OF sameD(1) [OF 2(2)] _ _ assms(3) i(2)] assms(2)
      sameD(2) [OF 1(2)] sameD(2) [OF 2(2)] by auto
  have "same s s3" using 1 2 3 same_trans by blast
  from verdict_pass [OF this, of "''err_unopened''"] show ?thesis
    unfolding passes_def err_unopened_def by (simp add: 1(1) 2(1) 3(1) del: upto.simps upto_rec_numeral)
qed

text \<open>Six opens succeed, the seventh fails, and the closes bring the first state back.\<close>

lemma opens:
  assumes "ok s" and "u_dir (absu s) [46] = Some data" and "u_open (absu s) = {}" and "n \<le> 6"
  shows "\<exists>s' fs f. foldM (open_each os) [0..<n] (0, s) = Some (0, s') \<and> ok s' \<and> fs \<subseteq> {2..7} \<and> card fs = n \<and>
    absu s' = (absu s)\<lparr>u_open := fs, u_files := f\<rparr> \<and> (\<forall>fd. fd \<in> fs \<longrightarrow> f fd \<noteq> None) \<and>
    (\<forall>fd. fd \<notin> fs \<longrightarrow> f fd = u_files (absu s) fd)"
  using assms(4)
proof (induction n)
  case 0
  have "absu s = (absu s)\<lparr>u_open := {}, u_files := u_files (absu s)\<rparr>" using assms(3) by simp
  then show ?case
    using assms(1) by (intro exI [of _ s] exI [of _ "{}"] exI [of _ "u_files (absu s)"]) simp
next
  case (Suc n)
  then obtain s1 fs f where 1: "foldM (open_each os) [0..<n] (0, s) = Some (0, s1)" "ok s1"
    "fs \<subseteq> {2..7}" "card fs = n" "absu s1 = (absu s)\<lparr>u_open := fs, u_files := f\<rparr>"
    "\<forall>fd. fd \<in> fs \<longrightarrow> f fd \<noteq> None" "\<forall>fd. fd \<notin> fs \<longrightarrow> f fd = u_files (absu s) fd" by auto
  have "\<not> {2..7} \<subseteq> fs"
  proof
    assume "{2..7} \<subseteq> fs"
    then have "card {2..7 :: int} \<le> card fs" using 1(3) finite_subset by (intro card_mono) auto
    then show False using 1(4) Suc.prems by simp
  qed
  then obtain fd s2 where 2: "os_open os (lit ''.'') s1 = Some (fd, s2)" "fd \<in> {2..7} - fs" "ok s2"
    "absu s2 = (absu s)\<lparr>u_open := insert fd fs, u_files := f(fd \<mapsto> (data, 0))\<rparr>"
    using openE [OF 1(2), of "[46]" data "[]"] 1(5) assms(2) cap by (auto simp: lit_def)
  have "foldM (open_each os) [0..<Suc n] (0, s) = Some (0, s2)"
    using 1(1) 2(1,2) by (auto simp: foldM_append open_each_def)
  moreover have "card (insert fd fs) = Suc n" using 1(3,4) 2(2) finite_subset [OF 1(3)] by simp
  moreover have "insert fd fs \<subseteq> {2..7}" using 1(3) 2(2) by auto
  moreover have "\<forall>j. j \<in> insert fd fs \<longrightarrow> (f(fd \<mapsto> (data, 0))) j \<noteq> None"
    "\<forall>j. j \<notin> insert fd fs \<longrightarrow> (f(fd \<mapsto> (data, 0))) j = u_files (absu s) j"
    using 1(6,7) by auto
  ultimately show ?case using 2(3,4) by blast
qed

lemma closes:
  assumes "ok s" and "distinct is" and "set is \<subseteq> u_open (absu s)"
    and "\<forall>fd. fd \<in> set is \<longrightarrow> u_files (absu s) fd \<noteq> None"
  shows "\<exists>s' f. foldM (\<lambda>i st. do { (_, st) \<leftarrow> os_close os i st; Some st }) is s = Some s' \<and> ok s' \<and>
    absu s' = (absu s)\<lparr>u_open := u_open (absu s) - set is, u_files := f\<rparr> \<and>
    (\<forall>fd. f fd = (if fd \<in> set is then None else u_files (absu s) fd))"
  using assms
proof (induction "is" arbitrary: s)
  case Nil
  then show ?case by (intro exI [of _ s] exI [of _ "u_files (absu s)"]) simp
next
  case (Cons i "is")
  obtain f where "u_files (absu s) i = Some f" using Cons.prems(4) by auto
  then obtain s1 where 1: "os_close os i s = Some (0, s1)" "ok s1"
    "absu s1 = (absu s)\<lparr>u_open := u_open (absu s) - {i}, u_files := (u_files (absu s))(i := None)\<rparr>"
    using close_file [OF Cons.prems(1), of i f] Cons.prems(3) unfolding runs_iff by auto
  obtain s2 f where 2: "foldM (\<lambda>i st. do { (_, st) \<leftarrow> os_close os i st; Some st }) is s1 = Some s2" "ok s2"
    "absu s2 = (absu s1)\<lparr>u_open := u_open (absu s1) - set is, u_files := f\<rparr>"
    "\<And>fd. f fd = (if fd \<in> set is then None else u_files (absu s1) fd)"
    using Cons.IH [OF 1(2)] Cons.prems(2-4) 1(3) by fastforce
  have "foldM (\<lambda>i st. do { (_, st) \<leftarrow> os_close os i st; Some st }) (i # is) s = Some s2"
    using 1(1) 2(1) by simp
  moreover have "absu s2 = (absu s)\<lparr>u_open := u_open (absu s) - set (i # is), u_files := f\<rparr>"
    using 1(3) 2(3) by (simp add: Diff_insert2 [symmetric])
  moreover have "\<forall>fd. f fd = (if fd \<in> set (i # is) then None else u_files (absu s) fd)"
    using 1(3) 2(4) by simp
  ultimately show ?case using 2(2) by blast
qed

lemma err_open_lots_passes:
  assumes "ok s" and "u_dir (absu s) [46] = Some data" and "u_open (absu s) = {}"
    and "\<And>fd. u_files (absu s) fd = None"
  shows "passes ''err_open_lots'' (err_open_lots os) s"
proof -
  define msg where "msg = ''err_open_lots: PASS''"
  obtain s1 fs f where 1: "foldM (open_each os) [0..<6] (0, s) = Some (0, s1)" "ok s1"
    "fs \<subseteq> {2..7}" "card fs = 6" "absu s1 = (absu s)\<lparr>u_open := fs, u_files := f\<rparr>"
    "\<forall>fd. fd \<in> fs \<longrightarrow> f fd \<noteq> None" "\<forall>fd. fd \<notin> fs \<longrightarrow> f fd = u_files (absu s) fd"
    using opens [OF assms(1-3), of 6] by auto
  have fs: "fs = {2..7}" using 1(3,4) by (intro card_subset_eq) auto
  obtain s2 where 2: "os_open os (lit ''.'') s1 = Some (-1, s2)" "same s1 s2"
    by (rule open_refusedE [OF 1(2), of "''.''"]) (use 1(5) fs in auto)
  have o: "foldM (open_each os) [0..<7] (0, s) = Some (1, s2)"
  proof -
    have "[0..<7] = [0..<6] @ [6 :: nat]" by (simp add: upt_rec)
    then show ?thesis using 1(1) 2(1) by (simp add: foldM_append open_each_def)
  qed
  have "\<exists>s' f. foldM (\<lambda>i st. do { (_, st) \<leftarrow> os_close os i st; Some st }) [2..7] s2 = Some s' \<and> ok s' \<and>
    absu s' = (absu s2)\<lparr>u_open := u_open (absu s2) - set [2..7], u_files := f\<rparr> \<and>
    (\<forall>fd. f fd = (if fd \<in> set [2..7] then None else u_files (absu s2) fd))"
    using sameD [OF 2(2)] 1(5,6) fs by (intro closes) auto
  then obtain s3 f' where 3: "foldM (\<lambda>i st. do { (_, st) \<leftarrow> os_close os i st; Some st }) [2..7] s2 = Some s3"
    "ok s3" "absu s3 = (absu s2)\<lparr>u_open := u_open (absu s2) - {2..7}, u_files := f'\<rparr>"
    "\<And>fd. f' fd = (if fd \<in> {2..7} then None else u_files (absu s2) fd)"
    unfolding set_upto by blast
  have "f' = u_files (absu s)"
  proof
    show "f' fd = u_files (absu s) fd" for fd
      using 3(4) [of fd] 1(5,7) assms(4) [of fd] sameD(2) [OF 2(2)] fs by simp
  qed
  then have "absu s3 = (absu s)\<lparr>u_open := {}, u_files := u_files (absu s)\<rparr>"
    using 3(3) sameD(2) [OF 2(2)] 1(5) fs by simp
  then have "absu s3 = absu s" using assms(3) by simp
  then have "same s s3" using 3(2) by (simp add: same_def)
  obtain s4 where 4: "ece391_fdputs os 1 (litn msg) s3 = Some s4" "shows_text (asc msg @ [10]) s3 s4"
    by (rule fdputs_litnE [OF 3(2), of msg]) (auto simp: msg_def)
  have "err_open_lots os s = Some (0, s4)"
    unfolding err_open_lots_def msg_def [symmetric] by (simp add: o 3(1) 4(1) del: upto.simps upto_rec_numeral upt_rec_numeral)
  then show ?thesis
    using 4(2) \<open>same s s3\<close> unfolding passes_def
    by (simp add: shows_text_def same_def msg_def pass_text_def)
qed

section \<open>All tests\<close>

definition testable :: "'a \<Rightarrow> bool" where
  "testable s \<longleftrightarrow> ok s \<and> u_open (absu s) = {} \<and> (\<forall>fd. u_files (absu s) fd = None) \<and>
     (\<exists>data. u_dir (absu s) [46] = Some data) \<and> u_dir (absu s) (asc ''helloo'') = None \<and>
     u_dir (absu s) (asc ''shel'') = None \<and> u_dir (absu s) [] = None"

lemma testable_shows: "testable s \<Longrightarrow> shows_text xs s s' \<Longrightarrow> testable s'"
  by (simp add: testable_def shows_text_def)

lemma tests_pass:
  assumes "testable s" and "length b1 = 32" "length b2 = 32" "length b3 = 32" "length b4 = 32"
  shows "list_all2 (\<lambda>name t. passes name t s) test_names (all_tests os b1 b2 b3 b4)"
  using assms bad_fd_passes err_open_lots_passes err_open_passes err_unopened_passes err_vidmap_passes
    err_stdin_out_passes err_syscall_num_passes
  unfolding testable_def test_names_def all_tests_def list.rel_inject by auto

lemma add_results:
  assumes "list_all2 (\<lambda>name t. \<forall>s. testable s \<longrightarrow> passes name t s) names ts" and "testable s"
  shows "\<exists>s'. foldM add_result ts (0, s) = Some (0, s') \<and> shows_text (concat (map pass_text names)) s s'"
  using assms
proof (induction names ts arbitrary: s rule: list_all2_induct)
  case Nil
  then show ?case by (simp add: testable_def shows_text_refl)
next
  case (Cons name names t ts)
  obtain s1 where 1: "t s = Some (0, s1)" "shows_text (pass_text name) s s1"
    using Cons.hyps(1) Cons.prems by (auto simp: passes_def runs_iff)
  obtain s2 where "foldM add_result ts (0, s1) = Some (0, s2)"
    "shows_text (concat (map pass_text names)) s1 s2"
    using Cons.IH [OF testable_shows [OF Cons.prems 1(2)]] by blast
  moreover have "add_result t (0, s) = Some (0, s1)" using 1(1) by (simp add: add_result_def)
  ultimately show ?case using shows_text_trans [OF 1(2)] by auto
qed

lemma syserr_passes:
  assumes "testable s" and "u_in (absu s) = [48, 10] # ls" and "length buf = 128"
    and "length b1 = 32" "length b2 = 32" "length b3 = 32" "length b4 = 32"
  shows "runs (syserr_main os buf b1 b2 b3 b4 s) (\<lambda>(r, s'). r = 0 \<and> ok s' \<and> u_in (absu s') = ls \<and>
    u_out (absu s') = emit syserr_text (u_out (absu s)))"
proof -
  define q where "q = ''Choose from tests 1-8. 0 to run all: ''"
  define msg where "msg = ''Overall Tests: PASS''"
  have ok: "ok s" using assms(1) by (simp add: testable_def)
  obtain s1 where 1: "ece391_fdputs os 1 (lit q) s = Some s1" "shows_text (asc q) s s1"
    by (rule fdputs_litE [OF ok, of q]) (auto simp: q_def)
  have a1: "u_in (absu s1) = [48, 10] # ls" using 1(2) assms(2) by (simp add: shows_text_def)
  obtain s2 where 2: "os_read os 0 buf 127 s1 = Some (2, 48 # 10 # drop 2 buf, s2)" "ok s2"
    "absu s2 = (absu s1)\<lparr>u_in := ls, u_out := emit [48, 10] (u_out (absu s1))\<rparr>"
    using read_line [OF shows_text_ok [OF 1(2)] a1, of 127 buf] assms(3) cap
    by (auto simp: runs_iff numeral_2_eq_2)
  have t2: "testable s2"
    using testable_shows [OF assms(1) 1(2)] 2(2,3) by (simp add: testable_def)
  have "list_all2 (\<lambda>name t. \<forall>s. testable s \<longrightarrow> passes name t s) test_names (all_tests os b1 b2 b3 b4)"
    using tests_pass [OF t2 assms(4-7)] tests_pass [OF _ assms(4-7)]
    by (simp add: list_all2_conv_all_nth del: One_nat_def)
  from add_results [OF this t2] obtain s3 where
    3: "foldM add_result (all_tests os b1 b2 b3 b4) (0, s2) = Some (0, s3)"
    "shows_text (concat (map pass_text test_names)) s2 s3" by blast
  have z: "0 \<notin> set (10 # asc msg @ [10])" by (auto simp: msg_def)
  obtain s4 where 4: "ece391_fdputs os 1 (10 # litn msg) s3 = Some s4"
    "shows_text (10 # asc msg @ [10]) s3 s4"
    using fdputs_textE [OF shows_text_ok [OF 3(2)] z, of "[]"] cap by (auto simp: litn_def msg_def)
  have m: "(if (0 :: int) \<noteq> 0 then ''Overall Tests: FAIL'' else ''Overall Tests: PASS'') = msg"
    by (simp add: msg_def)
  have "syserr_main os buf b1 b2 b3 b4 s = Some (0, s4)"
    unfolding syserr_main_def q_def [symmetric]
    by (simp add: 1(1) 2(1) Let_def 3(1) m [simplified] 4(1) split: list.split)
  moreover have "emit syserr_text t = emit (10 # asc msg @ [10])
      (emit (concat (map pass_text test_names)) (emit [48, 10] (emit (asc q) t)))" for t
    unfolding syserr_text_def q_def [symmetric] msg_def [symmetric]
    by (simp only: emit_append [symmetric] append_assoc append_Cons append_Nil)
  ultimately show ?thesis
    using 1(2) 2(3) 3(2) 4(2) by (simp add: shows_text_def)
qed

end

end
