(* ===== verification/Faults.thy ===== *)
theory Faults
  imports SysErrSpec
begin

text \<open>
  The programs that an exception ends (\<^verbatim>\<open>mytest3\<close>, \<^verbatim>\<open>mytest4\<close>, \<^verbatim>\<open>sigtest\<close>): \<open>fault_api\<close> adds that the lower
  8 MB, the kernel's, fault when a program touches them, and that no signal handler can be
  installed.
\<close>

definition sigtest_text :: "u8 list \<Rightarrow> u8 list \<Rightarrow> u8 list" where
  "sigtest_text a line =
     (if hd a = 49 then asc ''Installing signal handlers'' @ [10] else []) @ asc ask_name @ line"

locale fault_api = err_api +
  assumes load_faults: "ok s \<Longrightarrow> unat a < 0x800000 \<Longrightarrow> os_load os a s = None"
    and store_faults: "ok s \<Longrightarrow> unat a < 0x800000 \<Longrightarrow> os_store os a v s = None"
    and handler_refused: "ok s \<Longrightarrow>
      runs (os_set_handler os sig h s) (\<lambda>(r, s'). r = -1 \<and> ok s' \<and> absu s' = absu s)"
begin

lemma mytest4_faults: "ok s \<Longrightarrow> mytest4_main os s = Some (Inl page_fault_exception, s)"
  by (simp add: mytest4_main_def load_faults)

lemma handlerE:
  assumes "ok s"
  obtains s' where "os_set_handler os sig h s = Some (-1, s')" and "same s s'"
  using handler_refused [OF assms, of sig h] by (auto simp: runs_iff same_def)

lemma install_handlers:
  assumes "ok s"
  obtains s' where "(if c = 49 then
      do { st \<leftarrow> ece391_fdputs os 1 (litn ''Installing signal handlers'') s;
           (_, st) \<leftarrow> os_set_handler os SEGFAULT h1 st;
           (_, st) \<leftarrow> os_set_handler os ALARM h2 st;
           Some st }
    else Some s) = Some s'"
    and "shows_text (if c = 49 then asc ''Installing signal handlers'' @ [10] else []) s s'"
proof (cases "c = 49")
  case True
  define msg where "msg = ''Installing signal handlers''"
  obtain s1 where 1: "ece391_fdputs os 1 (litn msg) s = Some s1" "shows_text (asc msg @ [10]) s s1"
    by (rule fdputs_litnE [OF assms, of msg]) (auto simp: msg_def)
  obtain s2 where 2: "os_set_handler os SEGFAULT h1 s1 = Some (-1, s2)" "same s1 s2"
    by (rule handlerE [OF shows_text_ok [OF 1(2)]])
  obtain s3 where 3: "os_set_handler os ALARM h2 s2 = Some (-1, s3)" "same s2 s3"
    by (rule handlerE [OF sameD(1) [OF 2(2)]])
  show ?thesis
    using that [of s3, folded msg_def] 1 2 3 True by (simp add: shows_text_def same_def)
next
  case False
  then show ?thesis using that [of s] shows_text_refl [OF assms] by simp
qed

lemma sigtest_faults:
  assumes "ok s" and "u_args (absu s) = a" and "a \<noteq> []" and "length a < 1024"
    and "u_in (absu s) = line # ls" and "length buf = 1024"
  shows "runs (sigtest_main os h1 h2 buf s) (\<lambda>(fin, s'). fin = Inl page_fault_exception \<and> ok s' \<and>
    absu s' = (absu s)\<lparr>u_in := ls, u_out := emit (sigtest_text a line) (u_out (absu s))\<rparr>)"
proof -
  define b1 where "b1 = a @ 0 # drop (Suc (length a)) buf"
  have b: "length b1 = 1024" using assms(4,6) by (simp add: b1_def)
  obtain s1 where 1: "os_getargs os buf 1024 s = Some (0, b1, s1)" "same s s1"
    using get_args [OF assms(1), of 1024 buf] assms(2-4,6) cap by (auto simp: runs_iff same_def b1_def)
  have i: "idx b1 0 = Some (hd a)" using assms(3) by (cases a) (simp_all add: b1_def)
  obtain s2 where 2: "(if hd a = 49 then
      do { st \<leftarrow> ece391_fdputs os 1 (litn ''Installing signal handlers'') s1;
           (_, st) \<leftarrow> os_set_handler os SEGFAULT h1 st;
           (_, st) \<leftarrow> os_set_handler os ALARM h2 st;
           Some st }
    else Some s1) = Some s2"
    "shows_text (if hd a = 49 then asc ''Installing signal handlers'' @ [10] else []) s1 s2"
    by (rule install_handlers [OF sameD(1) [OF 1(2)]])
  obtain s3 where 3: "ece391_fdputs os 1 (lit ask_name) s2 = Some s3" "shows_text (asc ask_name) s2 s3"
    by (rule fdputs_litE [OF shows_text_ok [OF 2(2)], of ask_name]) (auto simp: ask_name_def)
  have a3: "u_in (absu s3) = line # ls" using 1(2) 2(2) 3(2) assms(5) by (simp add: shows_text_def same_def)
  have c: "128 \<le> (1023 :: nat)" "1023 \<le> length b1" "length b1 \<le> cap" using b cap by simp_all
  obtain l s4 where 4: "line = l @ [10]" "0 \<notin> set l" "length l \<le> 127"
    "os_read os 0 b1 1023 s3 = Some (int (length l) + 1, l @ 10 # drop (Suc (length l)) b1, s4)"
    "ok s4" "absu s4 = (absu s3)\<lparr>u_in := ls, u_out := emit (l @ [10]) (u_out (absu s3))\<rparr>"
    by (rule lineE [OF shows_text_ok [OF 3(2)] a3 c, unfolded of_nat_numeral])
  have "os_store os 0 1 s4 = None" by (rule store_faults [OF 4(5)]) simp
  then have "sigtest_main os h1 h2 buf s = Some (Inl page_fault_exception, s4)"
    unfolding sigtest_main_def 1(1) bind.bind_lunit split_conv i 2(1) 3(1) 4(4) by simp
  then show ?thesis
    using 1(2) 2(2) 3(2) 4 by (simp add: shows_text_def same_def sigtest_text_def emit_append)
qed

end

end
