(* ===== verification/UserKernel.thy ===== *)
theory UserKernel
  imports UserCalls Faults
begin

text \<open>
  The kernel as the programs see it: the abstract state of \<open>UserSpec\<close> as a function of the
  kernel's, the states in which a program makes its calls, and the laws of the calls. The
  interpretations at the end discharge the contracts \<open>out_api\<close>, \<open>file_api\<close>, \<open>line_api\<close> and
  \<open>err_api\<close> on the kernel.
\<close>

section \<open>The abstract state\<close>

definition entry_type :: "fs_image \<Rightarrow> nat \<Rightarrow> u32" where
  "entry_type g i = load32 (fs_mem g) (dentry_addr g (of_nat i) + 32)"

definition entry_inode :: "fs_image \<Rightarrow> nat \<Rightarrow> u32" where
  "entry_inode g i = load32 (fs_mem g) (dentry_addr g (of_nat i) + 36)"

definition find_entry :: "fs_image \<Rightarrow> u8 list \<Rightarrow> nat option" where
  "find_entry g name = find (\<lambda>i. entry_name g i = name) [0..<unat (bb_dentry_count g)]"

text \<open>What can be read from an open object; the clock has no bytes.\<close>

definition content :: "fs_image \<Rightarrow> file_ops \<Rightarrow> u32 \<Rightarrow> u8 list" where
  "content g ops ino = (case ops of FS_OPS \<Rightarrow> file_data g ino | DIR_OPS \<Rightarrow> dir_data g | _ \<Rightarrow> [])"

definition dir_of :: "fs_image \<Rightarrow> u8 list \<Rightarrow> u8 list option" where
  "dir_of g name =
     do { i \<leftarrow> find_entry g name;
          ops \<leftarrow> ops_of_type (entry_type g i);
          Some (content g ops (entry_inode g i)) }"

definition fd_file :: "fs_image \<Rightarrow> file_desc \<Rightarrow> u8 list \<times> nat" where
  "fd_file g d = (content g (fops d) (inode d), unat (file_pos d))"

definition open_set :: "pcb \<Rightarrow> int set" where
  "open_set p = {fd \<in> {2..7}. fd_is_open fd p}"

definition files_of :: "fs_image \<Rightarrow> pcb \<Rightarrow> int \<Rightarrow> (u8 list \<times> nat) option" where
  "files_of g p fd = (if fd \<in> open_set p then Some (fd_file g (fd_arr p ! nat fd)) else None)"

text \<open>What the calls of a program leave alone.\<close>

definition pcb_view :: "bool \<Rightarrow> pcb \<Rightarrow> pcb" where
  "pcb_view own p = p\<lparr>stack_ptr := 0, sched_bp := 0, fd_arr := if own then [] else fd_arr p,
     rtc_freq := if own then 0 else rtc_freq p\<rparr>"

record sys_part =
  sp_pid :: int
  sp_queue :: "int \<Rightarrow> qstate"
  sp_image :: fs_image
  sp_keys :: kbd
  sp_pcbs :: "int \<Rightarrow> pcb option"

definition sys_view :: "kernel \<Rightarrow> sys_part" where
  "sys_view k = \<lparr>sp_pid = current_pid k, sp_queue = process_queue k, sp_image = kfs k, sp_keys = kkbd k,
     sp_pcbs = (\<lambda>p. if process_queue k p = NOT_LOADED then None
       else Some (pcb_view (p = current_pid k) (pcbs k p)))\<rparr>"

definition typed_text :: "kbd \<Rightarrow> u8 list \<Rightarrow> u8 list" where
  "typed_text kb scs = map (\<lambda>sc. get_char_map sc kb) scs @ [10]"

definition user_view :: "world \<Rightarrow> (screen, sys_part) ustate" where
  "user_view w = (let k = wk w; p = cur_pcb k in
     \<lparr>u_args = cstr (argument p), u_dir = dir_of (kfs k), u_open = open_set p,
      u_files = files_of (kfs k) p,
      u_in = map (typed_text (kkbd k)) (typed w),
      u_out = view (pterm_num p) (kcon k), u_sys = sys_view k\<rparr>)"

abbreviation show_bytes :: "u8 list \<Rightarrow> screen \<Rightarrow> screen" where
  "show_bytes \<equiv> fold scr_putc"

section \<open>The states in which a program calls\<close>

definition obj_limit :: nat where "obj_limit = 2048"

text \<open>Every entry of the image is good, and no file comes near the end of the offsets.\<close>

definition image_ok :: "fs_image \<Rightarrow> bool" where
  "image_ok g \<longleftrightarrow> valid_dir g \<and> length (dir_data g) + obj_limit < 2 ^ 31 \<and>
     (\<forall>i<unat (bb_dentry_count g). entry_type g i = FTYPE_FILE \<longrightarrow>
        valid_inode g (entry_inode g i) \<and> length (file_data g (entry_inode g i)) + obj_limit < 2 ^ 31)"

definition fd_ok :: "fs_image \<Rightarrow> file_desc \<Rightarrow> bool" where
  "fd_ok g d \<longleftrightarrow> unat (file_pos d) \<le> length (content g (fops d) (inode d)) \<and>
     length (content g (fops d) (inode d)) + obj_limit < 2 ^ 31 \<and>
     (fops d = FS_OPS \<longrightarrow> valid_inode g (inode d))"

definition files_ok :: "fs_image \<Rightarrow> pcb \<Rightarrow> bool" where
  "files_ok g p \<longleftrightarrow> (\<forall>fd. fd \<in> open_set p \<longrightarrow> fd_ok g (fd_arr p ! nat fd))"

definition keys_ok :: "kbd \<Rightarrow> u8 list \<Rightarrow> bool" where
  "keys_ok kb scs \<longleftrightarrow> length scs \<le> 127 \<and> (\<forall>sc\<in>set scs. plain_key kb sc)"

text \<open>The program runs on the displayed terminal, with an empty line in the keyboard's buffer.\<close>

definition prog_ok :: "kernel \<Rightarrow> bool" where
  "prog_ok k \<longleftrightarrow> kinv k \<and> image_ok (kfs k) \<and> files_ok (kfs k) (cur_pcb k) \<and>
     0 \<in> set (argument (cur_pcb k)) \<and> display_term (kcon k) = pterm_num (cur_pcb k) \<and>
     pending (pterm_num (cur_pcb k)) (kcon k) = []"

definition env_ok :: "uenv \<Rightarrow> bool" where
  "env_ok e \<longleftrightarrow> in_prog_page (ue_at e) obj_limit \<and> 32 \<le> length (filename (in_dentry (ue_inp e)))"

definition world_ok :: "uenv \<Rightarrow> world \<Rightarrow> bool" where
  "world_ok e w \<longleftrightarrow> env_ok e \<and> prog_ok (wk w) \<and> (\<forall>scs\<in>set (typed w). keys_ok (kkbd (wk w)) scs)"

lemma prog_ok_pmem [simp]: "prog_ok (k\<lparr>pmem := m\<rparr>) = prog_ok k"
  by (simp add: prog_ok_def)

lemma sys_view_pmem [simp]: "sys_view (k\<lparr>pmem := m\<rparr>) = sys_view k"
  by (simp add: sys_view_def cong: if_cong)

lemma get_current_terminal_pmem [simp]: "get_current_terminal (k\<lparr>pmem := m\<rparr>) = get_current_terminal k"
  by (simp add: get_current_terminal_def)

lemma open_set_range: "fd \<in> open_set p \<longleftrightarrow> 2 \<le> fd \<and> fd \<le> 7 \<and> fd_is_open fd p"
  by (auto simp: open_set_def)

lemma prog_okD:
  assumes "prog_ok k"
  shows "kinv k" and "con_inv (kcon k)" and "pterm_num (cur_pcb k) < 3" and "length (fd_arr (cur_pcb k)) = 8"
    and "get_current_terminal k = pterm_num (cur_pcb k)" and "process_queue k (current_pid k) \<noteq> NOT_LOADED"
  using assms kinvD [of k] kinvD_cur [of k] by (auto simp: prog_ok_def fds_ok_def)

text \<open>Calls that change the caller's descriptors and clock rate, the console and the clock only.\<close>

definition call_only :: "kernel \<Rightarrow> kernel \<Rightarrow> bool" where
  "call_only k k' \<longleftrightarrow> current_pid k' = current_pid k \<and> process_queue k' = process_queue k \<and> kfs k' = kfs k \<and>
     kkbd k' = kkbd k \<and> (\<exists>fds f. pcbs k' = (pcbs k)(current_pid k := (cur_pcb k)\<lparr>fd_arr := fds, rtc_freq := f\<rparr>))"

lemma call_only_sys: "call_only k k' \<Longrightarrow> sys_view k' = sys_view k"
  by (auto simp: call_only_def sys_view_def pcb_view_def fun_eq_iff)

lemma call_only_refl [simp]: "call_only k k"
proof -
  have "pcbs k = (pcbs k)(current_pid k := (cur_pcb k)\<lparr>fd_arr := fd_arr (cur_pcb k), rtc_freq := rtc_freq (cur_pcb k)\<rparr>)"
    by simp
  then show ?thesis unfolding call_only_def by blast
qed

lemma call_only_trans:
  assumes "call_only a b" and "call_only b c"
  shows "call_only a c"
proof -
  have "pcbs c = (pcbs a)(current_pid a := (cur_pcb a)\<lparr>fd_arr := f, rtc_freq := r\<rparr>)"
    if "pcbs b = (pcbs a)(current_pid a := (cur_pcb a)\<lparr>fd_arr := f', rtc_freq := r'\<rparr>)"
      "pcbs c = (pcbs b)(current_pid a := (pcbs b (current_pid a))\<lparr>fd_arr := f, rtc_freq := r\<rparr>)" for f f' r r'
    using that by simp
  then show ?thesis using assms unfolding call_only_def by metis
qed

lemma call_only_cur:
  assumes "call_only k k'"
  shows "argument (cur_pcb k') = argument (cur_pcb k)" and "pterm_num (cur_pcb k') = pterm_num (cur_pcb k)"
  using assms by (auto simp: call_only_def)

lemma call_only_simps [simp]:
  "call_only k (k'\<lparr>pmem := m\<rparr>) = call_only k k'" "call_only (k\<lparr>pmem := m\<rparr>) k' = call_only k k'"
  "call_only k (k'\<lparr>kcon := c\<rparr>) = call_only k k'" "call_only k (k'\<lparr>krtc := r\<rparr>) = call_only k k'"
  "call_only k (k'\<lparr>kpic := p\<rparr>) = call_only k k'" "call_only k (k'\<lparr>kpg := g\<rparr>) = call_only k k'"
  by (simp_all add: call_only_def)

section \<open>A call with an object\<close>

lemma do_call_ret: "ret x = Some (Return r, k') \<longleftrightarrow> x = Some (r, k')"
  by (auto simp: ret_def)

lemma do_call_numbers:
  "do_call inp 3 b c d k = sys_read inp (sint b) c d k"
  "do_call inp 4 b c d k = sys_write inp (sint b) c d k"
  "do_call inp 5 b c d k = Option.bind (str_arg k b) (\<lambda>s. sys_open inp s k)"
  "do_call inp 6 b c d k = sys_close (sint b) k"
  "do_call inp 7 b c d k = getargs b (sint c) k"
  "do_call inp 8 b c d k = vidmap b k"
proof -
  have r: "Option.bind (ret x) (\<lambda>(fl, k). case fl of Return r \<Rightarrow> Some (r, k) | _ \<Rightarrow> None) = x" for x
    by (cases x) (auto simp: ret_def)
  show "do_call inp 3 b c d k = sys_read inp (sint b) c d k"
    "do_call inp 4 b c d k = sys_write inp (sint b) c d k"
    "do_call inp 5 b c d k = Option.bind (str_arg k b) (\<lambda>s. sys_open inp s k)"
    "do_call inp 6 b c d k = sys_close (sint b) k"
    "do_call inp 7 b c d k = getargs b (sint c) k"
    "do_call inp 8 b c d k = vidmap b k"
    by (simp_all add: do_call_def do_syscall_def NUM_SYSCALLS_def r)
qed

lemma do_call_refused: "sint n < 1 \<or> 10 < sint n \<Longrightarrow> do_call inp n b c d k = Some (-1, k)"
  by (auto simp: do_call_def do_syscall_def NUM_SYSCALLS_def)

lemma world_okD:
  assumes "world_ok e w"
  shows "prog_ok (wk w)" and "env_ok e" and "kinv (wk w)" and "in_prog_page (ue_at e) obj_limit"
    and "n \<le> obj_limit \<Longrightarrow> in_prog_page (ue_at e) n"
  using assms in_prog_page_mono [of "ue_at e" obj_limit n]
  by (auto simp: world_ok_def env_ok_def prog_ok_def)

text \<open>
  The object is stored, the call is made on a state that differs in the program's memory only,
  and the object is read back.
\<close>

lemma obj_callE:
  assumes w: "world_ok e w" and l: "length obj \<le> obj_limit"
    and c: "\<And>m. prog_bytes (wk w\<lparr>pmem := m\<rparr>) (ue_at e) (length obj) = obj \<Longrightarrow>
      \<exists>k'. do_call ((ue_inp e)\<lparr>in_wait := wait\<rparr>) num b c d (wk w\<lparr>pmem := m\<rparr>) = Some (r, k') \<and>
        kinv k' \<and> prog_bytes k' (ue_at e) (length obj) = obj' \<and> P k'"
  shows "\<exists>k'. obj_call e wait obj num b c d w = Some (r, obj', w\<lparr>wk := k'\<rparr>) \<and> P k'"
proof -
  note W = world_okD [OF w]
  have pg: "in_prog_page (ue_at e) (length obj)" using W(5) l .
  obtain m where m: "put_user (ue_at e) obj (wk w) = Some (wk w\<lparr>pmem := m\<rparr>)"
    "prog_bytes (wk w\<lparr>pmem := m\<rparr>) (ue_at e) (length obj) = obj"
    by (rule put_objE [OF W(3) pg])
  from c [OF m(2)] obtain k' where
    k': "do_call ((ue_inp e)\<lparr>in_wait := wait\<rparr>) num b c d (wk w\<lparr>pmem := m\<rparr>) = Some (r, k')"
    "kinv k'" "prog_bytes k' (ue_at e) (length obj) = obj'" "P k'" by blast
  have "get_user (ue_at e) (length obj) k' = Some obj'"
    using get_user_prog [OF k'(2) pg] k'(3) by simp
  then show ?thesis using m(1) k'(1,4) by (intro exI [of _ k']) (simp add: obj_call_def)
qed

text \<open>Memory and process as before: the object is too.\<close>

lemma prog_bytes_cong:
  "pmem k' = pmem k \<Longrightarrow> current_pid k' = current_pid k \<Longrightarrow> prog_bytes k' a n = prog_bytes k a n"
  by (simp add: prog_bytes_def)

text \<open>When the state after a call is one to go on from, and what the program then sees.\<close>

lemma call_onlyD:
  assumes "call_only k k'"
  shows "current_pid k' = current_pid k" and "process_queue k' = process_queue k" and "kfs k' = kfs k"
    and "kkbd k' = kkbd k"
  using assms by (auto simp: call_only_def)

lemma world_ok_call:
  assumes w: "world_ok e w" and c: "call_only (wk w) k'" and k': "kinv k'"
    and f: "files_ok (kfs k') (cur_pcb k')" and d: "display_term (kcon k') = display_term (kcon (wk w))"
    and p: "pending (pterm_num (cur_pcb k')) (kcon k') = []" and t: "set ls \<subseteq> set (typed w)"
  shows "world_ok e \<lparr>wk = k', typed = ls\<rparr>"
  using assms call_onlyD [OF c] call_only_cur [OF c]
  by (auto simp: world_ok_def prog_ok_def)

text \<open>Text put to a terminal.\<close>

lemma put_text:
  assumes "con_inv s" and "i < 3"
  shows "con_inv (fold (\<lambda>c. term_putc c i) cs s)" and "view i (fold (\<lambda>c. term_putc c i) cs s) = show_bytes cs (view i s)"
    and "pending j (fold (\<lambda>c. term_putc c i) cs s) = pending j s"
    and "display_term (fold (\<lambda>c. term_putc c i) cs s) = display_term s"
    and "readWaiting (fold (\<lambda>c. term_putc c i) cs s) = readWaiting s"
proof -
  show "con_inv (fold (\<lambda>c. term_putc c i) cs s)" using fold_putc_inv assms by blast
  show "view i (fold (\<lambda>c. term_putc c i) cs s) = show_bytes cs (view i s)"
    using scr.text_own [of s i cs] assms by simp
  have "con_inv s \<Longrightarrow> pending j (fold (\<lambda>c. term_putc c i) cs s) = pending j s \<and>
      display_term (fold (\<lambda>c. term_putc c i) cs s) = display_term s \<and>
      readWaiting (fold (\<lambda>c. term_putc c i) cs s) = readWaiting s" for s
    using assms(2)
    by (induction cs arbitrary: s) (auto simp: term_putc_keeps con_inv_putc)
  from this [OF assms(1)] show "pending j (fold (\<lambda>c. term_putc c i) cs s) = pending j s"
    "display_term (fold (\<lambda>c. term_putc c i) cs s) = display_term s"
    "readWaiting (fold (\<lambda>c. term_putc c i) cs s) = readWaiting s" by auto
qed

text \<open>The two descriptors of the terminal.\<close>

lemma std_fds:
  assumes "kinv k"
  shows "fd_is_open 0 (cur_pcb k)" and "fops (fd_arr (cur_pcb k) ! 0) = STDIN_OPS"
    and "fd_is_open 1 (cur_pcb k)" and "fops (fd_arr (cur_pcb k) ! Suc 0) = STDOUT_OPS"
proof -
  have "desc_ok True 0 (fd_arr (cur_pcb k) ! 0)" "desc_ok True (Suc 0) (fd_arr (cur_pcb k) ! Suc 0)"
    using kinvD_cur(1) [OF assms] by (simp_all add: fds_ok_def)
  then show "fd_is_open 0 (cur_pcb k)" "fops (fd_arr (cur_pcb k) ! 0) = STDIN_OPS"
    "fd_is_open 1 (cur_pcb k)" "fops (fd_arr (cur_pcb k) ! Suc 0) = STDOUT_OPS"
    by (simp_all add: desc_ok_def fd_is_open_def)
qed

lemma int_args:
  "m \<le> obj_limit \<Longrightarrow> unat (word_of_int (int m) :: u32) = m"
  "m \<le> obj_limit \<Longrightarrow> word_of_int (int m) = (of_nat m :: u32)"
  by (simp_all add: obj_limit_def)

section \<open>write\<close>

lemma write_callE:
  assumes w: "world_ok e w" and m: "m \<le> length buf" "length buf \<le> obj_limit"
  obtains w' where "k_os_write e 1 buf (int m) w = Some (int m, w')" and "world_ok e w'"
    and "user_view w' = (user_view w)\<lparr>u_out := show_bytes (take m buf) (u_out (user_view w))\<rparr>"
proof -
  let ?k = "wk w"
  let ?t = "pterm_num (cur_pcb ?k)"
  note W = world_okD [OF w] and P = prog_okD [OF world_okD(1) [OF w]]
  note T = put_text [OF P(2,3), where cs = "take m buf"]
  let ?c = "fold (\<lambda>c. term_putc c ?t) (take m buf) (kcon ?k)"
  have "\<exists>k'. do_call ((ue_inp e)\<lparr>in_wait := no_wait\<rparr>) 4 (word_of_int 1) (ue_at e) (word_of_int (int m))
      (?k\<lparr>pmem := pm\<rparr>) = Some (int m, k') \<and> kinv k' \<and> prog_bytes k' (ue_at e) (length buf) = buf \<and>
      (\<exists>pm. k' = ?k\<lparr>pmem := pm, kcon := ?c\<rparr>)"
    if b: "prog_bytes (?k\<lparr>pmem := pm\<rparr>) (ue_at e) (length buf) = buf" for pm
  proof (intro exI conjI)
    have "get_user (ue_at e) m (?k\<lparr>pmem := pm\<rparr>) = Some (take m buf)"
      using get_user_prog [of "?k\<lparr>pmem := pm\<rparr>" "ue_at e" m] W(3) W(5) [of m] m b
        take_prog_bytes [of m "length buf" "?k\<lparr>pmem := pm\<rparr>" "ue_at e"] by simp
    then show "do_call ((ue_inp e)\<lparr>in_wait := no_wait\<rparr>) 4 (word_of_int 1) (ue_at e) (word_of_int (int m))
        (?k\<lparr>pmem := pm\<rparr>) = Some (int m, ?k\<lparr>pmem := pm, kcon := ?c\<rparr>)"
      using std_fds [OF W(3)] prog_page_nonnull [OF W(4)] int_args [of m] m P(5)
      by (simp add: do_call_numbers sys_write_def MAX_NUM_FD_def op_write_def k_terminal_write_def
          terminal_write_def min_absorb2 Let_def)
    show "kinv (?k\<lparr>pmem := pm, kcon := ?c\<rparr>)" using kinv_con [of "?k\<lparr>pmem := pm\<rparr>" ?c] W(3) T(1,4) by simp
    show "prog_bytes (?k\<lparr>pmem := pm, kcon := ?c\<rparr>) (ue_at e) (length buf) = buf"
      using b by (simp add: prog_bytes_def)
  qed (rule refl)
  from obj_callE [OF w m(2) this] obtain pm where
    k': "obj_call e no_wait buf 4 (word_of_int 1) (ue_at e) (word_of_int (int m)) w =
      Some (int m, buf, w\<lparr>wk := ?k\<lparr>pmem := pm, kcon := ?c\<rparr>\<rparr>)" by blast
  let ?k' = "?k\<lparr>pmem := pm, kcon := ?c\<rparr>"
  show ?thesis
  proof (rule that)
    show "k_os_write e 1 buf (int m) w = Some (int m, w\<lparr>wk := ?k'\<rparr>)"
      using k' by (simp add: k_os_write_def)
    show "world_ok e (w\<lparr>wk := ?k'\<rparr>)"
      using w T(1,3,4) kinv_con [of "?k\<lparr>pmem := pm\<rparr>" ?c] by (simp add: world_ok_def prog_ok_def)
    have "sys_view ?k' = sys_view ?k" by (intro call_only_sys) simp
    then show "user_view (w\<lparr>wk := ?k'\<rparr>) =
        (user_view w)\<lparr>u_out := show_bytes (take m buf) (u_out (user_view w))\<rparr>"
      using T(2) by (simp add: user_view_def Let_def)
  qed
qed

lemma k_write_out:
  assumes "world_ok e w" and "m \<le> length buf" and "length buf \<le> obj_limit"
  shows "runs (k_os_write e 1 buf (int m) w) (\<lambda>(r, w'). r = int m \<and> world_ok e w' \<and>
    user_view w' = (user_view w)\<lparr>u_out := show_bytes (take m buf) (u_out (user_view w))\<rparr>)"
proof (rule write_callE [OF assms])
  fix w' assume "k_os_write e 1 buf (int m) w = Some (int m, w')" "world_ok e w'"
    "user_view w' = (user_view w)\<lparr>u_out := show_bytes (take m buf) (u_out (user_view w))\<rparr>"
  then show ?thesis by (simp only: runs_simps split_conv simp_thms)
qed

section \<open>Refused calls\<close>

lemma world_pmem:
  "world_ok e w \<Longrightarrow> world_ok e (w\<lparr>wk := wk w\<lparr>pmem := m\<rparr>\<rparr>)"
  "user_view (w\<lparr>wk := wk w\<lparr>pmem := m\<rparr>\<rparr>) = user_view w"
  by (simp_all add: world_ok_def user_view_def Let_def)

lemma refused_callE:
  assumes w: "world_ok e w" and l: "length obj \<le> obj_limit"
    and c: "\<And>m. prog_bytes (wk w\<lparr>pmem := m\<rparr>) (ue_at e) (length obj) = obj \<Longrightarrow>
      do_call ((ue_inp e)\<lparr>in_wait := wait\<rparr>) num b c d (wk w\<lparr>pmem := m\<rparr>) = Some (r, wk w\<lparr>pmem := m\<rparr>)"
  obtains w' where "obj_call e wait obj num b c d w = Some (r, obj, w')" and "world_ok e w'"
    and "user_view w' = user_view w" and "typed w' = typed w"
proof -
  have "\<exists>k'. do_call ((ue_inp e)\<lparr>in_wait := wait\<rparr>) num b c d (wk w\<lparr>pmem := m\<rparr>) = Some (r, k') \<and>
      kinv k' \<and> prog_bytes k' (ue_at e) (length obj) = obj \<and> (\<exists>m. k' = wk w\<lparr>pmem := m\<rparr>)"
    if b: "prog_bytes (wk w\<lparr>pmem := m\<rparr>) (ue_at e) (length obj) = obj" for m
    using c [OF b] b world_okD(3) [OF w] by (intro exI [of _ "wk w\<lparr>pmem := m\<rparr>"]) auto
  from obj_callE [OF w l this] obtain m where
    "obj_call e wait obj num b c d w = Some (r, obj, w\<lparr>wk := wk w\<lparr>pmem := m\<rparr>\<rparr>)" by blast
  from that [OF this] world_pmem(1) [OF w, of m] world_pmem(2) [of m w] show ?thesis by simp
qed

lemma fd_arg: "int32 fd \<Longrightarrow> sint (word_of_int fd :: u32) = fd"
  by (simp add: int32_def sint_word_of_int)

lemma u_sys_view: "u_sys (user_view w) = sys_view (wk w)"
  by (simp add: user_view_def Let_def)

lemma u_open_view [simp]: "u_open (user_view w) = open_set (cur_pcb (wk w))"
  and u_files_view [simp]: "u_files (user_view w) = files_of (kfs (wk w)) (cur_pcb (wk w))"
  and u_dir_view [simp]: "u_dir (user_view w) = dir_of (kfs (wk w))"
  and u_args_view [simp]: "u_args (user_view w) = cstr (argument (cur_pcb (wk w)))"
  and u_in_view [simp]: "u_in (user_view w) = map (typed_text (kkbd (wk w))) (typed w)"
  by (simp_all add: user_view_def Let_def)

text \<open>A read of a descriptor that is not open or is the output.\<close>

lemma sys_read_refused:
  assumes "kinv k" and "fd \<notin> insert 0 (open_set (cur_pcb k))"
  shows "sys_read inp fd buf n k = Some (-1, k)"
proof (cases "fd = 1")
  case True
  then show ?thesis
    using std_fds [OF assms(1)] by (simp add: sys_read_def MAX_NUM_FD_def op_read_def bad_call_def Let_def)
next
  case False
  then show ?thesis using assms(2) bad_fd_refused [of fd k] by (auto simp: open_set_range)
qed

lemma sys_write_refused:
  assumes "kinv k" and "fd \<notin> insert 1 (open_set (cur_pcb k))"
  shows "sys_write inp fd buf n k = Some (-1, k)"
proof (cases "fd = 0")
  case True
  then show ?thesis
    using std_fds [OF assms(1)] by (simp add: sys_write_def MAX_NUM_FD_def op_write_def bad_call_def Let_def)
next
  case False
  then show ?thesis using assms(2) bad_fd_refused [of fd k] by (auto simp: open_set_range)
qed

lemma sys_close_refused:
  assumes "fd \<notin> open_set (cur_pcb k)"
  shows "sys_close fd k = Some (-1, k)"
proof (cases "fd \<in> {0, 1}")
  case True
  then show ?thesis by (auto simp: sys_close_def STDIN_def STDOUT_def)
next
  case False
  then show ?thesis using assms bad_fd_refused [of fd k] by (auto simp: open_set_range)
qed

lemma k_read_refused:
  assumes "world_ok e w" and "int32 fd" and "fd \<notin> insert 0 (u_open (user_view w))"
    and "length buf \<le> obj_limit"
  shows "runs (k_os_read e fd buf (int n) w) (\<lambda>(r, buf', w'). r = -1 \<and> buf' = buf \<and> world_ok e w' \<and>
    user_view w' = user_view w)"
proof -
  let ?wait = "if fd = 0 then type_line_keys (typed w) else (\<lambda>k. Some (k_rtc_int k))"
  obtain w' where "obj_call e ?wait buf 3 (word_of_int fd) (ue_at e) (word_of_int (int n)) w = Some (-1, buf, w')"
    "world_ok e w'" "user_view w' = user_view w"
    by (rule refused_callE [OF assms(1,4), of ?wait 3 "word_of_int fd" "ue_at e" "word_of_int (int n)" "-1"])
      (use world_okD(3) [OF assms(1)] assms(2,3) sys_read_refused in
        \<open>simp_all add: do_call_numbers fd_arg\<close>)
  then show ?thesis using assms(3) by (simp add: k_os_read_def)
qed

lemma k_write_refused:
  assumes "world_ok e w" and "int32 fd" and "fd \<notin> insert 1 (u_open (user_view w))"
    and "length buf \<le> obj_limit"
  shows "runs (k_os_write e fd buf (int n) w) (\<lambda>(r, w'). r = -1 \<and> world_ok e w' \<and> user_view w' = user_view w)"
proof -
  obtain w' where "obj_call e no_wait buf 4 (word_of_int fd) (ue_at e) (word_of_int (int n)) w = Some (-1, buf, w')"
    "world_ok e w'" "user_view w' = user_view w"
    by (rule refused_callE [OF assms(1,4), of no_wait 4 "word_of_int fd" "ue_at e" "word_of_int (int n)" "-1"])
      (use world_okD(3) [OF assms(1)] assms(2,3) sys_write_refused in
        \<open>simp_all add: do_call_numbers fd_arg\<close>)
  then show ?thesis by (simp add: k_os_write_def)
qed

lemma k_close_refused:
  assumes "world_ok e w" and "int32 fd" and "fd \<notin> u_open (user_view w)"
  shows "runs (k_os_close e fd w) (\<lambda>(r, w'). r = -1 \<and> world_ok e w' \<and> user_view w' = user_view w)"
proof -
  obtain w' where "obj_call e no_wait [] 6 (word_of_int fd) 0 0 w = Some (-1, [], w')"
    "world_ok e w'" "user_view w' = user_view w"
    by (rule refused_callE [OF assms(1), of "[]" no_wait 6 "word_of_int fd" 0 0 "-1"])
      (use assms(2,3) sys_close_refused in \<open>simp_all add: do_call_numbers fd_arg\<close>)
  then show ?thesis by (simp add: k_os_close_def)
qed

lemma k_vidmap_refused:
  assumes "world_ok e w" and "unat a < 0x8000000"
  shows "runs (k_os_plain e 8 a 0 w) (\<lambda>(r, w'). r = -1 \<and> world_ok e w' \<and> user_view w' = user_view w)"
proof -
  have "a < USER_PAGE_VMIN" using assms(2) by (simp add: USER_PAGE_VMIN_def page_consts word_less_nat_alt)
  then have v: "vidmap a k = Some (-1, k)" for k by (simp add: vidmap_def)
  obtain w' where "obj_call e no_wait [] 8 a 0 0 w = Some (-1, [], w')"
    "world_ok e w'" "user_view w' = user_view w"
    by (rule refused_callE [OF assms(1), of "[]" no_wait 8 a 0 0 "-1"])
      (simp_all add: do_call_numbers v)
  then show ?thesis by (simp add: k_os_plain_def)
qed

lemma k_sys_refused:
  assumes "world_ok e w" and "int32 num" and "num < 1 \<or> 10 < num"
  shows "runs (k_os_plain e (word_of_int num) 0 0 w) (\<lambda>(r, w'). r = -1 \<and> world_ok e w' \<and>
    user_view w' = user_view w)"
proof -
  obtain w' where "obj_call e no_wait [] (word_of_int num) 0 0 0 w = Some (-1, [], w')"
    "world_ok e w'" "user_view w' = user_view w"
    by (rule refused_callE [OF assms(1), of "[]" no_wait "word_of_int num" 0 0 0 "-1"])
      (use assms(2,3) in \<open>simp_all add: do_call_refused fd_arg\<close>)
  then show ?thesis by (simp add: k_os_plain_def)
qed

section \<open>getargs\<close>

lemma store_prefix:
  assumes "kinv k" and "prog_bytes k va (length buf) = buf" and "length bs \<le> length buf"
    and "in_prog_page va (length buf)"
  obtains m where "put_user va bs k = Some (k\<lparr>pmem := m\<rparr>)"
    and "prog_bytes (k\<lparr>pmem := m\<rparr>) va (length buf) = bs @ drop (length bs) buf"
  by (rule putE [OF assms(1) in_prog_page_mono [OF assms(4,3)]]) (use assms in auto)

lemma cstr_rest: "0 \<in> set xs \<Longrightarrow> \<exists>rest. xs = cstr xs @ 0 # rest"
  by (induction xs) (auto simp: cstr_def)

lemma k_get_args:
  assumes w: "world_ok e w" and a: "u_args (user_view w) \<noteq> []" "length (u_args (user_view w)) < n"
    and n: "n \<le> length buf" "length buf \<le> obj_limit"
  shows "runs (k_os_getargs e buf (int n) w) (\<lambda>(r, buf', w'). r = 0 \<and>
    buf' = u_args (user_view w) @ 0 # drop (Suc (length (u_args (user_view w)))) buf \<and> world_ok e w' \<and>
    user_view w' = user_view w)"
proof -
  define args where "args = cstr (argument (cur_pcb (wk w)))"
  note W = world_okD [OF w]
  obtain rest where r: "argument (cur_pcb (wk w)) = args @ 0 # rest"
    using cstr_rest [of "argument (cur_pcb (wk w))"] W(1) by (auto simp: args_def prog_ok_def)
  have a0: "args \<noteq> []" "length args < n" "0 \<notin> set args"
    using a by (auto simp: args_def cstr_def dest: set_takeWhileD)
  have l: "getargs_loop (argument (cur_pcb (wk w))) (int n) = Some args"
    using a0 by (simp add: r getargs_loop_eq)
  have h: "argument (cur_pcb (wk w)) ! 0 \<noteq> 0" using a0 by (cases args) (auto simp: r)
  have "sint (word_of_int (int n) :: u32) = int n"
    by (rule fd_arg) (use n in \<open>simp add: int32_def obj_limit_def\<close>)
  then have i: "sint (of_nat n :: u32) = int n" by simp
  have "\<exists>k'. do_call ((ue_inp e)\<lparr>in_wait := no_wait\<rparr>) 7 (ue_at e) (word_of_int (int n)) 0 (wk w\<lparr>pmem := m\<rparr>) =
      Some (0, k') \<and> kinv k' \<and> prog_bytes k' (ue_at e) (length buf) = args @ 0 # drop (Suc (length args)) buf \<and>
      (\<exists>m. k' = wk w\<lparr>pmem := m\<rparr>)"
    if b: "prog_bytes (wk w\<lparr>pmem := m\<rparr>) (ue_at e) (length buf) = buf" for m
  proof -
    obtain m' where m': "put_user (ue_at e) (args @ [0]) (wk w\<lparr>pmem := m\<rparr>) = Some (wk w\<lparr>pmem := m'\<rparr>)"
      "prog_bytes (wk w\<lparr>pmem := m'\<rparr>) (ue_at e) (length buf) = (args @ [0]) @ drop (length (args @ [0])) buf"
      by (rule store_prefix [OF _ b, of "args @ [0]"]) (use W(3) W(5) [of "length buf"] a0 n in auto)
    have "getargs (ue_at e) (int n) (wk w\<lparr>pmem := m\<rparr>) = Some (0, wk w\<lparr>pmem := m'\<rparr>)"
      using l h a0 m'(1) prog_page_nonnull [OF W(4)] by (simp add: getargs_def)
    then show ?thesis
      using m'(2) W(3) by (intro exI [of _ "wk w\<lparr>pmem := m'\<rparr>"]) (auto simp: do_call_numbers i)
  qed
  from obj_callE [OF w n(2) this] obtain m where
    "k_os_getargs e buf (int n) w = Some (0, args @ 0 # drop (Suc (length args)) buf, w\<lparr>wk := wk w\<lparr>pmem := m\<rparr>\<rparr>)"
    by (auto simp: k_os_getargs_def)
  then show ?thesis
    using world_pmem(1) [OF w, of m] world_pmem(2) [of m w] by (simp add: args_def)
qed

lemma k_args_refused:
  assumes w: "world_ok e w" and a: "u_args (user_view w) = []" and l: "length buf \<le> obj_limit"
  shows "runs (k_os_getargs e buf (int n) w) (\<lambda>(r, buf', w'). r = -1 \<and> buf' = buf \<and> world_ok e w' \<and>
    user_view w' = user_view w)"
proof -
  have "argument (cur_pcb (wk w)) \<noteq> []" using world_okD(1) [OF w] by (auto simp: prog_ok_def)
  then have "argument (cur_pcb (wk w)) ! 0 = 0"
    using a by (cases "argument (cur_pcb (wk w))") (auto simp: cstr_def split: if_splits)
  then have g: "getargs b m (wk w\<lparr>pmem := pm\<rparr>) = Some (-1, wk w\<lparr>pmem := pm\<rparr>)" for b m pm
    by (simp add: getargs_def)
  obtain w' where "obj_call e no_wait buf 7 (ue_at e) (word_of_int (int n)) 0 w = Some (-1, buf, w')"
    "world_ok e w'" "user_view w' = user_view w"
    by (rule refused_callE [OF w l, of no_wait 7 "ue_at e" "word_of_int (int n)" 0 "-1"])
      (simp_all add: do_call_numbers g)
  then show ?thesis by (simp add: k_os_getargs_def)
qed

section \<open>Descriptors\<close>

lemma upd_cur_call_only:
  assumes "\<And>p. f p = p\<lparr>fd_arr := fd_arr (f p), rtc_freq := rtc_freq (f p)\<rparr>"
  shows "call_only k (upd_pcb (current_pid k) f k)"
proof -
  have "pcbs (upd_pcb (current_pid k) f k) = (pcbs k)(current_pid k :=
      (cur_pcb k)\<lparr>fd_arr := fd_arr (f (cur_pcb k)), rtc_freq := rtc_freq (f (cur_pcb k))\<rparr>)"
    unfolding assms [symmetric] by simp
  then show ?thesis unfolding call_only_def by (simp only: upd_pcb_simps simp_thms) blast
qed

lemma fd_fun_call_only:
  "call_only k (upd_pcb (current_pid k) (upd_fd fd f) k)"
  "call_only k (upd_pcb (current_pid k) (set_fd_open fd) k)"
  "call_only k (upd_pcb (current_pid k) (set_fd_close fd) k)"
  "call_only k (set_rtc_freq r k)"
  unfolding set_rtc_freq_def
  by (rule upd_cur_call_only; simp add: upd_fd_def set_fd_open_def set_fd_close_def)+

text \<open>One descriptor of the caller is \<open>d\<close> now, the others are as before.\<close>

definition fd_set :: "int \<Rightarrow> file_desc \<Rightarrow> pcb \<Rightarrow> pcb \<Rightarrow> bool" where
  "fd_set fd d p p' \<longleftrightarrow> length (fd_arr p) = 8 \<and> 0 \<le> fd \<and> fd \<le> 7 \<and> fd_arr p' = (fd_arr p)[nat fd := d]"

lemma fd_set_open: "fd_set fd d p p' \<Longrightarrow> 0 \<le> j \<Longrightarrow>
    fd_is_open j p' \<longleftrightarrow> (if j = fd then fflags d = FDFLAG_OPEN else fd_is_open j p)"
  by (cases "j = fd") (auto simp: fd_set_def fd_is_open_def nth_list_update)

lemma fd_set_open_set:
  assumes "fd_set fd d p p'" and "2 \<le> fd"
  shows "open_set p' = (if fflags d = FDFLAG_OPEN then insert fd (open_set p) else open_set p - {fd})"
  using assms fd_set_open [OF assms(1)] by (auto simp: open_set_def fd_set_def split: if_splits)

lemma fd_set_files:
  assumes "fd_set fd d p p'" and "2 \<le> fd"
  shows "files_of g p' = (files_of g p)(fd := (if fflags d = FDFLAG_OPEN then Some (fd_file g d) else None))"
proof
  fix j
  have "j \<in> open_set p \<Longrightarrow> j \<noteq> fd \<Longrightarrow> fd_arr p' ! nat j = fd_arr p ! nat j"
    using assms by (auto simp: fd_set_def open_set_def nth_list_update)
  moreover have "fd_arr p' ! nat fd = d" using assms(1) by (auto simp: fd_set_def)
  ultimately show "files_of g p' j = ((files_of g p)(fd := (if fflags d = FDFLAG_OPEN then Some (fd_file g d) else None))) j"
    using assms(1) by (auto simp: files_of_def fd_set_open_set [OF assms])
qed

lemma fd_set_files_ok:
  assumes "fd_set fd d p p'" and "2 \<le> fd" and "files_ok g p" and "fflags d = FDFLAG_OPEN \<Longrightarrow> fd_ok g d"
  shows "files_ok g p'"
proof -
  have "fd_ok g (fd_arr p' ! nat j)" if "j \<in> open_set p'" for j
    using that assms fd_set_open [OF assms(1), of j] by (cases "j = fd")
      (auto simp: files_ok_def fd_set_def open_set_def nth_list_update split: if_splits)
  then show ?thesis by (simp add: files_ok_def)
qed

text \<open>The state after a call on one descriptor of the caller.\<close>

definition con_same :: "console \<Rightarrow> console \<Rightarrow> bool" where
  "con_same c c' \<longleftrightarrow> terminals c' = terminals c \<and> vram c' = vram c \<and> display_term c' = display_term c"

lemma con_same_refl [simp]: "con_same c c" "con_same c (sti c)"
  by (simp_all add: con_same_def)

lemma fd_call_world:
  assumes w: "world_ok e w" and c: "call_only (wk w) k'" and k': "kinv k'" and s: "con_same (kcon (wk w)) (kcon k')"
    and f: "fd_set fd d (cur_pcb (wk w)) (cur_pcb k')" "2 \<le> fd"
    and d: "fflags d = FDFLAG_OPEN \<Longrightarrow> fd_ok (kfs (wk w)) d"
  shows "world_ok e (w\<lparr>wk := k'\<rparr>)"
    and "user_view (w\<lparr>wk := k'\<rparr>) = (user_view w)
      \<lparr>u_open := (if fflags d = FDFLAG_OPEN then insert fd (u_open (user_view w)) else u_open (user_view w) - {fd}),
       u_files := (u_files (user_view w))(fd := (if fflags d = FDFLAG_OPEN then Some (fd_file (kfs (wk w)) d) else None))\<rparr>"
proof -
  note C = call_onlyD [OF c] and A = call_only_cur [OF c]
  have v: "view i (kcon k') = view i (kcon (wk w))" "pending i (kcon k') = pending i (kcon (wk w))" for i
    using s by (simp_all add: con_same_def view_def pending_def)
  have "files_ok (kfs k') (cur_pcb k')"
    using fd_set_files_ok [OF f, of "kfs (wk w)"] w d C by (auto simp: world_ok_def prog_ok_def)
  then show "world_ok e (w\<lparr>wk := k'\<rparr>)"
    using w k' s C A v by (auto simp: world_ok_def prog_ok_def con_same_def)
  show "user_view (w\<lparr>wk := k'\<rparr>) = (user_view w)
      \<lparr>u_open := (if fflags d = FDFLAG_OPEN then insert fd (u_open (user_view w)) else u_open (user_view w) - {fd}),
       u_files := (u_files (user_view w))(fd := (if fflags d = FDFLAG_OPEN then Some (fd_file (kfs (wk w)) d) else None))\<rparr>"
    using C A v call_only_sys [OF c] fd_set_open_set [OF f] fd_set_files [OF f]
    by (simp add: user_view_def Let_def)
qed

lemma open_desc:
  assumes "kinv k" and "fd \<in> open_set (cur_pcb k)"
  shows "fops (fd_arr (cur_pcb k) ! nat fd) \<in> {RTC_OPS, DIR_OPS, FS_OPS}"
proof -
  have "desc_ok True (nat fd) (fd_arr (cur_pcb k) ! nat fd)" "fd_is_open fd (cur_pcb k)" "2 \<le> nat fd"
    using kinvD_cur(1) [OF assms(1)] assms(2) by (auto simp: fds_ok_def open_set_def)
  then show ?thesis by (auto simp: desc_ok_def fd_is_open_def split: if_splits)
qed

section \<open>close\<close>

lemma sys_close_open:
  assumes k: "kinv k" and fd: "fd \<in> open_set (cur_pcb k)"
  obtains k' where "sys_close fd k = Some (0, k')" and "kinv k'" and "call_only k k'" and "kcon k' = kcon k"
    and "pmem k' = pmem k" and "fd_set fd ((fd_arr (cur_pcb k) ! nat fd)\<lparr>fflags := FDFLAG_CLOSED\<rparr>) (cur_pcb k) (cur_pcb k')"
proof -
  let ?k = "upd_pcb (current_pid k) (set_fd_close fd) k"
  let ?r = "set_rtc_freq (-1) ?k"
  have r: "2 \<le> fd" "fd \<le> 7" "fd_is_open fd (cur_pcb k)" using fd by (auto simp: open_set_range)
  have len: "length (fd_arr (cur_pcb k)) = 8" using kinvD_cur(1) [OF k] by (simp add: fds_ok_def)
  have n: "fd_arr (set_fd_close fd (cur_pcb k)) =
      (fd_arr (cur_pcb k))[nat fd := (fd_arr (cur_pcb k) ! nat fd)\<lparr>fflags := FDFLAG_CLOSED\<rparr>]"
    by (simp add: set_fd_close_def upd_fd_def)
  then have o: "fops (fd_arr (set_fd_close fd (cur_pcb k)) ! nat fd) = fops (fd_arr (cur_pcb k) ! nat fd)"
    using r len by simp
  have e: "sys_close fd k = op_close (fops (fd_arr (cur_pcb k) ! nat fd)) ?k"
    using r by (simp add: sys_close_def MAX_NUM_FD_def STDIN_def STDOUT_def Let_def o)
  obtain k' where k': "sys_close fd k = Some (0, k')" "k' = ?k \<or> k' = ?r"
    using open_desc [OF k fd] unfolding e by (auto simp: op_close_def fs_stubs rtc_close_def)
  have c: "call_only k k'" using k'(2) fd_fun_call_only(3,4) call_only_trans by metis
  show ?thesis
  proof (rule that [OF k'(1) _ c])
    show "kinv k'" using sys_close_keeps [OF k k'(1)] by simp
    show "kcon k' = kcon k" "pmem k' = pmem k" using k'(2) by (auto simp: set_rtc_freq_def)
    show "fd_set fd ((fd_arr (cur_pcb k) ! nat fd)\<lparr>fflags := FDFLAG_CLOSED\<rparr>) (cur_pcb k) (cur_pcb k')"
      using k'(2) r len n by (auto simp: fd_set_def set_rtc_freq_def)
  qed
qed

lemma k_close_file:
  assumes w: "world_ok e w" and fd: "fd \<in> u_open (user_view w)"
  shows "runs (k_os_close e fd w) (\<lambda>(r, w'). r = 0 \<and> world_ok e w' \<and>
    user_view w' = (user_view w)\<lparr>u_open := u_open (user_view w) - {fd}, u_files := (u_files (user_view w))(fd := None)\<rparr>)"
proof -
  note W = world_okD [OF w]
  let ?d = "(fd_arr (cur_pcb (wk w)) ! nat fd)\<lparr>fflags := FDFLAG_CLOSED\<rparr>"
  have fd': "int32 fd" "2 \<le> fd" using fd by (auto simp: open_set_range int32_def)
  have "\<exists>k'. do_call ((ue_inp e)\<lparr>in_wait := no_wait\<rparr>) 6 (word_of_int fd) 0 0 (wk w\<lparr>pmem := m\<rparr>) = Some (0, k') \<and>
      kinv k' \<and> prog_bytes k' (ue_at e) (length ([] :: u8 list)) = [] \<and>
      (call_only (wk w) k' \<and> kinv k' \<and> kcon k' = kcon (wk w) \<and> fd_set fd ?d (cur_pcb (wk w)) (cur_pcb k'))" for m
    by (rule sys_close_open [of "wk w\<lparr>pmem := m\<rparr>" fd])
      (use W(3) fd fd' in \<open>auto simp: do_call_numbers fd_arg prog_bytes_def\<close>)
  from obj_callE [OF w _ this] obtain k' where
    k': "obj_call e no_wait [] 6 (word_of_int fd) 0 0 w = Some (0, [], w\<lparr>wk := k'\<rparr>)"
    "call_only (wk w) k'" "kinv k'" "kcon k' = kcon (wk w)" "fd_set fd ?d (cur_pcb (wk w)) (cur_pcb k')"
    by (auto simp: obj_limit_def)
  have "world_ok e (w\<lparr>wk := k'\<rparr>)" "user_view (w\<lparr>wk := k'\<rparr>) = (user_view w)
      \<lparr>u_open := u_open (user_view w) - {fd}, u_files := (u_files (user_view w))(fd := None)\<rparr>"
    using fd_call_world [OF w k'(2,3) _ k'(5) fd'(2)] k'(4) by (simp_all add: FDFLAG_OPEN_def FDFLAG_CLOSED_def)
  then show ?thesis using k'(1) by (simp add: k_os_close_def)
qed

section \<open>open\<close>

lemma lookup_eq:
  assumes "0 \<in> set fname" and "length fname < 2 ^ 31" and "32 \<le> length (filename d)"
  shows "read_dentry_by_name g fname d = Some (case find_entry g (cstr fname) of
    None \<Rightarrow> (-1, d) | Some i \<Rightarrow> (0, dentry_of g i d))"
  unfolding find_entry_def by (rule read_dentry_by_name_eq [OF assms])

lemma dentry_of_type: "ftype (dentry_of g i d) = entry_type g i" "inode_num (dentry_of g i d) = entry_inode g i"
  by (simp_all add: dentry_of_def entry_type_def entry_inode_def)

lemma find_entry_less: "find_entry g name = Some i \<Longrightarrow> i < unat (bb_dentry_count g)"
  by (auto simp: find_entry_def find_Some_iff)

lemma fd_ok_opened:
  assumes "image_ok g" and "find_entry g name = Some i" and "ops_of_type (entry_type g i) = Some ops"
  shows "fd_ok g (d\<lparr>fops := ops, inode := entry_inode g i, file_pos := 0, fflags := FDFLAG_OPEN\<rparr>)"
  using assms find_entry_less [OF assms(2)]
  by (auto simp: fd_ok_def image_ok_def content_def ops_of_type_def obj_limit_def split: if_splits)

lemma closed_fd_full: "fds_ok True p \<Longrightarrow> closed_fd p [0..7] = 8 \<longleftrightarrow> {2..7} \<subseteq> open_set p"
proof
  assume f: "fds_ok True p" and "closed_fd p [0..7] = 8"
  then show "{2..7} \<subseteq> open_set p" using closed_fd_cases [of p] by (auto simp: open_set_def)
next
  assume f: "fds_ok True p" and "{2..7} \<subseteq> open_set p"
  then have "fd_is_open j p" if "2 \<le> j" "j \<le> 7" for j using that by (auto simp: open_set_def)
  moreover have "2 \<le> closed_fd p [0..7] \<and> closed_fd p [0..7] \<le> 7" if "closed_fd p [0..7] \<noteq> 8"
    using closed_fd_ge2 [OF f that] by simp
  ultimately show "closed_fd p [0..7] = 8" using closed_fd_cases [of p] by auto
qed

lemma sys_open_new:
  assumes k: "kinv k" and d: "read_dentry_by_name (kfs k) fname (in_dentry inp) = Some (0, d)"
    and t: "ops_of_type (ftype d) = Some ops" and nf: "\<not> {2..7} \<subseteq> open_set (cur_pcb k)"
  defines "fd \<equiv> closed_fd (cur_pcb k) [0..7]"
  obtains k' where "sys_open inp (Some fname) k = Some (fd, k')" and "kinv k'" and "call_only k k'"
    and "con_same (kcon k) (kcon k')" and "pmem k' = pmem k"
    and "fd_set fd ((fd_arr (cur_pcb k) ! nat fd)\<lparr>fops := ops, inode := inode_num d, file_pos := 0,
      fflags := FDFLAG_OPEN\<rparr>) (cur_pcb k) (cur_pcb k')"
proof -
  note f = kinvD_cur(1) [OF k]
  have n8: "fd \<noteq> 8" using closed_fd_full [OF f] nf by (simp add: fd_def)
  then have r: "2 \<le> fd" "fd \<le> 7" using closed_fd_ge2 [OF f] by (simp_all add: fd_def)
  have len: "length (fd_arr (cur_pcb k)) = 8" using f by (simp add: fds_ok_def)
  let ?f = "\<lambda>x. x\<lparr>fops := ops, inode := inode_num d, file_pos := 0\<rparr>"
  let ?k = "upd_cur_fd fd ?f k"
  let ?r = "set_rtc_freq 2 (snd (k_rtc_set_freq (in_prev inp) 2 ?k))"
  have c0: "call_only k ?k" unfolding upd_cur_fd_def by (rule fd_fun_call_only(1))
  have cr: "call_only ?k (snd (k_rtc_set_freq (in_prev inp) 2 ?k))"
    "con_same (kcon ?k) (kcon (snd (k_rtc_set_freq (in_prev inp) 2 ?k)))"
    "pmem (snd (k_rtc_set_freq (in_prev inp) 2 ?k)) = pmem ?k"
    by (simp_all add: k_rtc_set_freq_def split: prod.split)
  obtain k1 r1 where k1: "op_open (in_prev inp) ops ?k = Some (r1, k1)" "k1 = ?k \<or> k1 = ?r"
    using ops_of_type_ops [OF t] by (auto simp: op_open_def fs_stubs rtc_open_def case_prod_beta)
  have "call_only k k1" using k1(2) c0 call_only_trans [OF c0 call_only_trans [OF cr(1) fd_fun_call_only(4)]] by auto
  then have c1: "current_pid k1 = current_pid k" "call_only k (upd_pcb (current_pid k1) (set_fd_open fd) k1)"
    using call_only_trans [OF _ fd_fun_call_only(2)] by (auto simp: call_only_def)
  have e: "sys_open inp (Some fname) k = Some (fd, upd_pcb (current_pid k1) (set_fd_open fd) k1)"
    using d t k1(1) n8 by (simp add: sys_open_def MAX_NUM_FD_def Let_def fd_def)
  have "fd_arr (cur_pcb k1) = fd_arr (upd_fd fd ?f (cur_pcb k))"
    using op_open_fd_arr [OF k1(1), of "current_pid k"] c1(1) by (simp add: upd_cur_fd_def)
  then have a: "fd_arr (set_fd_open fd (cur_pcb k1)) = (fd_arr (cur_pcb k))[nat fd :=
      (fd_arr (cur_pcb k) ! nat fd)\<lparr>fops := ops, inode := inode_num d, file_pos := 0, fflags := FDFLAG_OPEN\<rparr>]"
    using r len by (simp add: set_fd_open_def upd_fd_def)
  show ?thesis
  proof (rule that [OF e _ c1(2)])
    show "kinv (upd_pcb (current_pid k1) (set_fd_open fd) k1)" using sys_open_keeps [OF k e] by blast
    show "con_same (kcon k) (kcon (upd_pcb (current_pid k1) (set_fd_open fd) k1))"
      using k1(2) cr(2) by (auto simp: upd_cur_fd_def set_rtc_freq_def)
    show "pmem (upd_pcb (current_pid k1) (set_fd_open fd) k1) = pmem k"
      using k1(2) cr(3) by (auto simp: upd_cur_fd_def set_rtc_freq_def)
  qed (use a r len c1(1) in \<open>simp add: fd_set_def\<close>)
qed

text \<open>The name in the program's memory reaches \<^verbatim>\<open>sys_open\<close>.\<close>

lemma do_call_open:
  assumes w: "world_ok e w" and n: "0 \<in> set name" "length name \<le> obj_limit"
    and b: "prog_bytes (wk w\<lparr>pmem := m\<rparr>) (ue_at e) (length name) = name"
  shows "do_call ((ue_inp e)\<lparr>in_wait := no_wait\<rparr>) 5 (ue_at e) 0 0 (wk w\<lparr>pmem := m\<rparr>) =
    sys_open ((ue_inp e)\<lparr>in_wait := no_wait\<rparr>) (Some (cstr name @ [0])) (wk w\<lparr>pmem := m\<rparr>)"
proof -
  obtain rest where r: "name = cstr name @ 0 # rest" using cstr_rest [OF n(1)] by blast
  have "0 \<notin> set (cstr name)" by (auto simp: cstr_def dest: set_takeWhileD)
  then have "str_arg (wk w\<lparr>pmem := m\<rparr>) (ue_at e) = Some (Some (cstr name @ [0]))"
    using world_okD(3,5) [OF w] n(2) b r
    by (intro str_arg_prog [where rest = rest]) simp_all
  then show ?thesis by (simp add: do_call_numbers)
qed

lemma k_open_file:
  assumes w: "world_ok e w" and n: "0 \<in> set name" "length name \<le> obj_limit"
    and d: "u_dir (user_view w) (cstr name) = Some data" and nf: "\<not> {2..7} \<subseteq> u_open (user_view w)"
  shows "runs (k_os_open e name w) (\<lambda>(fd, w'). fd \<in> {2..7} - u_open (user_view w) \<and> world_ok e w' \<and>
    user_view w' = (user_view w)\<lparr>u_open := insert fd (u_open (user_view w)),
      u_files := (u_files (user_view w))(fd \<mapsto> (data, 0))\<rparr>)"
proof -
  note W = world_okD [OF w]
  let ?g = "kfs (wk w)" and ?p = "cur_pcb (wk w)" and ?c = "cstr name @ [0]"
  define fd where "fd = closed_fd ?p [0..7]"
  obtain i ops where i: "find_entry ?g (cstr name) = Some i" "ops_of_type (entry_type ?g i) = Some ops"
    and data: "data = content ?g ops (entry_inode ?g i)"
    using d by (auto simp: dir_of_def bind_eq_Some_conv)
  have cc: "cstr ?c = cstr name" "length ?c \<le> obj_limit"
    using cstr_id [of "cstr name" "[]"] length_cstr_less [OF n(1)] n(2)
    by (auto simp: cstr_def dest: set_takeWhileD)
  define dd where "dd = dentry_of ?g i (in_dentry (ue_inp e))"
  have l: "read_dentry_by_name ?g ?c (in_dentry (ue_inp e)) = Some (0, dd)"
    using lookup_eq [of ?c "in_dentry (ue_inp e)" ?g] W(2) cc i(1) by (simp add: env_ok_def obj_limit_def dd_def)
  let ?d = "(fd_arr ?p ! nat fd)\<lparr>fops := ops, inode := entry_inode ?g i, file_pos := 0, fflags := FDFLAG_OPEN\<rparr>"
  have fr: "fd \<in> {2..7} - open_set ?p"
  proof -
    note f = kinvD_cur(1) [OF W(3)]
    have "fd \<noteq> 8" using closed_fd_full [OF f] nf by (simp add: fd_def)
    then show ?thesis
      using closed_fd_ge2 [OF f] closed_fd_cases [of ?p] by (auto simp: fd_def open_set_def)
  qed
  have "\<exists>k'. do_call ((ue_inp e)\<lparr>in_wait := no_wait\<rparr>) 5 (ue_at e) 0 0 (wk w\<lparr>pmem := m\<rparr>) = Some (fd, k') \<and>
      kinv k' \<and> prog_bytes k' (ue_at e) (length name) = name \<and>
      (call_only (wk w) k' \<and> kinv k' \<and> con_same (kcon (wk w)) (kcon k') \<and> fd_set fd ?d ?p (cur_pcb k'))"
    if b: "prog_bytes (wk w\<lparr>pmem := m\<rparr>) (ue_at e) (length name) = name" for m
  proof (rule sys_open_new [of "wk w\<lparr>pmem := m\<rparr>" ?c "(ue_inp e)\<lparr>in_wait := no_wait\<rparr>" dd ops])
    fix k' assume k': "sys_open ((ue_inp e)\<lparr>in_wait := no_wait\<rparr>) (Some ?c) (wk w\<lparr>pmem := m\<rparr>) =
        Some (closed_fd (cur_pcb (wk w\<lparr>pmem := m\<rparr>)) [0..7], k')" "kinv k'" "call_only (wk w\<lparr>pmem := m\<rparr>) k'"
      "con_same (kcon (wk w\<lparr>pmem := m\<rparr>)) (kcon k')" "pmem k' = pmem (wk w\<lparr>pmem := m\<rparr>)"
      "fd_set (closed_fd (cur_pcb (wk w\<lparr>pmem := m\<rparr>)) [0..7])
        ((fd_arr (cur_pcb (wk w\<lparr>pmem := m\<rparr>)) ! nat (closed_fd (cur_pcb (wk w\<lparr>pmem := m\<rparr>)) [0..7]))
          \<lparr>fops := ops, inode := inode_num dd, file_pos := 0, fflags := FDFLAG_OPEN\<rparr>)
        (cur_pcb (wk w\<lparr>pmem := m\<rparr>)) (cur_pcb k')"
    have "prog_bytes k' (ue_at e) (length name) = name"
      using b prog_bytes_cong [OF k'(5)] call_onlyD(1) [OF k'(3)] by simp
    then show ?thesis
      using k' do_call_open [OF w n b] by (simp add: fd_def dd_def dentry_of_type)
  qed (use W(3) l i(2) nf in \<open>simp_all add: dd_def dentry_of_type\<close>)
  from obj_callE [OF w n(2) this] obtain k' where
    k': "obj_call e no_wait name 5 (ue_at e) 0 0 w = Some (fd, name, w\<lparr>wk := k'\<rparr>)"
    "call_only (wk w) k'" "kinv k'" "con_same (kcon (wk w)) (kcon k')" "fd_set fd ?d ?p (cur_pcb k')" by blast
  have "fd_ok ?g ?d" using fd_ok_opened [OF _ i] W(1) by (simp add: prog_ok_def)
  then have "world_ok e (w\<lparr>wk := k'\<rparr>)" "user_view (w\<lparr>wk := k'\<rparr>) = (user_view w)
      \<lparr>u_open := insert fd (u_open (user_view w)), u_files := (u_files (user_view w))(fd \<mapsto> (data, 0))\<rparr>"
    using fd_call_world [OF w k'(2-5)] fr by (simp_all add: fd_file_def data)
  then show ?thesis using k'(1) fr by (simp add: k_os_open_def)
qed

lemma k_open_refused:
  assumes w: "world_ok e w" and n: "0 \<in> set name" "length name \<le> obj_limit"
    and r: "u_dir (user_view w) (cstr name) = None \<or> {2..7} \<subseteq> u_open (user_view w)"
  shows "runs (k_os_open e name w) (\<lambda>(r, w'). r = -1 \<and> world_ok e w' \<and> user_view w' = user_view w)"
proof -
  note W = world_okD [OF w]
  let ?g = "kfs (wk w)" and ?p = "cur_pcb (wk w)" and ?c = "cstr name @ [0]"
  have cc: "cstr ?c = cstr name" "length ?c \<le> obj_limit"
    using cstr_id [of "cstr name" "[]"] length_cstr_less [OF n(1)] n(2)
    by (auto simp: cstr_def dest: set_takeWhileD)
  have l: "read_dentry_by_name ?g ?c (in_dentry (ue_inp e)) = Some (case find_entry ?g (cstr name) of
      None \<Rightarrow> (-1, in_dentry (ue_inp e)) | Some i \<Rightarrow> (0, dentry_of ?g i (in_dentry (ue_inp e))))"
    using lookup_eq [of ?c "in_dentry (ue_inp e)" ?g] W(2) cc by (simp add: env_ok_def obj_limit_def)
  have s: "sys_open ((ue_inp e)\<lparr>in_wait := no_wait\<rparr>) (Some ?c) (wk w\<lparr>pmem := m\<rparr>) = Some (-1, wk w\<lparr>pmem := m\<rparr>)" for m
    using r closed_fd_full [OF kinvD_cur(1) [OF W(3)]]
    by (auto simp: sys_open_def MAX_NUM_FD_def l dir_of_def dentry_of_type Let_def split: option.splits bind_splits)
  obtain w' where "obj_call e no_wait name 5 (ue_at e) 0 0 w = Some (-1, name, w')" "world_ok e w'"
    "user_view w' = user_view w"
    by (rule refused_callE [OF w n(2)]) (use do_call_open [OF w n] s in auto)
  then show ?thesis by (simp add: k_os_open_def)
qed

section \<open>read of a file\<close>

definition tick_wait :: "kernel \<Rightarrow> kernel option" where "tick_wait k = Some (k_rtc_int k)"

lemma wait_ok_tick: "wait_ok tick_wait"
  by (auto simp: wait_ok_def tick_wait_def k_rtc_int_keeps) (simp add: k_rtc_int_def case_prod_beta)

lemma advance_pos_call:
  assumes "kinv k" and "0 \<le> fd" "fd \<le> 7"
  shows "kinv (advance_pos fd cnt k)" and "call_only k (advance_pos fd cnt k)"
    and "pmem (advance_pos fd cnt k) = pmem k" and "kcon (advance_pos fd cnt k) = kcon k"
    and "fd_set fd ((fd_arr (cur_pcb k) ! nat fd)\<lparr>file_pos := file_pos (fd_arr (cur_pcb k) ! nat fd) + word_of_int cnt\<rparr>)
      (cur_pcb k) (cur_pcb (advance_pos fd cnt k))"
proof -
  show "kinv (advance_pos fd cnt k)" by (rule kinv_advance_pos [OF assms(1)])
  show "call_only k (advance_pos fd cnt k)" unfolding advance_pos_def by (rule fd_fun_call_only(1))
  show "pmem (advance_pos fd cnt k) = pmem k" "kcon (advance_pos fd cnt k) = kcon k"
    by (simp_all add: advance_pos_def)
  show "fd_set fd ((fd_arr (cur_pcb k) ! nat fd)\<lparr>file_pos := file_pos (fd_arr (cur_pcb k) ! nat fd) + word_of_int cnt\<rparr>)
      (cur_pcb k) (cur_pcb (advance_pos fd cnt k))"
    using kinvD_cur(1) [OF assms(1)] assms(2,3) by (simp add: fd_set_def advance_pos_def upd_fd_def fds_ok_def)
qed

lemma tick_read:
  assumes "kinv k" and "0 \<le> fd" "fd \<le> 7"
  obtains k' where "k_rtc_read tick_wait k = Some (0, k')" and "kinv k'" and "call_only k k'"
    and "pmem k' = pmem k" and "kcon k' = kcon k" and "fd_set fd (fd_arr (cur_pcb k) ! nat fd) (cur_pcb k) (cur_pcb k')"
proof -
  let ?k' = "set_int_flag False (k_rtc_int (set_int_flag False k))"
  have f: "rtc_int_flag (krtc (k_rtc_int k))" for k :: kernel
    by (simp add: k_rtc_int_def case_prod_beta)
  have e: "k_rtc_read tick_wait k = Some (0, ?k')"
    by (simp add: k_rtc_read_def tick_wait_def f)
  show ?thesis
  proof (rule that [OF e])
    show "kinv ?k'" using k_rtc_read_keeps [OF assms(1) wait_ok_tick e] by blast
    show "fd_set fd (fd_arr (cur_pcb k) ! nat fd) (cur_pcb k) (cur_pcb ?k')"
      using kinvD_cur(1) [OF assms(1)] assms(2,3)
      by (simp add: fd_set_def set_int_flag_def k_rtc_int_def case_prod_beta fds_ok_def)
  qed (simp_all add: set_int_flag_def k_rtc_int_def case_prod_beta)
qed

lemma sys_read_open:
  assumes k: "kinv k" and fd: "fd \<in> open_set (cur_pcb k)" and im: "image_ok (kfs k)"
    and ok: "fd_ok (kfs k) (fd_arr (cur_pcb k) ! nat fd)"
    and n: "n \<le> length buf" "length buf \<le> obj_limit" and pg: "in_prog_page va (length buf)"
    and b: "prog_bytes k va (length buf) = buf" and wt: "in_wait inp = tick_wait"
    and f: "fd_file (kfs k) (fd_arr (cur_pcb k) ! nat fd) = (data, pos)"
  defines "bs \<equiv> take n (drop pos data)"
  obtains k' where "sys_read inp fd va (of_nat n) k = Some (int (length bs), k')" and "kinv k'"
    and "call_only k k'" and "kcon k' = kcon k" and "prog_bytes k' va (length buf) = bs @ drop (length bs) buf"
    and "fd_set fd ((fd_arr (cur_pcb k) ! nat fd)\<lparr>file_pos := of_nat (pos + length bs)\<rparr>) (cur_pcb k) (cur_pcb k')"
proof -
  let ?d = "fd_arr (cur_pcb k) ! nat fd"
  have r: "0 \<le> fd" "fd \<le> 7" "fd_is_open fd (cur_pcb k)" using fd by (auto simp: open_set_range)
  have data: "data = content (kfs k) (fops ?d) (inode ?d)" "pos = unat (file_pos ?d)"
    using f by (simp_all add: fd_file_def)
  have w: "file_pos ?d = of_nat pos" by (simp add: data(2))
  have sz: "pos + n < 2 ^ 31" "n < 2 ^ 31" using ok n by (simp_all add: fd_ok_def data obj_limit_def)
  have e: "sys_read inp fd va (of_nat n) k = op_read tick_wait (fops ?d) fd va (of_nat n) k"
    using r prog_page_nonnull [OF pg] by (simp add: sys_read_def MAX_NUM_FD_def Let_def wt)
  obtain m where m: "put_user va bs k = Some (k\<lparr>pmem := m\<rparr>)"
    "prog_bytes (k\<lparr>pmem := m\<rparr>) va (length buf) = bs @ drop (length bs) buf"
    by (rule store_prefix [OF k b, of bs]) (use n pg in \<open>auto simp: bs_def\<close>)
  let ?a = "advance_pos fd (int (length bs)) (k\<lparr>pmem := m\<rparr>)"
  have fs: "sys_read inp fd va (of_nat n) k = Some (int (length bs), ?a)" if "fops ?d = FS_OPS \<or> fops ?d = DIR_OPS"
  proof (cases "fops ?d = FS_OPS")
    case True
    then have "read_data (kfs k) (inode ?d) (file_pos ?d) (of_nat n) = (int (length bs), bs)"
      using read_data_eq [of "kfs k" "inode ?d" pos n] ok sz w by (simp add: fd_ok_def data(1) content_def bs_def)
    then show ?thesis
      unfolding e using True m(1) prog_page_nonnull [OF pg] by (simp add: op_read_def fs_read_def Let_def)
  next
    case False
    then have "read_dir_file (kfs k) (file_pos ?d) (of_nat n) = (int (length bs), bs)"
      using read_dir_file_eq [of "kfs k" pos n] im sz w that by (simp add: image_ok_def data(1) content_def bs_def)
    then show ?thesis
      unfolding e using False that m(1) prog_page_nonnull [OF pg]
      by (auto simp: op_read_def directory_read_def Let_def)
  qed
  show ?thesis
  proof (cases "fops ?d = FS_OPS \<or> fops ?d = DIR_OPS")
    case True
    have k1: "kinv (k\<lparr>pmem := m\<rparr>)" using k by simp
    note A = advance_pos_call [OF k1 r(1,2), where cnt = "int (length bs)"]
    show ?thesis
      by (rule that [OF fs [OF True] A(1)])
        (use A m(2) w prog_bytes_cong [OF A(3)] in \<open>simp_all add: advance_pos_def\<close>)
  next
    case False
    then have rt: "fops ?d = RTC_OPS" using open_desc [OF k fd] by auto
    then have z: "bs = []" "data = []" by (simp_all add: bs_def data(1) content_def)
    then have p0: "pos = 0" using ok by (simp add: fd_ok_def data)
    obtain k' where k': "k_rtc_read tick_wait k = Some (0, k')" "kinv k'" "call_only k k'"
      "pmem k' = pmem k" "kcon k' = kcon k" "fd_set fd ?d (cur_pcb k) (cur_pcb k')"
      by (rule tick_read [OF k r(1,2)])
    show ?thesis
    proof (rule that [of k'])
      show "sys_read inp fd va (of_nat n) k = Some (int (length bs), k')"
        unfolding e using k'(1) rt z by (simp add: op_read_def)
      show "prog_bytes k' va (length buf) = bs @ drop (length bs) buf"
        using b z prog_bytes_cong [OF k'(4)] call_onlyD(1) [OF k'(3)] by simp
      have "(fd_arr (cur_pcb k) ! nat fd)\<lparr>file_pos := of_nat (pos + length bs)\<rparr> = fd_arr (cur_pcb k) ! nat fd"
        using z w by simp
      then show "fd_set fd ((fd_arr (cur_pcb k) ! nat fd)\<lparr>file_pos := of_nat (pos + length bs)\<rparr>) (cur_pcb k) (cur_pcb k')"
        using k'(6) by simp
    qed (use k' in simp_all)
  qed
qed

lemma k_read_file:
  assumes w: "world_ok e w" and f: "u_files (user_view w) fd = Some (data, pos)"
    and n: "n \<le> length buf" "length buf \<le> obj_limit"
  defines "bs \<equiv> take n (drop pos data)"
  shows "runs (k_os_read e fd buf (int n) w) (\<lambda>(r, buf', w'). r = int (length bs) \<and>
    buf' = bs @ drop (length bs) buf \<and> world_ok e w' \<and>
    user_view w' = (user_view w)\<lparr>u_files := (u_files (user_view w))(fd \<mapsto> (data, pos + length bs))\<rparr>)"
proof -
  note W = world_okD [OF w]
  let ?g = "kfs (wk w)" and ?p = "cur_pcb (wk w)"
  let ?d = "(fd_arr ?p ! nat fd)\<lparr>file_pos := of_nat (pos + length bs)\<rparr>"
  have fd: "fd \<in> open_set ?p" and ff: "fd_file ?g (fd_arr ?p ! nat fd) = (data, pos)"
    using f by (simp_all add: files_of_def split: if_splits)
  have r: "2 \<le> fd" "int32 fd" "fd_is_open fd ?p" using fd by (auto simp: open_set_range int32_def)
  have ok: "image_ok ?g" "fd_ok ?g (fd_arr ?p ! nat fd)"
    using W(1) fd by (auto simp: prog_ok_def files_ok_def)
  have "\<exists>k'. do_call ((ue_inp e)\<lparr>in_wait := tick_wait\<rparr>) 3 (word_of_int fd) (ue_at e) (word_of_int (int n))
      (wk w\<lparr>pmem := m\<rparr>) = Some (int (length bs), k') \<and> kinv k' \<and>
      prog_bytes k' (ue_at e) (length buf) = bs @ drop (length bs) buf \<and>
      (call_only (wk w) k' \<and> kinv k' \<and> kcon k' = kcon (wk w) \<and> fd_set fd ?d ?p (cur_pcb k'))"
    if b: "prog_bytes (wk w\<lparr>pmem := m\<rparr>) (ue_at e) (length buf) = buf" for m
    by (rule sys_read_open [of "wk w\<lparr>pmem := m\<rparr>" fd n buf "ue_at e" "(ue_inp e)\<lparr>in_wait := tick_wait\<rparr>" data pos])
      (use W(3) W(5) [OF n(2)] fd ok n b ff in \<open>simp_all add: do_call_numbers fd_arg r bs_def\<close>)
  from obj_callE [OF w n(2) this] obtain k' where
    k': "obj_call e tick_wait buf 3 (word_of_int fd) (ue_at e) (word_of_int (int n)) w =
      Some (int (length bs), bs @ drop (length bs) buf, w\<lparr>wk := k'\<rparr>)"
    "call_only (wk w) k'" "kinv k'" "kcon k' = kcon (wk w)" "fd_set fd ?d ?p (cur_pcb k')" by blast
  have c: "con_same (kcon (wk w)) (kcon k')" using k'(4) by simp
  have "data = content ?g (fops ?d) (inode ?d)" "pos \<le> length data" "length data + obj_limit < 2 ^ 31"
    using ff ok(2) by (auto simp: fd_file_def fd_ok_def)
  moreover have "length bs \<le> length data - pos" by (simp add: bs_def)
  ultimately have p: "data = content ?g (fops ?d) (inode ?d)" "pos + length bs \<le> length data"
    "length data + obj_limit < 2 ^ 31" by linarith+
  then have "unat (of_nat (pos + length bs) :: u32) = pos + length bs" by (intro unat_of_nat32) simp
  then have u: "unat (file_pos ?d) = pos + length bs" by simp
  then have "fd_ok ?g ?d" using ok(2) p by (simp add: fd_ok_def)
  moreover have "fd_file ?g ?d = (data, pos + length bs)" using u p(1) by (simp add: fd_file_def)
  moreover have "fflags ?d = FDFLAG_OPEN" using r(3) by (simp add: fd_is_open_def)
  ultimately have "world_ok e (w\<lparr>wk := k'\<rparr>)" "user_view (w\<lparr>wk := k'\<rparr>) =
      (user_view w)\<lparr>u_files := (u_files (user_view w))(fd \<mapsto> (data, pos + length bs))\<rparr>"
    using fd_call_world [OF w k'(2,3) c k'(5) r(1)] fd by (simp_all add: insert_absorb)
  moreover have "(\<lambda>k. Some (k_rtc_int k)) = tick_wait" by (simp add: fun_eq_iff tick_wait_def)
  ultimately show ?thesis using k'(1) r(1) by (simp add: k_os_read_def)
qed

section \<open>read of the keyboard\<close>

lemma typed_line:
  assumes "kbd_inv kb" and "con_inv s" and "pending (display_term s) s = []" and "readWaiting s (display_term s)"
    and "keys_ok kb scs"
  obtains s' pc' where "foldM keyboard_int (scs @ [ENTER]) (kb, s, pg, pc) = Some (kb, s', pg, pc')"
    and "con_inv s'" and "display_term s' = display_term s" and "\<not> readWaiting s' (display_term s)"
    and "pending (display_term s) s' = typed_text kb scs"
    and "view (display_term s) s' = show_bytes (typed_text kb scs) (view (display_term s) s)"
proof -
  let ?d = "display_term s" and ?line = "map (\<lambda>sc. get_char_map sc kb) scs"
  have ks: "length scs \<le> 127" "\<forall>sc\<in>set scs. plain_key kb sc" using assms(5) by (simp_all add: keys_ok_def)
  obtain s1 pc1 where 1: "foldM keyboard_int scs (kb, s, pg, pc) = Some (kb, s1, pg, pc1)"
    "con_inv s1" "display_term s1 = ?d" "readWaiting s1 = readWaiting s" "pending ?d s1 = ?line"
    "view ?d s1 = show_bytes ?line (view ?d s)"
    using plain_keys_type [OF assms(2) _ ks(2), of pg pc] assms(3) ks(1) by auto
  have c: "con_inv (cli s1)" "length (pending (display_term (cli s1)) (cli s1)) < 128"
    using 1 ks(1) by simp_all
  obtain s2 where 2: "term_keyboardEnter (cli s1) = Some s2" "con_inv s2" "display_term s2 = ?d"
    "readWaiting s2 = (readWaiting s)(?d := False)" "pending ?d s2 = ?line @ [10]"
    "view ?d s2 = scr_putc 10 (show_bytes ?line (view ?d s))"
    by (rule term_keyboardEnter_room [OF c]) (use 1 assms(4) in \<open>auto simp: view_def\<close>)
  have i: "keyboard_int ENTER (kb, s1, pg, pc1) = Some (kb, sti s2, pg, send_eoi KB_IRQ pc1)"
    using assms(1) 2(1) by (rule enter_key_int)
  show ?thesis
  proof (rule that)
    show "foldM keyboard_int (scs @ [ENTER]) (kb, s, pg, pc) = Some (kb, sti s2, pg, send_eoi KB_IRQ pc1)"
      using 1(1) i by (simp add: foldM_append)
    show "con_inv (sti s2)" using 2(2) by simp
    show "pending ?d (sti s2) = typed_text kb scs" using 2(5) by (simp add: typed_text_def pending_def)
    show "view ?d (sti s2) = show_bytes (typed_text kb scs) (view ?d s)"
      using 2(6) by (simp add: typed_text_def view_def)
  qed (use 2 in simp_all)
qed

lemma foldM_keyboard:
  "foldM k_keyboard_int scs k = map_option (\<lambda>(b, c, pg, p). k\<lparr>kkbd := b, kcon := c, kpg := pg, kpic := p\<rparr>)
     (foldM keyboard_int scs (kkbd k, kcon k, kpg k, kpic k))"
proof (induction scs arbitrary: k)
  case (Cons sc scs)
  show ?case
    by (cases "keyboard_int sc (kkbd k, kcon k, kpg k, kpic k)") (auto simp: k_keyboard_int_def [of sc k] Cons)
qed simp

lemma foldM_keyboard_keeps: "kinv k \<Longrightarrow> foldM k_keyboard_int scs k = Some k' \<Longrightarrow> kinv k'"
  by (induction scs arbitrary: k) (auto split: option.splits dest: k_keyboard_int_keeps)

lemma sys_read_line:
  assumes k: "kinv k" and d: "display_term (kcon k) = pterm_num (cur_pcb k)"
    and p: "pending (pterm_num (cur_pcb k)) (kcon k) = []" and ks: "keys_ok (kkbd k) scs"
    and n: "length scs < n" "n \<le> length buf" "length buf \<le> obj_limit" and pg: "in_prog_page va (length buf)"
    and b: "prog_bytes k va (length buf) = buf" and wt: "in_wait inp = type_line_keys (scs # ls)"
  defines "line \<equiv> typed_text (kkbd k) scs" and "t \<equiv> pterm_num (cur_pcb k)"
  obtains k' where "sys_read inp 0 va (of_nat n) k = Some (int (length line), k')" and "kinv k'" and "call_only k k'"
    and "display_term (kcon k') = t" and "pending t (kcon k') = []"
    and "view t (kcon k') = show_bytes line (view t (kcon k))" and "pcbs k' = pcbs k"
    and "prog_bytes k' va (length buf) = line @ drop (length line) buf"
proof -
  let ?s = "(kcon k)\<lparr>readWaiting := (readWaiting (kcon k))(t := True)\<rparr>"
  have t3: "t < 3" and cur: "get_current_terminal k = t" using kinvD_cur [OF k] by (simp_all add: t_def)
  have "kb_pos (terminals (kcon k) t) = 0" using length_pending [OF kinvD(1) [OF k] t3] p by (simp add: t_def)
  then have st: "terminal_read_start k = k\<lparr>kcon := ?s\<rparr>"
    by (simp add: terminal_read_start_def terminal_read_begin_def Let_def cur)
  have S: "con_inv ?s" "display_term ?s = t" "pending t ?s = []" "readWaiting ?s t" "view t ?s = view t (kcon k)"
    using kinvD(1) [OF k] d p by (simp_all add: con_inv_def t_def pending_def view_def)
  obtain s' pc' where s': "foldM keyboard_int (scs @ [ENTER]) (kkbd k, ?s, kpg k, kpic k) =
      Some (kkbd k, s', kpg k, pc')" "con_inv s'" "display_term s' = t" "\<not> readWaiting s' t"
    "pending t s' = line" "view t s' = show_bytes line (view t (kcon k))"
    by (rule typed_line [OF kinvD(3) [OF k] S(1) _ _ ks, of "kpg k" "kpic k"])
      (use S line_def in \<open>auto simp del: foldM.simps\<close>)
  let ?k2 = "k\<lparr>kcon := s', kpic := pc'\<rparr>"
  have f: "foldM k_keyboard_int (scs @ [ENTER]) (k\<lparr>kcon := ?s\<rparr>) = Some ?k2"
    unfolding foldM_keyboard using s'(1) by simp
  have k2: "kinv ?k2"
    using foldM_keyboard_keeps [OF _ f] kinv_terminal_read_start(1) [OF k] st by simp
  have ln: "length line \<le> n" "length line = Suc (length scs)" using n(1) by (simp_all add: line_def typed_text_def)
  have u: "unat (of_nat n :: u32) = n" using n by (intro unat_of_nat32) (simp add: obj_limit_def)
  obtain c where c: "terminal_read_finish t (of_nat n) s' = (int (length line), line, c)"
    "con_inv c" "display_term c = t" "pending t c = []" "\<And>j. view j c = view j s'"
    by (rule terminal_read_finish_eq [OF s'(2) t3, of "of_nat n"]) (use s'(3,5) ln u in auto)
  have ll: "length line \<le> length buf" using ln n by linarith
  have k3: "kinv (?k2\<lparr>kcon := c\<rparr>)" using kinv_con [OF k2 c(2)] c(3) s'(3) by simp
  have b3: "prog_bytes (?k2\<lparr>kcon := c\<rparr>) va (length buf) = buf" using b by (simp add: prog_bytes_def)
  obtain m where m: "put_user va line (?k2\<lparr>kcon := c\<rparr>) = Some (?k2\<lparr>kcon := c, pmem := m\<rparr>)"
    "prog_bytes (?k2\<lparr>kcon := c, pmem := m\<rparr>) va (length buf) = line @ drop (length line) buf"
    by (rule store_prefix [OF k3 b3 ll pg])
  let ?k' = "?k2\<lparr>kcon := c, pmem := m\<rparr>"
  have e: "sys_read inp 0 va (of_nat n) k = Some (int (length line), ?k')"
    using std_fds(1,2) [OF k] prog_page_nonnull [OF pg] f m(1) s'(4) c(1)
    by (simp add: sys_read_def MAX_NUM_FD_def op_read_def k_terminal_read_def Let_def wt type_line_keys_def st cur
        terminal_read_end_def)
  show ?thesis
    by (rule that [OF e]) (use k3 c s'(6) m(2) in simp_all)
qed

lemma k_read_line:
  assumes w: "world_ok e w" and i: "u_in (user_view w) = line # ls"
    and n: "length line \<le> n" "n \<le> length buf" "length buf \<le> obj_limit"
  shows "runs (k_os_read e 0 buf (int n) w) (\<lambda>(r, buf', w'). r = int (length line) \<and>
    buf' = line @ drop (length line) buf \<and> world_ok e w' \<and>
    user_view w' = (user_view w)\<lparr>u_in := ls, u_out := show_bytes line (u_out (user_view w))\<rparr>)"
proof -
  note W = world_okD [OF w]
  obtain scs rest where t: "typed w = scs # rest" "line = typed_text (kkbd (wk w)) scs"
    "ls = map (typed_text (kkbd (wk w))) rest"
    using i by (cases "typed w") auto
  let ?t = "pterm_num (cur_pcb (wk w))"
  have ks: "keys_ok (kkbd (wk w)) scs" using w t(1) by (simp add: world_ok_def)
  have n': "length scs < n" using n(1) by (simp add: t(2) typed_text_def)
  let ?wait = "type_line_keys (typed w)"
  let ?P = "\<lambda>k'. call_only (wk w) k' \<and> kinv k' \<and> display_term (kcon k') = ?t \<and> pending ?t (kcon k') = [] \<and>
      view ?t (kcon k') = show_bytes line (view ?t (kcon (wk w))) \<and> pcbs k' = pcbs (wk w)"
  have "\<exists>k'. do_call ((ue_inp e)\<lparr>in_wait := ?wait\<rparr>) 3 (word_of_int 0) (ue_at e) (word_of_int (int n))
      (wk w\<lparr>pmem := m\<rparr>) = Some (int (length line), k') \<and> kinv k' \<and>
      prog_bytes k' (ue_at e) (length buf) = line @ drop (length line) buf \<and> ?P k'"
    if b: "prog_bytes (wk w\<lparr>pmem := m\<rparr>) (ue_at e) (length buf) = buf" for m
  proof (rule sys_read_line [of "wk w\<lparr>pmem := m\<rparr>" scs n buf "ue_at e" "(ue_inp e)\<lparr>in_wait := ?wait\<rparr>" rest])
    fix k' assume k': "sys_read ((ue_inp e)\<lparr>in_wait := ?wait\<rparr>) 0 (ue_at e) (of_nat n) (wk w\<lparr>pmem := m\<rparr>) =
        Some (int (length (typed_text (kkbd (wk w\<lparr>pmem := m\<rparr>)) scs)), k')" "kinv k'"
      "call_only (wk w\<lparr>pmem := m\<rparr>) k'"
      "display_term (kcon k') = pterm_num (cur_pcb (wk w\<lparr>pmem := m\<rparr>))"
      "pending (pterm_num (cur_pcb (wk w\<lparr>pmem := m\<rparr>))) (kcon k') = []"
      "view (pterm_num (cur_pcb (wk w\<lparr>pmem := m\<rparr>))) (kcon k') =
        show_bytes (typed_text (kkbd (wk w\<lparr>pmem := m\<rparr>)) scs)
          (view (pterm_num (cur_pcb (wk w\<lparr>pmem := m\<rparr>))) (kcon (wk w\<lparr>pmem := m\<rparr>)))"
      "pcbs k' = pcbs (wk w\<lparr>pmem := m\<rparr>)"
      "prog_bytes k' (ue_at e) (length buf) = typed_text (kkbd (wk w\<lparr>pmem := m\<rparr>)) scs @
        drop (length (typed_text (kkbd (wk w\<lparr>pmem := m\<rparr>)) scs)) buf"
    then show ?thesis by (intro exI [of _ k']) (simp add: do_call_numbers t(2))
  qed (use W(1,3) W(5) [OF n(3)] ks n' n(2,3) b t(1) in \<open>simp_all add: prog_ok_def\<close>)
  from obj_callE [OF w n(3) this] obtain k' where
    k': "obj_call e ?wait buf 3 (word_of_int 0) (ue_at e) (word_of_int (int n)) w =
      Some (int (length line), line @ drop (length line) buf, w\<lparr>wk := k'\<rparr>)" and P: "?P k'" by blast
  have c: "call_only (wk w) k'" using P by blast
  have o: "k_os_read e 0 buf (int n) w = Some (int (length line), line @ drop (length line) buf,
      w\<lparr>wk := k', typed := rest\<rparr>)"
    using k' t(1) by (simp add: k_os_read_def)
  note C = call_onlyD [OF c]
  have "world_ok e (w\<lparr>wk := k', typed := rest\<rparr>)"
    using w P C t(1) by (simp add: world_ok_def prog_ok_def)
  moreover have "user_view (w\<lparr>wk := k', typed := rest\<rparr>) =
      (user_view w)\<lparr>u_in := ls, u_out := show_bytes line (u_out (user_view w))\<rparr>"
    using P C call_only_sys [OF c] by (simp add: user_view_def Let_def t(3))
  ultimately show ?thesis using o by simp
qed

lemma typed_line_form:
  assumes "world_ok e w" and "line \<in> set (u_in (user_view w))"
  shows "\<exists>l. line = l @ [10] \<and> 0 \<notin> set l \<and> length l \<le> 127"
proof -
  obtain scs where s: "scs \<in> set (typed w)" "line = typed_text (kkbd (wk w)) scs" using assms(2) by auto
  then have k: "keys_ok (kkbd (wk w)) scs" using assms(1) by (simp add: world_ok_def)
  let ?l = "map (\<lambda>sc. get_char_map sc (kkbd (wk w))) scs"
  have "get_char_map sc (kkbd (wk w)) \<noteq> 0" if "sc \<in> set scs" for sc
    using k that unfolding keys_ok_def plain_key_def by blast
  then have "0 \<notin> set ?l" by (simp add: image_iff)
  moreover have "length ?l \<le> 127" using k by (simp add: keys_ok_def)
  moreover have "line = ?l @ [10]" by (simp only: s(2) typed_text_def)
  ultimately show ?thesis by blast
qed

section \<open>Memory and signals\<close>

lemma low_faults:
  assumes "world_ok e w" and "unat va < 0x800000"
  shows "translate True (kpg (wk w)) va = None"
proof -
  have "unat va div (4096 * 1024) < 2" using assms(2) by (simp add: less_mult_imp_div_less)
  then have "unat (drop_bit 22 va) \<notin> {2, 32}" by (simp only: unat_dir_table div_mult2_eq) auto
  then have "drop_bit 22 va \<noteq> 2" "drop_bit 22 va \<noteq> 32" by auto
  then show ?thesis
    using translate_user [OF kinvD(2) [OF world_okD(3) [OF assms(1)]], of va] by (simp add: Let_def)
qed

lemma k_handler_refused:
  assumes "world_ok e w"
  shows "runs (k_os_plain e 9 (word_of_int sig) h w) (\<lambda>(r, w'). r = -1 \<and> world_ok e w' \<and> user_view w' = user_view w)"
proof -
  have d: "do_call inp 9 b c d k = Some (-1, k)" for inp b c d k
    by (simp add: do_call_def do_syscall_def NUM_SYSCALLS_def ret_def set_handler_def)
  obtain w' where "obj_call e no_wait [] 9 (word_of_int sig) h 0 w = Some (-1, [], w')"
    "world_ok e w'" "user_view w' = user_view w"
    by (rule refused_callE [OF assms, of "[]" no_wait 9 "word_of_int sig" h 0 "-1"]) (simp_all add: d)
  then show ?thesis by (simp add: k_os_plain_def)
qed

section \<open>The contracts hold\<close>

interpretation kio: out_api "kernel_os e" "world_ok e" user_view show_bytes obj_limit for e
proof
  fix w m and buf :: "u8 list"
  assume "world_ok e w" "m \<le> length buf" "length buf \<le> obj_limit"
  then show "runs (os_write (kernel_os e) 1 buf (int m) w) (\<lambda>(r, w'). r = int m \<and> world_ok e w' \<and>
      user_view w' = (user_view w)\<lparr>u_out := show_bytes (take m buf) (u_out (user_view w))\<rparr>)"
    unfolding kernel_os_simps by (rule k_write_out)
qed (simp_all add: obj_limit_def)

interpretation kuser: err_api "kernel_os e" "world_ok e" user_view show_bytes obj_limit for e
proof
  fix w fd data pos n and buf :: "u8 list"
  assume "world_ok e w" "u_files (user_view w) fd = Some (data, pos)" "n \<le> length buf" "length buf \<le> obj_limit"
  then show "runs (os_read (kernel_os e) fd buf (int n) w) (\<lambda>(r, buf', w').
      r = int (length (take n (drop pos data))) \<and>
      buf' = take n (drop pos data) @ drop (length (take n (drop pos data))) buf \<and> world_ok e w' \<and>
      user_view w' = (user_view w)\<lparr>u_files := (u_files (user_view w))
        (fd \<mapsto> (data, pos + length (take n (drop pos data))))\<rparr>)"
    unfolding kernel_os_simps by (rule k_read_file)
next
  fix w name data
  assume "world_ok e w" "0 \<in> set name" "length name \<le> obj_limit" "u_dir (user_view w) (cstr name) = Some data"
    "\<not> {2..7} \<subseteq> u_open (user_view w)"
  then show "runs (os_open (kernel_os e) name w) (\<lambda>(fd, w'). fd \<in> {2..7} - u_open (user_view w) \<and> world_ok e w' \<and>
      user_view w' = (user_view w)\<lparr>u_open := insert fd (u_open (user_view w)),
        u_files := (u_files (user_view w))(fd \<mapsto> (data, 0))\<rparr>)"
    unfolding kernel_os_simps by (rule k_open_file)
next
  fix w fd f
  assume "world_ok e w" "fd \<in> u_open (user_view w)"
  then show "runs (os_close (kernel_os e) fd w) (\<lambda>(r, w'). r = 0 \<and> world_ok e w' \<and>
      user_view w' = (user_view w)\<lparr>u_open := u_open (user_view w) - {fd},
        u_files := (u_files (user_view w))(fd := None)\<rparr>)"
    unfolding kernel_os_simps by (rule k_close_file)
next
  fix w n and buf :: "u8 list"
  assume "world_ok e w" "u_args (user_view w) \<noteq> []" "length (u_args (user_view w)) < n" "n \<le> length buf"
    "length buf \<le> obj_limit"
  then show "runs (os_getargs (kernel_os e) buf (int n) w) (\<lambda>(r, buf', w'). r = 0 \<and>
      buf' = u_args (user_view w) @ 0 # drop (Suc (length (u_args (user_view w)))) buf \<and> world_ok e w' \<and>
      user_view w' = user_view w)"
    unfolding kernel_os_simps by (rule k_get_args)
next
  fix w show "world_ok e w \<Longrightarrow> 0 \<notin> set (u_args (user_view w))"
    by (auto simp: cstr_def dest: set_takeWhileD)
next
  fix w line ls n and buf :: "u8 list"
  assume "world_ok e w" "u_in (user_view w) = line # ls" "length line \<le> n" "n \<le> length buf" "length buf \<le> obj_limit"
  then show "runs (os_read (kernel_os e) 0 buf (int n) w) (\<lambda>(r, buf', w'). r = int (length line) \<and>
      buf' = line @ drop (length line) buf \<and> world_ok e w' \<and>
      user_view w' = (user_view w)\<lparr>u_in := ls, u_out := show_bytes line (u_out (user_view w))\<rparr>)"
    unfolding kernel_os_simps by (rule k_read_line)
next
  fix w line
  assume "world_ok e w" "line \<in> set (u_in (user_view w))"
  then show "\<exists>l. line = l @ [10] \<and> 0 \<notin> set l \<and> length l \<le> 127"
    by (rule typed_line_form)
next
  fix w fd n and buf :: "u8 list"
  assume "world_ok e w" "int32 fd" "fd \<notin> insert 0 (u_open (user_view w))" "length buf \<le> obj_limit"
  then show "runs (os_read (kernel_os e) fd buf (int n) w) (\<lambda>(r, buf', w'). r = -1 \<and> buf' = buf \<and> world_ok e w' \<and>
      user_view w' = user_view w)"
    unfolding kernel_os_simps by (rule k_read_refused)
next
  fix w fd n and buf :: "u8 list"
  assume "world_ok e w" "int32 fd" "fd \<notin> insert 1 (u_open (user_view w))" "length buf \<le> obj_limit"
  then show "runs (os_write (kernel_os e) fd buf (int n) w) (\<lambda>(r, w'). r = -1 \<and> world_ok e w' \<and>
      user_view w' = user_view w)"
    unfolding kernel_os_simps by (rule k_write_refused)
next
  fix w fd
  assume "world_ok e w" "int32 fd" "fd \<notin> u_open (user_view w)"
  then show "runs (os_close (kernel_os e) fd w) (\<lambda>(r, w'). r = -1 \<and> world_ok e w' \<and> user_view w' = user_view w)"
    unfolding kernel_os_simps by (rule k_close_refused)
next
  fix w and name :: "u8 list"
  assume "world_ok e w" "0 \<in> set name" "length name \<le> obj_limit"
    "u_dir (user_view w) (cstr name) = None \<or> {2..7} \<subseteq> u_open (user_view w)"
  then show "runs (os_open (kernel_os e) name w) (\<lambda>(r, w'). r = -1 \<and> world_ok e w' \<and> user_view w' = user_view w)"
    unfolding kernel_os_simps by (rule k_open_refused)
next
  fix w and a :: u32
  assume "world_ok e w" "unat a < 0x8000000"
  then show "runs (os_vidmap (kernel_os e) a w) (\<lambda>(r, w'). r = -1 \<and> world_ok e w' \<and> user_view w' = user_view w)"
    unfolding kernel_os_simps by (rule k_vidmap_refused)
next
  fix w num
  assume "world_ok e w" "int32 num" "num < 1 \<or> 10 < num"
  then show "runs (os_sys (kernel_os e) num w) (\<lambda>(r, w'). r = -1 \<and> world_ok e w' \<and> user_view w' = user_view w)"
    unfolding kernel_os_simps by (rule k_sys_refused)
next
  fix w n and buf :: "u8 list"
  assume "world_ok e w" "u_args (user_view w) = []" "length buf \<le> obj_limit"
  then show "runs (os_getargs (kernel_os e) buf (int n) w) (\<lambda>(r, buf', w'). r = -1 \<and> buf' = buf \<and> world_ok e w' \<and>
      user_view w' = user_view w)"
    unfolding kernel_os_simps by (rule k_args_refused)
next
  fix w show "world_ok e w \<Longrightarrow> u_open (user_view w) \<subseteq> {2..7}" by (auto simp: open_set_def)
qed

interpretation kfault: fault_api "kernel_os e" "world_ok e" user_view show_bytes obj_limit for e
proof
  fix w and a :: u32 and v :: u8
  assume "world_ok e w" "unat a < 0x800000"
  then have "translate True (kpg (wk w)) a = None" by (rule low_faults)
  then show "os_load (kernel_os e) a w = None" "os_store (kernel_os e) a v w = None"
    by (simp_all add: k_os_load_def k_os_store_def)
next
  fix w sig and h :: u32
  assume "world_ok e w"
  then show "runs (os_set_handler (kernel_os e) sig h w) (\<lambda>(r, w'). r = -1 \<and> world_ok e w' \<and>
      user_view w' = user_view w)"
    unfolding kernel_os_simps by (rule k_handler_refused)
qed

end
