(* ===== verification/UserShell.thy ===== *)
theory UserShell
  imports UserKernel
begin

text \<open>
  \<^verbatim>\<open>execute\<close> as the shell sees it: the child is started, scheduled, runs its \<^verbatim>\<open>main\<close> with the
  descriptors and the argument of a new process, halts, and the shell goes on where it was. This
  discharges the contract \<open>shell_api\<close> for a set of utilities.
\<close>

section \<open>Until the child runs\<close>

text \<open>What switching between processes leaves: all but the saved registers of the control blocks.\<close>

definition pcb_rest :: "pcb \<Rightarrow> pcb" where
  "pcb_rest p = p\<lparr>stack_ptr := 0, sched_bp := 0\<rparr>"

definition switch_only :: "kernel \<Rightarrow> kernel \<Rightarrow> bool" where
  "switch_only k k' \<longleftrightarrow> process_queue k' = process_queue k \<and> kfs k' = kfs k \<and> kkbd k' = kkbd k \<and>
     con_same (kcon k) (kcon k') \<and> (\<forall>p. pcb_rest (pcbs k' p) = pcb_rest (pcbs k p))"

lemma pcb_restD:
  assumes "pcb_rest p = pcb_rest q"
  shows "fd_arr p = fd_arr q" and "argument p = argument q" and "pterm_num p = pterm_num q"
    and "parent_id p = parent_id q" and "process_id p = process_id q" and "open_set p = open_set q"
    and "pcb_view own p = pcb_view own q"
proof -
  show f: "fd_arr p = fd_arr q" "argument p = argument q" "pterm_num p = pterm_num q"
    "parent_id p = parent_id q" "process_id p = process_id q"
    using assms by (cases p; cases q; simp add: pcb_rest_def)+
  show "open_set p = open_set q" using f(1) by (simp add: open_set_def fd_is_open_def)
  show "pcb_view own p = pcb_view own q"
    using assms by (cases p; cases q; simp add: pcb_rest_def pcb_view_def)
qed

lemma pcb_rest_view: "pcb_view False p = pcb_rest p"
  by (cases p) (simp add: pcb_view_def pcb_rest_def)

lemma switch_only_refl: "switch_only k k"
  by (simp add: switch_only_def)

lemma switch_only_trans: "switch_only a b \<Longrightarrow> switch_only b c \<Longrightarrow> switch_only a c"
  by (auto simp: switch_only_def con_same_def)

lemma switch_only_tick: "switch_only k (snd (pit_int esp ebp prev k))"
  by (simp add: switch_only_def pit_int_def con_same_def pcb_rest_def)

lemma ticks_simps [simp]:
  "ticks [] k = k" "ticks ((esp, ebp, prev) # rs) k = ticks rs (snd (pit_int esp ebp prev k))"
  by (simp_all add: ticks_def)

lemma ticks_keep:
  "kinv k \<Longrightarrow> kinv (ticks rs k) \<and> switch_only k (ticks rs k)"
proof (induction rs arbitrary: k)
  case (Cons r rs)
  obtain esp ebp prev where r: "r = (esp, ebp, prev)" by (metis prod_cases3)
  show ?case
    using Cons.IH [OF pit_int_keeps [OF Cons.prems, of esp ebp prev]] switch_only_trans [OF switch_only_tick]
    by (auto simp: r)
qed (simp add: switch_only_refl)

lemma until_runs_ticks:
  "n \<le> length rs \<Longrightarrow> current_pid (ticks (take n rs) k) = p \<Longrightarrow>
   \<exists>m. until_runs p rs k = Some (ticks (take m rs) k) \<and> current_pid (ticks (take m rs) k) = p"
proof (induction rs arbitrary: k n)
  case (Cons r rs)
  obtain esp ebp prev where r: "r = (esp, ebp, prev)" by (metis prod_cases3)
  show ?case
  proof (cases "current_pid k = p")
    case True
    then show ?thesis by (intro exI [of _ 0]) (simp add: r)
  next
    case False
    then obtain m where m: "n = Suc m" using Cons.prems(2) by (cases n) auto
    have "m \<le> length rs" "current_pid (ticks (take m rs) (snd (pit_int esp ebp prev k))) = p"
      using Cons.prems by (simp_all add: m r)
    from Cons.IH [OF this] obtain j where
      "until_runs p rs (snd (pit_int esp ebp prev k)) = Some (ticks (take j rs) (snd (pit_int esp ebp prev k)))"
      "current_pid (ticks (take j rs) (snd (pit_int esp ebp prev k))) = p" by blast
    then show ?thesis using False by (intro exI [of _ "Suc j"]) (simp add: r)
  qed
qed auto

lemma until_runs_child:
  assumes k: "kinv k" and p: "p \<in> pids" "process_queue k p = SCHEDULED" and rs: "5 \<le> length rs"
  obtains k' where "until_runs p rs k = Some k'" and "kinv k'" and "switch_only k k'" and "current_pid k' = p"
proof -
  have "\<exists>n\<le>length rs. current_pid (ticks (take n rs) k) = p"
  proof (cases "p = current_pid k")
    case True
    then show ?thesis by (intro exI [of _ 0]) simp
  next
    case False
    have "rr_dist (current_pid k) p < int (length rs)"
    proof -
      have "rr_dist (current_pid k) p \<noteq> 5"
      proof
        assume "rr_dist (current_pid k) p = 5"
        then have "(p - current_pid k - 1) mod 6 = 5" by (simp add: rr_dist_def)
        then show False using False kinvD(8) [OF k] p(1) by (simp add: in_pids) presburger
      qed
      then show ?thesis using rr_dist_bounds [of "current_pid k" p] rs by simp
    qed
    from ticks_reach [OF kinvD(8) [OF k] p False this] show ?thesis .
  qed
  then obtain m where "until_runs p rs k = Some (ticks (take m rs) k)" "current_pid (ticks (take m rs) k) = p"
    using until_runs_ticks by blast
  then show ?thesis using ticks_keep [OF k, of "take m rs"] that by blast
qed

section \<open>Starting the child\<close>

lemma copy_word_text: "copy_word cs = Some (w, r) \<Longrightarrow> 0 \<notin> set w"
  by (induction cs arbitrary: w) (auto split: if_splits)

lemma copy_rest_text: "copy_rest cs = Some a \<Longrightarrow> 0 \<notin> set a"
  by (induction cs arbitrary: a) (auto split: if_splits)

lemma parse_command_text:
  assumes "parse_command c = Some (w @ [0], a @ [0])"
  shows "0 \<notin> set w" and "0 \<notin> set a" and "length a < MAX_ARGS"
  using assms
  by (auto simp: parse_command_def bind_eq_Some_conv dest: copy_word_text copy_rest_text split: if_splits)

text \<open>The command names an executable file of the image.\<close>

definition startable :: "uenv \<Rightarrow> fs_image \<Rightarrow> u8 list \<Rightarrow> u8 list \<Rightarrow> u8 list \<Rightarrow> bool" where
  "startable e g cmd name a \<longleftrightarrow> parse_command (cmd @ [0]) = Some (name @ [0], a @ [0]) \<and>
     program_valid g (name @ [0]) (in_dentry (ue_inp e)) (in_header (ue_inp e)) = Some 1 \<and>
     (\<exists>r d. read_dentry_by_name g (name @ [0]) (in_dentry (ue_inp e)) = Some (r, d) \<and>
        valid_inode g (inode_num d) \<and> length (file_data g (inode_num d)) \<le> 0x3B8000)"

text \<open>The control block of the new process.\<close>

definition new_pcb :: "u8 list \<Rightarrow> int \<Rightarrow> int \<Rightarrow> nat \<Rightarrow> pcb \<Rightarrow> bool" where
  "new_pcb a n parent t p \<longleftrightarrow> cstr (argument p) = a \<and> 0 \<in> set (argument p) \<and> open_set p = {} \<and>
     parent_id p = parent \<and> pterm_num p = t"

lemma new_pcb_rest: "pcb_rest p = pcb_rest q \<Longrightarrow> new_pcb a n parent t p = new_pcb a n parent t q"
  using pcb_restD [of p q] by (simp add: new_pcb_def)

lemma cstr_overlay: "0 \<notin> set a \<Longrightarrow> cstr (overlay (a @ [0]) old) = a \<and> 0 \<in> set (overlay (a @ [0]) old)"
  using cstr_id [of a "drop (Suc (length a)) old"] by (simp add: overlay_def)

lemma new_pcb_exec:
  assumes "fds_ok False q" and "0 \<notin> set a"
  shows "new_pcb a n parent t (exec_pcb inp n parent en
    ((exec_fail_pcb t (overlay (a @ [0]) old) q)\<lparr>process_id := n\<rparr>))"
proof -
  have l: "length (fd_arr q) = 8" "\<And>j. j < 8 \<Longrightarrow> fflags (fd_arr q ! j) \<noteq> FDFLAG_OPEN"
    using assms(1) by (auto simp: fds_ok_def desc_ok_def)
  have "fflags (fd_arr q ! nat j) \<noteq> FDFLAG_OPEN" if "2 \<le> j" "j \<le> 7" for j
    using that l(2) [of "nat j"] by auto
  then show ?thesis
    using cstr_overlay [OF assms(2)] l(1)
    by (auto simp: new_pcb_def exec_pcb_def exec_fail_pcb_def init_stdio_def set_fd_open_def upd_fd_def open_set_def
        fd_is_open_def nth_list_update STDIN_def STDOUT_def)
qed

lemma sched_no_return: "fst (sched esp ebp prev k) \<noteq> Return r"
  by (auto simp: sched_def Let_def)

lemma child_started:
  assumes k: "kinv k" and free: "get_available_pid k \<noteq> -1" and rs: "5 \<le> length (ue_ticks e)"
    and st: "startable e (kfs k) cmd name a"
  defines "n \<equiv> get_available_pid k" and "c \<equiv> current_pid k"
  obtains fl k1 k2 where "execute ((ue_inp e)\<lparr>in_wait := no_wait\<rparr>) (Some (cmd @ [0])) k = Some (fl, k1)"
    and "\<And>r. fl \<noteq> Return r" and "until_runs n (ue_ticks e) k1 = Some k2" and "kinv k2" and "current_pid k2 = n"
    and "process_queue k2 = (process_queue k)(c := LOADED, n := SCHEDULED)" and "kfs k2 = kfs k"
    and "kkbd k2 = kkbd k" and "con_same (kcon k) (kcon k2)"
    and "\<And>p. p \<noteq> n \<Longrightarrow> pcb_rest (pcbs k2 p) = pcb_rest (pcbs k p)"
    and "new_pcb a n c (pterm_num (pcbs k c)) (pcbs k2 n)" and "n \<in> pids" and "n \<noteq> c"
    and "process_queue k n = NOT_LOADED"
proof -
  let ?inp = "(ue_inp e)\<lparr>in_wait := no_wait\<rparr>"
  have S: "parse_command (cmd @ [0]) = Some (name @ [0], a @ [0])"
    "program_valid (kfs k) (name @ [0]) (in_dentry ?inp) (in_header ?inp) = Some 1"
    using st by (simp_all add: startable_def)
  obtain r d where d: "read_dentry_by_name (kfs k) (name @ [0]) (in_dentry ?inp) = Some (r, d)"
    "valid_inode (kfs k) (inode_num d)" "length (file_data (kfs k) (inode_num d)) \<le> 0x3B8000"
    using st by (auto simp: startable_def)
  note a0 = parse_command_text(2) [OF S(1)]
  have np: "n \<in> pids" "process_queue k n = NOT_LOADED"
    using free get_available_pid_cases [of k] by (auto simp: n_def)
  have ne: "n \<noteq> c" using np kinvD(9) [OF k] by (auto simp: c_def)
  show ?thesis
  proof (rule execute_success [OF k free S d])
    fix fl k1
    assume x: "execute ?inp (Some (cmd @ [0])) k = Some (fl, k1)"
      and q: "process_queue k1 = (process_queue k)(current_pid k := LOADED, get_available_pid k := SCHEDULED)"
      and pn: "pcbs k1 (get_available_pid k) = exec_pcb ?inp (get_available_pid k) (current_pid k)
        (file_entry k d (in_entry ?inp)) ((exec_fail_pcb (pterm_num (cur_pcb k))
          (overlay (a @ [0]) (argument (pcbs k (get_available_pid k)))) (pcbs k (get_available_pid k)))
          \<lparr>process_id := get_available_pid k\<rparr>)"
      and po: "\<And>p. p \<noteq> get_available_pid k \<Longrightarrow> p \<noteq> current_pid k \<Longrightarrow> pcbs k1 p = pcbs k p"
      and pc: "pcbs k1 (current_pid k) = (cur_pcb k)\<lparr>sched_bp := in_ebp ?inp, stack_ptr := in_esp ?inp\<rparr>"
      and g: "kfs k1 = kfs k" "kkbd k1 = kkbd k" "terminals (kcon k1) = terminals (kcon k)"
        "vram (kcon k1) = vram (kcon k)" "display_term (kcon k1) = display_term (kcon k)"
    have k1: "kinv k1" by (rule execute_keeps [OF k x])
    have nr: "fl \<noteq> Return r" for r
      using x
    proof (cases rule: execute_cases)
      case no_pid
      then show ?thesis using free by simp
    next
      case (failed p tm arg)
      then have "process_queue k1 (current_pid k) = process_queue k (current_pid k)" by simp
      then show ?thesis using q kinvD(9) [OF k] ne by (simp add: n_def c_def)
    next
      case (started p cmd program arg v e k1 k2)
      then show ?thesis by (metis fst_conv sched_no_return)
    qed
    have "process_queue k1 n = SCHEDULED" using q by (simp add: n_def)
    from until_runs_child [OF k1 np(1) this rs] obtain k2 where
      2: "until_runs n (ue_ticks e) k1 = Some k2" "kinv k2" "switch_only k1 k2" "current_pid k2 = n" by blast
    have rest: "pcb_rest (pcbs k1 p) = pcb_rest (pcbs k p)" if "p \<noteq> n" for p
      using that po [of p] pc by (cases "p = current_pid k") (simp_all add: n_def pcb_rest_def)
    show ?thesis
    proof (rule that [OF x nr 2(1,2,4)])
      show "new_pcb a n c (pterm_num (pcbs k c)) (pcbs k2 n)"
        using new_pcb_rest [of "pcbs k2 n" "pcbs k1 n"] 2(3) new_pcb_exec [OF _ a0] kinvD(7) [OF k np(1)] np(2)
        by (simp add: switch_only_def pn [folded n_def c_def] flip: n_def c_def)
    qed (use 2(3) q g rest np ne in \<open>auto simp: switch_only_def con_same_def n_def c_def\<close>)
  qed
qed

section \<open>The child's world and the way back\<close>

lemma con_sameD:
  assumes "con_same c c'"
  shows "view i c' = view i c" and "pending i c' = pending i c" and "display_term c' = display_term c"
  using assms by (simp_all add: con_same_def view_def pending_def)

lemma child_world:
  assumes w: "world_ok e w" and k2: "kinv k2" "current_pid k2 = n" "kfs k2 = kfs (wk w)" "kkbd k2 = kkbd (wk w)"
      "con_same (kcon (wk w)) (kcon k2)" "new_pcb a n c (pterm_num (cur_pcb (wk w))) (pcbs k2 n)"
  defines "w1 \<equiv> w\<lparr>wk := k2\<rparr>"
  shows "world_ok e w1" and "user_view w1 = (user_view w)\<lparr>u_args := a, u_open := {}, u_files := (\<lambda>_. None),
    u_sys := sys_view k2\<rparr>"
proof -
  have f: "files_of g (pcbs k2 n) = (\<lambda>_. None)" "files_ok g (pcbs k2 n)" for g
    using k2(6) by (auto simp: new_pcb_def files_of_def files_ok_def)
  show "world_ok e w1"
    using w k2 con_sameD [OF k2(5)] f(2) by (simp add: w1_def world_ok_def prog_ok_def new_pcb_def)
  show "user_view w1 = (user_view w)\<lparr>u_args := a, u_open := {}, u_files := (\<lambda>_. None), u_sys := sys_view k2\<rparr>"
    using k2 con_sameD [OF k2(5)] f(1) by (simp add: w1_def user_view_def Let_def new_pcb_def)
qed

text \<open>What two states with the same \<open>sys_view\<close> have in common.\<close>

lemma sys_viewD:
  assumes "sys_view k' = sys_view k"
  shows "current_pid k' = current_pid k" and "process_queue k' = process_queue k" and "kfs k' = kfs k"
    and "kkbd k' = kkbd k"
    and "process_queue k p \<noteq> NOT_LOADED \<Longrightarrow> pcb_view (p = current_pid k) (pcbs k' p) = pcb_view (p = current_pid k) (pcbs k p)"
proof -
  show e: "current_pid k' = current_pid k" "process_queue k' = process_queue k" "kfs k' = kfs k" "kkbd k' = kkbd k"
    using assms by (simp_all add: sys_view_def)
  have "sp_pcbs (sys_view k') p = sp_pcbs (sys_view k) p" using assms by simp
  then show "process_queue k p \<noteq> NOT_LOADED \<Longrightarrow>
      pcb_view (p = current_pid k) (pcbs k' p) = pcb_view (p = current_pid k) (pcbs k p)"
    by (simp add: sys_view_def e)
qed

lemma pcb_viewD:
  assumes "pcb_view own p = pcb_view own q"
  shows "argument p = argument q" and "pterm_num p = pterm_num q" and "parent_id p = parent_id q"
  using assms by (cases p; cases q; simp add: pcb_view_def)+

definition exit_status :: "int \<Rightarrow> int" where
  "exit_status r = sint (ucast (ucast (word_of_int r :: u32) :: u8) :: u32)"

text \<open>The status of an ending, and what the kernel prints for it.\<close>

definition end_status :: "ending \<Rightarrow> int" where
  "end_status fin = (case fin of Inl h \<Rightarrow> 256 | Inr r \<Rightarrow> exit_status r)"

definition end_text :: "ending \<Rightarrow> u8 list" where
  "end_text fin = (case fin of Inl h \<Rightarrow> asc (the (exception_message h)) @ [10] | Inr r \<Rightarrow> [])"

definition good_end :: "ending \<Rightarrow> bool" where
  "good_end fin \<longleftrightarrow> (case fin of Inl h \<Rightarrow> exception_message h \<noteq> None | Inr r \<Rightarrow> True)"

lemma do_call_halt: "do_syscall inp 1 b c d k = halt32 inp (ucast (ucast b :: u8)) k"
  by (simp add: do_syscall_def NUM_SYSCALLS_def halt_def)

text \<open>The message of an exception goes to the program's terminal; then the program is halted.\<close>

lemma fold_k_putc:
  "fold k_putc cs k = k\<lparr>kcon := fold (\<lambda>c. term_putc c (get_current_terminal k)) cs (kcon k)\<rparr>"
proof (induction cs arbitrary: k)
  case (Cons c cs)
  have "get_current_terminal (k_putc c k) = get_current_terminal k"
    by (simp add: k_putc_def get_current_terminal_def)
  then show ?case using Cons by (simp add: k_putc_def)
qed simp

lemma finish_halts:
  assumes w: "world_ok e w" and fin: "good_end fin"
  obtains k' st where "finish inp fin (wk w) = halt32 inp st k'" and "sint st = end_status fin"
    and "world_ok e (w\<lparr>wk := k'\<rparr>)"
    and "user_view (w\<lparr>wk := k'\<rparr>) = (user_view w)\<lparr>u_out := show_bytes (end_text fin) (u_out (user_view w))\<rparr>"
proof (cases fin)
  case (Inl h)
  then obtain m where m: "exception_message h = Some m" using fin by (auto simp: good_end_def)
  let ?k = "wk w"
  let ?t = "pterm_num (cur_pcb ?k)"
  note W = world_okD [OF w] and P = prog_okD [OF world_okD(1) [OF w]]
  define bs where "bs = asc m @ [10]"
  note T = put_text [OF P(2,3), where cs = bs]
  let ?c = "fold (\<lambda>c. term_putc c ?t) bs (kcon ?k)"
  have "k_printf (\<lambda>_. []) (asc m @ [10, 0]) [] ?k = Some (fold k_putc bs ?k)"
    using exception_prints [OF m] by (simp only: bs_def)
  then have "finish inp fin ?k = halt32 inp 256 (?k\<lparr>kcon := ?c\<rparr>)"
    by (simp add: finish_def Inl exception_gate_def m print_exception_def fold_k_putc P(5) EXCEPTION_STATUS_def)
  moreover have "world_ok e (w\<lparr>wk := ?k\<lparr>kcon := ?c\<rparr>\<rparr>)"
    using w T(1,3,4) kinv_con [of ?k ?c] by (simp add: world_ok_def prog_ok_def)
  moreover have "user_view (w\<lparr>wk := ?k\<lparr>kcon := ?c\<rparr>\<rparr>) =
      (user_view w)\<lparr>u_out := show_bytes (end_text fin) (u_out (user_view w))\<rparr>"
  proof -
    have "sys_view (?k\<lparr>kcon := ?c\<rparr>) = sys_view ?k" by (intro call_only_sys) simp
    then show ?thesis using T(2) by (simp add: user_view_def Let_def end_text_def Inl m bs_def)
  qed
  ultimately show ?thesis using that [of 256 "?k\<lparr>kcon := ?c\<rparr>"] by (simp add: end_status_def Inl)
next
  case (Inr r)
  show ?thesis
    by (rule that [of "ucast (ucast (word_of_int r :: u32) :: u8)" "wk w"])
      (use w in \<open>simp_all add: Inr finish_def do_call_halt end_status_def exit_status_def end_text_def\<close>)
qed

text \<open>The child halts; the parent, whose part of the state the child left alone, goes on.\<close>

lemma back_to_parent:
  assumes w: "world_ok e w" and n: "n \<noteq> c" "process_queue (wk w) n = NOT_LOADED" "c = current_pid (wk w)"
    and k2: "current_pid k2 = n" "process_queue k2 = (process_queue (wk w))(c := LOADED, n := SCHEDULED)"
      "kfs k2 = kfs (wk w)" "kkbd k2 = kkbd (wk w)"
      "\<And>p. p \<noteq> n \<Longrightarrow> pcb_rest (pcbs k2 p) = pcb_rest (pcbs (wk w) p)"
      "new_pcb a n c (pterm_num (cur_pcb (wk w))) (pcbs k2 n)"
    and w2: "world_ok e w2" "sys_view (wk w2) = sys_view k2" "u_in (user_view w2) = u_in (user_view w)"
  obtains esp ebp k3 where "halt32 inp status (wk w2) = Some (Halt_ret esp ebp status, k3)"
    and "world_ok e (w2\<lparr>wk := k3\<rparr>)" and "process_queue k3 = process_queue (wk w)" and "kfs k3 = kfs (wk w)"
    and "user_view (w2\<lparr>wk := k3\<rparr>) = (user_view w)\<lparr>u_out := u_out (user_view w2)\<rparr>"
proof -
  let ?k = "wk w2" and ?t = "pterm_num (cur_pcb (wk w))"
  note V = sys_viewD [OF w2(2)]
  have qn: "process_queue k2 n = SCHEDULED" using k2(2) by simp
  have own: "parent_id (cur_pcb ?k) = c" "pterm_num (cur_pcb ?k) = ?t"
    using V(5) [of n] pcb_viewD [of True "pcbs ?k n" "pcbs k2 n"] k2(1,6) qn V(1)
    by (simp_all add: new_pcb_def)
  have kw: "kinv (wk w)" "kinv ?k" using world_okD(3) w w2(1) by blast+
  have c: "c \<noteq> -1" "process_queue (wk w) c = SCHEDULED" using kinvD_cur(4) [OF kw(1)] kinvD(9) [OF kw(1)] n(3) by simp_all
  have par: "parent_id (cur_pcb ?k) \<noteq> -1" using own c by simp
  obtain q k3 where h: "halt32 inp status ?k =
      Some (Halt_ret (stack_ptr (cur_pcb ?k)) (base_ptr (cur_pcb ?k)) status, k3)"
    and k3: "k3 = ?k\<lparr>process_arr := (process_arr ?k)(n := 0), kcon := sti (cli (kcon ?k)),
        pcbs := (pcbs ?k)(n := q), current_pid := c, tss_esp0 := get_kernel_stack c,
        process_queue := (process_queue ?k)(n := NOT_LOADED, c := SCHEDULED),
        kpg := page_map_user (word_of_int c) (kpg ?k)\<rparr>"
    by (rule halt32_child [OF kw(2) par, of inp status]) (simp only: V(1) k2(1) own(1) [unfolded V(1) k2(1)])
  have qu: "process_queue k3 = process_queue (wk w)"
    using n c V(2) k2(2) by (auto simp: k3 fun_eq_iff)
  have rest: "pcb_rest (pcbs k3 p) = pcb_rest (pcbs (wk w) p)" if "process_queue (wk w) p \<noteq> NOT_LOADED" for p
  proof -
    have p: "p \<noteq> n" using that n(2) by auto
    then have "process_queue k2 p \<noteq> NOT_LOADED" using that k2(2) by auto
    then have "pcb_view False (pcbs ?k p) = pcb_view False (pcbs k2 p)" using V(5) [of p] p k2(1) by simp
    then show ?thesis using p k2(5) [OF p] by (simp add: k3 pcb_rest_view)
  qed
  have fk: "kfs k3 = kfs (wk w)" "kkbd k3 = kkbd (wk w)" "current_pid k3 = c" using V k2 by (simp_all add: k3)
  have vw: "view ?t (kcon k3) = view ?t (kcon ?k)" "pending ?t (kcon k3) = pending ?t (kcon ?k)"
    "display_term (kcon k3) = display_term (kcon ?k)"
    by (simp_all add: k3 view_def pending_def)
  have "process_queue (wk w) c \<noteq> NOT_LOADED" using c by simp
  note C = pcb_restD [OF rest [OF this]]
  have sv: "sys_view k3 = sys_view (wk w)"
  proof -
    have "pcb_view own (pcbs k3 p) = pcb_view own (pcbs (wk w) p)" if "process_queue (wk w) p \<noteq> NOT_LOADED" for own p
      using pcb_restD(7) [OF rest [OF that]] .
    then show ?thesis using fk qu n(3) by (simp add: sys_view_def fun_eq_iff)
  qed
  show ?thesis
  proof (rule that [OF h _ qu fk(1)])
    have "files_ok g (pcbs k3 c) = files_ok g (pcbs (wk w) c)" for g
      using C(1,6) by (simp add: files_ok_def)
    then show "world_ok e (w2\<lparr>wk := k3\<rparr>)"
      using w w2(1) fk vw own(2) C halt32_keeps [OF kw(2) h] V(4) k2(4)
      by (simp add: world_ok_def prog_ok_def n(3))
    have "files_of g (pcbs k3 c) = files_of g (pcbs (wk w) c)" for g
      using C(1,6) by (simp add: files_of_def fun_eq_iff)
    then show "user_view (w2\<lparr>wk := k3\<rparr>) = (user_view w)\<lparr>u_out := u_out (user_view w2)\<rparr>"
      using fk vw own(2) C sv w2(3) V(4) k2(4) by (simp add: user_view_def Let_def n(3))
  qed
qed

section \<open>execute\<close>

definition shell_ok :: "uenv \<Rightarrow> fs_image \<Rightarrow> world \<Rightarrow> bool" where
  "shell_ok e g w \<longleftrightarrow> world_ok e w \<and> kfs (wk w) = g \<and> get_available_pid (wk w) \<noteq> -1 \<and> 5 \<le> length (ue_ticks e)"

lemma available_pid_cong: "process_queue k' = process_queue k \<Longrightarrow> get_available_pid k' = get_available_pid k"
  by (simp add: get_available_pid_eq)

text \<open>The command reaches the kernel.\<close>

lemma execute_callE:
  assumes w: "world_ok e w" and c: "0 \<notin> set cmd" "length (cmd @ 0 # rest) \<le> obj_limit"
  obtains m where "k_os_execute e (cmd @ 0 # rest) w =
    do { (fl, k) \<leftarrow> execute ((ue_inp e)\<lparr>in_wait := no_wait\<rparr>) (Some (cmd @ [0])) (wk w\<lparr>pmem := m\<rparr>);
         case fl of Return r \<Rightarrow> Some (r, w\<lparr>wk := k\<rparr>)
         | _ \<Rightarrow>
           do { (program, _) \<leftarrow> parse_command (cmd @ [0]);
                k \<leftarrow> until_runs (get_available_pid (wk w)) (ue_ticks e) k;
                (fl, w) \<leftarrow> k_start ((ue_inp e)\<lparr>in_wait := no_wait\<rparr>) (ue_prog e (cstr program)) (w\<lparr>wk := k\<rparr>);
                case fl of Halt_ret _ _ status \<Rightarrow> Some (sint status, w) | _ \<Rightarrow> None } }"
proof -
  note W = world_okD [OF w]
  let ?obj = "cmd @ 0 # rest"
  have pg: "in_prog_page (ue_at e) (length ?obj)" using W(5) c(2) .
  obtain m where m: "put_user (ue_at e) ?obj (wk w) = Some (wk w\<lparr>pmem := m\<rparr>)"
    "prog_bytes (wk w\<lparr>pmem := m\<rparr>) (ue_at e) (length ?obj) = ?obj"
    by (rule put_objE [OF W(3) pg])
  have s: "str_arg (wk w\<lparr>pmem := m\<rparr>) (ue_at e) = Some (Some (cmd @ [0]))"
    by (rule str_arg_prog [OF _ m(2) c(1) pg]) (use W(3) in simp)
  have d: "do_syscall ((ue_inp e)\<lparr>in_wait := no_wait\<rparr>) 2 (ue_at e) 0 0 (wk w\<lparr>pmem := m\<rparr>) =
      execute ((ue_inp e)\<lparr>in_wait := no_wait\<rparr>) (Some (cmd @ [0])) (wk w\<lparr>pmem := m\<rparr>)"
    by (simp add: do_syscall_def NUM_SYSCALLS_def s)
  have p: "get_available_pid (wk w\<lparr>pmem := m\<rparr>) = get_available_pid (wk w)" by (rule available_pid_cong) simp
  show ?thesis
    by (rule that [of m]) (simp only: k_os_execute_def m(1) bind.bind_lunit Let_def d p cstr_id [OF c(1)])
qed

text \<open>A command that is no program.\<close>

lemma k_execute_unknown:
  assumes w: "shell_ok e g w" and c: "0 \<notin> set cmd" "length (cmd @ 0 # rest) \<le> obj_limit"
    and pc: "parse_command (cmd @ [0]) = Some (program, arg)"
    and pv: "program_valid g program (in_dentry (ue_inp e)) (in_header (ue_inp e)) = Some 0"
  shows "runs (k_os_execute e (cmd @ 0 # rest) w) (\<lambda>(r, w'). r = -1 \<and> shell_ok e g w' \<and> user_view w' = user_view w)"
proof -
  have wo: "world_ok e w" and g: "kfs (wk w) = g" and free: "get_available_pid (wk w) \<noteq> -1"
    and rs: "5 \<le> length (ue_ticks e)" using w by (simp_all add: shell_ok_def)
  note W = world_okD [OF wo]
  obtain m where m: "k_os_execute e (cmd @ 0 # rest) w =
    do { (fl, k) \<leftarrow> execute ((ue_inp e)\<lparr>in_wait := no_wait\<rparr>) (Some (cmd @ [0])) (wk w\<lparr>pmem := m\<rparr>);
         case fl of Return r \<Rightarrow> Some (r, w\<lparr>wk := k\<rparr>)
         | _ \<Rightarrow>
           do { (program, _) \<leftarrow> parse_command (cmd @ [0]);
                k \<leftarrow> until_runs (get_available_pid (wk w)) (ue_ticks e) k;
                (fl, w) \<leftarrow> k_start ((ue_inp e)\<lparr>in_wait := no_wait\<rparr>) (ue_prog e (cstr program)) (w\<lparr>wk := k\<rparr>);
                case fl of Halt_ret _ _ status \<Rightarrow> Some (sint status, w) | _ \<Rightarrow> None } }"
    by (rule execute_callE [OF wo c])
  let ?k = "wk w\<lparr>pmem := m\<rparr>" and ?n = "get_available_pid (wk w)"
  have p: "get_available_pid ?k = ?n" by (rule available_pid_cong) simp
  have np: "?n \<in> pids" "process_queue (wk w) ?n = NOT_LOADED"
    using free get_available_pid_cases [of "wk w"] by auto
  have "\<exists>tm ag. execute ((ue_inp e)\<lparr>in_wait := no_wait\<rparr>) (Some (cmd @ [0])) ?k =
      Some (Return (-1), upd_pcb ?n (exec_fail_pcb tm ag) ?k)"
    using free pc pv by (intro exI) (simp add: execute_def p g Let_def upd_pcb_def exec_fail_pcb_def)
  then obtain tm ag where x: "execute ((ue_inp e)\<lparr>in_wait := no_wait\<rparr>) (Some (cmd @ [0])) ?k =
      Some (Return (-1), upd_pcb ?n (exec_fail_pcb tm ag) ?k)" by blast
  let ?k' = "upd_pcb ?n (exec_fail_pcb tm ag) ?k"
  have ne: "current_pid (wk w) \<noteq> ?n" using np kinvD(9) [OF W(3)] by auto
  have k': "kinv ?k'" by (rule execute_keeps [OF _ x]) (use W(3) in simp)
  have sv: "sys_view ?k' = sys_view (wk w)" using np(2) by (auto simp: sys_view_def fun_eq_iff)
  have "get_available_pid ?k' = ?n" by (rule available_pid_cong) simp
  then have "shell_ok e g (w\<lparr>wk := ?k'\<rparr>)"
    using wo k' ne g free rs by (simp add: shell_ok_def world_ok_def prog_ok_def)
  moreover have "user_view (w\<lparr>wk := ?k'\<rparr>) = user_view w"
    using ne sv by (simp add: user_view_def Let_def)
  ultimately show ?thesis using m x by simp
qed

text \<open>A command that runs a program: what \<open>main\<close> does in the child's world is what the shell sees.\<close>

lemma k_execute_program:
  assumes w: "shell_ok e g w" and c: "0 \<notin> set cmd" "length (cmd @ 0 # rest) \<le> obj_limit"
    and st: "startable e g cmd name a" and fin: "good_end fin"
    and main: "\<And>w1. world_ok e w1 \<Longrightarrow> u_args (user_view w1) = a \<Longrightarrow> u_dir (user_view w1) = dir_of g \<Longrightarrow>
      u_open (user_view w1) = {} \<Longrightarrow> u_files (user_view w1) = (\<lambda>_. None) \<Longrightarrow>
      u_in (user_view w1) = u_in (user_view w) \<Longrightarrow> u_out (user_view w1) = u_out (user_view w) \<Longrightarrow>
      runs (ue_prog e name w1) (\<lambda>(r, w2). r = fin \<and> world_ok e w2 \<and> u_sys (user_view w2) = u_sys (user_view w1) \<and>
        u_in (user_view w2) = u_in (user_view w) \<and> u_out (user_view w2) = out)"
  shows "runs (k_os_execute e (cmd @ 0 # rest) w) (\<lambda>(r, w'). r = end_status fin \<and> shell_ok e g w' \<and>
    user_view w' = (user_view w)\<lparr>u_out := show_bytes (end_text fin) out\<rparr>)"
proof -
  have wo: "world_ok e w" and g: "kfs (wk w) = g" and free: "get_available_pid (wk w) \<noteq> -1"
    and rs: "5 \<le> length (ue_ticks e)" using w by (simp_all add: shell_ok_def)
  note W = world_okD [OF wo]
  let ?inp = "(ue_inp e)\<lparr>in_wait := no_wait\<rparr>" and ?n = "get_available_pid (wk w)" and ?c = "current_pid (wk w)"
  obtain m where m: "k_os_execute e (cmd @ 0 # rest) w =
    do { (fl, k) \<leftarrow> execute ?inp (Some (cmd @ [0])) (wk w\<lparr>pmem := m\<rparr>);
         case fl of Return r \<Rightarrow> Some (r, w\<lparr>wk := k\<rparr>)
         | _ \<Rightarrow>
           do { (program, _) \<leftarrow> parse_command (cmd @ [0]);
                k \<leftarrow> until_runs ?n (ue_ticks e) k;
                (fl, w) \<leftarrow> k_start ?inp (ue_prog e (cstr program)) (w\<lparr>wk := k\<rparr>);
                case fl of Halt_ret _ _ status \<Rightarrow> Some (sint status, w) | _ \<Rightarrow> None } }"
    by (rule execute_callE [OF wo c])
  let ?k = "wk w\<lparr>pmem := m\<rparr>"
  have p: "get_available_pid ?k = ?n" by (rule available_pid_cong) simp
  have kk: "kinv ?k" "get_available_pid ?k \<noteq> -1" "startable e (kfs ?k) cmd name a"
    using W(3) free st g p by simp_all
  have pc: "parse_command (cmd @ [0]) = Some (name @ [0], a @ [0])" using st by (simp add: startable_def)
  have nm: "cstr (name @ [0]) = name" using cstr_id [OF parse_command_text(1) [OF pc], of "[]"] by simp
  obtain fl k1 k2 where 1: "execute ?inp (Some (cmd @ [0])) ?k = Some (fl, k1)" "\<And>r. fl \<noteq> Return r"
      "until_runs ?n (ue_ticks e) k1 = Some k2"
    and 2: "kinv k2" "current_pid k2 = ?n" "process_queue k2 = (process_queue (wk w))(?c := LOADED, ?n := SCHEDULED)"
      "kfs k2 = kfs (wk w)" "kkbd k2 = kkbd (wk w)" "con_same (kcon (wk w)) (kcon k2)"
      "\<And>p. p \<noteq> ?n \<Longrightarrow> pcb_rest (pcbs k2 p) = pcb_rest (pcbs (wk w) p)"
      "new_pcb a ?n ?c (pterm_num (cur_pcb (wk w))) (pcbs k2 ?n)"
    and 3: "?n \<noteq> ?c" "process_queue (wk w) ?n = NOT_LOADED"
    by (rule child_started [OF kk(1,2) rs kk(3)]) (simp add: p)
  note C = child_world [OF wo 2(1,2,4,5,6,8)]
  have "runs (ue_prog e name (w\<lparr>wk := k2\<rparr>)) (\<lambda>(r, w2). r = fin \<and> world_ok e w2 \<and>
      u_sys (user_view w2) = u_sys (user_view (w\<lparr>wk := k2\<rparr>)) \<and> u_in (user_view w2) = u_in (user_view w) \<and>
      u_out (user_view w2) = out)"
    by (rule main [OF C(1)]) (simp_all add: C(2) g del: u_open_view u_files_view u_dir_view u_args_view u_in_view,
        simp_all add: g)
  then obtain w2 where w2: "ue_prog e name (w\<lparr>wk := k2\<rparr>) = Some (fin, w2)" "world_ok e w2"
    "u_sys (user_view w2) = sys_view k2" "u_in (user_view w2) = u_in (user_view w)" "u_out (user_view w2) = out"
    using C(2) by (auto simp: runs_iff)
  obtain k2' st where k2': "finish ?inp fin (wk w2) = halt32 ?inp st k2'" "sint st = end_status fin"
    "world_ok e (w2\<lparr>wk := k2'\<rparr>)"
    "user_view (w2\<lparr>wk := k2'\<rparr>) = (user_view w2)\<lparr>u_out := show_bytes (end_text fin) (u_out (user_view w2))\<rparr>"
    by (rule finish_halts [OF w2(2) fin])
  define w3 where "w3 = w2\<lparr>wk := k2'\<rparr>"
  have w3: "finish ?inp fin (wk w2) = halt32 ?inp st (wk w3)" "world_ok e w3"
    "user_view w3 = (user_view w2)\<lparr>u_out := show_bytes (end_text fin) (u_out (user_view w2))\<rparr>"
    using k2' by (simp_all add: w3_def)
  have "u_sys (user_view w3) = sys_view k2" "u_in (user_view w3) = u_in (user_view w)"
    using w2(3,4) unfolding w3(3) by simp_all
  then have sv: "sys_view (wk w3) = sys_view k2" "u_in (user_view w3) = u_in (user_view w)"
    by (simp_all add: user_view_def Let_def)
  obtain esp ebp k3 where 4: "halt32 ?inp st (wk w3) = Some (Halt_ret esp ebp st, k3)"
    "world_ok e (w3\<lparr>wk := k3\<rparr>)" "process_queue k3 = process_queue (wk w)" "kfs k3 = kfs (wk w)"
    "user_view (w3\<lparr>wk := k3\<rparr>) = (user_view w)\<lparr>u_out := u_out (user_view w3)\<rparr>"
    by (rule back_to_parent [OF wo 3 refl 2(2,3,4,5,7,8) w3(2) sv])
  have "k_start ?inp (ue_prog e name) (w\<lparr>wk := k2\<rparr>) = Some (Halt_ret esp ebp st, w2\<lparr>wk := k3\<rparr>)"
    by (simp add: k_start_def w2(1) w3(1) 4(1))
  moreover have "w2\<lparr>wk := k3\<rparr> = w3\<lparr>wk := k3\<rparr>" by (simp add: w3_def)
  ultimately have "k_os_execute e (cmd @ 0 # rest) w = Some (end_status fin, w3\<lparr>wk := k3\<rparr>)"
    using 1(1,3) 1(2) [of "case fl of Return r \<Rightarrow> r"]
    by (cases fl) (simp_all add: m pc nm k2'(2))
  moreover have "shell_ok e g (w3\<lparr>wk := k3\<rparr>)"
    using 4(2,4) g free rs available_pid_cong [OF 4(3)] by (simp add: shell_ok_def)
  ultimately show ?thesis using 4(5) w2(5) w3(3) by simp
qed

end
