(* ===== verification/UserSession.thy ===== *)
theory UserSession
  imports UserShell
begin

text \<open>
  The shell with the programs \<^verbatim>\<open>cat\<close>, \<^verbatim>\<open>ls\<close>, \<^verbatim>\<open>grep\<close>, \<^verbatim>\<open>testprint\<close> and \<^verbatim>\<open>mytest2\<close> to \<^verbatim>\<open>mytest4\<close> as the
  executables of the image: what a command line prints, and the interpretation of \<open>shell_api\<close> that gives the
  output of a whole session.
\<close>

declare u_open_view [simp del] u_files_view [simp del] u_dir_view [simp del] u_args_view [simp del]
  u_in_view [simp del]

section \<open>The utilities\<close>

text \<open>\<open>junk\<close>: what is on the stack where the arrays of a \<^verbatim>\<open>main\<close> are.\<close>

definition utilities :: "uenv \<Rightarrow> u8 list \<Rightarrow> u8 list \<Rightarrow> world \<Rightarrow> (ending \<times> world) option" where
  "utilities e junk name =
     (if name = asc ''cat'' then exits (cat_main (kernel_os e) (take 1024 junk))
      else if name = asc ''ls'' then exits (ls_main (kernel_os e) (take 33 junk))
      else if name = asc ''grep'' then exits (grep_main (kernel_os e) (take 1024 junk) (take 33 junk) junk)
      else if name = asc ''testprint'' then exits (testprint_main (kernel_os e))
      else if name = asc ''mytest2'' then exits (mytest2_main (kernel_os e))
      else if name = asc ''mytest3'' then mytest3_main
      else if name = asc ''mytest4'' then mytest4_main (kernel_os e)
      else (\<lambda>_. None))"

definition with_utilities :: "uenv \<Rightarrow> u8 list \<Rightarrow> uenv" where
  "with_utilities e junk = e\<lparr>ue_prog := utilities e junk\<rparr>"

lemma with_utilities_simps [simp]:
  "ue_prog (with_utilities e junk) = utilities e junk" "ue_inp (with_utilities e junk) = ue_inp e"
  "ue_ticks (with_utilities e junk) = ue_ticks e" "world_ok (with_utilities e junk) w = world_ok e w"
  "startable (with_utilities e junk) = startable e" "shell_ok (with_utilities e junk) g w = shell_ok e g w"
  by (simp_all add: with_utilities_def world_ok_def env_ok_def startable_def shell_ok_def fun_eq_iff)

text \<open>Their status and output, for an argument and the files of the image.\<close>

definition cat_result :: "(u8 list \<Rightarrow> u8 list option) \<Rightarrow> u8 list \<Rightarrow> int \<times> u8 list" where
  "cat_result dir a =
     (if a = [] then (3, asc ''could not read arguments'' @ [10])
      else case dir a of None \<Rightarrow> (2, asc ''file not found'' @ [10]) | Some data \<Rightarrow> (0, data))"

definition grep_result :: "(u8 list \<Rightarrow> u8 list option) \<Rightarrow> u8 list \<Rightarrow> (int \<times> u8 list) option" where
  "grep_result dir a =
     (if a = [] then Some (3, asc ''could not read argument'' @ [10])
      else case dir [46] of None \<Rightarrow> None
        | Some data \<Rightarrow>
          if unat (hd a) < 128 \<and> (\<forall>p\<in>set (pieces 32 data). greppable dir p)
          then Some (0, dir_text dir a (pieces 32 data)) else None)"

definition util_result :: "(u8 list \<Rightarrow> u8 list option) \<Rightarrow> u8 list \<Rightarrow> u8 list \<Rightarrow> (ending \<times> u8 list) option" where
  "util_result dir name a =
     (if name = asc ''cat'' then Some (apfst Inr (cat_result dir a))
      else if name = asc ''ls'' then map_option (\<lambda>data. (Inr 0, ls_text data)) (dir [46])
      else if name = asc ''grep'' then map_option (apfst Inr) (grep_result dir a)
      else if name = asc ''testprint''
        then Some (Inr 0, asc ''Hello, if this ran, the program was correct. Yay!'' @ [10])
      else if name = asc ''mytest2'' then Some (Inr (-1), [])
      else if name = asc ''mytest3'' then Some (Inl divide_error_exception, [])
      else if name = asc ''mytest4'' then Some (Inl page_fault_exception, [])
      else None)"

text \<open>A \<^verbatim>\<open>main\<close> that ends with the status \<open>rv\<close> and has printed \<open>text\<close>.\<close>

definition ends_with :: "uenv \<Rightarrow> 'r \<Rightarrow> u8 list \<Rightarrow> world \<Rightarrow> (world \<Rightarrow> ('r \<times> world) option) \<Rightarrow> bool" where
  "ends_with e rv text w m \<longleftrightarrow> runs (m w) (\<lambda>(r, w'). r = rv \<and> world_ok e w' \<and>
     u_sys (user_view w') = u_sys (user_view w) \<and> u_in (user_view w') = u_in (user_view w) \<and>
     u_out (user_view w') = show_bytes text (u_out (user_view w)))"

lemma ends_with_text:
  "runs (m w) (\<lambda>(r, w'). r = rv \<and> kio.shows_text e text w w') \<Longrightarrow> ends_with e rv text w m"
  unfolding ends_with_def by (erule runs_mono) (auto simp: kio.shows_text_def)

lemma ends_with_file:
  "runs (m w) (\<lambda>(r, w'). r = rv \<and> world_ok e w' \<and> (\<exists>fd. fd \<in> A \<and>
    user_view w' = (user_view w)\<lparr>u_open := f fd, u_files := h fd, u_out := show_bytes text (u_out (user_view w))\<rparr>)) \<Longrightarrow>
   ends_with e rv text w m"
  unfolding ends_with_def by (erule runs_mono) auto

lemma ends_with_exits: "ends_with e rv text w m \<Longrightarrow> ends_with e (Inr rv) text w (exits m)"
  by (auto simp: ends_with_def exits_def runs_iff)

lemma ends_with_same: "world_ok e w \<Longrightarrow> m w = Some (rv, w) \<Longrightarrow> ends_with e rv [] w m"
  by (simp add: ends_with_def)

lemma cat_ends:
  assumes w: "world_ok e w" "u_open (user_view w) = {}" and a: "u_args (user_view w) = a" "length a < 1024"
    and buf: "length buf = 1024" and r: "cat_result (u_dir (user_view w)) a = (rv, text)"
  shows "ends_with e rv text w (cat_main (kernel_os e) buf)"
proof (cases "a = []")
  case True
  then show ?thesis
    using kuser.cat_no_argument [OF w(1) _ buf] a r by (auto simp: cat_result_def intro: ends_with_text)
next
  case False
  show ?thesis
  proof (cases "u_dir (user_view w) a")
    case None
    then show ?thesis
      using kuser.cat_no_file [OF w(1) a(1) False a(2) None buf] r False by (auto simp: cat_result_def intro: ends_with_text)
  next
    case (Some data)
    have "\<not> {2..7} \<subseteq> u_open (user_view w)" using w(2) by simp
    note c = kuser.cat_prints [OF w(1) a(1) False a(2) Some this buf]
    have "rv = 0" "text = data" using r False Some by (simp_all add: cat_result_def)
    then show ?thesis using c by (simp only: ends_with_file)
  qed
qed

lemma ls_ends:
  assumes w: "world_ok e w" "u_open (user_view w) = {}" and d: "u_dir (user_view w) [46] = Some data"
    and buf: "length buf = 33"
  shows "ends_with e 0 (ls_text data) w (ls_main (kernel_os e) buf)"
proof -
  have "\<not> {2..7} \<subseteq> u_open (user_view w)" using w(2) by simp
  from kuser.ls_prints [OF w(1) d this buf] show ?thesis by (rule ends_with_file)
qed

lemma grep_ends:
  assumes w: "world_ok e w" "u_open (user_view w) = {}" "u_files (user_view w) = (\<lambda>_. None)"
    and a: "u_args (user_view w) = a" "length a < 1024"
    and buf: "length search = 1024" "length buf = 33" "length junk = 1025" "last junk \<noteq> 10"
    and r: "grep_result (u_dir (user_view w)) a = Some (rv, text)"
  shows "ends_with e rv text w (grep_main (kernel_os e) search buf junk)"
proof (cases "a = []")
  case True
  then show ?thesis
    using kuser.grep_no_argument [OF w(1) _ buf(1)] a r by (auto simp: grep_result_def intro: ends_with_text)
next
  case False
  then obtain data where d: "u_dir (user_view w) [46] = Some data" "unat (hd a) < 128"
    "\<forall>p\<in>set (pieces 32 data). greppable (u_dir (user_view w)) p" "rv = 0"
    "text = dir_text (u_dir (user_view w)) a (pieces 32 data)"
    using r by (auto simp: grep_result_def split: option.splits if_splits)
  have o: "{2..7} \<inter> u_open (user_view w) = {}" "\<And>fd. fd \<notin> u_open (user_view w) \<Longrightarrow> u_files (user_view w) fd = None"
    using w by simp_all
  show ?thesis
    unfolding ends_with_def d(4,5)
    by (rule runs_mono [OF kuser.grep_prints [OF w(1) a(1) d(1) o(1) _ d(3) False d(2) a(2) buf]])
      (use o(2) in auto)
qed

lemma util_good: "util_result dir name a = Some (fin, text) \<Longrightarrow> good_end fin"
  by (auto simp: util_result_def good_end_def exception_message_def exception_messages_def apfst_def map_prod_def
    split: if_splits prod.splits)

lemma util_ends:
  assumes w: "world_ok e w" "u_open (user_view w) = {}" "u_files (user_view w) = (\<lambda>_. None)"
    and a: "u_args (user_view w) = a" "length a < 1024"
    and junk: "length junk = 1025" "last junk \<noteq> 10"
    and r: "util_result (u_dir (user_view w)) name a = Some (fin, text)"
  shows "ends_with e fin text w (utilities e junk name)"
proof -
  have l: "length (take 1024 junk) = 1024" "length (take 33 junk) = 33" using junk by simp_all
  consider (cat) rv where "name = asc ''cat''" "cat_result (u_dir (user_view w)) a = (rv, text)" "fin = Inr rv"
    | (ls) data where "name = asc ''ls''" "u_dir (user_view w) [46] = Some data" "text = ls_text data" "fin = Inr 0"
    | (grep) rv where "name = asc ''grep''" "grep_result (u_dir (user_view w)) a = Some (rv, text)" "fin = Inr rv"
    | (tp) "name = asc ''testprint''" "text = asc ''Hello, if this ran, the program was correct. Yay!'' @ [10]" "fin = Inr 0"
    | (m2) "name = asc ''mytest2''" "text = []" "fin = Inr (-1)"
    | (m3) "name = asc ''mytest3''" "text = []" "fin = Inl divide_error_exception"
    | (m4) "name = asc ''mytest4''" "text = []" "fin = Inl page_fault_exception"
    using r by (auto simp: util_result_def apfst_def map_prod_def split: if_splits prod.splits)
  then show ?thesis
  proof cases
    case cat
    then show ?thesis using cat_ends [OF w(1,2) a l(1)] by (simp add: utilities_def ends_with_exits)
  next
    case ls
    then show ?thesis using ls_ends [OF w(1,2) ls(2) l(2)] by (simp add: utilities_def ends_with_exits)
  next
    case grep
    then show ?thesis using grep_ends [OF w a l junk] by (simp add: utilities_def ends_with_exits)
  next
    case tp
    then show ?thesis
      using kuser.testprint_prints [OF w(1)] by (simp add: utilities_def ends_with_text ends_with_exits)
  next
    case m2
    then show ?thesis
      by (simp add: utilities_def mytest2_main_def ends_with_same [OF w(1)] ends_with_exits)
  next
    case m3
    then show ?thesis by (simp add: utilities_def mytest3_main_def ends_with_same [OF w(1)])
  next
    case m4
    then show ?thesis
      by (simp add: utilities_def ends_with_same [OF w(1)] kfault.mytest4_faults [OF w(1)])
  qed
qed

section \<open>The directory as a list of names\<close>

text \<open>The 32 bytes of an entry's name.\<close>

definition entry_bytes :: "fs_image \<Rightarrow> nat \<Rightarrow> u8 list" where
  "entry_bytes g i = load_bytes (fs_mem g) (dentry_addr g (of_nat i)) 32"

lemma length_entry_bytes [simp]: "length (entry_bytes g i) = 32"
  by (simp add: entry_bytes_def load_bytes_def)

lemma pieces_concat:
  "0 < n \<Longrightarrow> \<forall>x\<in>set xs. length x = n \<Longrightarrow> pieces n (concat xs) = xs"
proof (induction xs)
  case (Cons x xs)
  then have "x \<noteq> []" by auto
  then show ?case using Cons by (subst pieces.simps) simp
qed simp

lemma dir_data_names: "dir_data g = concat (map (entry_bytes g) [0..<unat (bb_dentry_count g)])"
proof -
  have "map (dir_byte g) [0..<32 * n] = concat (map (entry_bytes g) [0..<n])" for n
  proof (induction n)
    case (Suc n)
    have "[0..<32 * Suc n] = [0..<32 * n] @ map (\<lambda>i. i + 32 * n) [0..<32]"
      using upt_add_eq_append [of 0 "32 * n" 32] map_add_upt [of "32 * n" 32] by (simp add: add.commute)
    moreover have "map (dir_byte g) (map (\<lambda>i. i + 32 * n) [0..<32]) = entry_bytes g n"
      by (simp add: entry_bytes_def load_bytes_def dir_byte_def)
    ultimately show ?case using Suc by simp
  qed simp
  then show ?thesis by (simp add: dir_data_def)
qed

lemma dir_pieces: "pieces 32 (dir_data g) = map (entry_bytes g) [0..<unat (bb_dentry_count g)]"
  unfolding dir_data_names by (rule pieces_concat) auto

lemma name_of_entry: "name_of (entry_bytes g i) = entry_name g i"
proof -
  have "cstr (xs @ [0]) = cstr xs" for xs :: "u8 list" by (induction xs) (auto simp: cstr_def)
  then show ?thesis by (simp add: name_of_def entry_name_def entry_bytes_def)
qed

section \<open>A command line\<close>

text \<open>What a command returns to the shell, and the screen after it.\<close>

definition command_effect :: "uenv \<Rightarrow> fs_image \<Rightarrow> u8 list \<Rightarrow> screen \<Rightarrow> int \<times> screen" where
  "command_effect e g cmd t =
     (case parse_command (cmd @ [0]) of None \<Rightarrow> (-1, t)
      | Some (program, arg) \<Rightarrow>
          if program_valid g program (in_dentry (ue_inp e)) (in_header (ue_inp e)) = Some 1
          then case util_result (dir_of g) (cstr program) (cstr arg) of None \<Rightarrow> (-1, t)
            | Some (fin, text) \<Rightarrow> (end_status fin, show_bytes (end_text fin) (show_bytes text t))
          else (-1, t))"

text \<open>The commands the session is about: no program of the image, or one of the utilities.\<close>

definition command_ok :: "uenv \<Rightarrow> u8 list \<Rightarrow> fs_image \<Rightarrow> u8 list \<Rightarrow> bool" where
  "command_ok e junk g cmd \<longleftrightarrow> length junk = 1025 \<and> last junk \<noteq> 10 \<and>
     (case parse_command (cmd @ [0]) of None \<Rightarrow> False
      | Some (program, arg) \<Rightarrow>
          program_valid g program (in_dentry (ue_inp e)) (in_header (ue_inp e)) = Some 0 \<or>
          startable e g cmd (cstr program) (cstr arg) \<and> util_result (dir_of g) (cstr program) (cstr arg) \<noteq> None)"

lemma shell_ok_same:
  assumes "shell_ok e g w" and "world_ok e w'" and "u_sys (user_view w') = u_sys (user_view w)"
  shows "shell_ok e g w'"
proof -
  have "sys_view (wk w') = sys_view (wk w)" using assms(3) by (simp add: user_view_def Let_def)
  note V = sys_viewD(2,3) [OF this]
  show ?thesis using assms(1,2) V available_pid_cong [OF V(1)] by (simp add: shell_ok_def)
qed

lemma u_dir_shell: "shell_ok e g w \<Longrightarrow> u_dir (user_view w) = dir_of g"
  by (simp add: shell_ok_def u_dir_view)

lemma command_runs:
  assumes w: "shell_ok e g w" and c: "0 \<notin> set cmd" "length cmd \<le> 127" "length rest \<le> 1024"
    and ok: "command_ok e junk g cmd"
  shows "runs (k_os_execute (with_utilities e junk) (cmd @ 0 # rest) w) (\<lambda>(r, w').
    r = fst (command_effect e g cmd (u_out (user_view w))) \<and> shell_ok e g w' \<and>
    user_view w' = (user_view w)\<lparr>u_out := snd (command_effect e g cmd (u_out (user_view w)))\<rparr>)"
proof -
  let ?e = "with_utilities e junk" and ?t = "u_out (user_view w)"
  have w': "shell_ok ?e g w" using w by simp
  have l: "length (cmd @ 0 # rest) \<le> obj_limit" using c by (simp add: obj_limit_def)
  obtain program arg where pc: "parse_command (cmd @ [0]) = Some (program, arg)"
    using ok by (auto simp: command_ok_def split: option.splits)
  note junk = ok [unfolded command_ok_def, THEN conjunct1] ok [unfolded command_ok_def, THEN conjunct2, THEN conjunct1]
  consider (unknown) "program_valid g program (in_dentry (ue_inp e)) (in_header (ue_inp e)) = Some 0"
    | (known) fin xs where "startable e g cmd (cstr program) (cstr arg)"
        "util_result (dir_of g) (cstr program) (cstr arg) = Some (fin, xs)"
    using ok pc by (auto simp: command_ok_def)
  then show ?thesis
  proof cases
    case unknown
    then have "command_effect e g cmd ?t = (-1, ?t)" by (simp add: command_effect_def pc)
    then show ?thesis
      using k_execute_unknown [OF w' c(1) l pc] unknown by simp
  next
    case known
    then have pv: "program_valid g program (in_dentry (ue_inp e)) (in_header (ue_inp e)) = Some 1"
      using pc by (auto simp: startable_def)
    then have eff: "command_effect e g cmd ?t = (end_status fin, show_bytes (end_text fin) (show_bytes xs ?t))"
      by (simp add: command_effect_def pc known(2))
    have la: "length (cstr arg) < 1024"
      using parse_command_text(3) [of "cmd @ [0]" "cstr program" "cstr arg"] known(1)
      by (simp add: startable_def MAX_ARGS_def)
    have u: "ends_with e fin xs w1 (utilities e junk (cstr program))"
      if "world_ok ?e w1" "u_args (user_view w1) = cstr arg" "u_dir (user_view w1) = dir_of g"
        "u_open (user_view w1) = {}" "u_files (user_view w1) = (\<lambda>_. None)" for w1
      by (rule util_ends [OF _ that(4,5,2) la junk]) (use that(1,3) known(2) in simp_all)
    have fin: "good_end fin" using known(2) by (rule util_good)
    have "runs (k_os_execute ?e (cmd @ 0 # rest) w) (\<lambda>(r, w'). r = end_status fin \<and> shell_ok ?e g w' \<and>
        user_view w' = (user_view w)\<lparr>u_out := show_bytes (end_text fin) (show_bytes xs ?t)\<rparr>)"
    proof (rule k_execute_program [OF w' c(1) l _ fin])
      show "startable ?e g cmd (cstr program) (cstr arg)" using known(1) by simp
    next
      fix w1 assume 1: "world_ok ?e w1" "u_args (user_view w1) = cstr arg" "u_dir (user_view w1) = dir_of g"
        "u_open (user_view w1) = {}" "u_files (user_view w1) = (\<lambda>_. None)"
        "u_in (user_view w1) = u_in (user_view w)" "u_out (user_view w1) = ?t"
      show "runs (ue_prog ?e (cstr program) w1) (\<lambda>(r, w2). r = fin \<and> world_ok ?e w2 \<and>
          u_sys (user_view w2) = u_sys (user_view w1) \<and> u_in (user_view w2) = u_in (user_view w) \<and>
          u_out (user_view w2) = show_bytes xs ?t)"
        using u [OF 1(1-5)] unfolding ends_with_def 1(6,7) by simp
    qed
    then show ?thesis unfolding eff by simp
  qed
qed

section \<open>The contract of the shell holds\<close>

interpretation ksh: shell_api "kernel_os (with_utilities e junk)" "shell_ok e g" user_view show_bytes obj_limit
  "command_effect e g" "command_ok e junk g" for e junk g
proof
  fix w m and buf :: "u8 list"
  assume w: "shell_ok e g w" "m \<le> length buf" "length buf \<le> obj_limit"
  have "world_ok (with_utilities e junk) w" using w(1) by (simp add: shell_ok_def)
  from kio.write_out [OF this w(2,3)]
  show "runs (os_write (kernel_os (with_utilities e junk)) 1 buf (int m) w) (\<lambda>(r, w'). r = int m \<and> shell_ok e g w' \<and>
      user_view w' = (user_view w)\<lparr>u_out := show_bytes (take m buf) (u_out (user_view w))\<rparr>)"
    by (rule runs_mono) (auto intro: shell_ok_same [OF w(1)])
next
  fix w line ls n and buf :: "u8 list"
  assume w: "shell_ok e g w" "u_in (user_view w) = line # ls" "length line \<le> n" "n \<le> length buf"
    "length buf \<le> obj_limit"
  have "world_ok (with_utilities e junk) w" using w(1) by (simp add: shell_ok_def)
  from kuser.read_line [OF this w(2-5)]
  show "runs (os_read (kernel_os (with_utilities e junk)) 0 buf (int n) w) (\<lambda>(r, buf', w'). r = int (length line) \<and>
      buf' = line @ drop (length line) buf \<and> shell_ok e g w' \<and>
      user_view w' = (user_view w)\<lparr>u_in := ls, u_out := show_bytes line (u_out (user_view w))\<rparr>)"
    by (rule runs_mono) (auto intro: shell_ok_same [OF w(1)])
next
  fix w line
  assume "shell_ok e g w" "line \<in> set (u_in (user_view w))"
  then show "\<exists>l. line = l @ [10] \<and> 0 \<notin> set l \<and> length l \<le> 127"
    by (intro typed_line_form [of e]) (auto simp: shell_ok_def)
next
  fix w and cmd rest :: "u8 list"
  assume "shell_ok e g w" "0 \<notin> set cmd" "length cmd \<le> 127" "length rest \<le> 1024" "command_ok e junk g cmd"
  then show "runs (os_execute (kernel_os (with_utilities e junk)) (cmd @ 0 # rest) w) (\<lambda>(r, w').
      r = fst (command_effect e g cmd (u_out (user_view w))) \<and> shell_ok e g w' \<and>
      user_view w' = (user_view w)\<lparr>u_out := snd (command_effect e g cmd (u_out (user_view w)))\<rparr>)"
    unfolding kernel_os_simps by (rule command_runs)
qed (simp_all add: obj_limit_def)

end
