(* ===== verification/UserDemo.thy ===== *)
theory UserDemo
  imports UserSession Demo
begin

text \<open>
  A concrete system for the examples about user programs: an image with the directory, three
  executables and a text file, and the worlds in which a program or the shell of terminal 0
  runs on it.
\<close>

section \<open>The image\<close>

definition tool_exe :: "u8 list" where
  "tool_exe = [0x7F, 69, 76, 70] @ replicate 20 97 @ [0x94, 0x80, 0x04, 0x08]"

definition tool_note :: "u8 list" where "tool_note = asc ''ab'' @ [10] @ asc ''cd'' @ [10]"

text \<open>
  Offsets and bytes: the counts; the entries \<^verbatim>\<open>.\<close>, \<^verbatim>\<open>cat\<close>, \<^verbatim>\<open>grep\<close>, \<^verbatim>\<open>note\<close> and \<^verbatim>\<open>mytest3\<close>; two inodes;
  two blocks. The rest is 0.
\<close>

definition tool_bytes :: "(nat \<times> u8 list) list" where
  "tool_bytes = [(0, [5]), (4, [2]), (8, [2]), (64, [46]), (96, [1]), (128, asc ''cat''), (160, [2]),
     (192, asc ''grep''), (224, [2]), (256, asc ''note''), (288, [2]), (292, [1]),
     (320, asc ''mytest3''), (352, [2]),
     (4096, [28]), (8192, [6]), (8196, [1]), (12288, tool_exe), (16384, tool_note)]"

definition byte_at :: "(nat \<times> u8 list) list \<Rightarrow> nat \<Rightarrow> u8" where
  "byte_at rs i = (case find (\<lambda>(p, bs). p \<le> i \<and> i < p + length bs) rs of None \<Rightarrow> 0 | Some (p, bs) \<Rightarrow> bs ! (i - p))"

definition tool_fs :: fs_image where
  "tool_fs = \<lparr>fs = 0x500000, fs_mem = (\<lambda>a. byte_at tool_bytes (unat (a - 0x500000)))\<rparr>"

lemma tool_mem: "fs tool_fs = 0x500000" "fs_mem tool_fs a = byte_at tool_bytes (unat (a - 0x500000))"
  by (simp_all add: tool_fs_def)

lemma byte_at_Nil: "byte_at [] i = 0"
  and byte_at_Cons: "byte_at ((p, bs) # rs) i = (if p \<le> i \<and> i < p + length bs then bs ! (i - p) else byte_at rs i)"
  by (simp_all add: byte_at_def)

lemma tool_lengths: "length tool_exe = 28" "length tool_note = 6"
  by (simp_all add: tool_exe_def tool_note_def)

lemmas tool_byte = tool_mem tool_bytes_def byte_at_Nil byte_at_Cons tool_lengths

lemma tool_counts: "bb_dentry_count tool_fs = 5" "bb_inodes_count tool_fs = 2" "bb_blocks_count tool_fs = 2"
  by (simp_all add: bb_dentry_count_def bb_inodes_count_def bb_blocks_count_def load32_def tool_byte)

lemma tool_inode:
  "inode_addr tool_fs 0 = 0x501000" "inode_addr tool_fs 1 = 0x502000"
  "node_length tool_fs 0x501000 = 28" "node_length tool_fs 0x502000 = 6"
  "node_data_block tool_fs 0x501000 0 = 0" "node_data_block tool_fs 0x502000 0 = 1"
  by (simp_all add: inode_addr_def node_length_def node_data_block_def BLOCK_SIZE_def load32_def tool_byte)

lemma tool_offset: "j < 28 \<Longrightarrow> unat (12288 + of_nat j :: u32) = 12288 + j" "j < 6 \<Longrightarrow> unat (16384 + of_nat j :: u32) = 16384 + j"
  using unat_of_nat32 [of "12288 + j"] unat_of_nat32 [of "16384 + j"] by simp_all

lemma tool_exe_byte: "j < 28 \<Longrightarrow> file_byte tool_fs 0 j = tool_exe ! j"
  and tool_note_byte: "j < 6 \<Longrightarrow> file_byte tool_fs 1 j = tool_note ! j"
  by (simp_all add: file_byte_def tool_inode tool_counts BLOCK_SIZE_def tool_byte tool_offset)

lemma tool_files: "file_data tool_fs 0 = tool_exe" "file_data tool_fs 1 = tool_note"
  by (auto simp: file_data_def tool_inode tool_exe_byte tool_note_byte tool_lengths intro: nth_equalityI)

lemma tool_names:
  "entry_name tool_fs 0 = [46]" "entry_name tool_fs 1 = asc ''cat''" "entry_name tool_fs 2 = asc ''grep''"
  "entry_name tool_fs 3 = asc ''note''" "entry_name tool_fs 4 = asc ''mytest3''"
  by (simp_all add: entry_name_def load_bytes_def dentry_addr_def tool_byte upt_rec)

lemma tool_types:
  "entry_type tool_fs 0 = 1" "entry_type tool_fs 1 = 2" "entry_type tool_fs 2 = 2" "entry_type tool_fs 3 = 2"
  "entry_type tool_fs 4 = 2"
  "entry_inode tool_fs 1 = 0" "entry_inode tool_fs 2 = 0" "entry_inode tool_fs 3 = 1" "entry_inode tool_fs 4 = 0"
  by (simp_all add: entry_type_def entry_inode_def load32_def dentry_addr_def tool_byte)

lemma tool_find:
  "find_entry tool_fs name = (if name = [46] then Some 0 else if name = asc ''cat'' then Some 1
     else if name = asc ''grep'' then Some 2 else if name = asc ''note'' then Some 3
     else if name = asc ''mytest3'' then Some 4 else None)"
proof -
  have "[0..<unat (bb_dentry_count tool_fs)] = [0, 1, 2, 3, 4]" by (simp add: tool_counts upt_rec)
  then show ?thesis by (auto simp: find_entry_def tool_names simp del: One_nat_def)
qed

lemma tool_dir:
  "dir_of tool_fs name = (if name = [46] then Some (dir_data tool_fs)
     else if name \<in> {asc ''cat'', asc ''grep'', asc ''mytest3''} then Some tool_exe
     else if name = asc ''note'' then Some tool_note else None)"
  using tool_types tool_files
  by (auto simp del: One_nat_def simp: dir_of_def tool_find ops_of_type_def FTYPE_RTC_def FTYPE_DIR_def FTYPE_FILE_def content_def)

lemma tool_valid: "valid_inode tool_fs 0" "valid_inode tool_fs 1"
  by (simp_all add: valid_inode_def tool_counts tool_inode upt_rec)

lemma tool_image: "image_ok tool_fs"
proof -
  have "i < 5 \<Longrightarrow> entry_type tool_fs i = FTYPE_FILE \<Longrightarrow> entry_inode tool_fs i = 0 \<or> entry_inode tool_fs i = 1" for i
    using tool_types by (auto simp: less_Suc_eq numeral_eq_Suc FTYPE_FILE_def)
  then show ?thesis
    using tool_valid tool_inode by (fastforce simp: image_ok_def valid_dir_def tool_counts obj_limit_def)
qed

section \<open>The worlds\<close>

definition tool_env :: uenv where
  "tool_env = \<lparr>ue_inp = demo_inputs, ue_at = 0x8100000, ue_ticks = replicate 5 (0x7FDF00, 0x7FDF40, 0x26),
     ue_prog = (\<lambda>_ _. None)\<rparr>"

text \<open>A program with an argument, and the shell, on terminal 0.\<close>

definition tool_prog :: "u8 list \<Rightarrow> u8 list list \<Rightarrow> world" where
  "tool_prog a keys = \<lparr>wk = demo_child\<lparr>kfs := tool_fs,
     pcbs := (pcbs demo_child)(3 := demo_prog\<lparr>argument := a @ replicate (128 - length a) 0\<rparr>)\<rparr>, typed = keys\<rparr>"

definition tool_shell :: "u8 list list \<Rightarrow> world" where
  "tool_shell keys = \<lparr>wk = demo_run\<lparr>kfs := tool_fs\<rparr>, typed = keys\<rparr>"

lemma kinv_kfs [simp]: "kinv (k\<lparr>kfs := g\<rparr>) = kinv k"
  by (simp add: kinv_def tree_of_def ctx_ok_def)

lemma kinv_argument:
  assumes k: "kinv k" and a: "length a = MAX_ARGS"
  shows "kinv (k\<lparr>pcbs := (pcbs k)(p := (pcbs k p)\<lparr>argument := a\<rparr>)\<rparr>)"
proof -
  have t: "tree_of (k\<lparr>pcbs := (pcbs k)(p := (pcbs k p)\<lparr>argument := a\<rparr>)\<rparr>) = tree_of k"
  proof -
    have "(\<lambda>q. f (((pcbs k)(p := (pcbs k p)\<lparr>argument := a\<rparr>)) q)) = (\<lambda>q. f (pcbs k q))"
      if "\<And>x. f (x\<lparr>argument := a\<rparr>) = f x" for f :: "pcb \<Rightarrow> 'x" using that by auto
    from this [of parent_id] this [of pterm_num] this [of process_id] show ?thesis
      by (simp add: tree_of_def)
  qed
  show ?thesis using k a by (auto simp: kinv_def t ctx_ok_def fds_ok_def)
qed

lemma tool_env_ok: "env_ok tool_env"
  by (simp add: env_ok_def tool_env_def in_prog_page_def obj_limit_def demo_inputs_def demo_dentry_def)

lemma demo_screen: "display_term (kcon demo_run) = 0" "pending 0 (kcon demo_run) = []"
  using demo_con_empty [of 0]
  by (simp_all add: demo_run_def demo_boot_def demo_con_def term_init_def Let_def)

lemma demo_child_simps:
  "current_pid demo_child = 3" "pcbs demo_child 3 = demo_prog" "kcon demo_child = kcon demo_run"
  "kkbd demo_child = kbd_boot" "kkbd demo_run = kbd_boot" "pterm_num demo_prog = 0"
  "current_pid demo_run = 0" "pcbs demo_run 0 = demo_shell 0" "pterm_num (demo_shell 0) = 0"
  by (simp_all add: demo_child_def demo_run_def demo_boot_def demo_prog_def demo_shell_def)

lemma demo_closed: "open_set demo_prog = {}" "open_set (demo_shell 0) = {}"
proof -
  have "fflags (fd_arr (demo_shell 0) ! nat j) = 0" if "2 \<le> j" "j \<le> 7" for j
    using that by (auto simp: demo_shell_def init_stdio_def set_fd_open_def upd_fd_def demo_free_def demo_desc_def
        STDIN_def STDOUT_def nth_list_update)
  moreover have "fd_arr demo_prog = fd_arr (demo_shell 0)" by (simp add: demo_prog_def)
  ultimately show "open_set demo_prog = {}" "open_set (demo_shell 0) = {}"
    by (auto simp: open_set_def fd_is_open_def FDFLAG_OPEN_def)
qed

lemma open_set_argument: "open_set (p\<lparr>argument := a\<rparr>) = open_set p"
  by (simp add: open_set_def fd_is_open_def)

lemma files_of_closed: "open_set p = {} \<Longrightarrow> files_of g p = (\<lambda>_. None)"
  by (simp add: files_of_def fun_eq_iff)

lemma tool_prog_ok:
  assumes "length a < 128" and "\<forall>scs\<in>set keys. keys_ok kbd_boot scs"
  shows "world_ok tool_env (tool_prog a keys)"
proof -
  let ?a = "a @ replicate (128 - length a) 0"
  have "kinv ((demo_child\<lparr>kfs := tool_fs\<rparr>)\<lparr>pcbs := (pcbs (demo_child\<lparr>kfs := tool_fs\<rparr>))
      (3 := (pcbs (demo_child\<lparr>kfs := tool_fs\<rparr>) 3)\<lparr>argument := ?a\<rparr>)\<rparr>)"
    using demo_child_kinv assms(1) by (intro kinv_argument) (simp_all add: MAX_ARGS_def)
  then have "prog_ok (wk (tool_prog a keys))"
    using assms(1) demo_screen
    by (simp add: prog_ok_def tool_prog_def demo_child_simps tool_image files_ok_def open_set_argument demo_closed)
  then show ?thesis
    using assms(2) tool_env_ok by (simp add: world_ok_def tool_prog_def demo_child_simps)
qed

lemma tool_prog_view:
  assumes "0 \<notin> set a" and "length a < 128"
  shows "u_args (user_view (tool_prog a keys)) = a" and "u_open (user_view (tool_prog a keys)) = {}"
    and "u_files (user_view (tool_prog a keys)) = (\<lambda>_. None)" and "u_dir (user_view (tool_prog a keys)) = dir_of tool_fs"
    and "u_in (user_view (tool_prog a keys)) = map (typed_text kbd_boot) keys"
proof -
  obtain n where "replicate (128 - length a) (0 :: u8) = 0 # replicate n 0"
    using assms(2) by (cases "128 - length a") auto
  then show "u_args (user_view (tool_prog a keys)) = a"
    using cstr_id [OF assms(1)] by (simp add: u_args_view tool_prog_def demo_child_simps)
qed (simp_all add: u_open_view u_files_view u_dir_view u_in_view tool_prog_def demo_child_simps
    files_of_closed open_set_argument demo_closed)

lemma tool_shell_ok:
  assumes "\<forall>scs\<in>set keys. keys_ok kbd_boot scs"
  shows "shell_ok tool_env tool_fs (tool_shell keys)"
proof -
  have "0 \<in> set (argument (demo_shell 0))"
    by (simp add: demo_shell_def demo_free_def init_stdio_def set_fd_open_def upd_fd_def)
  then have "prog_ok (wk (tool_shell keys))"
    using demo_run_kinv demo_screen
    by (simp add: prog_ok_def tool_shell_def demo_child_simps tool_image files_ok_def demo_closed)
  moreover have "get_available_pid (wk (tool_shell keys)) = 3"
    by (simp add: tool_shell_def get_available_pid_eq demo_run_def)
  ultimately show ?thesis
    using assms tool_env_ok
    by (simp add: shell_ok_def world_ok_def tool_shell_def demo_child_simps, simp add: tool_env_def)
qed

lemma tool_shell_keys: "kkbd (wk (tool_shell keys)) = kbd_boot" "typed (tool_shell keys) = keys"
  by (simp_all add: tool_shell_def demo_child_simps)

section \<open>Keys and commands\<close>

lemma demo_keys: "list_all (plain_key kbd_boot) [0x1E, 0x2E, 0x14, 0x22, 0x13, 0x12, 0x19, 0x31, 0x18, 0x39, 0x2D, 0x17, 0x0B, 0x30, 0x32, 0x15, 0x1F, 0x04]"
  by (simp add: plain_key_def kb_consts update_key_state_def get_char_map_def kb_map_def kbd_boot_def)

text \<open>\<^verbatim>\<open>cat note\<close>, \<^verbatim>\<open>grep b\<close>, \<^verbatim>\<open>no\<close>, \<^verbatim>\<open>mytest3\<close> and \<^verbatim>\<open>exit\<close>, each ended with Enter.\<close>

definition tool_keys :: "u8 list list" where
  "tool_keys = [[0x2E, 0x1E, 0x14, 0x39, 0x31, 0x18, 0x14, 0x12], [0x22, 0x13, 0x12, 0x19, 0x39, 0x30],
     [0x31, 0x18], [0x32, 0x15, 0x14, 0x12, 0x1F, 0x14, 0x04], [0x12, 0x2D, 0x17, 0x14]]"

lemma tool_lines:
  "map (typed_text kbd_boot) tool_keys = [asc ''cat note'' @ [10], asc ''grep b'' @ [10], asc ''no'' @ [10],
     asc ''mytest3'' @ [10], asc ''exit'' @ [10]]"
  by (simp add: tool_keys_def typed_text_def get_char_map_def kb_map_def kbd_boot_def)

lemma tool_keys_ok: "\<forall>scs\<in>set tool_keys. keys_ok kbd_boot scs"
  using demo_keys by (simp add: tool_keys_def keys_ok_def)

lemma tool_parse:
  "parse_command (asc ''cat note'' @ [0]) = Some (asc ''cat'' @ [0], asc ''note'' @ [0])"
  "parse_command (asc ''grep b'' @ [0]) = Some (asc ''grep'' @ [0], asc ''b'' @ [0])"
  "parse_command (asc ''no'' @ [0]) = Some (asc ''no'' @ [0], [0])"
  "parse_command (asc ''mytest3'' @ [0]) = Some (asc ''mytest3'' @ [0], [0])"
  by (simp_all add: parse_command_def KB_BUF_SIZE_def MAX_ARGS_def)

lemma tool_lookup:
  assumes "0 \<notin> set name" and "length name < 100"
  shows "read_dentry_by_name tool_fs (name @ [0]) demo_dentry = Some (case find_entry tool_fs name of
    None \<Rightarrow> (-1, demo_dentry) | Some i \<Rightarrow> (0, dentry_of tool_fs i demo_dentry))"
  using lookup_eq [of "name @ [0]" demo_dentry tool_fs] assms cstr_id [OF assms(1), of "[]"]
  by (simp add: demo_dentry_def)

lemma tool_header: "read_data tool_fs 0 0 4 = (4, [0x7F, 69, 76, 70])"
  using read_data_eq [OF tool_valid(1), of 0 4] tool_inode by (simp add: tool_files tool_exe_def)

lemma tool_entries:
  "read_dentry_by_name tool_fs (asc ''cat'' @ [0]) demo_dentry = Some (0, dentry_of tool_fs 1 demo_dentry)"
  "read_dentry_by_name tool_fs (asc ''grep'' @ [0]) demo_dentry = Some (0, dentry_of tool_fs 2 demo_dentry)"
  "read_dentry_by_name tool_fs (asc ''no'' @ [0]) demo_dentry = Some (-1, demo_dentry)"
  "read_dentry_by_name tool_fs (asc ''mytest3'' @ [0]) demo_dentry = Some (0, dentry_of tool_fs 4 demo_dentry)"
  by (subst tool_lookup; simp add: tool_find del: One_nat_def)+

lemma tool_magic: "(\<forall>i\<in>set [0..<4]. overlay [0x7F, 69, 76, 70] [0, 0, 0, 0] ! i = ELF_HEADER ! i) = True"
  by (simp add: upt_rec overlay_def ELF_HEADER_def)

lemma tool_programs:
  "program_valid tool_fs (asc ''cat'' @ [0]) demo_dentry [0, 0, 0, 0] = Some 1"
  "program_valid tool_fs (asc ''grep'' @ [0]) demo_dentry [0, 0, 0, 0] = Some 1"
  "program_valid tool_fs (asc ''no'' @ [0]) demo_dentry [0, 0, 0, 0] = Some 0"
  "program_valid tool_fs (asc ''mytest3'' @ [0]) demo_dentry [0, 0, 0, 0] = Some 1"
  unfolding program_valid_def tool_entries
  by (simp_all only: bind.bind_lunit split_conv dentry_of_type tool_types tool_header Let_def tool_magic) simp_all

end
