(* ===== verification/UserProps.thy ===== *)
theory UserProps
  imports UserDemo
begin

text \<open>
  What the user programs do on the kernel, from the interpretations of their contracts.
\<close>

section \<open>What the statements use\<close>

lemma ends_withD:
  assumes "ends_with e rv xs w m"
  shows "\<exists>w'. m w = Some (rv, w') \<and> world_ok e w' \<and> sys_view (wk w') = sys_view (wk w) \<and>
    u_out (user_view w') = show_bytes xs (u_out (user_view w))"
  using assms by (auto simp: ends_with_def runs_iff u_sys_view)

text \<open>What \<^verbatim>\<open>grep\<close> prints for one entry of the directory, and the files it can search.\<close>

definition searchable :: "fs_image \<Rightarrow> nat \<Rightarrow> bool" where
  "searchable g i \<longleftrightarrow> hd (entry_bytes g i) = 46 \<or>
     (case dir_of g (entry_name g i) of None \<Rightarrow> False
      | Some t \<Rightarrow> 0 \<notin> set t \<and> (\<forall>l\<in>set (text_lines t). length l < 1024))"

definition matches :: "fs_image \<Rightarrow> u8 list \<Rightarrow> nat \<Rightarrow> u8 list" where
  "matches g pat i =
     (if hd (entry_bytes g i) = 46 then []
      else concat (map (\<lambda>l. if contains pat l then entry_name g i @ asc '':'' @ l @ [10] else [])
        (text_lines (the (dir_of g (entry_name g i))))))"

lemma greppable_entry: "greppable (dir_of g) (entry_bytes g i) = searchable g i"
proof -
  have "entry_bytes g i \<noteq> []" using length_entry_bytes [of g i] by (metis list.size(3) zero_neq_numeral)
  then show ?thesis by (auto simp: greppable_def searchable_def name_of_entry split: option.splits)
qed

lemma entry_text_matches: "entry_text (dir_of g) pat (entry_bytes g i) = matches g pat i"
proof -
  have "line_text pat nm = (\<lambda>l. if contains pat l then nm @ asc '':'' @ l @ [10] else [])" for nm
    by (simp add: line_text_def fun_eq_iff)
  then show ?thesis by (simp add: entry_text_def matches_def grep_text_def name_of_entry)
qed

lemma dir_text_entries:
  "dir_text (dir_of g) pat (map (entry_bytes g) ns) = concat (map (matches g pat) ns)"
  by (simp add: dir_text_def entry_text_matches o_def)

text \<open>The files of the demonstration image.\<close>

lemma contains_byte: "contains [c] l \<longleftrightarrow> c \<in> set l"
proof -
  have "i < length l \<Longrightarrow> take 1 (drop i l) = [l ! i]" for i
    by (metis Cons_nth_drop_Suc One_nat_def take_Suc_Cons take_0)
  then show ?thesis by (auto simp: contains_def in_set_conv_nth)
qed

lemma tool_entry:
  "hd (entry_bytes tool_fs 0) = 46" "hd (entry_bytes tool_fs 1) = 99" "hd (entry_bytes tool_fs 2) = 103"
  "hd (entry_bytes tool_fs 3) = 110" "hd (entry_bytes tool_fs 4) = 109"
proof -
  have "hd (entry_bytes g i) = fs_mem g (dentry_addr g (of_nat i))" for g i
    by (simp add: entry_bytes_def load_bytes_def hd_map)
  then show "hd (entry_bytes tool_fs 0) = 46" "hd (entry_bytes tool_fs 1) = 99" "hd (entry_bytes tool_fs 2) = 103"
    "hd (entry_bytes tool_fs 3) = 110" "hd (entry_bytes tool_fs 4) = 109"
    by (simp_all add: dentry_addr_def tool_byte)
qed

lemma tool_lines_of: "text_lines tool_exe = [tool_exe]" "text_lines tool_note = [asc ''ab'', asc ''cd'']"
proof -
  have "\<forall>c\<in>set tool_exe. c \<noteq> 10" by (simp add: tool_exe_def)
  then have t: "takeWhile (\<lambda>c. c \<noteq> 10) tool_exe = tool_exe" "dropWhile (\<lambda>c. c \<noteq> 10) tool_exe = []"
    by simp_all
  show "text_lines tool_exe = [tool_exe]"
    by (subst text_lines.simps) (simp add: t, simp add: tool_exe_def)
  show "text_lines tool_note = [asc ''ab'', asc ''cd'']"
    by (simp add: tool_note_def text_lines_newline [of "[97, 98]", simplified] text_lines_newline [of "[99, 100]", simplified])
qed

lemma tool_searchable: "i < 5 \<Longrightarrow> searchable tool_fs i"
proof -
  have "0 \<notin> set tool_exe" "0 \<notin> set tool_note" by (simp_all add: tool_exe_def tool_note_def)
  then have "searchable tool_fs 0 \<and> searchable tool_fs 1 \<and> searchable tool_fs 2 \<and> searchable tool_fs 3 \<and> searchable tool_fs 4"
    by (simp add: searchable_def tool_entry tool_names tool_dir tool_lines_of tool_lengths del: One_nat_def)
  then show "i < 5 \<Longrightarrow> searchable tool_fs i" by (auto simp: less_Suc_eq numeral_eq_Suc)
qed

lemma tool_matches: "concat (map (matches tool_fs [98]) [0..<unat (bb_dentry_count tool_fs)]) = asc ''note:ab'' @ [10]"
proof -
  have "[0..<unat (bb_dentry_count tool_fs)] = [0, 1, 2, 3, 4]" by (simp add: tool_counts upt_rec)
  moreover have "98 \<notin> set tool_exe" by (simp add: tool_exe_def)
  ultimately show ?thesis
    by (simp add: matches_def tool_entry tool_names tool_dir tool_lines_of contains_byte del: One_nat_def)
qed

text \<open>The commands of the demonstration session.\<close>

lemma tool_inputs: "in_dentry (ue_inp tool_env) = demo_dentry" "in_header (ue_inp tool_env) = [0, 0, 0, 0]"
  by (simp_all add: tool_env_def demo_inputs_def)

lemma tool_cstr: "cstr (asc ''cat'' @ [0]) = asc ''cat''" "cstr (asc ''note'' @ [0]) = asc ''note''"
  "cstr (asc ''grep'' @ [0]) = asc ''grep''" "cstr (asc ''b'' @ [0]) = asc ''b''"
  "cstr (asc ''mytest3'' @ [0]) = asc ''mytest3''" "cstr [0 :: u8] = []"
  by (simp_all add: cstr_def)

lemma tool_startable:
  "startable tool_env tool_fs (asc ''cat note'') (asc ''cat'') (asc ''note'')"
  "startable tool_env tool_fs (asc ''grep b'') (asc ''grep'') (asc ''b'')"
  "startable tool_env tool_fs (asc ''mytest3'') (asc ''mytest3'') []"
proof -
  have n: "valid_inode tool_fs (inode_num (dentry_of tool_fs i demo_dentry))"
    "length (file_data tool_fs (inode_num (dentry_of tool_fs i demo_dentry))) \<le> 0x3B8000" if "i = 1 \<or> i = 2 \<or> i = 4" for i
    using that tool_valid(1) by (auto simp: dentry_of_type tool_types tool_files tool_lengths simp del: One_nat_def length_file_data)
  show "startable tool_env tool_fs (asc ''cat note'') (asc ''cat'') (asc ''note'')"
    unfolding startable_def tool_inputs tool_parse tool_programs tool_entries using n [of 1] by blast
  show "startable tool_env tool_fs (asc ''grep b'') (asc ''grep'') (asc ''b'')"
    unfolding startable_def tool_inputs tool_parse tool_programs tool_entries using n [of 2] by blast
  show "startable tool_env tool_fs (asc ''mytest3'') (asc ''mytest3'') []"
    unfolding startable_def tool_inputs tool_parse tool_programs tool_entries using n [of 4] by (simp add: tool_cstr)
qed

lemma tool_results:
  "util_result (dir_of tool_fs) (asc ''cat'') (asc ''note'') = Some (Inr 0, tool_note)"
  "util_result (dir_of tool_fs) (asc ''grep'') (asc ''b'') = Some (Inr 0, asc ''note:ab'' @ [10])"
  "util_result (dir_of tool_fs) (asc ''mytest3'') [] = Some (Inl divide_error_exception, [])"
proof -
  show "util_result (dir_of tool_fs) (asc ''cat'') (asc ''note'') = Some (Inr 0, tool_note)"
    by (simp add: util_result_def cat_result_def tool_dir)
  have "grep_result (dir_of tool_fs) [98] = Some (0, asc ''note:ab'' @ [10])"
    using tool_matches by (simp add: grep_result_def tool_dir dir_pieces dir_text_entries greppable_entry tool_counts tool_searchable)
  then show "util_result (dir_of tool_fs) (asc ''grep'') (asc ''b'') = Some (Inr 0, asc ''note:ab'' @ [10])"
    by (simp add: util_result_def)
  show "util_result (dir_of tool_fs) (asc ''mytest3'') [] = Some (Inl divide_error_exception, [])"
    by (simp add: util_result_def)
qed

lemma tool_effects:
  "command_effect tool_env tool_fs (asc ''cat note'') t = (0, show_bytes tool_note t)"
  "command_effect tool_env tool_fs (asc ''grep b'') t = (0, show_bytes (asc ''note:ab'' @ [10]) t)"
  "command_effect tool_env tool_fs (asc ''no'') t = (-1, t)"
  "command_effect tool_env tool_fs (asc ''mytest3'') t = (256, show_bytes (end_text (Inl divide_error_exception)) t)"
proof -
  have "end_status (Inr 0) = 0" "end_text (Inr 0) = []" by (simp_all add: end_status_def end_text_def exit_status_def)
  then show "command_effect tool_env tool_fs (asc ''cat note'') t = (0, show_bytes tool_note t)"
    "command_effect tool_env tool_fs (asc ''grep b'') t = (0, show_bytes (asc ''note:ab'' @ [10]) t)"
    unfolding command_effect_def tool_parse option.case split_conv tool_inputs tool_programs tool_cstr tool_results
    by (simp_all only: option.case split_conv if_True fold_Nil id_apply refl)
  show "command_effect tool_env tool_fs (asc ''no'') t = (-1, t)"
    unfolding command_effect_def tool_parse option.case split_conv tool_inputs tool_programs by simp
  have "end_status (Inl divide_error_exception) = 256" by (simp add: end_status_def)
  then show "command_effect tool_env tool_fs (asc ''mytest3'') t = (256, show_bytes (end_text (Inl divide_error_exception)) t)"
    unfolding command_effect_def tool_parse option.case split_conv tool_inputs tool_programs tool_cstr tool_results
    by (simp only: option.case split_conv if_True refl) simp
qed

lemma tool_commands:
  assumes "length junk = 1025" and "last junk \<noteq> 10"
  shows "command_ok tool_env junk tool_fs (asc ''cat note'')" "command_ok tool_env junk tool_fs (asc ''grep b'')"
    "command_ok tool_env junk tool_fs (asc ''no'')" "command_ok tool_env junk tool_fs (asc ''mytest3'')"
  using assms tool_startable tool_results
  unfolding command_ok_def tool_parse option.case split_conv tool_inputs tool_programs tool_cstr by simp_all

section \<open>Properties\<close>

text \<open>
  C18: \<^verbatim>\<open>cat\<close> writes exactly the bytes of the file that its argument names to its terminal and
  returns 0; without an argument it says so and returns 3, and for a name that the directory
  does not have it says so and returns 2. Whatever it does, other processes, the keyboard
  and the file system are as before.
\<close>

theorem cat_shows_file:
  assumes "world_ok e w" and "open_set (cur_pcb (wk w)) = {}" and "length buf = 1024"
    and "cstr (argument (cur_pcb (wk w))) = name" and "length name < 1024"
  shows "\<exists>w'. cat_main (kernel_os e) buf w =
      Some (if name = [] then 3 else if dir_of (kfs (wk w)) name = None then 2 else 0, w') \<and>
    world_ok e w' \<and> sys_view (wk w') = sys_view (wk w) \<and>
    u_out (user_view w') = show_bytes
      (if name = [] then asc ''could not read arguments'' @ [10]
       else case dir_of (kfs (wk w)) name of None \<Rightarrow> asc ''file not found'' @ [10] | Some data \<Rightarrow> data)
      (u_out (user_view w))"
proof -
  have o: "u_open (user_view w) = {}" and a: "u_args (user_view w) = name"
    using assms(2,4) by (simp_all add: u_open_view u_args_view)
  obtain rv xs where r: "cat_result (u_dir (user_view w)) name = (rv, xs)" by fastforce
  from ends_withD [OF cat_ends [OF assms(1) o a assms(5,3) r]] show ?thesis
    using r by (auto simp: cat_result_def u_dir_view split: option.splits if_splits)
qed

theorem cat_shows_file_witness:
  "\<exists>w'. cat_main (kernel_os tool_env) (replicate 1024 0) (tool_prog (asc ''note'') []) = Some (0, w') \<and>
     u_out (user_view w') = show_bytes (asc ''ab'' @ [10] @ asc ''cd'' @ [10]) (u_out (user_view (tool_prog (asc ''note'') [])))"
proof -
  define w where "w = tool_prog (asc ''note'') []"
  have ok: "world_ok tool_env w" unfolding w_def by (rule tool_prog_ok) simp_all
  have v: "open_set (cur_pcb (wk w)) = {}" "cstr (argument (cur_pcb (wk w))) = asc ''note''"
    "dir_of (kfs (wk w)) = dir_of tool_fs"
    using tool_prog_view [of "asc ''note''" "[]"] by (simp_all add: w_def u_open_view u_args_view u_dir_view)
  have "dir_of tool_fs (asc ''note'') = Some tool_note" by (simp add: tool_dir)
  then show ?thesis
    using cat_shows_file [OF ok v(1) _ v(2), of "replicate 1024 0"] unfolding w_def [symmetric]
    by (auto simp: v(3) tool_note_def)
qed

text \<open>
  \<^verbatim>\<open>ls\<close> writes the names of the directory's entries in order, one per line, each with the 32
  bytes it has in the image, and returns 0.
\<close>

lemma ls_lists_names:
  assumes "world_ok e w" and "open_set (cur_pcb (wk w)) = {}" and "length buf = 33"
    and "dir_of (kfs (wk w)) (asc ''.'') = Some (dir_data (kfs (wk w)))"
  shows "\<exists>w'. ls_main (kernel_os e) buf w = Some (0, w') \<and> world_ok e w' \<and>
    sys_view (wk w') = sys_view (wk w) \<and>
    u_out (user_view w') = show_bytes
      (concat (map (\<lambda>i. entry_bytes (kfs (wk w)) i @ [10]) [0..<unat (bb_dentry_count (kfs (wk w)))]))
      (u_out (user_view w))"
proof -
  have o: "u_open (user_view w) = {}" and d: "u_dir (user_view w) [46] = Some (dir_data (kfs (wk w)))"
    using assms(2,4) by (simp_all add: u_open_view u_dir_view)
  show ?thesis
    using ends_withD [OF ls_ends [OF assms(1) o d assms(3)]] by (simp add: ls_text_def dir_pieces o_def)
qed

lemma ls_lists_names_witness:
  "\<exists>w'. ls_main (kernel_os tool_env) (replicate 33 0) (tool_prog [] []) = Some (0, w') \<and>
     u_out (user_view w') = show_bytes
       (concat (map (\<lambda>i. entry_bytes tool_fs i @ [10]) [0, 1, 2, 3, 4])) (u_out (user_view (tool_prog [] [])))"
proof -
  have w: "world_ok tool_env (tool_prog [] [])" by (rule tool_prog_ok) simp_all
  have v: "open_set (cur_pcb (wk (tool_prog [] []))) = {}" "kfs (wk (tool_prog [] [])) = tool_fs"
    using tool_prog_view [of "[]" "[]"] by (simp_all add: u_open_view tool_prog_def)
  have "[0..<unat (bb_dentry_count tool_fs)] = [0, 1, 2, 3, 4]" by (simp add: tool_counts upt_rec)
  then show ?thesis
    using ls_lists_names [OF w v(1), of "replicate 33 0"] by (auto simp: v(2) tool_dir)
qed



text \<open>
  \<^verbatim>\<open>hello\<close> asks for a name, waits until a line has been typed on its terminal, greets with the
  line and returns 0; the typing and the output stand on the screen in this order.
\<close>

lemma hello_greets_by_name:
  assumes "world_ok e w" and "typed w = keys # rest" and "length buf = 1024"
  shows "\<exists>w'. hello_main (kernel_os e) buf w = Some (0, w') \<and> world_ok e w' \<and>
    sys_view (wk w') = sys_view (wk w) \<and> u_in (user_view w') = map (typed_text (kkbd (wk w))) rest \<and>
    u_out (user_view w') = show_bytes (hello_text (typed_text (kkbd (wk w)) keys)) (u_out (user_view w))"
proof -
  have "u_in (user_view w) = typed_text (kkbd (wk w)) keys # map (typed_text (kkbd (wk w))) rest"
    using assms(2) by (simp add: u_in_view)
  from kuser.hello_greets [OF assms(1) this assms(3)] show ?thesis
    by (auto simp: runs_iff simp flip: u_sys_view)
qed

lemma hello_greets_by_name_witness:
  "\<exists>w'. hello_main (kernel_os tool_env) (replicate 1024 0) (tool_prog [] [[0x2E, 0x1E, 0x14]]) = Some (0, w') \<and>
     u_out (user_view w') = show_bytes (hello_text (asc ''cat'' @ [10])) (u_out (user_view (tool_prog [] [[0x2E, 0x1E, 0x14]])))"
proof -
  define w where "w = tool_prog [] [[0x2E, 0x1E, 0x14]]"
  have ok: "world_ok tool_env w"
    unfolding w_def by (rule tool_prog_ok) (use demo_keys in \<open>simp_all add: keys_ok_def\<close>)
  have v: "typed w = [[0x2E, 0x1E, 0x14]]" "typed_text (kkbd (wk w)) [0x2E, 0x1E, 0x14] = asc ''cat'' @ [10]"
    by (simp_all add: w_def tool_prog_def demo_child_simps typed_text_def get_char_map_def kb_map_def kbd_boot_def)
  show ?thesis
    using hello_greets_by_name [OF ok v(1), of "replicate 1024 0"] unfolding w_def [symmetric] v(2) by auto
qed

text \<open>
  C23: \<^verbatim>\<open>counter\<close>, given the test number 0, 1 or 2, prints the numbers from 1 to 100, 10000 or 100000
  in decimal, one per line, and returns 0.
\<close>

theorem counter_prints_numbers:
  assumes "world_ok e w" and "typed w = keys # rest" and "length buf = 1024"
    and "typed_text (kkbd (wk w)) keys = [c, 10]" and "c \<in> {48, 49, 50}"
  shows "\<exists>w'. counter_main (kernel_os e) buf w = Some (0, w') \<and> world_ok e w' \<and>
    sys_view (wk w') = sys_view (wk w) \<and>
    u_out (user_view w') = show_bytes (asc ''Enter the Test Number: (0): 100, (1): 10000, (2): 100000'' @ [10, c, 10] @
      concat (map (\<lambda>i. numeral_text 10 i @ [10]) [1..<Suc (counter_max c)])) (u_out (user_view w))"
proof -
  define q where "q = ''Enter the Test Number: (0): 100, (1): 10000, (2): 100000''"
  have "u_in (user_view w) = [c, 10] # map (typed_text (kkbd (wk w))) rest"
    using assms(2,4) by (simp add: u_in_view)
  note c = kuser.counter_counts [OF assms(1) this assms(5,3), folded q_def]
  have "concat (map (\<lambda>i. numeral_text 10 i @ [10]) [1..<Suc n]) = count_text n" for n
    by (simp add: count_text_def map_Suc_upt [symmetric] o_def del: upt_Suc map_Suc_upt)
  then show ?thesis
    using c unfolding q_def [symmetric] by (auto simp: runs_iff simp del: upt_Suc simp flip: u_sys_view)
qed

theorem counter_prints_numbers_witness:
  "\<exists>w'. counter_main (kernel_os tool_env) (replicate 1024 0) (tool_prog [] [[0x0B]]) = Some (0, w') \<and>
     world_ok tool_env w'"
proof -
  define w where "w = tool_prog [] [[0x0B]]"
  have ok: "world_ok tool_env w"
    unfolding w_def by (rule tool_prog_ok) (use demo_keys in \<open>simp_all add: keys_ok_def\<close>)
  have v: "typed w = [[0x0B]]" "typed_text (kkbd (wk w)) [0x0B] = [48, 10]"
    by (simp_all add: w_def tool_prog_def demo_child_simps typed_text_def get_char_map_def kb_map_def kbd_boot_def)
  show ?thesis
    using counter_prints_numbers [OF ok v(1) _ v(2), of "replicate 1024 0"] unfolding w_def [symmetric] by auto
qed

text \<open>
  C15: The error tests of \<^verbatim>\<open>syserr\<close> (option 0) all pass on this kernel: bad descriptors, numbers, names
  and pointers are refused, a seventh \<^verbatim>\<open>open\<close> fails while six succeed and can be closed again,
  and the program reports every test as passed and returns 0.
\<close>

theorem syserr_tests_pass:
  assumes "world_ok e w" and "open_set (cur_pcb (wk w)) = {}"
    and "typed w = keys # rest" and "typed_text (kkbd (wk w)) keys = asc ''0'' @ [10]"
    and "dir_of (kfs (wk w)) (asc ''.'') \<noteq> None" and "dir_of (kfs (wk w)) (asc ''helloo'') = None"
    and "dir_of (kfs (wk w)) (asc ''shel'') = None" and "dir_of (kfs (wk w)) [] = None"
    and "length buf = 128" and "length b1 = 32" and "length b2 = 32" and "length b3 = 32" and "length b4 = 32"
  shows "\<exists>w'. syserr_main (kernel_os e) buf b1 b2 b3 b4 w = Some (0, w') \<and> world_ok e w' \<and>
    u_out (user_view w') = show_bytes (asc ''Choose from tests 1-8. 0 to run all: 0'' @ [10] @
      concat (map (\<lambda>name. asc (name @ '': PASS'') @ [10]) test_names) @
      [10] @ asc ''Overall Tests: PASS'' @ [10]) (u_out (user_view w))"
proof -
  have t: "kuser.testable e w"
    using assms(1,2,5-8)
    by (simp add: kuser.testable_def u_open_view u_files_view u_dir_view files_of_closed)
  have i: "u_in (user_view w) = [48, 10] # map (typed_text (kkbd (wk w))) rest"
    using assms(3,4) by (simp add: u_in_view)
  have "syserr_text = asc ''Choose from tests 1-8. 0 to run all: 0'' @ [10] @
      concat (map (\<lambda>name. asc (name @ '': PASS'') @ [10]) test_names) @ [10] @ asc ''Overall Tests: PASS'' @ [10]"
    by (simp add: syserr_text_def pass_text_def test_names_def)
  then show ?thesis
    using kuser.syserr_passes [OF t i assms(9-13)] by (auto simp: runs_iff simp del: fold_append)
qed

theorem syserr_tests_pass_witness:
  "\<exists>w'. syserr_main (kernel_os tool_env) (replicate 128 0) (replicate 32 0) (replicate 32 0) (replicate 32 0)
      (replicate 32 0) (tool_prog [] [[0x0B]]) = Some (0, w') \<and> world_ok tool_env w'"
proof -
  define w where "w = tool_prog [] [[0x0B]]"
  have ok: "world_ok tool_env w"
    unfolding w_def by (rule tool_prog_ok) (use demo_keys in \<open>simp_all add: keys_ok_def\<close>)
  have v: "typed w = [[0x0B]]" "typed_text (kkbd (wk w)) [0x0B] = asc ''0'' @ [10]"
    "open_set (cur_pcb (wk w)) = {}" "kfs (wk w) = tool_fs"
    using tool_prog_view [of "[]" "[[0x0B]]"]
    by (simp_all add: u_open_view w_def tool_prog_def demo_child_simps typed_text_def get_char_map_def kb_map_def kbd_boot_def)
  show ?thesis
    using syserr_tests_pass [OF ok v(3,1,2), of "replicate 128 0" "replicate 32 0" "replicate 32 0"
      "replicate 32 0" "replicate 32 0"] unfolding w_def [symmetric] by (auto simp: v(4) tool_dir)
qed

text \<open>
  C24: \<^verbatim>\<open>sigtest\<close> with an argument ends by the page fault of its store through the null pointer, after the
  prompts and the typed line; the handlers it asks for are refused, so they are not called and the message
  \<^verbatim>\<open>success\<close> is not reached.
\<close>

theorem sigtest_ends_by_fault:
  assumes "world_ok e w" and "cstr (argument (cur_pcb (wk w))) = a" and "a \<noteq> []" and "length a < 1024"
    and "typed w = keys # rest" and "length buf = 1024"
  shows "\<exists>w'. sigtest_main (kernel_os e) h1 h2 buf w = Some (Inl page_fault_exception, w') \<and> world_ok e w' \<and>
    sys_view (wk w') = sys_view (wk w) \<and> u_in (user_view w') = map (typed_text (kkbd (wk w))) rest \<and>
    u_out (user_view w') = show_bytes
      ((if hd a = 49 then asc ''Installing signal handlers'' @ [10] else []) @
       asc (''Hi, what'' @ CHR 0x27 # ''s your name? '') @ typed_text (kkbd (wk w)) keys) (u_out (user_view w))"
proof -
  have "u_args (user_view w) = a" "u_in (user_view w) = typed_text (kkbd (wk w)) keys # map (typed_text (kkbd (wk w))) rest"
    using assms(2,5) by (simp_all add: u_args_view u_in_view)
  from kfault.sigtest_faults [OF assms(1) this(1) assms(3,4) this(2) assms(6), where ?h1.0 = h1 and ?h2.0 = h2] show ?thesis
    unfolding ask_name_def [symmetric] sigtest_text_def [symmetric] by (auto simp: runs_iff simp flip: u_sys_view)
qed

theorem sigtest_ends_by_fault_witness:
  "\<exists>w'. sigtest_main (kernel_os tool_env) 0x8048100 0x8048200 (replicate 1024 0) (tool_prog (asc ''1'') [[0x2E, 0x1E, 0x14]]) =
      Some (Inl page_fault_exception, w') \<and> world_ok tool_env w'"
proof -
  define w where "w = tool_prog (asc ''1'') [[0x2E, 0x1E, 0x14]]"
  have ok: "world_ok tool_env w"
    unfolding w_def by (rule tool_prog_ok) (use demo_keys in \<open>simp_all add: keys_ok_def\<close>)
  have v: "cstr (argument (cur_pcb (wk w))) = asc ''1''" "typed w = [[0x2E, 0x1E, 0x14]]"
    using tool_prog_view(1) [of "asc ''1''" "[[0x2E, 0x1E, 0x14]]"]
    by (simp_all add: w_def u_args_view, simp add: tool_prog_def)
  show ?thesis
    using sigtest_ends_by_fault [OF ok v(1) _ _ v(2), of "replicate 1024 0" "0x8048100" "0x8048200"]
    unfolding w_def [symmetric] by auto
qed



end
