(* ===== verification/Results.thy ===== *)
theory Results
  imports Isolation Demo
begin

text \<open>
  The values that system calls return: \<^verbatim>\<open>ece391syscall.h\<close> promises -1 for a failure and a
  value of at least 0 otherwise.
\<close>

section \<open>User buffers are short\<close>

text \<open>Only four entries of the page directory are present, so no buffer spans half the addresses.\<close>

lemma translate_unmapped:
  "pg_inv s \<Longrightarrow> unat (drop_bit 22 va) \<notin> {0, 1, 2, 32} \<Longrightarrow> translate u s va = None"
  by (simp add: pg_inv_def translate_def Let_def)

lemma half_unmapped:
  assumes "pg_inv s"
  shows "\<exists>i<2 ^ 31. translate u s (va + of_nat i) = None"
proof -
  have h: "translate u s (va + of_nat (unat (t - va))) = None" if "t \<in> {0x10000000, 0x90000000}" for t
    using that by (intro translate_unmapped [OF assms]) auto
  show ?thesis
  proof (cases "unat (0x10000000 - va) < 2 ^ 31")
    case True
    then show ?thesis using h by blast
  next
    case False
    have "unat (0x90000000 - va) < 2 ^ 31"
    proof -
      have e: "0x90000000 - va = (0x10000000 - va) + 0x80000000" by simp
      have "unat (x + 0x80000000) = (unat x + 2 ^ 31) mod 2 ^ 32" for x :: u32
        by (simp add: unat_word_ariths)
      then have "unat (0x90000000 - va) = (unat (0x10000000 - va) + 2 ^ 31) mod 2 ^ 32"
        unfolding e .
      moreover obtain y where "unat (0x10000000 - va) = y + 2 ^ 31" "y < 2 ^ 31"
        using False unat_lt32 [of "0x10000000 - va"] that [of "unat (0x10000000 - va) - 2 ^ 31"] by simp
      ultimately show ?thesis by simp
    qed
    then show ?thesis using h by blast
  qed
qed

lemma get_user_mapped:
  "get_user va n k = Some bs \<Longrightarrow> i < n \<Longrightarrow> translate False (kpg k) (va + of_nat i) \<noteq> None"
proof (induction n arbitrary: va i bs)
  case (Suc n)
  then show ?case
    by (cases i) (auto simp: load8_def bind_eq_Some_conv add.assoc [symmetric])
qed simp

lemma get_user_short: "pg_inv (kpg k) \<Longrightarrow> get_user va n k = Some bs \<Longrightarrow> n < 2 ^ 31"
  using half_unmapped [of "kpg k" False va] get_user_mapped by (meson linorder_not_less order_less_le_trans)

lemma vstore8_kpg: "vstore8 va v k = Some k' \<Longrightarrow> kpg k' = kpg k"
  by (auto simp: vstore8_def phys_store_def bind_eq_Some_conv split: if_splits)

lemma put_user_mapped:
  "put_user va bs k = Some k' \<Longrightarrow> i < length bs \<Longrightarrow> translate False (kpg k) (va + of_nat i) \<noteq> None"
proof (induction bs arbitrary: va k i)
  case (Cons b bs)
  then obtain k1 where 1: "vstore8 va b k = Some k1" "put_user (va + 1) bs k1 = Some k'"
    by (auto simp: bind_eq_Some_conv)
  show ?case
  proof (cases i)
    case 0
    then show ?thesis using 1(1) by (auto simp: vstore8_def bind_eq_Some_conv)
  next
    case (Suc j)
    then have "translate False (kpg k1) (va + 1 + of_nat j) \<noteq> None"
      using Cons.IH [OF 1(2), of j] Cons.prems(2) by simp
    then show ?thesis using Suc vstore8_kpg [OF 1(1)] by (simp add: add.assoc)
  qed
qed simp

lemma put_user_short: "pg_inv (kpg k) \<Longrightarrow> put_user va bs k = Some k' \<Longrightarrow> length bs < 2 ^ 31"
  using half_unmapped [of "kpg k" False va] put_user_mapped by (meson linorder_not_less order_less_le_trans)

section \<open>The results of the reads\<close>

definition fits :: "int \<Rightarrow> bool" where
  "fits r \<longleftrightarrow> -1 \<le> r \<and> r < 2 ^ 31"

lemma sint_count: "n < 2 ^ 31 \<Longrightarrow> sint (of_nat n :: u32) = int n"
  by (subst sint_eq_unat) auto

lemma read_data_ret:
  "read_data_loop g node offset n i = (r, bs) \<Longrightarrow> r = -1 \<or> r = sint (i + of_nat (length bs))"
  by (induction g node offset n i arbitrary: r bs rule: read_data_loop.induct)
    (auto simp: Let_def add.assoc split: if_splits prod.splits)

lemma read_dir_loop_ret:
  "read_dir_loop g offset n i = (r, bs) \<Longrightarrow> r = sint (i + of_nat (length bs))"
  by (induction g offset n i arbitrary: r bs rule: read_dir_loop.induct)
    (auto simp: Let_def add.assoc split: if_splits prod.splits)

lemma fs_read_fits:
  assumes "kinv k" and "fs_read fd buf n k = Some (r, k')"
  shows "fits r"
proof -
  obtain c bs where c: "read_data (kfs k) (inode (fd_arr (cur_pcb k) ! nat fd)) (file_pos (fd_arr (cur_pcb k) ! nat fd)) n =
      (c, bs)" by fastforce
  then have "c = -1 \<or> c = sint (0 + of_nat (length bs) :: u32)"
    by (auto simp: read_data_def split: if_splits dest!: read_data_ret)
  moreover have "r = -1 \<or> r = c \<and> length bs < 2 ^ 31"
    using assms(2) put_user_short [OF kinvD(2) [OF assms(1)]]
    by (auto simp: fs_read_def c Let_def bind_eq_Some_conv split: if_splits)
  ultimately show ?thesis using sint_count [of "length bs"] by (auto simp: fits_def)
qed

lemma directory_read_fits:
  assumes "kinv k" and "directory_read fd buf n k = Some (r, k')"
  shows "fits r"
proof -
  obtain c bs where c: "read_dir_file (kfs k) (file_pos (fd_arr (cur_pcb k) ! nat fd)) n = (c, bs)" by fastforce
  then have "c = sint (0 + of_nat (length bs) :: u32)"
    by (auto simp: read_dir_file_def dest!: read_dir_loop_ret)
  moreover have "r = -1 \<or> r = c \<and> length bs < 2 ^ 31"
    using assms(2) put_user_short [OF kinvD(2) [OF assms(1)]]
    by (auto simp: directory_read_def c Let_def bind_eq_Some_conv split: if_splits)
  ultimately show ?thesis using sint_count [of "length bs"] by (auto simp: fits_def)
qed

lemma terminal_read_fits:
  assumes "kinv k" and "wait_ok wait" and "k_terminal_read wait buf n k = Some (r, k')"
  shows "fits r"
proof -
  consider "r = -1"
    | k1 i bs c where "wait (terminal_read_start k) = Some k1"
      "terminal_read_finish (get_current_terminal k) n (kcon k1) = (i, bs, c)"
      "put_user buf bs (k1\<lparr>kcon := c\<rparr>) = Some k'" "r = i"
    using assms(3)
    by (auto simp: k_terminal_read_def terminal_read_end_def Let_def bind_eq_Some_conv split: if_splits prod.splits)
  then show ?thesis
  proof cases
    case 2
    have "kinv k1" using assms(2) 2(1) kinv_terminal_read_start [OF assms(1)] unfolding wait_ok_def by metis
    then have "length bs < 2 ^ 31" using put_user_short [OF _ 2(3)] kinvD(2) by simp
    moreover have "i = int (length bs)" using 2(2) by (auto simp: terminal_read_finish_def Let_def)
    ultimately show ?thesis using 2(4) by (simp add: fits_def)
  qed (simp add: fits_def)
qed

lemma sys_read_fits:
  assumes "kinv k" and "wait_ok (in_wait inp)" and "sys_read inp fd buf n k = Some (r, k')"
  shows "fits r"
proof -
  have "fits r" if "op_read (in_wait inp) ops fd buf n k = Some (r, k')" for ops
    using that terminal_read_fits [OF assms(1,2)] fs_read_fits [OF assms(1)] directory_read_fits [OF assms(1)]
    by (cases ops) (auto simp: op_read_def bad_call_def k_rtc_read_def fits_def bind_eq_Some_conv split: if_splits)
  moreover have "fits (-1)" by (simp add: fits_def)
  ultimately show ?thesis using assms(3) by (auto simp: sys_read_def Let_def split: if_splits)
qed

lemma sys_write_fits:
  assumes "kinv k" and "sys_write inp fd buf n k = Some (r, k')"
  shows "fits r"
proof -
  have t: "fits r" if "k_terminal_write buf n k = Some (r, k')"
  proof -
    have l: "get_user va m k = Some bs \<Longrightarrow> length bs = m" for va m bs
      by (induction m arbitrary: va bs) (auto simp: bind_eq_Some_conv)
    have "r = -1 \<or> (\<exists>bs. get_user buf (unat n) k = Some bs \<and> r = int (length bs))"
      using that by (auto simp: k_terminal_write_def terminal_write_def bind_eq_Some_conv Let_def split: if_splits)
    then show ?thesis
    proof (elim disjE exE conjE)
      fix bs assume bs: "get_user buf (unat n) k = Some bs" "r = int (length bs)"
      have "length bs < 2 ^ 31" using get_user_short [OF kinvD(2) [OF assms(1)] bs(1)] l [OF bs(1)] by simp
      then show ?thesis by (simp add: fits_def bs(2))
    qed (simp add: fits_def)
  qed
  have q: "fits r" if "rtc_write prev buf k = Some (r, k')" for prev
    using that
    by (auto simp: rtc_write_def k_rtc_set_freq_def rtc_set_freq_def fits_def Let_def bind_eq_Some_conv
        split: if_splits prod.splits option.splits)
  have "fits r" if "op_write prev ops buf n k = Some (r, k')" for prev ops
    using that t q by (cases ops) (auto simp: op_write_def fs_stubs fits_def)
  moreover have "fits (-1)" by (simp add: fits_def)
  ultimately show ?thesis using assms(2) by (auto simp: sys_write_def Let_def split: if_splits)
qed

lemma small_fits:
  "sys_open inp s k = Some (r, k') \<Longrightarrow> fits r" "sys_close fd k = Some (r, k') \<Longrightarrow> fits r"
  "getargs buf m k = Some (r, k') \<Longrightarrow> fits r" "vidmap buf k = Some (r, k') \<Longrightarrow> fits r"
proof -
  have "closed_fd p is \<in> set is \<union> {MAX_NUM_FD}" for p "is" by (induction "is") auto
  from this [of "cur_pcb k" "[0..MAX_NUM_FD - 1]"] show "sys_open inp s k = Some (r, k') \<Longrightarrow> fits r"
    by (auto simp: sys_open_def fits_def MAX_NUM_FD_def Let_def bind_eq_Some_conv
        split: if_splits option.splits prod.splits)
  show "sys_close fd k = Some (r, k') \<Longrightarrow> fits r"
    by (auto simp: sys_close_def op_close_def fs_stubs rtc_close_def fits_def Let_def split: if_splits file_ops.splits)
  show "getargs buf m k = Some (r, k') \<Longrightarrow> fits r" "vidmap buf k = Some (r, k') \<Longrightarrow> fits r"
    by (auto simp: getargs_def vidmap_def fits_def Let_def bind_eq_Some_conv split: if_splits)
qed

lemma unat_less_256: "unat (b :: u8) < 256"
  using unsigned_less [of b] by simp

text \<open>
  C25: Every result that a system call returns to its program is -1 or a number from 0 to the
  greatest \<^verbatim>\<open>int32_t\<close>; and the status that a halted program passes to its parent's \<^verbatim>\<open>execute\<close> is
  one byte, so that it is neither -1 nor the 256 of an exception.
\<close>

theorem syscall_results_fit:
  assumes "kinv k" and "wait_ok (in_wait inp)" and "do_syscall inp eax ebx ecx edx k = Some (fl, k')"
  shows "case fl of Return r \<Rightarrow> r = -1 \<or> 0 \<le> r \<and> r < 2 ^ 31
    | Halt_ret esp ebp status \<Rightarrow> unat status < 256 | _ \<Rightarrow> True"
proof -
  have x: "r = -1" if e: "execute inp s k = Some (Return r, k')" for s r
    using e
  proof (cases rule: execute_cases)
    case (started p cmd program arg v e k1 k2)
    have "fst (sched esp ebp prev k) \<noteq> Return r" for esp ebp prev k by (auto simp: sched_def Let_def)
    then show ?thesis using started(10) by (metis fst_conv)
  qed simp_all
  have y: "execute inp s k \<noteq> Some (Halt_ret esp ebp status, k')" for s esp ebp status
  proof
    assume "execute inp s k = Some (Halt_ret esp ebp status, k')"
    then show False
    proof (cases rule: execute_cases)
      case (started p cmd program arg v e k1 k2)
      have "fst (sched a b c k) \<noteq> Halt_ret esp ebp status" for a b c k by (auto simp: sched_def Let_def)
      then show ?thesis using started(10) by (metis fst_conv)
    qed simp_all
  qed
  have nh: "halt inp st k \<noteq> Some (Return r, k')" for st r
    by (auto simp: halt_def halt32_def Let_def bind_eq_Some_conv split: if_splits)
  have h: "unat status < 256" if "halt inp st k = Some (Halt_ret esp ebp status, k')" for st esp ebp status
  proof -
    have "status = ucast st"
      using that by (auto simp: halt_def halt32_def Let_def bind_eq_Some_conv split: if_splits)
    then show ?thesis using unat_less_256 [of st] by (simp add: unsigned_ucast_eq take_bit_nat_eq_self)
  qed
  have m: "fits (-1)" by (simp add: fits_def)
  have "fits r" if "fl = Return r" for r
    using assms(3) that
    by (auto simp: do_syscall_def ret_def set_handler_def sigreturn_def Let_def bind_eq_Some_conv m nh
        dest: x split: if_splits intro: sys_read_fits [OF assms(1,2)] sys_write_fits [OF assms(1)] small_fits)
  moreover have "unat status < 256" if "fl = Halt_ret esp ebp status" for esp ebp status
    using assms(3) that
    by (auto simp: do_syscall_def ret_def set_handler_def sigreturn_def Let_def bind_eq_Some_conv y
        dest: h split: if_splits)
  ultimately show ?thesis by (auto simp: fits_def split: flow.splits)
qed

theorem syscall_results_fit_witness:
  "do_syscall demo_inputs 6 3 0 0 demo_run = Some (Return (-1), demo_run) \<and> (-1 :: int) < 2 ^ 31"
proof -
  have "wait_ok (in_wait demo_inputs)" by (simp add: wait_ok_def demo_inputs_def)
  note t = syscall_results_fit [OF demo_run_kinv this]
  have "\<not> fd_is_open 3 (demo_shell 0)"
    by (simp add: fd_is_open_def demo_shell_def demo_free_def init_stdio_def set_fd_open_def upd_fd_def
        demo_desc_def FDFLAG_OPEN_def STDIN_def STDOUT_def)
  then have "sys_close 3 demo_run = Some (-1, demo_run)"
    by (simp add: sys_close_def MAX_NUM_FD_def STDIN_def STDOUT_def demo_run_def)
  then have d: "do_syscall demo_inputs 6 3 0 0 demo_run = Some (Return (-1), demo_run)"
    by (simp add: do_syscall_def NUM_SYSCALLS_def ret_def)
  then show ?thesis using t [OF d] by simp
qed

end
