(* ===== verification/Entry.thy ===== *)
theory Entry
  imports Calls Idt
begin

text \<open>
  The kernel's \<^verbatim>\<open>entry\<close> (\<^verbatim>\<open>kernel.c\<close>): the report on the information the boot loader left, the file system's
  module, the descriptors of \<^verbatim>\<open>x86_desc.h\<close>, the drivers, and the start of the shells. The boot loader's structures
  are read from the memory that also holds the modules; they do not overlap what the kernel writes.
\<close>

section \<open>Descriptors\<close>

record seg_desc =
  seg_lim_15_00 :: u16
  base_15_00 :: u16
  base_23_16 :: u8
  seg_type :: "4 word"
  seg_sys :: bool
  seg_dpl :: "2 word"
  seg_present :: bool
  seg_lim_19_16 :: "4 word"
  seg_avail :: bool
  seg_reserved :: bool
  opsize :: bool
  granularity :: bool
  base_31_24 :: u8

definition KERNEL_TSS :: u16 where "KERNEL_TSS = 0x0030"
definition KERNEL_LDT :: u16 where "KERNEL_LDT = 0x0038"
definition TSS_SIZE :: u32 where "TSS_SIZE = 104"

text \<open>The sizes of \<^verbatim>\<open>x86_desc.S\<close>: the TSS has 104 bytes, the LDT four entries.\<close>

definition tss_size :: u32 where "tss_size = 104 - 1"
definition ldt_size :: u32 where "ldt_size = 4 * 8 - 1"

definition SET_LDT_PARAMS :: "u32 \<Rightarrow> u32 \<Rightarrow> seg_desc \<Rightarrow> seg_desc" where
  "SET_LDT_PARAMS addr lim str =
     str\<lparr>base_31_24 := ucast (drop_bit 24 (addr AND 0xFF000000)),
         base_23_16 := ucast (drop_bit 16 (addr AND 0x00FF0000)),
         base_15_00 := ucast (addr AND 0x0000FFFF),
         seg_lim_19_16 := ucast (drop_bit 16 (lim AND 0x000F0000)),
         seg_lim_15_00 := ucast (lim AND 0x0000FFFF)\<rparr>"

definition SET_TSS_PARAMS :: "u32 \<Rightarrow> u32 \<Rightarrow> seg_desc \<Rightarrow> seg_desc" where
  "SET_TSS_PARAMS addr lim str =
     str\<lparr>base_31_24 := ucast (drop_bit 24 (addr AND 0xFF000000)),
         base_23_16 := ucast (drop_bit 16 (addr AND 0x00FF0000)),
         base_15_00 := ucast (addr AND 0x0000FFFF),
         seg_lim_19_16 := ucast (drop_bit 16 (lim AND 0x000F0000)),
         seg_lim_15_00 := ucast (lim AND 0x0000FFFF)\<rparr>"

text \<open>The fields of the TSS, less \<^verbatim>\<open>esp0\<close>, which is the kernel's \<open>tss_esp0\<close>.\<close>

record tss_t =
  prev_task_link :: u16
  prev_task_link_pad :: u16
  ss0 :: u16
  ss0_pad :: u16
  tss_esp1 :: u32
  ss1 :: u16
  ss1_pad :: u16
  tss_esp2 :: u32
  ss2 :: u16
  ss2_pad :: u16
  tss_cr3 :: u32
  tss_eip :: u32
  tss_eflags :: u32
  tss_eax :: u32
  tss_ecx :: u32
  tss_edx :: u32
  tss_ebx :: u32
  tss_esp :: u32
  tss_ebp :: u32
  tss_esi :: u32
  tss_edi :: u32
  tss_es :: u16
  tss_es_pad :: u16
  tss_cs :: u16
  tss_cs_pad :: u16
  tss_ss :: u16
  tss_ss_pad :: u16
  tss_ds :: u16
  tss_ds_pad :: u16
  tss_fs :: u16
  tss_fs_pad :: u16
  tss_gs :: u16
  tss_gs_pad :: u16
  ldt_segment_selector :: u16
  ldt_pad :: u16
  debug_trap :: bool
  io_pad :: "15 word"
  io_base_addr :: u16

section \<open>The machine at start-up\<close>

text \<open>
  The kernel with the tables of the processor: the GDT's entries for the LDT and the TSS, the IDT, the TSS, and
  the two registers that \<^verbatim>\<open>lldt\<close> and \<^verbatim>\<open>ltr\<close> load.
\<close>

record machine =
  mkern :: kernel
  midt :: idt
  ldt_desc_ptr :: seg_desc
  tss_desc_ptr :: seg_desc
  tss :: tss_t
  ldt_reg :: u16
  task_reg :: u16

text \<open>
  What \<^verbatim>\<open>entry\<close> takes from outside: the linker's addresses of the handlers, the LDT and the TSS, the bytes the
  clock's registers B and A deliver, and the contents of uninitialised locals.
\<close>

record boot_env =
  be_inp :: inputs
  be_handlers :: "handler \<Rightarrow> u32"
  be_ldt :: u32
  be_tss :: u32
  be_reg_b :: u8
  be_reg_a :: u8
  be_ldt_junk :: seg_desc
  be_tss_junk :: seg_desc

definition fmt :: "string \<Rightarrow> u8 list" where "fmt s = asc s @ [0]"
definition fmtn :: "string \<Rightarrow> u8 list" where "fmtn s = asc s @ [10, 0]"

definition CHECK_FLAG :: "u32 \<Rightarrow> nat \<Rightarrow> bool" where
  "CHECK_FLAG flags b \<longleftrightarrow> flags AND push_bit b 1 \<noteq> 0"

definition MULTIBOOT_BOOTLOADER_MAGIC :: u32 where "MULTIBOOT_BOOTLOADER_MAGIC = 0x2BADB002"

text \<open>The offsets of the fields of \<^verbatim>\<open>multiboot_info_t\<close>.\<close>

definition mbi_flags :: u32 where "mbi_flags = 0"
definition mbi_mem_lower :: u32 where "mbi_mem_lower = 4"
definition mbi_mem_upper :: u32 where "mbi_mem_upper = 8"
definition mbi_boot_device :: u32 where "mbi_boot_device = 12"
definition mbi_cmdline :: u32 where "mbi_cmdline = 16"
definition mbi_mods_count :: u32 where "mbi_mods_count = 20"
definition mbi_mods_addr :: u32 where "mbi_mods_addr = 24"
definition mbi_elf_sec :: u32 where "mbi_elf_sec = 28"
definition mbi_mmap_length :: u32 where "mbi_mmap_length = 44"
definition mbi_mmap_addr :: u32 where "mbi_mmap_addr = 48"

lemmas mbi_offsets = mbi_flags_def mbi_mem_lower_def mbi_mem_upper_def mbi_boot_device_def mbi_cmdline_def
  mbi_mods_count_def mbi_mods_addr_def mbi_elf_sec_def mbi_mmap_length_def mbi_mmap_addr_def

section \<open>The boot loader's information\<close>

text \<open>The string at an address, with its terminator.\<close>

partial_function (option) mem_string :: "(u32 \<Rightarrow> u8) \<Rightarrow> u32 \<Rightarrow> u8 list option" where
  "mem_string m a =
     (if m a = 0 then Some [0] else Option.bind (mem_string m (a + 1)) (\<lambda>s. Some (m a # s)))"

text \<open>A byte of the module is a signed \<^verbatim>\<open>char\<close>.\<close>

definition print_byte :: "(u32 \<Rightarrow> u8) \<Rightarrow> u32 \<Rightarrow> nat \<Rightarrow> kernel \<Rightarrow> kernel option" where
  "print_byte m start i k = k_printf (\<lambda>_. []) (fmt ''0x%x '') [scast (m (start + of_nat i))] k"

text \<open>The loop over the modules; each is 16 bytes in the table. The file system is the last one's.\<close>

function load_modules :: "(u32 \<Rightarrow> u8) \<Rightarrow> u32 \<Rightarrow> u32 \<Rightarrow> u32 \<Rightarrow> kernel \<Rightarrow> kernel option" where
  "load_modules m mods_count mod_count module k =
     (if mod_count < mods_count then
        do { let mod_start = load32 m module;
             let mod_end = load32 m (module + 4);
             k \<leftarrow> k_printf (\<lambda>_. []) (fmtn ''Module %d loaded at address: 0x%#x'') [mod_count, mod_start] k;
             k \<leftarrow> k_printf (\<lambda>_. []) (fmtn ''Module %d ends at address: 0x%#x'') [mod_count, mod_end] k;
             k \<leftarrow> k_printf (\<lambda>_. []) (fmtn ''First few bytes of module:'') [] k;
             k \<leftarrow> k_printf (\<lambda>_. []) (fmtn ''Loading filesystem ... '') [] k;
             let k = k\<lparr>kfs := init_fs mod_start (kfs k)\<rparr>;
             k \<leftarrow> foldM (print_byte m mod_start) [0..<16] k;
             k \<leftarrow> k_printf (\<lambda>_. []) (fmtn '''') [] k;
             load_modules m mods_count (mod_count + 1) (module + 16) k }
      else Some k)"
  by auto
termination
proof (relation "measure (\<lambda>(m, n, i, a, k). unat (n - i))")
  fix m and n i a :: u32 and k :: kernel
  assume "i < n"
  then have "n - i \<noteq> 0" by auto
  from measure_unat [OF this] have "unat (n - (i + 1)) < unat (n - i)" by (simp add: diff_diff_eq)
  then show "((m, n, i + 1, a + 16, x), m, n, i, a, k) \<in> measure (\<lambda>(m, n, i, a, k). unat (n - i))" for x by simp
qed simp

declare load_modules.simps [simp del]

text \<open>The memory map: an entry's size does not count the size field.\<close>

partial_function (option) print_mmap :: "(u32 \<Rightarrow> u8) \<Rightarrow> u32 \<Rightarrow> u32 \<Rightarrow> kernel \<Rightarrow> kernel option" where
  "print_mmap m mmap mmap_end k =
     (if mmap < mmap_end then
        do { k \<leftarrow> k_printf (\<lambda>_. []) (asc ''    size = 0x%x, base_addr = 0x%#x%#x'' @ [10] @
                 asc ''    type = 0x%x,  length    = 0x%#x%#x'' @ [10, 0])
               [load32 m mmap, load32 m (mmap + 8), load32 m (mmap + 4), load32 m (mmap + 20),
                load32 m (mmap + 16), load32 m (mmap + 12)] k;
             print_mmap m (mmap + load32 m mmap + 4) mmap_end k }
      else Some k)"

text \<open>The report; the result tells whether \<^verbatim>\<open>entry\<close> goes on.\<close>

definition boot_info :: "(u32 \<Rightarrow> u8) \<Rightarrow> u32 \<Rightarrow> kernel \<Rightarrow> (bool \<times> kernel) option" where
  "boot_info m mbi k =
     do { let flags = load32 m (mbi + mbi_flags);
          k \<leftarrow> k_printf (\<lambda>_. []) (fmtn ''flags = 0x%#x'') [flags] k;
          k \<leftarrow> (if CHECK_FLAG flags 0
               then k_printf (\<lambda>_. []) (fmtn ''mem_lower = %uKB, mem_upper = %uKB'')
                 [load32 m (mbi + mbi_mem_lower), load32 m (mbi + mbi_mem_upper)] k
               else Some k);
          k \<leftarrow> (if CHECK_FLAG flags 1
               then k_printf (\<lambda>_. []) (fmtn ''boot_device = 0x%#x'') [load32 m (mbi + mbi_boot_device)] k
               else Some k);
          k \<leftarrow> (if CHECK_FLAG flags 2
               then do { s \<leftarrow> mem_string m (load32 m (mbi + mbi_cmdline));
                         k_printf (\<lambda>_. s) (fmtn ''cmdline = %s'') [load32 m (mbi + mbi_cmdline)] k }
               else Some k);
          k \<leftarrow> (if CHECK_FLAG flags 3
               then load_modules m (load32 m (mbi + mbi_mods_count)) 0 (load32 m (mbi + mbi_mods_addr)) k
               else Some k);
          if CHECK_FLAG flags 4 \<and> CHECK_FLAG flags 5 then
            do { k \<leftarrow> k_printf (\<lambda>_. []) (fmtn ''Both bits 4 and 5 are set.'') [] k; Some (False, k) }
          else
            do { k \<leftarrow> (if CHECK_FLAG flags 5
                      then let e = mbi + mbi_elf_sec
                        in k_printf (\<lambda>_. []) (fmtn ''elf_sec: num = %u, size = 0x%#x, addr = 0x%#x, shndx = 0x%#x'')
                             [load32 m e, load32 m (e + 4), load32 m (e + 8), load32 m (e + 12)] k
                      else Some k);
                 k \<leftarrow> (if CHECK_FLAG flags 6
                      then do { let a = load32 m (mbi + mbi_mmap_addr);
                                let l = load32 m (mbi + mbi_mmap_length);
                                k \<leftarrow> k_printf (\<lambda>_. []) (fmtn ''mmap_addr = 0x%#x, mmap_length = 0x%x'') [a, l] k;
                                print_mmap m a (a + l) k }
                      else Some k);
                 Some (True, k) } }"

text \<open>The hook for trying the clock: it increments the characters of the displayed screen.\<close>

definition test_interrupts :: "kernel \<Rightarrow> kernel" where
  "test_interrupts k = k\<lparr>kcon := term_test_int (kcon k)\<rparr>"

section \<open>entry\<close>

definition set_ldt :: "boot_env \<Rightarrow> machine \<Rightarrow> machine" where
  "set_ldt b s =
     (let the_ldt_desc = (be_ldt_junk b)\<lparr>granularity := False, opsize := True, seg_reserved := False,
            seg_avail := False, seg_present := True, seg_dpl := 0, seg_sys := False, seg_type := 0x2\<rparr>;
          the_ldt_desc = SET_LDT_PARAMS (be_ldt b) ldt_size the_ldt_desc
      in s\<lparr>ldt_desc_ptr := the_ldt_desc, ldt_reg := KERNEL_LDT\<rparr>)"

definition set_tss :: "boot_env \<Rightarrow> machine \<Rightarrow> machine" where
  "set_tss b s =
     (let the_tss_desc = (be_tss_junk b)\<lparr>granularity := False, opsize := False, seg_reserved := False,
            seg_avail := False, seg_lim_19_16 := ucast (TSS_SIZE AND 0x000F0000), seg_present := True,
            seg_dpl := 0, seg_sys := False, seg_type := 0x9, seg_lim_15_00 := ucast (TSS_SIZE AND 0x0000FFFF)\<rparr>;
          the_tss_desc = SET_TSS_PARAMS (be_tss b) tss_size the_tss_desc;
          s = s\<lparr>tss_desc_ptr := the_tss_desc,
                tss := (tss s)\<lparr>ldt_segment_selector := KERNEL_LDT, ss0 := KERNEL_DS\<rparr>,
                mkern := (mkern s)\<lparr>tss_esp0 := 0x800000\<rparr>\<rparr>
      in s\<lparr>task_reg := KERNEL_TSS\<rparr>)"

text \<open>\<^verbatim>\<open>i8259_init\<close>, \<^verbatim>\<open>keyboard_init\<close> and \<^verbatim>\<open>rtc_init\<close>.\<close>

definition init_drivers :: "boot_env \<Rightarrow> kernel \<Rightarrow> kernel" where
  "init_drivers b k =
     (let k = k\<lparr>kpic := i8259_init (kpic k)\<rparr>;
          k = k\<lparr>kpic := keyboard_init (kpic k)\<rparr>;
          (r, p) = rtc_init (be_reg_b b) (be_reg_a b) (krtc k, kpic k)
      in k\<lparr>krtc := r, kpic := p\<rparr>)"

text \<open>The flow is \<^term>\<open>None\<close> when \<^verbatim>\<open>entry\<close> returns to \<^verbatim>\<open>boot.S\<close>, which halts.\<close>

definition entry :: "boot_env \<Rightarrow> u32 \<Rightarrow> u32 \<Rightarrow> machine \<Rightarrow> (flow option \<times> machine) option" where
  "entry b magic addr s =
     do { let k = k_clear (mkern s);
          let k = k\<lparr>kcon := term_init (kcon k)\<rparr>;
          if magic \<noteq> MULTIBOOT_BOOTLOADER_MAGIC then
            do { k \<leftarrow> k_printf (\<lambda>_. []) (fmtn ''Invalid magic number: 0x%#x'') [magic] k;
                 Some (None, s\<lparr>mkern := k\<rparr>) }
          else
            do { (go_on, k) \<leftarrow> boot_info (fs_mem (kfs k)) addr k;
                 let s = s\<lparr>mkern := k\<rparr>;
                 if \<not> go_on then Some (None, s)
                 else
                   do { let s = set_tss b (set_ldt b s);
                        let s = s\<lparr>midt := init_idt (be_handlers b) (midt s)\<rparr>;
                        (fl, k) \<leftarrow> start_shells (be_inp b) (init_drivers b (mkern s));
                        Some (Some fl, s\<lparr>mkern := k\<rparr>) } } }"

end
