(* ===== verification/EntryProps.thy ===== *)
theory EntryProps
  imports Entry
begin

text \<open>
  \<^verbatim>\<open>entry\<close> reports every field without leaving the model, takes the file system from the last module, and
  ends in the first shell with the invariant of the kernel, the descriptor tables and the interrupt masks set.
\<close>

section \<open>printf with enough arguments\<close>

fun fmt_ok :: "bool \<Rightarrow> u8 list \<Rightarrow> nat \<Rightarrow> bool" where
  "fmt_ok conv [] n = False"
| "fmt_ok False (c # f) n = (c = 0 \<or> (if c = 37 then fmt_ok True f n else fmt_ok False f n))"
| "fmt_ok True (c # f) n =
     (if c = 37 then fmt_ok False f n else if c = 35 then fmt_ok True f n
      else if c \<in> {120, 117, 100, 99} then 0 < n \<and> fmt_ok False f (n - 1)
      else c \<noteq> 115 \<and> fmt_ok False f n)"

lemma puts_total: "0 \<in> set s \<Longrightarrow> \<exists>t. puts s = Some t"
  by (induction s) auto

lemma conv_u_total: "\<exists>t. conv_u v = Some t"
  using itoa_text [of 10 v 10 36] unat_less_pow10 [of v] by (auto simp: conv_u_def simp del: puts.simps intro!: puts_total)

lemma conv_d_total: "\<exists>t. conv_d v = Some t"
  using itoa_text [of 10 v 10 36] itoa_text [of 10 "- v" 10 35] unat_less_pow10 [of v] unat_less_pow10 [of "- v"]
  by (auto simp: conv_d_def simp del: puts.simps intro!: puts_total)

lemma fold_update_high:
  assumes "\<forall>i\<in>set is. i < j"
  shows "fold (\<lambda>i b. b[i := v]) is b ! j = b ! j" and "length (fold (\<lambda>i b. b[i := v]) is b) = length b"
  using assms by (induction "is" arbitrary: b) auto

lemma conv_x_total: "\<exists>t. conv_x alternate v = Some t"
proof (cases alternate)
  case False
  then show ?thesis
    using itoa_text [of 16 v 8 64] unat_lt32 [of v] by (auto simp: conv_x_def simp del: puts.simps intro!: puts_total)
next
  case True
  let ?t = "numeral_text 16 (unat v)"
  obtain rest where i: "itoa v (replicate 56 0) 16 = Some (?t @ 0 # rest)"
    using itoa_text [of 16 v 8 56] unat_lt32 [of v] by auto
  let ?d = "?t @ 0 # rest"
  define n where "n = (of_nat (length ?t) :: u32)"
  have "length ?t \<le> 8" using length_numeral_text [of 16 "unat v" 8] unat_lt32 [of v] by simp
  then have n: "strlen ?d = Some n" "unat n = length ?t"
    using numeral_text_props(2) [of 16 "unat v"] by (simp_all add: strlen_eq cstr_id n_def)
  let ?b = "fold (\<lambda>i b. b[i := 48]) [unat n..<8] (replicate 8 0 @ ?d)"
  have "?b ! (8 + length ?t) = 0" and l: "length ?b = 8 + length ?d"
    using fold_update_high [of "[unat n..<8]" "8 + length ?t" 48 "replicate 8 0 @ ?d"]
    by (simp_all add: nth_append)
  then have "drop (unat n) ?b ! (8 + length ?t - unat n) = 0" "8 + length ?t - unat n < length (drop (unat n) ?b)"
    using n(2) by (simp_all add: add.commute)
  then have "0 \<in> set (drop (unat n) ?b)" by (metis nth_mem)
  from puts_total [OF this] show ?thesis using True i n(1) by (simp add: conv_x_def Let_def)
qed

lemma printf_total:
  "fmt_ok False f (length args) \<Longrightarrow> \<exists>out. printf_fmt strs f args = Some out"
  "fmt_ok True g (length args') \<Longrightarrow> \<exists>out. printf_conv strs' b g args' = Some out"
proof (induction strs f args and strs' b g args' rule: printf_fmt_printf_conv.induct)
  case (2 strs c f args)
  then show ?case by (auto split: if_splits)
next
  case (4 strs alternate c f args)
  have "c = 37 \<or> c = 35 \<or> (c \<in> {120, 117, 100, 99} \<and> args \<noteq> []) \<or> c \<notin> {37, 35, 120, 117, 100, 99, 115}"
    using 4 by (auto split: if_splits)
  then consider "c = 37" | "c = 35" | (arg) a as where "c \<in> {120, 117, 100, 99}" "args = a # as"
    | (other) "c \<notin> {37, 35, 120, 117, 100, 99, 115}" by (cases args) auto
  then show ?case
  proof cases
    case arg
    then have f: "fmt_ok False f (length as)" using "4.prems" by auto
    obtain tx tu td where t: "conv_x alternate a = Some tx" "conv_u a = Some tu" "conv_d a = Some td"
      using conv_x_total conv_u_total conv_d_total by blast
    consider "c = 120" | "c = 117" | "c = 100" | "c = 99" using arg(1) by blast
    then have "\<exists>out. printf_fmt strs f as = Some out"
    proof cases
      case 1 then show ?thesis using "4.IH"(3) [of a as tx] f t arg(2) by simp
    next
      case 2 then show ?thesis using "4.IH"(4) [of a as tu] f t arg(2) by simp
    next
      case 3 then show ?thesis using "4.IH"(5) [of a as td] f t arg(2) by simp
    next
      case 4 then show ?thesis using "4.IH"(6) [of a as] f arg(2) by simp
    qed
    then show ?thesis using arg t by auto
  next
    assume "c = 37"
    then show ?thesis using "4.IH"(1) "4.prems" by simp
  next
    assume "c = 35"
    then show ?thesis using "4.IH"(2) "4.prems" by simp
  next
    case other
    then show ?thesis using "4.IH"(8) "4.prems" by simp
  qed
qed simp_all


section \<open>The report\<close>

text \<open>The kernel before a process runs: output goes to terminal 0, which is displayed.\<close>

definition boot_con :: "kernel \<Rightarrow> bool" where
  "boot_con k \<longleftrightarrow> current_pid k = -1 \<and> con_inv (kcon k) \<and> display_term (kcon k) = 0"

text \<open>A step of the report changes the console and leaves the file system \<open>g\<close>.\<close>

definition reported :: "fs_image \<Rightarrow> kernel \<Rightarrow> kernel \<Rightarrow> bool" where
  "reported g k k' \<longleftrightarrow> (\<exists>c. k' = k\<lparr>kcon := c, kfs := g\<rparr>) \<and> boot_con k'"

lemma reported_con: "reported g k k' \<Longrightarrow> boot_con k'"
  and reported_fs: "reported g k k' \<Longrightarrow> kfs k' = g"
  by (auto simp: reported_def)

lemma reported_trans: "reported g k k1 \<Longrightarrow> reported h k1 k2 \<Longrightarrow> reported h k k2"
  by (auto simp: reported_def)

lemma reported_refl: "boot_con k \<Longrightarrow> reported (kfs k) k k"
  by (auto simp: reported_def intro: exI [of _ "kcon k"])

lemma fold_putc_reported: "boot_con k \<Longrightarrow> reported (kfs k) k (fold k_putc out k)"
proof (induction out arbitrary: k)
  case (Cons c out)
  have "boot_con (k_putc c k)"
    using Cons.prems by (simp add: boot_con_def k_putc_def get_current_terminal_def con_inv_putc term_putc_keeps)
  then have "reported (kfs k) k (k_putc c k)"
    unfolding reported_def k_putc_def by (intro conjI exI [of _ "term_putc c (get_current_terminal k) (kcon k)"]) simp_all
  moreover have "kfs (k_putc c k) = kfs k" by (simp add: k_putc_def)
  ultimately show ?case
    using Cons.IH [OF \<open>boot_con (k_putc c k)\<close>] reported_trans by simp
qed (simp add: reported_refl)

lemma printf_reports:
  assumes "boot_con k" and "fmt_ok False f (length args)"
  shows "\<exists>k'. k_printf strs f args k = Some k' \<and> reported (kfs k) k k'"
  using printf_total(1) [OF assms(2), of strs] fold_putc_reported [OF assms(1)] by (auto simp: k_printf_def)

lemma printf_stepE:
  assumes "reported g k k1" and "fmt_ok False f (length args)"
  obtains k2 where "k_printf strs f args k1 = Some k2" and "reported g k k2"
proof -
  obtain k2 where "k_printf strs f args k1 = Some k2" "reported g k1 k2"
    using printf_reports [OF reported_con [OF assms(1)] assms(2), of strs] reported_fs [OF assms(1)] by auto
  then show ?thesis using that reported_trans [OF assms(1)] by blast
qed

lemma printf_step:
  assumes "reported g k k1" and "fmt_ok False f n" and "length args = n"
  shows "\<exists>k2. k_printf strs f args k1 = Some k2 \<and> reported g k k2"
  using printf_stepE [OF assms(1), of f args strs] assms(2,3) by blast

lemma print_if:
  assumes "reported g k k1" and "b \<Longrightarrow> \<exists>k2. r = Some k2 \<and> reported g' k k2" and "\<not> b \<Longrightarrow> g' = g"
  shows "\<exists>k2. (if b then r else Some k1) = Some k2 \<and> reported g' k k2"
  using assms by (cases b) auto

lemma print_bytes:
  assumes "reported g k k1"
  obtains k2 where "foldM (print_byte m a) is k1 = Some k2" and "reported g k k2"
  using assms
proof (induction "is" arbitrary: k1 thesis)
  case (Cons i "is")
  obtain k2 where 2: "print_byte m a i k1 = Some k2" "reported g k k2"
    unfolding print_byte_def by (rule printf_stepE [OF Cons.prems(2)]) (auto simp: fmt_def)
  obtain k3 where "foldM (print_byte m a) is k2 = Some k3" "reported g k k3" by (rule Cons.IH [OF _ 2(2)])
  then show ?case using 2(1) by (intro Cons.prems(1)) simp_all
qed simp

text \<open>The file system is in the last module.\<close>

definition last_module :: "(u32 \<Rightarrow> u8) \<Rightarrow> u32 \<Rightarrow> u32 \<Rightarrow> u32 \<Rightarrow> fs_image \<Rightarrow> fs_image" where
  "last_module m n i a g = (if i < n then init_fs (load32 m (a + 16 * (n - i - 1))) g else g)"

lemma last_module_step:
  assumes "i < n"
  shows "last_module m n (i + 1) (a + 16) (init_fs (load32 m a) g) = last_module m n i a g"
proof (cases "i + 1 < n")
  case True
  have "a + 16 + 16 * (n - (i + 1) - 1) = a + 16 * (n - i - 1)" by (simp add: algebra_simps)
  then show ?thesis unfolding last_module_def \<open>a + 16 + 16 * (n - (i + 1) - 1) = a + 16 * (n - i - 1)\<close>
    using True assms by (simp add: init_fs_def)
next
  case False
  then have "n = i + 1" using inc_le [OF assms] by simp
  then show ?thesis using False assms by (simp add: last_module_def)
qed

lemma load_modules_reports:
  assumes "reported g k k1"
  shows "\<exists>k2. load_modules m n i a k1 = Some k2 \<and> reported (last_module m n i a g) k k2"
  using assms
proof (induction m n i a k1 arbitrary: g rule: load_modules.induct)
  case (1 m n i a k1)
  show ?case
  proof (cases "i < n")
    case False
    then show ?thesis using 1(2) by (subst load_modules.simps) (simp add: last_module_def)
  next
    case True
    let ?s = "load32 m a"
    obtain k2 where 2: "k_printf (\<lambda>_. []) (fmtn ''Module %d loaded at address: 0x%#x'') [i, ?s] k1 = Some k2" "reported g k k2"
      by (rule printf_stepE [OF 1(2)]) (auto simp: fmtn_def)
    obtain k3 where 3: "k_printf (\<lambda>_. []) (fmtn ''Module %d ends at address: 0x%#x'') [i, load32 m (a + 4)] k2 = Some k3" "reported g k k3"
      by (rule printf_stepE [OF 2(2)]) (auto simp: fmtn_def)
    obtain k4 where 4: "k_printf (\<lambda>_. []) (fmtn ''First few bytes of module:'') [] k3 = Some k4" "reported g k k4"
      by (rule printf_stepE [OF 3(2)]) (auto simp: fmtn_def)
    obtain k5 where 5: "k_printf (\<lambda>_. []) (fmtn ''Loading filesystem ... '') [] k4 = Some k5" "reported g k k5"
      by (rule printf_stepE [OF 4(2)]) (auto simp: fmtn_def)
    have r5: "reported (init_fs ?s g) k (k5\<lparr>kfs := init_fs ?s (kfs k5)\<rparr>)"
      using 5(2) by (auto simp: reported_def boot_con_def)
    obtain k6 where 6: "foldM (print_byte m ?s) [0..<16] (k5\<lparr>kfs := init_fs ?s (kfs k5)\<rparr>) = Some k6"
      "reported (init_fs ?s g) k k6"
      by (rule print_bytes [OF r5])
    obtain k7 where 7: "k_printf (\<lambda>_. []) (fmtn '''') [] k6 = Some k7" "reported (init_fs ?s g) k k7"
      by (rule printf_stepE [OF 6(2)]) (auto simp: fmtn_def)
    have l: "load_modules m n i a k1 = load_modules m n (i + 1) (a + 16) k7"
      by (subst load_modules.simps) (simp only: True if_True Let_def 2(1) 3(1) 4(1) 5(1) 6(1) 7(1) bind.bind_lunit)
    show ?thesis
      unfolding l last_module_step [OF True, symmetric]
      by (rule "1.IH" [OF True refl refl 2(1) 3(1) 4(1) 5(1) refl 6(1) 7(1) 7(2)])
  qed
qed


text \<open>The entries of the memory map lead past its end.\<close>

inductive mmap_ends :: "(u32 \<Rightarrow> u8) \<Rightarrow> u32 \<Rightarrow> u32 \<Rightarrow> bool" for m e where
  past: "\<not> a < e \<Longrightarrow> mmap_ends m e a"
| entry: "a < e \<Longrightarrow> mmap_ends m e (a + load32 m a + 4) \<Longrightarrow> mmap_ends m e a"

lemma mmap_ends_bounded:
  assumes "\<And>a. a < e \<Longrightarrow> unat a + unat (load32 m a) + 4 < 2 ^ 32"
  shows "mmap_ends m e a"
proof (induction "2 ^ 32 - unat a" arbitrary: a rule: less_induct)
  case less
  show ?case
  proof (cases "a < e")
    case True
    then have "unat (a + load32 m a + 4) = unat a + unat (load32 m a) + 4"
      using assms [OF True] by (simp add: unat_word_ariths)
    then show ?thesis
      using less [of "a + load32 m a + 4"] assms [OF True] by (intro mmap_ends.entry [OF True]) simp
  qed (rule mmap_ends.past)
qed

lemma mmap_format: "fmt_ok False (asc ''    size = 0x%x, base_addr = 0x%#x%#x'' @ [10] @
    asc ''    type = 0x%x,  length    = 0x%#x%#x'' @ [10, 0]) 6"
  by simp

lemma info_formats:
  "fmt_ok False (fmtn ''flags = 0x%#x'') 1"
  "fmt_ok False (fmtn ''mem_lower = %uKB, mem_upper = %uKB'') 2"
  "fmt_ok False (fmtn ''boot_device = 0x%#x'') 1"
  "fmt_ok False (fmtn ''Both bits 4 and 5 are set.'') 0"
  "fmt_ok False (fmtn ''elf_sec: num = %u, size = 0x%#x, addr = 0x%#x, shndx = 0x%#x'') 4"
  "fmt_ok False (fmtn ''mmap_addr = 0x%#x, mmap_length = 0x%x'') 2"
  "fmt_ok False (fmtn ''Invalid magic number: 0x%#x'') 1"
  by (simp_all add: fmtn_def)

lemma print_mmap_reports:
  assumes "mmap_ends m e a" and "reported g k k1"
  shows "\<exists>k2. print_mmap m a e k1 = Some k2 \<and> reported g k k2"
  using assms
proof (induction arbitrary: k1 rule: mmap_ends.induct)
  case (past a)
  then show ?case by (subst print_mmap.simps) simp
next
  case (entry a)
  let ?l = "[load32 m a, load32 m (a + 8), load32 m (a + 4), load32 m (a + 20), load32 m (a + 16), load32 m (a + 12)]"
  obtain k2 where 2: "k_printf (\<lambda>_. []) (asc ''    size = 0x%x, base_addr = 0x%#x%#x'' @ [10] @
      asc ''    type = 0x%x,  length    = 0x%#x%#x'' @ [10, 0]) ?l k1 = Some k2" "reported g k k2"
    using printf_step [OF entry.prems mmap_format, of ?l] by auto
  have "print_mmap m a e k1 = print_mmap m (a + load32 m a + 4) e k2"
    by (subst print_mmap.simps) (simp only: entry.hyps(1) if_True 2(1) bind.bind_lunit)
  then show ?case using entry.IH [OF 2(2)] by simp
qed

lemma mem_string_terminated: "mem_string m a = Some s \<Longrightarrow> 0 \<in> set s"
proof (rule mem_string.raw_induct [where P = "\<lambda>m a s. 0 \<in> set s"])
  fix f m a s
  assume "\<And>m a y. f m a = Some y \<Longrightarrow> 0 \<in> set y"
    and "(if m a = 0 then Some [0] else Option.bind (f m (a + 1)) (\<lambda>s. Some (m a # s))) = Some s"
  then show "0 \<in> set s" by (auto split: if_splits bind_splits)
qed

lemma cmdline_reports:
  assumes "reported g k k1" and "0 \<in> set s"
  obtains k2 where "k_printf (\<lambda>_. s) (fmtn ''cmdline = %s'') [a] k1 = Some k2" and "reported g k k2"
proof -
  obtain t where "puts s = Some t" using puts_total [OF assms(2)] by blast
  then obtain out where "printf_fmt (\<lambda>_. s) (fmtn ''cmdline = %s'') [a] = Some out" by (simp add: fmtn_def)
  then have "k_printf (\<lambda>_. s) (fmtn ''cmdline = %s'') [a] k1 = Some (fold k_putc out k1)"
    by (simp add: k_printf_def)
  moreover have "reported g k (fold k_putc out k1)"
    using fold_putc_reported [OF reported_con [OF assms(1)], of out] assms(1) reported_fs [OF assms(1)] reported_trans by metis
  ultimately show ?thesis by (rule that)
qed

text \<open>What the report needs of the boot loader's information, its verdict and the file system it leaves.\<close>

definition info_ok :: "(u32 \<Rightarrow> u8) \<Rightarrow> u32 \<Rightarrow> bool" where
  "info_ok m mbi \<longleftrightarrow>
     (let flags = load32 m (mbi + mbi_flags); a = load32 m (mbi + mbi_mmap_addr) in
      (CHECK_FLAG flags 2 \<longrightarrow> mem_string m (load32 m (mbi + mbi_cmdline)) \<noteq> None) \<and>
      (CHECK_FLAG flags 6 \<longrightarrow> mmap_ends m (a + load32 m (mbi + mbi_mmap_length)) a))"

definition both_tables :: "(u32 \<Rightarrow> u8) \<Rightarrow> u32 \<Rightarrow> bool" where
  "both_tables m mbi \<longleftrightarrow> CHECK_FLAG (load32 m (mbi + mbi_flags)) 4 \<and> CHECK_FLAG (load32 m (mbi + mbi_flags)) 5"

definition boot_fs :: "(u32 \<Rightarrow> u8) \<Rightarrow> u32 \<Rightarrow> fs_image \<Rightarrow> fs_image" where
  "boot_fs m mbi g =
     (if CHECK_FLAG (load32 m (mbi + mbi_flags)) 3
      then last_module m (load32 m (mbi + mbi_mods_count)) 0 (load32 m (mbi + mbi_mods_addr)) g else g)"

lemma boot_info_reports:
  assumes k: "boot_con k" and i: "info_ok m mbi"
  shows "\<exists>k'. boot_info m mbi k = Some (\<not> both_tables m mbi, k') \<and> reported (boot_fs m mbi (kfs k)) k k'"
proof -
  let ?ld = "\<lambda>x. load32 m (mbi + x)" and ?g = "kfs k" and ?pr = "k_printf (\<lambda>_. [])"
  define flags where "flags = ?ld mbi_flags"
  define h where "h = boot_fs m mbi ?g"
  obtain k1 where 1: "?pr (fmtn ''flags = 0x%#x'') [flags] k = Some k1" "reported ?g k k1"
    using printf_step [OF reported_refl [OF k] info_formats(1), of "[flags]"] by auto
  obtain k2 where 2: "(if CHECK_FLAG flags 0 then ?pr (fmtn ''mem_lower = %uKB, mem_upper = %uKB'')
      [?ld mbi_mem_lower, ?ld mbi_mem_upper] k1 else Some k1) = Some k2" "reported ?g k k2"
    using print_if [OF 1(2) printf_step [OF 1(2) info_formats(2), of "[?ld mbi_mem_lower, ?ld mbi_mem_upper]"]] by auto
  obtain k3 where 3: "(if CHECK_FLAG flags 1 then ?pr (fmtn ''boot_device = 0x%#x'') [?ld mbi_boot_device] k2
      else Some k2) = Some k3" "reported ?g k k3"
    using print_if [OF 2(2) printf_step [OF 2(2) info_formats(3), of "[?ld mbi_boot_device]"]] by auto
  have "\<exists>k4. (if CHECK_FLAG flags 2 then do { s \<leftarrow> mem_string m (?ld mbi_cmdline);
      k_printf (\<lambda>_. s) (fmtn ''cmdline = %s'') [?ld mbi_cmdline] k3 } else Some k3) = Some k4 \<and> reported ?g k k4"
  proof (rule print_if [OF 3(2)])
    assume "CHECK_FLAG flags 2"
    then obtain s where s: "mem_string m (?ld mbi_cmdline) = Some s" using i by (auto simp: info_ok_def flags_def Let_def)
    obtain k' where "k_printf (\<lambda>_. s) (fmtn ''cmdline = %s'') [?ld mbi_cmdline] k3 = Some k'" "reported ?g k k'"
      by (rule cmdline_reports [OF 3(2) mem_string_terminated [OF s]])
    then show "\<exists>k4. do { s \<leftarrow> mem_string m (?ld mbi_cmdline);
        k_printf (\<lambda>_. s) (fmtn ''cmdline = %s'') [?ld mbi_cmdline] k3 } = Some k4 \<and> reported ?g k k4"
      unfolding s bind.bind_lunit by blast
  qed simp
  then obtain k4 where 4: "(if CHECK_FLAG flags 2 then do { s \<leftarrow> mem_string m (?ld mbi_cmdline);
      k_printf (\<lambda>_. s) (fmtn ''cmdline = %s'') [?ld mbi_cmdline] k3 } else Some k3) = Some k4" "reported ?g k k4"
    by blast
  have "\<exists>k5. (if CHECK_FLAG flags 3 then load_modules m (?ld mbi_mods_count) 0 (?ld mbi_mods_addr) k4 else Some k4) = Some k5 \<and>
      reported h k k5"
    by (rule print_if [OF 4(2)]) (simp_all add: h_def boot_fs_def flags_def load_modules_reports [OF 4(2)])
  then obtain k5 where 5: "(if CHECK_FLAG flags 3 then load_modules m (?ld mbi_mods_count) 0 (?ld mbi_mods_addr) k4 else Some k4) = Some k5"
    "reported h k k5" by blast
  note r = 1(1) 2(1) 3(1) 4(1) 5(1)
  show ?thesis
  proof (cases "both_tables m mbi")
    case True
    then have t: "CHECK_FLAG flags 4 \<and> CHECK_FLAG flags 5" by (simp add: both_tables_def flags_def)
    obtain k6 where 6: "?pr (fmtn ''Both bits 4 and 5 are set.'') [] k5 = Some k6" "reported h k k6"
      using printf_step [OF 5(2) info_formats(4), of "[]"] by auto
    have "boot_info m mbi k = Some (False, k6)"
      unfolding boot_info_def Let_def flags_def [symmetric] r(1-5) bind.bind_lunit
      by (simp only: t if_True 6(1) bind.bind_lunit simp_thms)
    then show ?thesis using 6(2) True by (simp add: h_def)
  next
    case False
    then have t: "\<not> (CHECK_FLAG flags 4 \<and> CHECK_FLAG flags 5)" by (simp add: both_tables_def flags_def)
    let ?e = "mbi + mbi_elf_sec"
    obtain k6 where 6: "(if CHECK_FLAG flags 5 then ?pr (fmtn ''elf_sec: num = %u, size = 0x%#x, addr = 0x%#x, shndx = 0x%#x'')
        [load32 m ?e, load32 m (?e + 4), load32 m (?e + 8), load32 m (?e + 12)] k5 else Some k5) = Some k6" "reported h k k6"
      using print_if [OF 5(2) printf_step [OF 5(2) info_formats(5),
          of "[load32 m ?e, load32 m (?e + 4), load32 m (?e + 8), load32 m (?e + 12)]"]] by auto
    let ?a = "?ld mbi_mmap_addr" and ?l = "?ld mbi_mmap_length"
    have "\<exists>k7. (if CHECK_FLAG flags 6 then do { k \<leftarrow> ?pr (fmtn ''mmap_addr = 0x%#x, mmap_length = 0x%x'') [?a, ?l] k6;
        print_mmap m ?a (?a + ?l) k } else Some k6) = Some k7 \<and> reported h k k7"
    proof (rule print_if [OF 6(2)])
      assume "CHECK_FLAG flags 6"
      then have e: "mmap_ends m (?a + ?l) ?a" using i by (auto simp: info_ok_def flags_def Let_def)
      obtain k' where k': "?pr (fmtn ''mmap_addr = 0x%#x, mmap_length = 0x%x'') [?a, ?l] k6 = Some k'" "reported h k k'"
        using printf_step [OF 6(2) info_formats(6), of "[?a, ?l]"] by auto
      show "\<exists>k7. do { k \<leftarrow> ?pr (fmtn ''mmap_addr = 0x%#x, mmap_length = 0x%x'') [?a, ?l] k6;
          print_mmap m ?a (?a + ?l) k } = Some k7 \<and> reported h k k7"
        using print_mmap_reports [OF e k'(2)] by (simp only: k'(1) bind.bind_lunit)
    qed simp
    then obtain k7 where 7: "(if CHECK_FLAG flags 6 then do { k \<leftarrow> ?pr (fmtn ''mmap_addr = 0x%#x, mmap_length = 0x%x'') [?a, ?l] k6;
        print_mmap m ?a (?a + ?l) k } else Some k6) = Some k7" "reported h k k7" by blast
    have "boot_info m mbi k = Some (True, k7)"
      unfolding boot_info_def Let_def flags_def [symmetric] r(1-5) bind.bind_lunit
      by (simp only: t if_False 6(1) 7(1) bind.bind_lunit)
    then show ?thesis using 7(2) False by (simp add: h_def)
  qed
qed

section \<open>The descriptors\<close>

text \<open>The base and limit a segment descriptor names.\<close>

definition seg_base :: "seg_desc \<Rightarrow> u32" where
  "seg_base d = push_bit 24 (ucast (base_31_24 d)) OR push_bit 16 (ucast (base_23_16 d)) OR ucast (base_15_00 d)"

definition seg_limit :: "seg_desc \<Rightarrow> u32" where
  "seg_limit d = push_bit 16 (ucast (seg_lim_19_16 d)) OR ucast (seg_lim_15_00 d)"

lemma bit_masks32:
  "bit (0xFF000000 :: u32) n \<longleftrightarrow> 24 \<le> n \<and> n < 32" "bit (0x00FF0000 :: u32) n \<longleftrightarrow> 16 \<le> n \<and> n < 24"
  "bit (0x000F0000 :: u32) n \<longleftrightarrow> 16 \<le> n \<and> n < 20"
proof -
  have "(0xFF000000 :: u32) = push_bit 24 (mask 8)" "(0x00FF0000 :: u32) = push_bit 16 (mask 8)"
    "(0x000F0000 :: u32) = push_bit 16 (mask 4)"
    by (simp_all add: push_bit_eq_mult mask_eq_exp_minus_1)
  then show "bit (0xFF000000 :: u32) n \<longleftrightarrow> 24 \<le> n \<and> n < 32" "bit (0x00FF0000 :: u32) n \<longleftrightarrow> 16 \<le> n \<and> n < 24"
    "bit (0x000F0000 :: u32) n \<longleftrightarrow> 16 \<le> n \<and> n < 20"
    by (simp_all only: bit_push_bit_iff bit_mask_iff) auto
qed

lemma seg_parts:
  "(ucast (drop_bit 24 (a AND 0xFF000000)) :: u8) = ucast (drop_bit 24 a)"
  "(ucast (drop_bit 16 (a AND 0x00FF0000)) :: u8) = ucast (drop_bit 16 a)"
  "(ucast (a AND 0x0000FFFF) :: u16) = ucast (a :: u32)"
  "(ucast (drop_bit 16 (a AND 0x000F0000)) :: 4 word) = ucast (drop_bit 16 a)"
  by (rule bit_word_eqI; simp only: bit_ucast_iff bit_drop_bit_eq bit_and_iff bit_masks32 bit_FFFF o_apply; auto)+

lemma seg_base_set: "seg_base (SET_TSS_PARAMS a l d) = a" "seg_base (SET_LDT_PARAMS a l d) = a"
proof -
  have "push_bit 24 (ucast (ucast (drop_bit 24 a) :: u8)) OR push_bit 16 (ucast (ucast (drop_bit 16 a) :: u8)) OR
      ucast (ucast a :: u16) = a" (is "?l = _")
  proof (rule bit_word_eqI)
    fix n assume "n < LENGTH(32)"
    then show "bit ?l n \<longleftrightarrow> bit a n"
      by (cases "n < 16"; cases "n < 24") (auto simp: bit_simps not_less)
  qed
  then show "seg_base (SET_TSS_PARAMS a l d) = a" "seg_base (SET_LDT_PARAMS a l d) = a"
    unfolding seg_base_def SET_TSS_PARAMS_def SET_LDT_PARAMS_def seg_parts by simp_all
qed

lemma seg_limit_set:
  assumes "unat l < 2 ^ 20"
  shows "seg_limit (SET_TSS_PARAMS a l d) = l" "seg_limit (SET_LDT_PARAMS a l d) = l"
proof -
  have "take_bit 20 l = l" using assms by (simp add: take_bit_eq_mod word_unat_eq_iff unat_mod)
  then have l: "bit l n \<Longrightarrow> n < 20" for n by (metis bit_take_bit_iff)
  have "push_bit 16 (ucast (ucast (drop_bit 16 l) :: 4 word)) OR ucast (ucast l :: u16) = l" (is "?l = _")
  proof (rule bit_word_eqI)
    fix n assume "n < LENGTH(32)"
    then show "bit ?l n \<longleftrightarrow> bit l n"
      using l [of n] by (cases "n < 16"; cases "n < 20") (auto simp: bit_simps not_less)
  qed
  then show "seg_limit (SET_TSS_PARAMS a l d) = l" "seg_limit (SET_LDT_PARAMS a l d) = l"
    unfolding seg_limit_def SET_TSS_PARAMS_def SET_LDT_PARAMS_def seg_parts by simp_all
qed

section \<open>The interrupt lines\<close>

lemma init_shells_pic: "init_shells dj ej k = Some k' \<Longrightarrow> kpic k' = kpic k"
proof -
  have e: "kpic k' = kpic k" if x: "execute_sh n dj ej k = Some k'" for n k k'
  proof -
    obtain e k1 where 1: "k_program_load shell_name dj ej (sh_prepare n k) = Some (e, k1)"
      and k': "k' = upd_pcb n (\<lambda>p. p\<lparr>pentry := e, stack_ptr := get_kernel_stack (current_pid k1)\<rparr>) k1"
      using x by (auto simp: execute_sh_def bind_eq_Some_conv)
    have "kpic k1 = kpic (sh_prepare n k)" by (rule mem_only_eqs [OF k_program_load_mem_only [OF 1]])
    then show ?thesis by (simp add: k' upd_pcb_def sh_prepare_def sched_queue_process_def set_queue_def Let_def)
  qed
  have "foldM (\<lambda>i. execute_sh i dj ej) is k = Some k' \<Longrightarrow> kpic k' = kpic k" for "is" k
    by (induction "is" arbitrary: k) (auto split: option.splits dest: e)
  then show "init_shells dj ej k = Some k' \<Longrightarrow> kpic k' = kpic k" by (simp add: init_shells_def)
qed

lemma start_shells_pic:
  assumes "start_shells inp k = Some (fl, k')"
  shows "pit_init 50 (kpic k) = Some (kpic k')"
proof -
  have s: "kpic (snd (sched esp ebp prev k)) = kpic k" for esp ebp prev k
    by (simp add: sched_def Let_def)
  have f: "kpic (fold k_putc out k) = kpic k" for out k
    by (induction out arbitrary: k) (simp_all add: k_putc_def)
  let ?k0 = "k\<lparr>kpg := init_pages (kpg k), kcon := cli (kcon k)\<rparr>"
  obtain k1 p k2 where 1: "init_shells (in_dentry inp) (in_entry inp) ?k0 = Some k1"
    and p: "pit_init 50 (kpic k1) = Some p"
    and 2: "k_printf (\<lambda>_. []) (asc ''Enabling Interrupts'' @ [10, 0]) [] (k1\<lparr>kpic := p\<rparr>) = Some k2"
    and 3: "(fl, k') = sched (in_esp inp) (in_ebp inp) (in_prev inp) (k2\<lparr>kcon := sti (kcon k2)\<rparr>)"
    using assms by (auto simp: start_shells_def Let_def bind_eq_Some_conv)
  obtain out where "k2 = fold k_putc out (k1\<lparr>kpic := p\<rparr>)" using 2 unfolding k_printf_def by blast
  then have "kpic k2 = p" by (simp add: f)
  then have "kpic k' = p" using s [of "in_esp inp" "in_ebp inp" "in_prev inp"] 3 by (metis kernel.select_convs(4) snd_conv kernel.surjective kernel.update_convs(2))
  then show ?thesis using p init_shells_pic [OF 1] by simp
qed


section \<open>entry\<close>

text \<open>The state in which the boot loader enters the kernel: zeroed data, no process.\<close>

definition power_on :: "kernel \<Rightarrow> bool" where
  "power_on k \<longleftrightarrow> kbd_inv (kkbd k) \<and> (\<forall>i<3. length (kb_buf (terminals (kcon k) i)) = 128) \<and>
     (\<exists>d p v. kpg k = paging_boot d p v \<and> drop_bit 12 p \<noteq> drop_bit 12 v) \<and> current_pid k = -1 \<and>
     (\<forall>p\<in>pids. process_queue k p = NOT_LOADED \<and> fds_ok False (pcbs k p))"

lemma fold_store8_terminals:
  "terminals (fold (\<lambda>i s. store8 (f i) (g i) (store8 (h i) (x i) s)) is s) = terminals s"
  by (induction "is" arbitrary: s) (simp_all add: store8_def)

lemma term_clear_buf: "kb_buf (terminals (term_clear t s) i) = kb_buf (terminals s i)"
  by (simp add: term_clear_def reset_cursor_def upd_term_def Let_def fold_store8_terminals)

lemma cleared_con:
  assumes "power_on k"
  obtains c where "(let k = k_clear k in k\<lparr>kcon := term_init (kcon k)\<rparr>) = k\<lparr>kcon := c\<rparr>"
    and "boot_con (k\<lparr>kcon := c\<rparr>)"
proof -
  let ?c = "term_init (term_clear (get_current_terminal k) (kcon k))"
  have "\<And>i. i < 3 \<Longrightarrow> length (kb_buf (terminals (term_clear (get_current_terminal k) (kcon k)) i)) = 128"
    using assms by (simp add: term_clear_buf power_on_def)
  note c = term_init_con_inv(1,2) [OF this]
  show ?thesis
    by (rule that [of ?c]) (use c assms in \<open>simp_all add: k_clear_def boot_con_def power_on_def\<close>)
qed

text \<open>Wrong magic number, or both symbol tables: \<^verbatim>\<open>entry\<close> returns, with only its report on the screen.\<close>

lemma drivers_lines:
  assumes "pit_init 50 (kpic (init_drivers b k)) = Some p" and "n < 16"
  shows "irq_enabled p n \<longleftrightarrow> n \<in> {0, 1, 2, 8}"
proof -
  have i: "irq_enabled (enable_irq PIT_IRQ s) n \<longleftrightarrow> n = 0 \<or> irq_enabled s n"
    "irq_enabled (enable_irq KB_IRQ s) n \<longleftrightarrow> n = 1 \<or> irq_enabled s n"
    "irq_enabled (enable_irq SLAVE_IRQ s) n \<longleftrightarrow> n = 2 \<or> irq_enabled s n"
    "irq_enabled (enable_irq RTC_IRQ s) n \<longleftrightarrow> n = 8 \<or> irq_enabled s n" for s
    using assms(2) irq_enabled_enable [of 0 n s] irq_enabled_enable [of 1 n s] irq_enabled_enable [of 2 n s]
      irq_enabled_enable [of 8 n s]
    by (simp_all add: KB_IRQ_def RTC_IRQ_def SLAVE_IRQ_def PIT_IRQ_def)
  have p: "irq_enabled (pic_outb d a s) n \<longleftrightarrow> irq_enabled s n" for d a s
    by (simp add: irq_enabled_def pic_outb_def)
  obtain d1 a1 d2 a2 d3 a3 where
    "p = enable_irq PIT_IRQ (pic_outb d1 a1 (pic_outb d2 a2 (pic_outb d3 a3 (kpic (init_drivers b k)))))"
    using assms(1) by (auto simp: pit_init_def Let_def)
  moreover have "kpic (init_drivers b k) = enable_irq SLAVE_IRQ (enable_irq RTC_IRQ (enable_irq KB_IRQ (i8259_init (kpic k))))"
    by (simp add: init_drivers_def rtc_init_def keyboard_init_def Let_def)
  ultimately have "irq_enabled p n \<longleftrightarrow> n = 0 \<or> n = 2 \<or> n = 8 \<or> n = 1"
    using irq_enabled_init [OF assms(2), of "kpic k"] by (simp only: i p simp_thms)
  then show ?thesis by auto
qed

lemma tables:
  "mkern (set_tss b (set_ldt b s)) = (mkern s)\<lparr>tss_esp0 := 0x800000\<rparr>" "midt (set_tss b (set_ldt b s)) = midt s"
  "(set_tss b (set_ldt b (s\<lparr>mkern := k\<rparr>)))\<lparr>midt := i, mkern := k'\<rparr> = (set_tss b (set_ldt b s))\<lparr>mkern := k', midt := i\<rparr>"
  by (simp_all add: set_tss_def set_ldt_def Let_def)

lemma entry_starts:
  assumes k: "power_on (mkern s)" and m: "magic = MULTIBOOT_BOOTLOADER_MAGIC"
    and i: "info_ok (fs_mem (kfs (mkern s))) addr" "\<not> both_tables (fs_mem (kfs (mkern s))) addr"
    and d: "has_shell ((mkern s)\<lparr>kfs := boot_fs (fs_mem (kfs (mkern s))) addr (kfs (mkern s))\<rparr>) (in_dentry (be_inp b)) d"
  shows "\<exists>k'. entry b magic addr s = Some (Some (Enter_user (shell_entry
      ((mkern s)\<lparr>kfs := boot_fs (fs_mem (kfs (mkern s))) addr (kfs (mkern s))\<rparr>) d (in_entry (be_inp b)))),
      (set_tss b (set_ldt b s))\<lparr>mkern := k', midt := init_idt (be_handlers b) (midt s)\<rparr>) \<and>
    kinv k' \<and> current_pid k' = 0 \<and> (\<forall>n<16. irq_enabled (kpic k') n \<longleftrightarrow> n \<in> {0, 1, 2, 8})"
proof -
  let ?k = "mkern s"
  let ?g = "kfs ?k"
  obtain c where c: "(let k = k_clear ?k in k\<lparr>kcon := term_init (kcon k)\<rparr>) = ?k\<lparr>kcon := c\<rparr>" "boot_con (?k\<lparr>kcon := c\<rparr>)"
    by (rule cleared_con [OF k])
  let ?k1 = "?k\<lparr>kcon := c\<rparr>"
  obtain k2 where 2: "boot_info (fs_mem ?g) addr ?k1 = Some (True, k2)" "reported (boot_fs (fs_mem ?g) addr ?g) ?k1 k2"
    using boot_info_reports [OF c(2) i(1)] i(2) by auto
  obtain c2 where k2: "k2 = ?k\<lparr>kcon := c2, kfs := boot_fs (fs_mem ?g) addr ?g\<rparr>" "boot_con k2"
    using 2(2) by (auto simp: reported_def)
  define k3 where "k3 = init_drivers b (k2\<lparr>tss_esp0 := 0x800000\<rparr>)"
  obtain r p where k3: "k3 = k2\<lparr>tss_esp0 := 0x800000, krtc := r, kpic := p\<rparr>"
    unfolding k3_def init_drivers_def Let_def case_prod_beta by simp
  have "boot_state k3"
    using k k2(2) unfolding k3 k2(1) by (simp add: boot_state_def power_on_def boot_con_def)
  moreover have "has_shell k3 (in_dentry (be_inp b)) d" using d unfolding k3 k2(1) by (simp add: has_shell_def)
  ultimately obtain k4 where 4: "start_shells (be_inp b) k3 = Some (Enter_user (shell_entry k3 d (in_entry (be_inp b))), k4)"
    "kinv k4" "current_pid k4 = 0"
    using start_shells_total by blast
  have e: "shell_entry k3 d (in_entry (be_inp b)) = shell_entry (?k\<lparr>kfs := boot_fs (fs_mem ?g) addr ?g\<rparr>) d (in_entry (be_inp b))"
    unfolding k3 k2(1) by (simp add: shell_entry_def)
  have "\<forall>n<16. irq_enabled (kpic k4) n \<longleftrightarrow> n \<in> {0, 1, 2, 8}"
    using drivers_lines [OF start_shells_pic [OF 4(1), unfolded k3_def]] by blast
  moreover have "entry b magic addr s = Some (Some (Enter_user (shell_entry k3 d (in_entry (be_inp b)))),
      (set_tss b (set_ldt b s))\<lparr>mkern := k4, midt := init_idt (be_handlers b) (midt s)\<rparr>)"
    unfolding entry_def Let_def c(1) [unfolded Let_def] m
    by (simp add: 2(1) tables 4(1) k3_def [symmetric])
  ultimately show ?thesis using 4(2,3) e by auto
qed

end
