(* ===== verification/Startup.thy ===== *)
theory Startup
  imports EntryProps Demo
begin

text \<open>
  Start-up as a whole: what \<^verbatim>\<open>entry\<close> makes of a machine that the boot loader has loaded.
\<close>

section \<open>A machine for the examples\<close>

definition demo_power :: kernel where
  "demo_power = demo_boot\<lparr>kcon := \<lparr>terminals = (\<lambda>_. demo_terminal), display_term = 0, readWaiting = (\<lambda>_. False),
     video_mem_backup = (\<lambda>_. 0), vram = (\<lambda>_. 0), crtc_out = [], iflag = False\<rparr>, kfs := demo_fs\<lparr>fs := 0\<rparr>\<rparr>"

definition demo_seg :: seg_desc where
  "demo_seg = \<lparr>seg_lim_15_00 = 7, base_15_00 = 7, base_23_16 = 7, seg_type = 7, seg_sys = True, seg_dpl = 3,
     seg_present = False, seg_lim_19_16 = 7, seg_avail = True, seg_reserved = True, opsize = True,
     granularity = True, base_31_24 = 7\<rparr>"

definition demo_tss :: tss_t where
  "demo_tss = \<lparr>prev_task_link = 0, prev_task_link_pad = 0, ss0 = 0, ss0_pad = 0, tss_esp1 = 0, ss1 = 0, ss1_pad = 0,
     tss_esp2 = 0, ss2 = 0, ss2_pad = 0, tss_cr3 = 0, tss_eip = 0, tss_eflags = 0, tss_eax = 0, tss_ecx = 0,
     tss_edx = 0, tss_ebx = 0, tss_esp = 0, tss_ebp = 0, tss_esi = 0, tss_edi = 0, tss_es = 0, tss_es_pad = 0,
     tss_cs = 0, tss_cs_pad = 0, tss_ss = 0, tss_ss_pad = 0, tss_ds = 0, tss_ds_pad = 0, tss_fs = 0,
     tss_fs_pad = 0, tss_gs = 0, tss_gs_pad = 0, ldt_segment_selector = 0, ldt_pad = 0, debug_trap = False,
     io_pad = 0, io_base_addr = 0\<rparr>"

definition demo_gate :: idt_desc where
  "demo_gate = \<lparr>offset_15_00 = 0, seg_selector = 0, reserved4 = 0, reserved3 = False, reserved2 = False,
     reserved1 = False, size = False, reserved0 = False, dpl = 0, present = False, offset_31_16 = 0\<rparr>"

definition demo_machine :: machine where
  "demo_machine = \<lparr>mkern = demo_power, midt = (\<lambda>_. demo_gate), ldt_desc_ptr = demo_seg, tss_desc_ptr = demo_seg,
     tss = demo_tss, ldt_reg = 0, task_reg = 0\<rparr>"

definition demo_env :: boot_env where
  "demo_env = \<lparr>be_inp = demo_inputs, be_handlers = (\<lambda>_. 0x400100), be_ldt = 0x410000, be_tss = 0x12345678,
     be_reg_b = 2, be_reg_a = 0x26, be_ldt_junk = demo_seg, be_tss_junk = demo_seg\<rparr>"

lemma demo_power_on: "power_on demo_power"
proof -
  have "\<exists>d p v. kpg demo_boot = paging_boot d p v \<and> drop_bit 12 p \<noteq> drop_bit 12 v"
    using demo_boot_state by (simp add: boot_state_def)
  then show ?thesis
    by (simp add: power_on_def demo_power_def demo_boot_def kbd_inv_boot demo_fds demo_terminal_def)
qed

lemma demo_info:
  "load32 (fs_mem demo_fs) 0x504000 = 0x4B" "load32 (fs_mem demo_fs) 0x504014 = 1"
  "load32 (fs_mem demo_fs) 0x504018 = 0x504100" "load32 (fs_mem demo_fs) 0x504100 = 0x500000"
  "load32 (fs_mem demo_fs) 0x50402C = 24" "load32 (fs_mem demo_fs) 0x504030 = 0x504200"
  "load32 (fs_mem demo_fs) 0x504200 = 20"
  by (simp_all add: load32_def demo_fs_defs)

lemma demo_flags:
  "CHECK_FLAG 0x4B 2 = False" "CHECK_FLAG 0x4B 3 = True" "CHECK_FLAG 0x4B 4 = False" "CHECK_FLAG 0x4B 6 = True"
  by (simp_all add: CHECK_FLAG_def)

lemma demo_info_ok: "info_ok (fs_mem demo_fs) 0x504000" "\<not> both_tables (fs_mem demo_fs) 0x504000"
proof -
  have "mmap_ends (fs_mem demo_fs) 0x504218 0x504200"
    by (rule mmap_ends.entry) (simp_all add: demo_info mmap_ends.past)
  then show "info_ok (fs_mem demo_fs) 0x504000"
    by (simp add: info_ok_def mbi_offsets demo_info demo_flags Let_def)
  show "\<not> both_tables (fs_mem demo_fs) 0x504000"
    by (simp add: both_tables_def mbi_offsets demo_info demo_flags)
qed

lemma demo_boot_fs: "boot_fs (fs_mem demo_fs) 0x504000 (demo_fs\<lparr>fs := 0\<rparr>) = demo_fs"
proof -
  have "boot_fs (fs_mem demo_fs) 0x504000 (demo_fs\<lparr>fs := 0\<rparr>) = demo_fs\<lparr>fs := 0x500000\<rparr>"
    by (simp add: boot_fs_def mbi_offsets demo_info demo_flags last_module_def init_fs_def)
  then show ?thesis by (simp add: demo_fs_def demo_base_def)
qed

section \<open>Properties\<close>



text \<open>
  C13: A machine that a boot loader with another magic number enters, or whose information block claims both kinds
  of symbol table, is left as it is but for the report on the screen (and the file system of a module):
  no table is set, no device is programmed, no process starts, and \<^verbatim>\<open>entry\<close> returns.
\<close>

theorem entry_refuses_boot_loader:
  assumes "power_on (mkern s)"
    and "magic \<noteq> 0x2BADB002 \<or> info_ok (fs_mem (kfs (mkern s))) addr \<and> both_tables (fs_mem (kfs (mkern s))) addr"
  shows "\<exists>c g. entry b magic addr s = Some (None, s\<lparr>mkern := (mkern s)\<lparr>kcon := c, kfs := g\<rparr>\<rparr>)"
proof -
  let ?k = "mkern s"
  obtain c where c: "(let k = k_clear ?k in k\<lparr>kcon := term_init (kcon k)\<rparr>) = ?k\<lparr>kcon := c\<rparr>" "boot_con (?k\<lparr>kcon := c\<rparr>)"
    by (rule cleared_con [OF assms(1)])
  note e = entry_def Let_def c(1) [unfolded Let_def] MULTIBOOT_BOOTLOADER_MAGIC_def
  show ?thesis
  proof (cases "magic = 0x2BADB002")
    case False
    obtain k' where k': "k_printf (\<lambda>_. []) (fmtn ''Invalid magic number: 0x%#x'') [magic] (?k\<lparr>kcon := c\<rparr>) = Some k'"
      "reported (kfs ?k) (?k\<lparr>kcon := c\<rparr>) k'"
      using printf_step [OF reported_refl [OF c(2)] info_formats(7), of "[magic]"] by auto
    then obtain c' where c': "k' = ?k\<lparr>kcon := c', kfs := kfs ?k\<rparr>" by (auto simp: reported_def)
    have "entry b magic addr s = Some (None, s\<lparr>mkern := k'\<rparr>)" using False k'(1) unfolding e by simp
    then show ?thesis unfolding c' by blast
  next
    case True
    then obtain k' where k': "boot_info (fs_mem (kfs ?k)) addr (?k\<lparr>kcon := c\<rparr>) = Some (False, k')"
      "reported (boot_fs (fs_mem (kfs ?k)) addr (kfs ?k)) (?k\<lparr>kcon := c\<rparr>) k'"
      using boot_info_reports [OF c(2), of "fs_mem (kfs ?k)" addr] assms(2) by auto
    then obtain c' where c': "k' = ?k\<lparr>kcon := c', kfs := boot_fs (fs_mem (kfs ?k)) addr (kfs ?k)\<rparr>"
      by (auto simp: reported_def)
    have "entry b magic addr s = Some (None, s\<lparr>mkern := k'\<rparr>)" using True k'(1) unfolding e by simp
    then show ?thesis unfolding c' by blast
  qed
qed

theorem entry_refuses_boot_loader_witness:
  "\<exists>c g. entry demo_env 0x1BADB002 0 demo_machine = Some (None, demo_machine\<lparr>mkern := demo_power\<lparr>kcon := c, kfs := g\<rparr>\<rparr>)"
proof -
  have "mkern demo_machine = demo_power" by (simp add: demo_machine_def)
  then show ?thesis
    using entry_refuses_boot_loader [of demo_machine "0x1BADB002" 0 demo_env] demo_power_on by simp
qed

text \<open>
  The first \<^verbatim>\<open>clear\<close> of \<^verbatim>\<open>entry\<close> comes before \<^verbatim>\<open>term_init\<close>: the terminal's memory is still the null pointer, so the
  stores go to the first 4000 bytes of memory and the screen keeps what the boot loader wrote.
\<close>

lemma first_clear_misses_screen:
  assumes "current_pid k = -1" and "video_mem (terminals (kcon k) 0) = 0" and "4000 \<le> a"
  shows "vram (kcon (k_clear k)) a = vram (kcon k) a"
proof -
  have f: "vram (fold (\<lambda>i s. store8 (2 * int i + 1) ATTRIB (store8 (2 * int i) 32 s)) [0..<n] s) a = vram s a"
    if "n \<le> 2000" for n s
    using that assms(3) by (induction n) (auto simp: store8_def)
  show ?thesis
    using f [of 2000 "kcon k"] assms
    by (simp add: k_clear_def term_clear_def reset_cursor_def upd_term_def Let_def get_current_terminal_def
        NUM_ROWS_def NUM_COLS_def)
qed

end
