(* ===== verification/MemFuncs.thy ===== *)
theory MemFuncs
  imports Prelude
begin

text \<open>
  The memory routines of \<^verbatim>\<open>lib.c\<close>, written in assembly: \<^verbatim>\<open>memset\<close> and \<^verbatim>\<open>memcpy\<close> go byte by byte to an
  aligned address, then by double words, then byte by byte; \<^verbatim>\<open>memmove\<close> goes down when the
  destination is above the source. Memory is a function of all 32-bit addresses, the
  registers are words and wrap around. Each routine is proved equal to a fill or copy of
  the range.
\<close>

section \<open>The instructions\<close>

type_synonym memory = "u32 \<Rightarrow> u8"

text \<open>Byte \<open>i\<close> of a register; loads and stores of several bytes, the lowest first.\<close>

definition byte_of :: "u32 \<Rightarrow> nat \<Rightarrow> u8" where
  "byte_of w i = ucast (drop_bit (8 * i) w)"

definition stos_word :: "u32 \<Rightarrow> u32 \<Rightarrow> memory \<Rightarrow> memory" where
  "stos_word eax edi m = m(edi := byte_of eax 0, edi + 1 := byte_of eax 1)"

definition stos_dword :: "u32 \<Rightarrow> u32 \<Rightarrow> memory \<Rightarrow> memory" where
  "stos_dword eax edi m =
     m(edi := byte_of eax 0, edi + 1 := byte_of eax 1, edi + 2 := byte_of eax 2, edi + 3 := byte_of eax 3)"

definition movs_dword :: "u32 \<Rightarrow> u32 \<Rightarrow> memory \<Rightarrow> memory" where
  "movs_dword edi esi m = m(edi := m esi, edi + 1 := m (esi + 1), edi + 2 := m (esi + 2), edi + 3 := m (esi + 3))"

text \<open>The string instructions with \<^verbatim>\<open>rep\<close> and the direction flag clear; \<open>step\<close> is what one of them stores.\<close>

function rep_stos :: "u32 \<Rightarrow> (u32 \<Rightarrow> memory \<Rightarrow> memory) \<Rightarrow> u32 \<Rightarrow> u32 \<Rightarrow> memory \<Rightarrow> u32 \<times> memory" where
  "rep_stos w step edi ecx m =
     (if ecx = 0 then (edi, m) else rep_stos w step (edi + w) (ecx - 1) (step edi m))"
  by auto
termination by (relation "measure (\<lambda>(w, step, edi, ecx, m). unat ecx)") (auto intro: measure_unat)

function rep_movsl :: "u32 \<Rightarrow> u32 \<Rightarrow> u32 \<Rightarrow> memory \<Rightarrow> u32 \<times> u32 \<times> memory" where
  "rep_movsl edi esi ecx m =
     (if ecx = 0 then (edi, esi, m) else rep_movsl (edi + 4) (esi + 4) (ecx - 1) (movs_dword edi esi m))"
  by auto
termination by (relation "measure (\<lambda>(edi, esi, ecx, m). unat ecx)") (auto intro: measure_unat)

text \<open>\<^verbatim>\<open>rep movsb\<close>, downwards when the direction flag is set.\<close>

function rep_movsb :: "bool \<Rightarrow> u32 \<Rightarrow> u32 \<Rightarrow> u32 \<Rightarrow> memory \<Rightarrow> memory" where
  "rep_movsb df edi esi ecx m =
     (if ecx = 0 then m
      else let d = (if df then -1 else 1) in rep_movsb df (edi + d) (esi + d) (ecx - 1) (m(edi := m esi)))"
  by auto
termination by (relation "measure (\<lambda>(df, edi, esi, ecx, m). unat ecx)") (auto intro: measure_unat)

declare rep_stos.simps [simp del] rep_movsl.simps [simp del] rep_movsb.simps [simp del]

section \<open>The routines\<close>

function memset_bottom :: "u32 \<Rightarrow> u32 \<Rightarrow> u32 \<Rightarrow> memory \<Rightarrow> memory" where
  "memset_bottom eax edi edx m =
     (if edx = 0 then m else memset_bottom eax (edi + 1) (edx - 1) (m(edi := ucast eax)))"
  by auto
termination by (relation "measure (\<lambda>(eax, edi, edx, m). unat edx)") (auto intro: measure_unat)

definition memset_aligned :: "u32 \<Rightarrow> u32 \<Rightarrow> u32 \<Rightarrow> memory \<Rightarrow> memory" where
  "memset_aligned eax edi ecx m =
     (let edx = ecx; ecx = drop_bit 2 ecx; edx = edx AND 3;
          (edi, m) = rep_stos 4 (stos_dword eax) edi ecx m
      in memset_bottom eax edi edx m)"

function memset_top :: "u32 \<Rightarrow> u32 \<Rightarrow> u32 \<Rightarrow> memory \<Rightarrow> memory" where
  "memset_top eax edi ecx m =
     (if ecx = 0 then m
      else if edi AND 3 = 0 then memset_aligned eax edi ecx m
      else memset_top eax (edi + 1) (ecx - 1) (m(edi := ucast eax)))"
  by auto
termination by (relation "measure (\<lambda>(eax, edi, ecx, m). unat ecx)") (auto intro: measure_unat)

definition memset :: "u32 \<Rightarrow> u32 \<Rightarrow> u32 \<Rightarrow> memory \<Rightarrow> u32 \<times> memory" where
  "memset s c n m =
     (let c = c AND 0xFF
      in (s, memset_top (push_bit 24 c OR push_bit 16 c OR push_bit 8 c OR c) s n m))"

definition memset_word :: "u32 \<Rightarrow> u32 \<Rightarrow> u32 \<Rightarrow> memory \<Rightarrow> u32 \<times> memory" where
  "memset_word s c n m = (s, snd (rep_stos 2 (stos_word c) s n m))"

definition memset_dword :: "u32 \<Rightarrow> u32 \<Rightarrow> u32 \<Rightarrow> memory \<Rightarrow> u32 \<times> memory" where
  "memset_dword s c n m = (s, snd (rep_stos 4 (stos_dword c) s n m))"

function memcpy_bottom :: "u32 \<Rightarrow> u32 \<Rightarrow> u32 \<Rightarrow> memory \<Rightarrow> memory" where
  "memcpy_bottom edi esi edx m =
     (if edx = 0 then m else memcpy_bottom (edi + 1) (esi + 1) (edx - 1) (m(edi := m esi)))"
  by auto
termination by (relation "measure (\<lambda>(edi, esi, edx, m). unat edx)") (auto intro: measure_unat)

definition memcpy_aligned :: "u32 \<Rightarrow> u32 \<Rightarrow> u32 \<Rightarrow> memory \<Rightarrow> memory" where
  "memcpy_aligned edi esi ecx m =
     (let edx = ecx; ecx = drop_bit 2 ecx; edx = edx AND 3;
          (edi, esi, m) = rep_movsl edi esi ecx m
      in memcpy_bottom edi esi edx m)"

function memcpy_top :: "u32 \<Rightarrow> u32 \<Rightarrow> u32 \<Rightarrow> memory \<Rightarrow> memory" where
  "memcpy_top edi esi ecx m =
     (if ecx = 0 then m
      else if edi AND 3 = 0 then memcpy_aligned edi esi ecx m
      else memcpy_top (edi + 1) (esi + 1) (ecx - 1) (m(edi := m esi)))"
  by auto
termination by (relation "measure (\<lambda>(edi, esi, ecx, m). unat ecx)") (auto intro: measure_unat)

definition memcpy :: "u32 \<Rightarrow> u32 \<Rightarrow> u32 \<Rightarrow> memory \<Rightarrow> u32 \<times> memory" where
  "memcpy dest src n m = (dest, memcpy_top dest src n m)"

text \<open>The last component is the direction flag when \<^verbatim>\<open>memmove\<close> returns.\<close>

definition memmove :: "u32 \<Rightarrow> u32 \<Rightarrow> u32 \<Rightarrow> memory \<Rightarrow> u32 \<times> memory \<times> bool" where
  "memmove dest src n m =
     (let df = False;
          (esi, edi, df) = (if dest \<le> src then (src, dest, df) else (src + n - 1, dest + n - 1, True))
      in (dest, rep_movsb df edi esi n m, df))"

declare memset_bottom.simps [simp del] memset_top.simps [simp del]
  memcpy_bottom.simps [simp del] memcpy_top.simps [simp del]

section \<open>Fills\<close>

definition filled :: "(u32 \<Rightarrow> u8) \<Rightarrow> u32 \<Rightarrow> nat \<Rightarrow> memory \<Rightarrow> memory" where
  "filled f s n m = (\<lambda>a. if unat (a - s) < n then f a else m a)"

lemma filled_0 [simp]: "filled f s 0 m = m"
  by (simp add: filled_def)

lemma unat_minus_one_word: "x \<noteq> 0 \<Longrightarrow> unat (x - 1 :: u32) = unat x - 1"
  by (metis add.commute diff_add_cancel unatSuc add_diff_cancel_left' One_nat_def plus_1_eq_Suc)

lemma unat_diff_Suc: "a \<noteq> s \<Longrightarrow> unat (a - (s + 1) :: u32) = unat (a - s) - 1 \<and> 0 < unat (a - s)"
  using unat_minus_one_word [of "a - s"] by (simp add: diff_diff_eq [symmetric] unat_gt_0)

lemma filled_Suc: "filled f s (Suc n) m = filled f (s + 1) n (m(s := f s))"
proof
  fix a
  show "filled f s (Suc n) m a = filled f (s + 1) n (m(s := f s)) a"
    using unat_diff_Suc [of a s] by (cases "a = s") (auto simp: filled_def)
qed

lemma filled_add: "filled f (s + of_nat i) n (filled f s i m) = filled f s (i + n) m"
proof (induction i arbitrary: s m)
  case (Suc i)
  have "s + of_nat (Suc i) = (s + 1) + of_nat i" by simp
  then show ?case using Suc [of "s + 1" "m(s := f s)"] by (simp add: filled_Suc add.assoc del: fun_upd_apply)
qed simp

lemma unat_pos_Suc: "x \<noteq> (0 :: u32) \<Longrightarrow> unat x = Suc (unat (x - 1))"
  by (simp add: unat_minus_one_word unat_gt_0 Suc_diff_1)

lemma memset_bottom_fills: "memset_bottom eax edi edx m = filled (\<lambda>_. ucast eax) edi (unat edx) m"
proof (induction eax edi edx m rule: memset_bottom.induct)
  case (1 eax edi edx m)
  then show ?case
    by (subst memset_bottom.simps) (auto simp: unat_pos_Suc filled_Suc simp del: fun_upd_apply)
qed

lemma rep_stos_fills:
  assumes "\<And>e m. P e \<Longrightarrow> step e m = filled f e w m" and "\<And>e. P e \<Longrightarrow> P (e + of_nat w)" and "P edi"
  shows "rep_stos (of_nat w) step edi ecx m = (edi + of_nat w * ecx, filled f edi (w * unat ecx) m)"
  using assms(3)
proof (induction "unat ecx" arbitrary: edi ecx m)
  case 0
  then show ?case by (simp add: rep_stos.simps unat_eq_zero)
next
  case (Suc n)
  have z: "ecx \<noteq> 0" using Suc.hyps(2) by (metis Zero_not_Suc unat_0)
  then have e: "ecx \<noteq> 0" "unat ecx = Suc (unat (ecx - 1))" "unat (ecx - 1) = n"
    using Suc.hyps(2) unat_pos_Suc [OF z] by simp_all
  have "rep_stos (of_nat w) step (edi + of_nat w) (ecx - 1) (filled f edi w m) =
      (edi + of_nat w + of_nat w * (ecx - 1), filled f (edi + of_nat w) (w * unat (ecx - 1)) (filled f edi w m))"
    using Suc.hyps(1) [of "ecx - 1"] e(3) assms(2) [OF Suc.prems] by simp
  then show ?case
    using e(1) by (subst rep_stos.simps) (simp add: assms(1) [OF Suc.prems] e(2) filled_add right_diff_distrib algebra_simps)
qed


lemma filled_cong: "(\<And>a. unat (a - s) < n \<Longrightarrow> f a = g a) \<Longrightarrow> filled f s n m = filled g s n m"
  by (simp add: filled_def fun_eq_iff)

text \<open>The bytes of a register over and over, from an address on.\<close>

lemma unat_and_3: "unat (x AND 3 :: u32) = unat x mod 4"
proof -
  have "unat x AND 3 = take_bit 2 (unat x)" by (simp add: take_bit_eq_mask mask_eq_exp_minus_1)
  then show ?thesis by (simp add: unsigned_and_eq take_bit_eq_mod)
qed

lemma unat_plus_mod:
  assumes "k dvd 2 ^ 32" shows "unat (x + y :: u32) mod k = (unat x mod k + unat y) mod k"
  using assms by (simp add: unat_word_ariths mod_mod_cancel mod_add_left_eq)

lemma stos_dword_fills:
  assumes "unat (e - s :: u32) mod 4 = 0"
  shows "stos_dword eax e m = filled (\<lambda>a. byte_of eax (unat (a - s) mod 4)) e 4 m"
proof -
  have "unat (e + x - s) mod 4 = unat x mod 4" for x
    using unat_plus_mod [of 4 "e - s" x] assms by (simp add: algebra_simps)
  note u = this [of 0] this [of 1] this [of 2] this [of 3]
  have "filled f e 4 m = m(e := f e, e + 1 := f (e + 1), e + 2 := f (e + 2), e + 3 := f (e + 3))" for f
    by (simp add: numeral_eq_Suc filled_Suc add.assoc del: fun_upd_apply)
  then show ?thesis using u by (simp add: stos_dword_def)
qed

lemma stos_word_fills:
  assumes "unat (e - s :: u32) mod 2 = 0"
  shows "stos_word eax e m = filled (\<lambda>a. byte_of eax (unat (a - s) mod 2)) e 2 m"
proof -
  have "unat (e + x - s) mod 2 = unat x mod 2" for x
    using unat_plus_mod [of 2 "e - s" x] assms by (simp add: algebra_simps)
  note u = this [of 0] this [of 1]
  have "filled f e 2 m = m(e := f e, e + 1 := f (e + 1))" for f
    by (simp add: numeral_eq_Suc filled_Suc add.assoc del: fun_upd_apply)
  then show ?thesis using u by (simp add: stos_word_def)
qed

lemma unat_small: "unat (2 :: u32) = 2" "unat (4 :: u32) = 4"
  by simp_all

lemma memset_dword_fills:
  "memset_dword s c n m = (s, filled (\<lambda>a. byte_of c (unat (a - s) mod 4)) s (4 * unat n) m)"
proof -
  have "unat (e + 4 - s :: u32) mod 4 = unat (e - s) mod 4" for e
    using unat_plus_mod [of 4 "e - s" 4, unfolded unat_small] by (simp add: algebra_simps)
  then show ?thesis
    using rep_stos_fills [where w = 4 and P = "\<lambda>e. unat (e - s) mod 4 = 0" and step = "stos_dword c",
        OF stos_dword_fills] by (simp add: memset_dword_def)
qed

lemma memset_word_fills:
  "memset_word s c n m = (s, filled (\<lambda>a. byte_of c (unat (a - s) mod 2)) s (2 * unat n) m)"
proof -
  have "unat (e + 2 - s :: u32) mod 2 = unat (e - s) mod 2" for e
    using unat_plus_mod [of 2 "e - s" 2, unfolded unat_small] by (simp add: algebra_simps)
  then show ?thesis
    using rep_stos_fills [where w = 2 and P = "\<lambda>e. unat (e - s) mod 2 = 0" and step = "stos_word c",
        OF stos_word_fills] by (simp add: memset_word_def)
qed

text \<open>\<^verbatim>\<open>memset\<close>: all four bytes of its register are the character.\<close>

definition same_bytes :: "u32 \<Rightarrow> bool" where
  "same_bytes eax \<longleftrightarrow> (\<forall>i<4. byte_of eax i = ucast eax)"

lemma spread_bytes:
  assumes "x = c AND (0xFF :: u32)"
  shows "same_bytes (push_bit 24 x OR push_bit 16 x OR push_bit 8 x OR x)"
    and "ucast (push_bit 24 x OR push_bit 16 x OR push_bit 8 x OR x) = (ucast c :: u8)"
proof -
  have b: "bit x i \<longleftrightarrow> i < 8 \<and> bit c i" for i
  proof -
    have "(0xFF :: u32) = mask 8" by (simp add: mask_eq_exp_minus_1)
    then show ?thesis by (simp only: assms bit_and_iff bit_mask_iff) auto
  qed
  let ?w = "push_bit 24 x OR push_bit 16 x OR push_bit 8 x OR x"
  have k: "bit ?w (8 * i + j) \<longleftrightarrow> bit c j" if "i < 4" "j < 8" for i j
  proof -
    have "i = 0 \<or> i = 1 \<or> i = 2 \<or> i = 3" using that by linarith
    then show ?thesis
      using that(2) by (elim disjE) (simp_all only: bit_or_iff bit_push_bit_iff b, auto)
  qed
  have w: "bit (byte_of ?w i) j \<longleftrightarrow> j < 8 \<and> bit c j" if "i < 4" for i j
  proof -
    have "bit (byte_of ?w i) j \<longleftrightarrow> j < 8 \<and> bit ?w (8 * i + j)"
      by (simp only: byte_of_def bit_ucast_iff bit_drop_bit_eq o_apply) auto
    then show ?thesis using k [OF that] by blast
  qed
  show u: "ucast ?w = (ucast c :: u8)"
    using k [of 0] by (intro bit_word_eqI) (simp only: bit_ucast_iff, auto)
  show "same_bytes ?w"
    unfolding same_bytes_def u
  proof (intro allI impI)
    show "byte_of ?w i = ucast c" if "i < 4" for i
      by (rule bit_word_eqI) (simp only: w [OF that] bit_ucast_iff, auto)
  qed
qed

lemma memset_aligned_fills:
  assumes "same_bytes eax"
  shows "memset_aligned eax edi ecx m = filled (\<lambda>_. ucast eax) edi (unat ecx) m"
proof -
  have q: "4 * unat (drop_bit 2 ecx) + unat (ecx AND 3) = unat ecx"
    by (simp add: unat_and_3 drop_bit_eq_div unat_div)
  have "stos_dword eax e m = filled (\<lambda>_. ucast eax) e 4 m" for e m
    using stos_dword_fills [of e e eax m] assms by (simp add: same_bytes_def)
  from rep_stos_fills [where w = 4 and P = "\<lambda>_. True", OF this] show ?thesis
    using filled_add [of _ edi "4 * unat (drop_bit 2 ecx)" "unat (ecx AND 3)" m] q
    by (simp add: memset_aligned_def memset_bottom_fills)
qed

lemma memset_top_fills:
  assumes "same_bytes eax"
  shows "memset_top eax edi ecx m = filled (\<lambda>_. ucast eax) edi (unat ecx) m"
  using assms
proof (induction eax edi ecx m rule: memset_top.induct)
  case (1 eax edi ecx m)
  then show ?case
    by (subst memset_top.simps) (auto simp: unat_pos_Suc filled_Suc memset_aligned_fills simp del: fun_upd_apply)
qed


lemma memset_filled: "memset s c n m = (s, filled (\<lambda>_. ucast c) s (unat n) m)"
  unfolding memset_def Let_def memset_top_fills [OF spread_bytes(1) [OF refl]] spread_bytes(2) [OF refl] by (rule refl)

section \<open>Copies\<close>

text \<open>The copy of a range as one step, and the condition under which going upwards never
  overwrites a byte that is still to be read.\<close>

definition copied :: "u32 \<Rightarrow> u32 \<Rightarrow> nat \<Rightarrow> memory \<Rightarrow> memory" where
  "copied d s n m = (\<lambda>a. if unat (a - d) < n then m (s + (a - d)) else m a)"

definition up_safe :: "u32 \<Rightarrow> u32 \<Rightarrow> nat \<Rightarrow> bool" where
  "up_safe d s n \<longleftrightarrow> n < 2 ^ 32 \<and> (d = s \<or> n \<le> unat (d - s))"

lemma copied_0 [simp]: "copied d s 0 m = m"
  by (simp add: copied_def)

lemma unat_minus: "unat (x - y :: u32) = (if unat y \<le> unat x then unat x - unat y else unat x + 2 ^ 32 - unat y)"
  using unat_sub_if' [of x y] by simp

lemma copied_add:
  assumes "up_safe d s (i + n)"
  shows "copied (d + of_nat i) (s + of_nat i) n (copied d s i m) = copied d s (i + n) m"
proof
  fix a
  define x where "x = a - d"
  have i: "unat (of_nat i :: u32) = i" using assms by (simp add: up_safe_def)
  have e: "a - d = x" "a - (d + of_nat i) = x - of_nat i" "s + of_nat i + (x - of_nat i) = s + x"
    by (simp_all add: x_def)
  have inner: "copied d s i m (s + x) = m (s + x)" if "i \<le> unat x" "unat x < i + n"
  proof -
    have "s + x - d = x - (d - s)" by simp
    then have "\<not> unat (s + x - d) < i"
      using that assms unat_lt32 [of "d - s"] by (auto simp only: up_safe_def unat_minus [of x] diff_self unat_0 split: if_splits)
    then show ?thesis by (simp only: copied_def if_False)
  qed
  show "copied (d + of_nat i) (s + of_nat i) n (copied d s i m) a = copied d s (i + n) m a"
    unfolding copied_def [of "d + of_nat i"] copied_def [of d s "i + n"] e unat_minus [of x "of_nat i"] i
    using inner assms unat_lt32 [of x] by (auto simp: copied_def e up_safe_def)
qed

lemma up_safe_shift: "up_safe d s n \<Longrightarrow> i \<le> n \<Longrightarrow> up_safe (d + x) (s + x) i"
  by (auto simp: up_safe_def)

lemma copied_1: "copied d s (Suc 0) m = m(d := m s)"
  by (auto simp: copied_def fun_eq_iff unat_gt_0 unat_eq_zero)

lemma copied_Suc:
  assumes "up_safe d s (Suc n)"
  shows "copied d s (Suc n) m = copied (d + 1) (s + 1) n (m(d := m s))"
  using copied_add [of d s 1 n m] assms by (simp add: copied_1 del: fun_upd_apply)


lemma unat_less_4: "unat (x :: u32) < 4 \<longleftrightarrow> x = 0 \<or> x = 1 \<or> x = 2 \<or> x = 3"
proof -
  have "unat x < 4 \<longleftrightarrow> unat x = 0 \<or> unat x = 1 \<or> unat x = 2 \<or> unat x = 3" by linarith
  then show ?thesis by (simp add: word_unat_eq_iff)
qed

lemma movs_dword_copies: "movs_dword d s m = copied d s 4 m"
proof
  fix a
  define x where "x = a - d"
  have "a = d + x" by (simp add: x_def)
  then show "movs_dword d s m a = copied d s 4 m a"
    by (auto simp: movs_dword_def copied_def unat_less_4)
qed

lemma rep_movsl_copies:
  assumes "up_safe d s (4 * unat n)"
  shows "rep_movsl d s n m = (d + 4 * n, s + 4 * n, copied d s (4 * unat n) m)"
  using assms
proof (induction d s n m rule: rep_movsl.induct)
  case (1 d s n m)
  show ?case
  proof (cases "n = 0")
    case False
    have u: "4 * unat n = 4 + 4 * unat (n - 1)" using unat_pos_Suc [OF False] by simp
    have "up_safe (d + 4) (s + 4) (4 * unat (n - 1))" using 1(2) u by (auto simp: up_safe_def)
    then show ?thesis
      using 1(1) [OF False] False movs_dword_copies copied_add [OF 1(2) [unfolded u]] u
      by (subst rep_movsl.simps) (simp add: right_diff_distrib)
  qed (simp add: rep_movsl.simps)
qed

lemma memcpy_bottom_copies: "up_safe d s (unat n) \<Longrightarrow> memcpy_bottom d s n m = copied d s (unat n) m"
proof (induction d s n m rule: memcpy_bottom.induct)
  case (1 d s n m)
  show ?case
  proof (cases "n = 0")
    case False
    note u = unat_pos_Suc [OF False]
    have "up_safe (d + 1) (s + 1) (unat (n - 1))" using 1(2) u by (auto simp: up_safe_def)
    then show ?thesis
      using 1(1) [OF False] 1(2) False by (subst memcpy_bottom.simps) (simp add: u copied_Suc del: fun_upd_apply)
  qed (simp add: memcpy_bottom.simps)
qed

lemma memcpy_aligned_copies:
  assumes "up_safe d s (unat n)"
  shows "memcpy_aligned d s n m = copied d s (unat n) m"
proof -
  let ?q = "4 * unat (drop_bit 2 n)"
  have q: "?q + unat (n AND 3) = unat n" by (simp add: unat_and_3 drop_bit_eq_div unat_div)
  have s: "up_safe d s ?q" "up_safe (d + 4 * drop_bit 2 n) (s + 4 * drop_bit 2 n) (unat (n AND 3))"
    using assms q by (auto simp: up_safe_def)
  show ?thesis
    using copied_add [of d s ?q "unat (n AND 3)" m] assms q s
    by (simp add: memcpy_aligned_def rep_movsl_copies memcpy_bottom_copies)
qed

lemma memcpy_top_copies: "up_safe d s (unat n) \<Longrightarrow> memcpy_top d s n m = copied d s (unat n) m"
proof (induction d s n m rule: memcpy_top.induct)
  case (1 d s n m)
  show ?case
  proof (cases "n = 0 \<or> d AND 3 = 0")
    case False
    then have f: "n \<noteq> 0" "d AND 3 \<noteq> 0" by simp_all
    note u = unat_pos_Suc [OF f(1)]
    have "up_safe (d + 1) (s + 1) (unat (n - 1))" using 1(2) u by (auto simp: up_safe_def)
    then show ?thesis
      using 1(1) [OF f] 1(2) f by (subst memcpy_top.simps) (simp add: u copied_Suc del: fun_upd_apply)
  next
    case True
    then show ?thesis
      using 1(2) by (subst memcpy_top.simps) (auto simp: memcpy_aligned_copies)
  qed
qed

text \<open>\<^verbatim>\<open>rep movsb\<close> downwards, from the last byte of the range.\<close>

definition down_safe :: "u32 \<Rightarrow> u32 \<Rightarrow> nat \<Rightarrow> bool" where
  "down_safe d s n \<longleftrightarrow> n < 2 ^ 32 \<and> n \<le> unat (s - d)"

lemma copied_down:
  assumes "down_safe d s (Suc n)"
  shows "copied d s n (m(d + of_nat n := m (s + of_nat n))) = copied d s (Suc n) m"
proof
  fix a
  define x where "x = a - d"
  have n: "unat (of_nat n :: u32) = n" using assms by (simp add: down_safe_def)
  have e: "a - d = x" "a = d + x" by (simp_all add: x_def)
  show "copied d s n (m(d + of_nat n := m (s + of_nat n))) a = copied d s (Suc n) m a"
  proof (cases "unat x < n")
    case True
    have "s + x \<noteq> d + of_nat n"
    proof
      assume "s + x = d + of_nat n"
      then have "s - d = of_nat n - x" by (metis add_diff_cancel add_diff_cancel_left diff_add_eq diff_diff_eq2 add.commute)
      then have "unat (s - d) = n - unat x" using True n by (simp only: unat_minus) simp
      then show False using assms unfolding down_safe_def by linarith
    qed
    then show ?thesis using True by (simp add: copied_def e(1))
  next
    case False
    then have "unat x < Suc n \<longleftrightarrow> x = of_nat n" using n by (metis less_Suc_eq word_unat_eq_iff)
    then show ?thesis using False by (auto simp: copied_def e(1)) (auto simp: e(2))
  qed
qed

lemma rep_movsb_up: "up_safe d s (unat n) \<Longrightarrow> rep_movsb False d s n m = copied d s (unat n) m"
proof (induction False d s n m rule: rep_movsb.induct)
  case (1 d s n m)
  show ?case
  proof (cases "n = 0")
    case False
    note u = unat_pos_Suc [OF False]
    have "up_safe (d + 1) (s + 1) (unat (n - 1))" using 1(2) u by (auto simp: up_safe_def)
    then show ?thesis
      using 1(1) [OF False refl] 1(2) False by (subst rep_movsb.simps) (simp add: u copied_Suc del: fun_upd_apply)
  qed (simp add: rep_movsb.simps)
qed

lemma rep_movsb_down:
  "down_safe d s (unat n) \<Longrightarrow> rep_movsb True (d + n - 1) (s + n - 1) n m = copied d s (unat n) m"
proof (induction "unat n" arbitrary: n m)
  case 0
  then show ?case by (simp add: rep_movsb.simps unat_eq_zero)
next
  case (Suc k)
  have z: "n \<noteq> 0" using Suc.hyps(2) by (metis Zero_not_Suc unat_0)
  note u = unat_pos_Suc [OF z]
  have "k = unat (n - 1)" using u Suc.hyps(2) by simp
  then have k: "n - 1 = of_nat k" "k = unat (n - 1)" by simp_all
  have e: "d + n - 1 = d + of_nat k" "s + n - 1 = s + of_nat k" unfolding k(1) [symmetric] by simp_all
  have d: "down_safe d s (unat (n - 1))" using Suc.prems u by (auto simp: down_safe_def)
  have "rep_movsb True (d + n - 1) (s + n - 1) n m =
      rep_movsb True (d + (n - 1) - 1) (s + (n - 1) - 1) (n - 1) (m(d + n - 1 := m (s + n - 1)))"
    using z by (subst rep_movsb.simps) (simp add: algebra_simps)
  also have "\<dots> = copied d s k (m(d + of_nat k := m (s + of_nat k)))"
    unfolding e Suc.hyps(1) [OF k(2) d] k(2) [symmetric] by (rule refl)
  also have "\<dots> = copied d s (unat n) m"
    using copied_down [of d s k m] Suc.prems unfolding Suc.hyps(2) [symmetric] .
  finally show ?case .
qed

lemma memmove_copies:
  assumes "unat dest + unat n \<le> 2 ^ 32" and "unat src + unat n \<le> 2 ^ 32"
  shows "memmove dest src n m = (dest, copied dest src (unat n) m, src < dest)"
proof (cases "dest \<le> src")
  case True
  then have "up_safe dest src (unat n)"
    using assms unat_lt32 [of n] by (auto simp: up_safe_def unat_minus word_le_nat_alt word_unat_eq_iff)
  then show ?thesis using True by (simp add: memmove_def rep_movsb_up not_less)
next
  case False
  then have "down_safe dest src (unat n)"
    using assms unat_lt32 [of n] by (auto simp: down_safe_def unat_minus word_le_nat_alt)
  then show ?thesis using False by (simp add: memmove_def rep_movsb_down)
qed

section \<open>Properties\<close>


text \<open>
  C38: \<^verbatim>\<open>memmove\<close> copies the range whether or not source and destination overlap, provided that
  neither range passes the end of the address space; afterwards the direction flag is set
  if the destination was above the source.
\<close>

theorem memmove_copies_overlapping:
  assumes "unat dest + unat n \<le> 2 ^ 32" and "unat src + unat n \<le> 2 ^ 32"
  shows "memmove dest src n m =
    (dest, \<lambda>a. if unat (a - dest) < unat n then m (src + (a - dest)) else m a, src < dest)"
  using memmove_copies [OF assms] by (simp add: copied_def)

theorem memmove_copies_overlapping_witness:
  "\<exists>m'. memmove 0x1002 0x1000 5 (\<lambda>a. ucast a) = (0x1002, m', True) \<and> m' 0x1004 = 2 \<and> m' 0x1007 = 7"
  using memmove_copies_overlapping [of "0x1002" 5 "0x1000"] by simp

text \<open>
  \<^verbatim>\<open>memcpy\<close> copies the range unless the destination begins inside the source.
\<close>

lemma memcpy_copies:
  assumes "dest = src \<or> unat n \<le> unat (dest - src)"
  shows "memcpy dest src n m = (dest, \<lambda>a. if unat (a - dest) < unat n then m (src + (a - dest)) else m a)"
  using assms unat_lt32 [of n] by (simp add: memcpy_def memcpy_top_copies up_safe_def copied_def)

text \<open>
  Otherwise it is not the copy: from one address to the next, the first byte is repeated.
\<close>

lemma memcpy_overlap: "d AND 3 \<noteq> 0 \<Longrightarrow> (d + 1) AND 3 \<noteq> 0 \<Longrightarrow> snd (memcpy d (d - 1) 2 m) (d + 1) = m (d - 1)"
  by (simp add: memcpy_def memcpy_top.simps)

end
