(* ===== verification/Blink.thy ===== *)
theory Blink
  imports UserLib
begin

text \<open>
  The blinking characters of the animation (\<^verbatim>\<open>src/fish/blink.S\<close>, \<^verbatim>\<open>src/fish/fish.c\<close>): a linked list of structures
  in the array \<^verbatim>\<open>blink_array\<close>, and the program that shows two frames with it. A pointer to a structure is its
  index in the array, \<^term>\<open>None\<close> the null pointer. The video memory and the array do not overlap.
\<close>

section \<open>The structures\<close>

record blink =
  location :: u16
  on_char :: u8
  off_char :: u8
  on_length :: u16
  off_length :: u16
  countdown :: u16
  blink_status :: u16
  next_blink :: "nat option"

definition blink_zero :: blink where
  "blink_zero = \<lparr>location = 0, on_char = 0, off_char = 0, on_length = 0, off_length = 0, countdown = 0,
     blink_status = 0, next_blink = None\<rparr>"

text \<open>The globals of the program, and the state \<open>fsys\<close> behind its system calls.\<close>

record 's fish =
  blink_array :: "blink list"
  mp1_list_head :: "nat option"
  vmem_base_addr :: u32
  fsys :: 's

definition BLINKS :: nat where "BLINKS = 80 * 25"

definition get_blink :: "nat \<Rightarrow> 's fish \<Rightarrow> blink option" where
  "get_blink i f = (if i < length (blink_array f) then Some (blink_array f ! i) else None)"

definition set_blink :: "nat \<Rightarrow> blink \<Rightarrow> 's fish \<Rightarrow> 's fish" where
  "set_blink i b f = f\<lparr>blink_array := (blink_array f)[i := b]\<rparr>"

text \<open>\<^verbatim>\<open>mp1_malloc\<close> takes the first structure whose location is 0; \<^verbatim>\<open>mp1_free\<close> clears one.\<close>

definition mp1_malloc :: "'s fish \<Rightarrow> nat option" where
  "mp1_malloc f = find (\<lambda>i. location (blink_array f ! i) = 0) [0..<BLINKS]"

definition mp1_free :: "nat \<Rightarrow> 's fish \<Rightarrow> 's fish" where
  "mp1_free i = set_blink i blink_zero"

section \<open>blink.S\<close>

definition mp1_poke :: "'s os \<Rightarrow> u8 \<Rightarrow> u32 \<Rightarrow> 's fish \<Rightarrow> 's fish option" where
  "mp1_poke os cl eax f = map_option (\<lambda>s. f\<lparr>fsys := s\<rparr>) (os_store os (vmem_base_addr f + eax) cl (fsys f))"

text \<open>The offset of a location's character.\<close>

definition cell :: "blink \<Rightarrow> u32" where
  "cell b = push_bit 1 (ucast (location b))"

definition tasklet_step :: "'s os \<Rightarrow> nat \<Rightarrow> 's fish \<Rightarrow> 's fish option" where
  "tasklet_step os i f =
     do { b \<leftarrow> get_blink i f;
          let b = b\<lparr>countdown := countdown b - 1\<rparr>;
          let f = set_blink i b f;
          if 0 < sint (countdown b) then Some f
          else if blink_status b AND 1 \<noteq> 0 then
            do { f \<leftarrow> mp1_poke os (off_char b) (cell b) f;
                 Some (set_blink i (b\<lparr>countdown := off_length b, blink_status := blink_status b XOR 1\<rparr>) f) }
          else
            do { f \<leftarrow> mp1_poke os (on_char b) (cell b) f;
                 Some (set_blink i (b\<lparr>countdown := on_length b, blink_status := blink_status b XOR 1\<rparr>) f) } }"

partial_function (option) tasklet_loop :: "'s os \<Rightarrow> nat option \<Rightarrow> 's fish \<Rightarrow> 's fish option" where
  "tasklet_loop os ebx f =
     (case ebx of None \<Rightarrow> Some f
      | Some i \<Rightarrow>
        do { f \<leftarrow> tasklet_step os i f;
             b \<leftarrow> get_blink i f;
             tasklet_loop os (next_blink b) f })"

definition mp1_rtc_tasklet :: "'s os \<Rightarrow> 's fish \<Rightarrow> 's fish option" where
  "mp1_rtc_tasklet os f = tasklet_loop os (mp1_list_head f) f"

partial_function (option) find_loop :: "u16 \<Rightarrow> nat option \<Rightarrow> 's fish \<Rightarrow> nat option option" where
  "find_loop ax ebx f =
     (case ebx of None \<Rightarrow> Some None
      | Some i \<Rightarrow>
        do { b \<leftarrow> get_blink i f;
             if location b = ax then Some (Some i) else find_loop ax (next_blink b) f })"

text \<open>Only the low 16 bits of the argument count.\<close>

definition mp1_find_helper :: "u32 \<Rightarrow> 's fish \<Rightarrow> nat option option" where
  "mp1_find_helper loc f = find_loop (ucast loc) (mp1_list_head f) f"

definition mp1_ioctl_add :: "'s os \<Rightarrow> blink \<Rightarrow> 's fish \<Rightarrow> (int \<times> 's fish) option" where
  "mp1_ioctl_add os b f =
     (if location b \<ge> 80 * 25 then Some (-1, f)
      else
        let b = b\<lparr>blink_status := 1, countdown := on_length b\<rparr> in
        case mp1_malloc f of None \<Rightarrow> Some (-1, f)
        | Some i \<Rightarrow>
          do { let f = set_blink i b f;
               let f = set_blink i (b\<lparr>next_blink := mp1_list_head f\<rparr>) f;
               let f = f\<lparr>mp1_list_head := Some i\<rparr>;
               f \<leftarrow> mp1_poke os (on_char b) (cell b) f;
               Some (0, f) })"

text \<open>
  The word that points to the element: \<^verbatim>\<open>mp1_list_head\<close> (\<^term>\<open>None\<close>) or the link in a structure. Going on from a
  null pointer would be a page fault.
\<close>

definition link_at :: "nat option \<Rightarrow> 's fish \<Rightarrow> nat option" where
  "link_at e f = (case e of None \<Rightarrow> mp1_list_head f | Some j \<Rightarrow> next_blink (blink_array f ! j))"

definition set_link :: "nat option \<Rightarrow> nat option \<Rightarrow> 's fish \<Rightarrow> 's fish" where
  "set_link e p f = (case e of None \<Rightarrow> f\<lparr>mp1_list_head := p\<rparr>
     | Some j \<Rightarrow> set_blink j ((blink_array f ! j)\<lparr>next_blink := p\<rparr>) f)"

partial_function (option) remove_find_prev :: "nat \<Rightarrow> nat option \<Rightarrow> 's fish \<Rightarrow> nat option option" where
  "remove_find_prev i edx f =
     (if link_at edx f = Some i then Some edx
      else case link_at edx f of None \<Rightarrow> None
        | Some j \<Rightarrow> remove_find_prev i (Some j) f)"

definition mp1_ioctl_remove :: "u32 \<Rightarrow> 's fish \<Rightarrow> (int \<times> 's fish) option" where
  "mp1_ioctl_remove loc f =
     do { r \<leftarrow> mp1_find_helper loc f;
          case r of None \<Rightarrow> Some (-1, f)
          | Some i \<Rightarrow>
            do { e \<leftarrow> remove_find_prev i None f;
                 b \<leftarrow> get_blink i f;
                 let f = set_link e (next_blink b) f;
                 Some (0, mp1_free i f) } }"

text \<open>
  \<^verbatim>\<open>testb $0x1,STATUS\<close> clears the overflow flag and sets the sign flag from the top bit of the result, so the
  condition of \<^verbatim>\<open>cmovl\<close> is that bit.
\<close>

definition mp1_ioctl_sync :: "'s os \<Rightarrow> u32 \<Rightarrow> 's fish \<Rightarrow> (int \<times> 's fish) option" where
  "mp1_ioctl_sync os arg f =
     do { src \<leftarrow> mp1_find_helper (drop_bit 16 arg) f;
          case src of None \<Rightarrow> Some (-1, f)
          | Some esi \<Rightarrow>
            do { dst \<leftarrow> mp1_find_helper (arg AND 0xFFFF) f;
                 case dst of None \<Rightarrow> Some (-1, f)
                 | Some edi \<Rightarrow>
                   do { s \<leftarrow> get_blink esi f;
                        d \<leftarrow> get_blink edi f;
                        let d = d\<lparr>on_length := on_length s, off_length := off_length s, countdown := countdown s,
                              blink_status := blink_status s\<rparr>;
                        let f = set_blink edi d f;
                        f \<leftarrow> mp1_poke os (if bit (ucast (blink_status d) AND (1 :: u8)) 7 then on_char d else off_char d)
                              (cell d) f;
                        Some (0, f) } } }"

text \<open>\<^verbatim>\<open>mp1_ioctl_find\<close> copies the structure to the caller's.\<close>

definition mp1_ioctl_find :: "blink \<Rightarrow> 's fish \<Rightarrow> (int \<times> blink) option" where
  "mp1_ioctl_find u f =
     do { r \<leftarrow> mp1_find_helper (ucast (location u)) f;
          case r of None \<Rightarrow> Some (-1, u) | Some i \<Rightarrow> do { b \<leftarrow> get_blink i f; Some (0, b) } }"

section \<open>fish.c\<close>

text \<open>\<open>var\<close> is the address of \<^verbatim>\<open>vmem_base_addr\<close>; the result is the pointer the call returns.\<close>

definition load_ptr :: "'s os \<Rightarrow> u32 \<Rightarrow> 's \<Rightarrow> u32 option" where
  "load_ptr os a st =
     do { b0 \<leftarrow> os_load os a st; b1 \<leftarrow> os_load os (a + 1) st; b2 \<leftarrow> os_load os (a + 2) st; b3 \<leftarrow> os_load os (a + 3) st;
          Some (ucast b0 OR push_bit 8 (ucast b1) OR push_bit 16 (ucast b2) OR push_bit 24 (ucast b3)) }"

definition mp1_set_video_mode :: "'s os \<Rightarrow> u32 \<Rightarrow> 's fish \<Rightarrow> (u32 \<times> 's fish) option" where
  "mp1_set_video_mode os var f =
     do { (r, s) \<leftarrow> os_vidmap os var (fsys f);
          let f = f\<lparr>fsys := s\<rparr>;
          if r = -1 then Some (0, f)
          else do { p \<leftarrow> load_ptr os var (fsys f); Some (p, f\<lparr>vmem_base_addr := p\<rparr>) } }"

text \<open>One call of \<^verbatim>\<open>ece391_read(fd, &c, 1)\<close> unless \<open>c\<close> is a newline, with the end-of-file mark.\<close>

definition next_char :: "'s os \<Rightarrow> int \<Rightarrow> u8 \<times> bool \<times> 's fish \<Rightarrow> (u8 \<times> bool \<times> 's fish) option" where
  "next_char os fd = (\<lambda>(c, eof, f).
     if c \<noteq> 10 then
       do { (num_bytes, cs, s) \<leftarrow> os_read os fd [c] 1 (fsys f);
            c \<leftarrow> idx cs 0;
            let f = f\<lparr>fsys := s\<rparr>;
            Some (if num_bytes = 0 then (10, True, f) else (c, eof, f)) }
     else Some (c, eof, f))"

text \<open>\<open>b\<close> is the local structure \<^verbatim>\<open>blink_struct\<close> of \<^verbatim>\<open>add_frames\<close>, here for one place of the frames.\<close>

definition frame_cell :: "'s os \<Rightarrow> blink \<Rightarrow> int \<Rightarrow> int \<Rightarrow> u8 \<Rightarrow> u8 \<Rightarrow> 's fish \<Rightarrow> (blink \<times> 's fish) option" where
  "frame_cell os b row col c0 c1 f =
     (if c0 \<noteq> 32 \<and> c0 \<noteq> 10 \<or> c1 \<noteq> 32 \<and> c1 \<noteq> 10 then
        do { let b = b\<lparr>on_char := (if c0 = 10 then 32 else c0), off_char := (if c1 = 10 then 32 else c1),
                   location := word_of_int (row * 80 + col + 40)\<rparr>;
             (_, f) \<leftarrow> mp1_ioctl_add os b f;
             Some (b, f) }
      else Some (b, f))"

partial_function (option) frame_line :: "'s os \<Rightarrow> int \<Rightarrow> int \<Rightarrow> blink \<Rightarrow> int \<Rightarrow> int \<Rightarrow> u8 \<Rightarrow> u8 \<Rightarrow> bool \<Rightarrow> bool \<Rightarrow>
    's fish \<Rightarrow> (blink \<times> bool \<times> bool \<times> 's fish) option" where
  "frame_line os fd0 fd1 b row col c0 c1 eof0 eof1 f =
     do { (c0, eof0, f) \<leftarrow> next_char os fd0 (c0, eof0, f);
          (c1, eof1, f) \<leftarrow> next_char os fd1 (c1, eof1, f);
          if c0 = 10 \<and> c1 = 10 then Some (b, eof0, eof1, f)
          else do { (b, f) \<leftarrow> frame_cell os b row col c0 c1 f;
                    frame_line os fd0 fd1 b row (col + 1) c0 c1 eof0 eof1 f } }"

partial_function (option) frame_rows :: "'s os \<Rightarrow> int \<Rightarrow> int \<Rightarrow> blink \<Rightarrow> int \<Rightarrow> u8 \<Rightarrow> u8 \<Rightarrow> bool \<Rightarrow> bool \<Rightarrow>
    's fish \<Rightarrow> 's fish option" where
  "frame_rows os fd0 fd1 b row c0 c1 eof0 eof1 f =
     (if \<not> eof0 \<or> \<not> eof1 then
        do { (b, eof0, eof1, f) \<leftarrow> frame_line os fd0 fd1 b row 0 c0 c1 eof0 eof1 f;
             f \<leftarrow> (if eof0 then do { (_, s) \<leftarrow> os_close os fd0 (fsys f); Some (f\<lparr>fsys := s\<rparr>) } else Some f);
             f \<leftarrow> (if eof1 then do { (_, s) \<leftarrow> os_close os fd1 (fsys f); Some (f\<lparr>fsys := s\<rparr>) } else Some f);
             frame_rows os fd0 fd1 b (row + 1) (if eof0 then 10 else 48) (if eof1 then 10 else 48) eof0 eof1 f }
      else Some f)"

text \<open>\<^verbatim>\<open>add_frames\<close>; the status when it halts the program. \<open>b\<close> is what is on the stack.\<close>

definition add_frames :: "'s os \<Rightarrow> blink \<Rightarrow> u8 list \<Rightarrow> u8 list \<Rightarrow> 's fish \<Rightarrow> (int option \<times> 's fish) option" where
  "add_frames os b f0 f1 f =
     do { let b = b\<lparr>on_length := 15, off_length := 15\<rparr>;
          (fd0, s) \<leftarrow> os_open os f0 (fsys f);
          let f = f\<lparr>fsys := s\<rparr>;
          if fd0 < 0 then Some (Some (-1), f)
          else
            do { (fd1, s) \<leftarrow> os_open os f1 (fsys f);
                 let f = f\<lparr>fsys := s\<rparr>;
                 if fd1 < 0 then Some (Some (-1), f)
                 else do { f \<leftarrow> frame_rows os fd0 fd1 b 0 48 48 False False f; Some (None, f) } } }"

text \<open>The loop that waits for the clock and runs the tasklet, \<^verbatim>\<open>WAIT\<close> times.\<close>

definition WAIT :: nat where "WAIT = 100"

definition wait_tick :: "'s os \<Rightarrow> int \<Rightarrow> nat \<Rightarrow> u8 list \<times> 's fish \<Rightarrow> (u8 list \<times> 's fish) option" where
  "wait_tick os rtc_fd i = (\<lambda>(garbage, f).
     do { (_, garbage, s) \<leftarrow> os_read os rtc_fd garbage 4 (fsys f);
          f \<leftarrow> mp1_rtc_tasklet os (f\<lparr>fsys := s\<rparr>);
          Some (garbage, f) })"

definition fish_main :: "'s os \<Rightarrow> u32 \<Rightarrow> blink \<Rightarrow> blink \<Rightarrow> u8 list \<Rightarrow> 's fish \<Rightarrow> (int \<times> 's fish) option" where
  "fish_main os var b0 b garbage f =
     do { let f = f\<lparr>blink_array := replicate BLINKS blink_zero\<rparr>;
          (p, f) \<leftarrow> mp1_set_video_mode os var f;
          if p = 0 then Some (-1, f)
          else
            do { (rtc_fd, s) \<leftarrow> os_open os (lit ''rtc'') (fsys f);
                 (halted, f) \<leftarrow> add_frames os b0 (lit ''frame0.txt'') (lit ''frame1.txt'') (f\<lparr>fsys := s\<rparr>);
                 case halted of Some r \<Rightarrow> Some (r, f)
                 | None \<Rightarrow>
                   do { (_, s) \<leftarrow> os_write os rtc_fd [32, 0, 0, 0] 4 (fsys f);
                        (garbage, f) \<leftarrow> foldM (wait_tick os rtc_fd) [0..<WAIT] (garbage, f\<lparr>fsys := s\<rparr>);
                        let b = b\<lparr>on_char := 73, off_char := 77, on_length := 7, off_length := 6,
                              location := 6 * 80 + 60\<rparr>;
                        (_, f) \<leftarrow> mp1_ioctl_add os b f;
                        (garbage, f) \<leftarrow> foldM (wait_tick os rtc_fd) [0..<WAIT] (garbage, f);
                        (_, f) \<leftarrow> mp1_ioctl_sync os (push_bit 16 40 OR (6 * 80 + 60)) f;
                        (garbage, f) \<leftarrow> foldM (wait_tick os rtc_fd) [0..<WAIT] (garbage, f);
                        (_, f) \<leftarrow> mp1_ioctl_remove (6 * 80 + 60) f;
                        (garbage, f) \<leftarrow> foldM (wait_tick os rtc_fd) [0..<WAIT] (garbage, f);
                        (_, s) \<leftarrow> os_close os rtc_fd (fsys f);
                        Some (0, f\<lparr>fsys := s\<rparr>) } } }"

end
