(* ===== verification/BlinkProps.thy ===== *)
theory BlinkProps
  imports Blink
begin

text \<open>
  The linked structures of \<^verbatim>\<open>blink.S\<close> refine a list of blinking characters: adding puts one in front, removing
  takes the first at a location away, and the tasklet counts each one down and shows those that are due.
\<close>

section \<open>The list\<close>

text \<open>
  One tick: the structure after it, and the character that is shown, if any. \<open>pk\<close> shows a character in a cell
  of the screen.
\<close>

definition due :: "blink \<Rightarrow> bool" where
  "due b \<longleftrightarrow> sint (countdown b - 1) \<le> 0"

definition tick :: "blink \<Rightarrow> blink" where
  "tick b = (if due b then b\<lparr>countdown := if blink_status b AND 1 \<noteq> 0 then off_length b else on_length b,
       blink_status := blink_status b XOR 1\<rparr>
     else b\<lparr>countdown := countdown b - 1\<rparr>)"

definition draw :: "(u32 \<Rightarrow> u8 \<Rightarrow> 'o \<Rightarrow> 'o) \<Rightarrow> blink \<Rightarrow> 'o \<Rightarrow> 'o" where
  "draw pk b = (if due b then pk (cell b) (if blink_status b AND 1 \<noteq> 0 then off_char b else on_char b) else id)"

fun s_remove :: "u16 \<Rightarrow> blink list \<Rightarrow> blink list" where
  "s_remove a [] = []"
| "s_remove a (b # l) = (if location b = a then l else b # s_remove a l)"

fun s_update :: "u16 \<Rightarrow> (blink \<Rightarrow> blink) \<Rightarrow> blink list \<Rightarrow> blink list" where
  "s_update a g [] = []"
| "s_update a g (b # l) = (if location b = a then g b # l else b # s_update a g l)"

definition copy_times :: "blink \<Rightarrow> blink \<Rightarrow> blink" where
  "copy_times s d = d\<lparr>on_length := on_length s, off_length := off_length s, countdown := countdown s, blink_status := blink_status s\<rparr>"

text \<open>The four operations on the list and the screen.\<close>

type_synonym 'o scene = "blink list \<times> 'o"

definition a_tick :: "(u32 \<Rightarrow> u8 \<Rightarrow> 'o \<Rightarrow> 'o) \<Rightarrow> 'o scene \<Rightarrow> 'o scene" where
  "a_tick pk = (\<lambda>(l, out). (map tick l, fold (draw pk) l out))"

definition a_add :: "(u32 \<Rightarrow> u8 \<Rightarrow> 'o \<Rightarrow> 'o) \<Rightarrow> blink \<Rightarrow> 'o scene \<Rightarrow> 'o scene" where
  "a_add pk b = (\<lambda>(l, out).
     if location b < 2000 \<and> length l < BLINKS
     then (b\<lparr>blink_status := 1, countdown := on_length b, next_blink := None\<rparr> # l, pk (cell b) (on_char b) out)
     else (l, out))"

definition a_remove :: "u16 \<Rightarrow> 'o scene \<Rightarrow> 'o scene" where
  "a_remove a = (\<lambda>(l, out). (s_remove a l, out))"

definition a_sync :: "(u32 \<Rightarrow> u8 \<Rightarrow> 'o \<Rightarrow> 'o) \<Rightarrow> u16 \<Rightarrow> u16 \<Rightarrow> 'o scene \<Rightarrow> 'o scene" where
  "a_sync pk src dst = (\<lambda>(l, out).
     case (find (\<lambda>b. location b = src) l, find (\<lambda>b. location b = dst) l) of
       (Some s, Some d) \<Rightarrow> (s_update dst (copy_times s) l, pk (cell d) (off_char d) out)
     | _ \<Rightarrow> (l, out))"

section \<open>The representation\<close>

fun chain :: "blink list \<Rightarrow> nat option \<Rightarrow> nat list \<Rightarrow> bool" where
  "chain arr p [] \<longleftrightarrow> p = None"
| "chain arr p (i # is) \<longleftrightarrow> p = Some i \<and> i < length arr \<and> chain arr (next_blink (arr ! i)) is"

definition plain :: "blink \<Rightarrow> blink" where "plain b = b\<lparr>next_blink := None\<rparr>"

definition linked :: "'s fish \<Rightarrow> nat list \<Rightarrow> bool" where
  "linked f is \<longleftrightarrow> length (blink_array f) = BLINKS \<and> chain (blink_array f) (mp1_list_head f) is \<and> distinct is \<and>
     (\<forall>i<BLINKS. i \<in> set is \<longleftrightarrow> location (blink_array f ! i) \<noteq> 0) \<and>
     (\<forall>i\<in>set is. location (blink_array f ! i) < 2000)"

definition blinks :: "'s fish \<Rightarrow> blink list \<Rightarrow> bool" where
  "blinks f l \<longleftrightarrow> (\<exists>is. linked f is \<and> l = map (\<lambda>i. plain (blink_array f ! i)) is)"

lemma chain_less: "chain arr p is \<Longrightarrow> i \<in> set is \<Longrightarrow> i < length arr"
  by (induction "is" arbitrary: p) auto

lemma chain_update: "chain arr p is \<Longrightarrow> (i \<in> set is \<Longrightarrow> next_blink b = next_blink (arr ! i)) \<Longrightarrow> chain (arr[i := b]) p is"
proof (induction "is" arbitrary: p)
  case (Cons j "is")
  then show ?case by (cases "i = j") auto
qed simp

lemma map_update_neq: "j \<notin> set is \<Longrightarrow> map (\<lambda>i. g (arr[j := b] ! i)) is = map (\<lambda>i. g (arr ! i)) is"
  by (induction "is") auto

lemma fish_simps [simp]:
  "blink_array (set_blink i b f) = (blink_array f)[i := b]" "mp1_list_head (set_blink i b f) = mp1_list_head f"
  "vmem_base_addr (set_blink i b f) = vmem_base_addr f" "fsys (set_blink i b f) = fsys f"
  by (simp_all add: set_blink_def)

lemma plain_simps [simp]:
  "location (plain b) = location b" "off_char (plain b) = off_char b" "due (plain b) = due b" "draw pk (plain b) = draw pk b" "cell (plain b) = cell b"
  "plain (tick b) = tick (plain b)" "location (tick b) = location b" "next_blink (tick b) = next_blink b"
  by (simp_all add: plain_def due_def draw_def cell_def tick_def)

lemma cell_less: "location b < 2000 \<Longrightarrow> cell b < 4000"
proof -
  assume "location b < 2000"
  then have "unat (location b) < 2000" by (simp add: word_less_nat_alt)
  moreover from this have "unat (ucast (location b) :: u32) = unat (location b)"
    by (simp add: unsigned_ucast_eq take_bit_nat_eq_self)
  ultimately show ?thesis
    by (simp add: cell_def push_bit_eq_mult word_less_nat_alt unat_word_ariths)
qed

text \<open>
  The program can store in the video memory at \<open>vm\<close> in the states that satisfy \<open>P\<close>; \<open>outp\<close> is what a state
  shows, and \<open>pk\<close> what a store does to it.
\<close>

locale video_memory =
  fixes os :: "'s os" and vm :: u32 and P :: "'s \<Rightarrow> bool" and outp :: "'s \<Rightarrow> 'o"
    and pk :: "u32 \<Rightarrow> u8 \<Rightarrow> 'o \<Rightarrow> 'o"
  assumes store: "P s \<Longrightarrow> x < 4000 \<Longrightarrow>
    \<exists>s'. os_store os (vm + x) c s = Some s' \<and> P s' \<and> outp s' = pk x c (outp s)"
begin

definition sees :: "'s fish \<Rightarrow> 'o \<Rightarrow> bool" where
  "sees f out \<longleftrightarrow> vmem_base_addr f = vm \<and> P (fsys f) \<and> outp (fsys f) = out"

definition showing :: "'s fish \<Rightarrow> 'o scene \<Rightarrow> bool" where
  "showing f = (\<lambda>(l, out). blinks f l \<and> sees f out)"

lemma sees_simps [simp]:
  "sees (f\<lparr>blink_array := arr\<rparr>) out = sees f out" "sees (f\<lparr>mp1_list_head := h\<rparr>) out = sees f out"
  "sees (f\<lparr>blink_array := arr, fsys := s\<rparr>) out = sees (f\<lparr>fsys := s\<rparr>) out"
  "sees (f\<lparr>blink_array := arr, mp1_list_head := h, fsys := s\<rparr>) out = sees (f\<lparr>fsys := s\<rparr>) out"
  "sees (set_blink i b f) out = sees f out"
  by (simp_all add: sees_def)

lemma pokeE:
  assumes "sees f out" and "location b < 2000"
  obtains s where "mp1_poke os c (cell b) f = Some (f\<lparr>fsys := s\<rparr>)" and "sees (f\<lparr>fsys := s\<rparr>) (pk (cell b) c out)"
  using assms store [of "fsys f" "cell b" c] cell_less [of b] by (auto simp: mp1_poke_def sees_def)

section \<open>The tasklet\<close>

lemma tasklet_stepE:
  assumes "sees f out" and "i < length (blink_array f)" and "location (blink_array f ! i) < 2000"
  obtains s where "tasklet_step os i f = Some (f\<lparr>blink_array := (blink_array f)[i := tick (blink_array f ! i)], fsys := s\<rparr>)"
    and "sees (f\<lparr>fsys := s\<rparr>) (draw pk (blink_array f ! i) out)"
proof -
  let ?b = "blink_array f ! i"
  let ?v = "if blink_status ?b AND 1 \<noteq> 0 then off_char ?b else on_char ?b"
  have c: "cell (?b\<lparr>countdown := x\<rparr>) = cell ?b" for x by (simp add: cell_def)
  obtain s where s: "mp1_poke os ?v (cell ?b) f = Some (f\<lparr>fsys := s\<rparr>)" "sees (f\<lparr>fsys := s\<rparr>) (pk (cell ?b) ?v out)"
    by (rule pokeE [OF assms(1,3)])
  have p: "mp1_poke os ?v (cell ?b) (f\<lparr>blink_array := arr\<rparr>) = Some (f\<lparr>blink_array := arr, fsys := s\<rparr>)" for arr
    using s(1) by (auto simp: mp1_poke_def dest: arg_cong [of _ _ fsys])
  show ?thesis
  proof (cases "due ?b")
    case True
    show ?thesis
    proof (rule that)
      show "tasklet_step os i f = Some (f\<lparr>blink_array := (blink_array f)[i := tick ?b], fsys := s\<rparr>)"
        using True assms(2) p
        by (cases "blink_status ?b AND 1 \<noteq> 0")
          (simp_all add: tasklet_step_def get_blink_def c tick_def due_def set_blink_def not_less Let_def)
      show "sees (f\<lparr>fsys := s\<rparr>) (draw pk ?b out)" using s(2) True by (simp add: draw_def)
    qed
  next
    case False
    show ?thesis
    proof (rule that)
      show "tasklet_step os i f = Some (f\<lparr>blink_array := (blink_array f)[i := tick ?b], fsys := fsys f\<rparr>)"
        using False assms(2) by (simp add: tasklet_step_def get_blink_def tick_def due_def set_blink_def not_le Let_def)
      show "sees (f\<lparr>fsys := fsys f\<rparr>) (draw pk ?b out)" using assms(1) False by (simp add: draw_def sees_def)
    qed
  qed
qed

lemma tasklet_loop_ticks:
  assumes "sees f out" and "chain (blink_array f) p is" and "distinct is"
    and "\<forall>i\<in>set is. location (blink_array f ! i) < 2000"
  shows "\<exists>arr s. tasklet_loop os p f = Some (f\<lparr>blink_array := arr, fsys := s\<rparr>) \<and>
    sees (f\<lparr>fsys := s\<rparr>) (fold (draw pk) (map ((!) (blink_array f)) is) out) \<and> length arr = length (blink_array f) \<and>
    (\<forall>i<length arr. arr ! i = (if i \<in> set is then tick (blink_array f ! i) else blink_array f ! i))"
  using assms
proof (induction "is" arbitrary: p f out)
  case Nil
  then show ?case by (subst tasklet_loop.simps) (auto intro!: exI [of _ "blink_array f"] exI [of _ "fsys f"])
next
  case (Cons i "is")
  have i: "p = Some i" "i < length (blink_array f)" "chain (blink_array f) (next_blink (blink_array f ! i)) is" "i \<notin> set is"
    using Cons.prems by auto
  obtain s where s: "tasklet_step os i f = Some (f\<lparr>blink_array := (blink_array f)[i := tick (blink_array f ! i)], fsys := s\<rparr>)"
    "sees (f\<lparr>fsys := s\<rparr>) (draw pk (blink_array f ! i) out)"
    by (rule tasklet_stepE [OF Cons.prems(1) i(2)]) (use Cons.prems(4) in auto)
  let ?f = "f\<lparr>blink_array := (blink_array f)[i := tick (blink_array f ! i)], fsys := s\<rparr>"
  have m: "map ((!) ((blink_array f)[i := b])) is = map ((!) (blink_array f)) is" for b
    using map_update_neq [OF i(4), of "\<lambda>b. b"] by simp
  have c: "chain ((blink_array f)[i := b]) (next_blink (blink_array f ! i)) is" for b
    using chain_update [OF i(3)] i(4) by blast
  have "\<forall>j\<in>set is. location (blink_array ?f ! j) < 2000"
  proof
    fix j assume "j \<in> set is"
    moreover from this have "i \<noteq> j" using i(4) by auto
    ultimately show "location (blink_array ?f ! j) < 2000" using Cons.prems(4) by simp
  qed
  then obtain arr s' where a: "tasklet_loop os (next_blink (blink_array f ! i)) ?f = Some (?f\<lparr>blink_array := arr, fsys := s'\<rparr>)"
    "sees (f\<lparr>fsys := s'\<rparr>) (fold (draw pk) (map ((!) (blink_array f)) (i # is)) out)"
    "length arr = length (blink_array ?f)"
    "\<forall>j<length arr. arr ! j = (if j \<in> set is then tick (blink_array ?f ! j) else blink_array ?f ! j)"
    using Cons.IH [of ?f "draw pk (blink_array f ! i) out" "next_blink (blink_array f ! i)"] Cons.prems(3) c s(2)
    by (auto simp: m)
  have "tasklet_loop os p f = Some (f\<lparr>blink_array := arr, fsys := s'\<rparr>)"
    using a(1) i(1,2) by (subst tasklet_loop.simps) (simp add: s(1) get_blink_def)
  then show ?case using a(2-4) i(2,4) by (intro exI [of _ arr] exI [of _ s']) (auto simp: nth_list_update)
qed

lemma tasklet_refines:
  assumes "showing f (l, out)"
  shows "\<exists>f'. mp1_rtc_tasklet os f = Some f' \<and> showing f' (a_tick pk (l, out))"
proof -
  have o: "sees f out" "blinks f l" using assms by (simp_all add: showing_def)
  obtain "is" where l: "linked f is" "l = map (\<lambda>i. plain (blink_array f ! i)) is" using o(2) by (auto simp: blinks_def)
  then obtain arr s where a: "mp1_rtc_tasklet os f = Some (f\<lparr>blink_array := arr, fsys := s\<rparr>)"
    "sees (f\<lparr>fsys := s\<rparr>) (fold (draw pk) (map ((!) (blink_array f)) is) out)" "length arr = length (blink_array f)"
    "\<forall>i<length arr. arr ! i = (if i \<in> set is then tick (blink_array f ! i) else blink_array f ! i)"
    using tasklet_loop_ticks [OF o(1), of "mp1_list_head f" "is"] by (auto simp: linked_def mp1_rtc_tasklet_def)
  have "chain (blink_array f) (mp1_list_head f) is" using l(1) by (simp add: linked_def)
  then have n: "\<And>i. i \<in> set is \<Longrightarrow> i < length arr" using chain_less a(3) by metis
  have c: "chain arr p js" if "chain (blink_array f) p js" "set js \<subseteq> set is" for p js
    using that n a(4) by (induction js arbitrary: p) auto
  have d: "fold (draw pk) (map (\<lambda>i. plain (blink_array f ! i)) js) s = fold (draw pk) (map ((!) (blink_array f)) js) s" for js s
    by (induction js arbitrary: s) auto
  have "linked (f\<lparr>blink_array := arr, fsys := s\<rparr>) is"
    using l(1) a(3,4) n c by (auto simp: linked_def)
  moreover have "map tick l = map (\<lambda>i. plain (arr ! i)) is" using l(2) a(4) n by auto
  ultimately have "blinks (f\<lparr>blink_array := arr, fsys := s\<rparr>) (map tick l)"
    unfolding blinks_def by (intro exI [of _ "is"]) simp
  then show ?thesis using a(1,2) l(2) d by (auto simp: showing_def a_tick_def)
qed

end

section \<open>Search, insertion and removal\<close>

lemma find_loop_finds:
  assumes "chain (blink_array f) p is"
  shows "find_loop a p f = Some (find (\<lambda>i. location (blink_array f ! i) = a) is)"
  using assms
proof (induction "is" arbitrary: p)
  case Nil
  then show ?case by (subst find_loop.simps) simp
next
  case (Cons i "is")
  then show ?case by (subst find_loop.simps) (simp add: get_blink_def)
qed

lemma malloc_free:
  assumes "linked f is" and "length is < BLINKS"
  obtains i where "mp1_malloc f = Some i" and "i < BLINKS" and "i \<notin> set is" and "location (blink_array f ! i) = 0"
proof -
  have "card (set is) < card {..<BLINKS}" using assms distinct_card [of "is"] by (simp add: linked_def)
  then obtain j where "j < BLINKS" "j \<notin> set is"
    by (metis card_mono finite_set leD lessThan_iff subsetI)
  then have "\<exists>x\<in>set [0..<BLINKS]. location (blink_array f ! x) = 0" using assms(1) by (auto simp: linked_def)
  then have "mp1_malloc f \<noteq> None" by (auto simp: mp1_malloc_def find_None_iff)
  then obtain i where i: "mp1_malloc f = Some i" by blast
  then have "i < BLINKS" "location (blink_array f ! i) = 0"
    by (auto simp: mp1_malloc_def find_Some_iff)
  then show ?thesis using that i assms(1) by (auto simp: linked_def)
qed

lemma malloc_full:
  assumes "linked f is" and "\<not> length is < BLINKS"
  shows "mp1_malloc f = None"
proof -
  have s: "set is \<subseteq> {..<BLINKS}" using assms(1) chain_less by (fastforce simp: linked_def)
  have "card (set is) = length is" using assms(1) by (simp add: linked_def distinct_card)
  then have "set is = {..<BLINKS}" using s assms(2) by (intro card_seteq) auto
  then show ?thesis using assms(1) by (auto simp: mp1_malloc_def find_None_iff linked_def)
qed

context video_memory
begin

lemma add_refines:
  assumes "showing f (l, out)" and "location b \<noteq> 0"
  shows "\<exists>f'. mp1_ioctl_add os b f = Some (if location b < 2000 \<and> length l < BLINKS then 0 else -1, f') \<and>
    showing f' (a_add pk b (l, out))"
proof -
  have o: "sees f out" "blinks f l" using assms(1) by (simp_all add: showing_def)
  obtain "is" where l: "linked f is" "l = map (\<lambda>i. plain (blink_array f ! i)) is" using o(2) by (auto simp: blinks_def)
  let ?b = "b\<lparr>blink_status := 1, countdown := on_length b\<rparr>"
  consider "\<not> location b < 2000" | "location b < 2000" "\<not> length l < BLINKS" | "location b < 2000" "length l < BLINKS"
    by blast
  then show ?thesis
  proof cases
    case 1
    then show ?thesis using assms(1) by (auto simp: mp1_ioctl_add_def a_add_def not_less)
  next
    case 2
    then have "mp1_malloc f = None" using malloc_full [OF l(1)] l(2) by simp
    then show ?thesis using assms(1) 2 by (auto simp: mp1_ioctl_add_def a_add_def not_le)
  next
    case 3
    obtain i where i: "mp1_malloc f = Some i" "i < BLINKS" "i \<notin> set is" "location (blink_array f ! i) = 0"
      by (rule malloc_free [OF l(1)]) (use l(2) 3 in simp_all)
    let ?n = "?b\<lparr>next_blink := mp1_list_head f\<rparr>"
    let ?g = "f\<lparr>blink_array := (blink_array f)[i := ?n], mp1_list_head := Some i\<rparr>"
    have L: "length (blink_array f) = BLINKS" "chain (blink_array f) (mp1_list_head f) is" "distinct is"
      using l(1) by (simp_all add: linked_def)
    have c: "cell ?b = cell b" by (simp add: cell_def)
    obtain s where s: "mp1_poke os (on_char b) (cell b) ?g = Some (?g\<lparr>fsys := s\<rparr>)"
      "sees (?g\<lparr>fsys := s\<rparr>) (pk (cell b) (on_char b) out)"
      by (rule pokeE [of ?g out b]) (use o(1) 3 in simp_all)
    let ?f = "?g\<lparr>fsys := s\<rparr>"
    have e: "mp1_ioctl_add os b f = Some (0, ?f)"
      using 3(1) i(1) s(1) by (simp add: mp1_ioctl_add_def set_blink_def c not_le)
    have "linked ?f (i # is)"
    proof -
      have "chain ((blink_array f)[i := ?n]) (mp1_list_head f) is" using chain_update [OF L(2)] i(3) by blast
      moreover have "location ((blink_array f)[i := ?n] ! j) = (if j = i then location b else location (blink_array f ! j))"
        if "j < BLINKS" for j using that L(1) by (simp add: nth_list_update)
      moreover have "\<forall>j\<in>set is. j < BLINKS" using chain_less [OF L(2)] L(1) by auto
      ultimately show ?thesis using l(1) i assms(2) 3(1) L(1) by (auto simp: linked_def)
    qed
    moreover have "map (\<lambda>j. plain (blink_array ?f ! j)) (i # is) = ?b\<lparr>next_blink := None\<rparr> # l"
      using i l(2) L(1) by (auto simp: plain_def nth_list_update)
    ultimately have "blinks ?f (?b\<lparr>next_blink := None\<rparr> # l)"
      unfolding blinks_def by (intro exI [of _ "i # is"]) simp
    then show ?thesis using e s(2) 3 by (auto simp: showing_def a_add_def)
  qed
qed

end

text \<open>The search for the word that points to an element, and what taking the element out leaves.\<close>

lemma remove_find_prev_finds:
  assumes "chain (blink_array f) p (xs @ i # ys)" and "distinct (xs @ i # ys)" and "link_at e f = p"
  shows "remove_find_prev i e f = Some (if xs = [] then e else Some (last xs))"
  using assms
proof (induction xs arbitrary: p e)
  case Nil
  then show ?case by (subst remove_find_prev.simps) simp
next
  case (Cons x xs)
  have "remove_find_prev i (Some x) f = Some (if xs = [] then Some x else Some (last xs))"
    using Cons.prems by (intro Cons.IH) (auto simp: link_at_def)
  then show ?case using Cons.prems by (subst remove_find_prev.simps) auto
qed

lemma chain_splice:
  assumes "chain arr p (zs @ j # i # ys)" and "distinct (zs @ j # i # ys)"
  shows "chain (arr[j := (arr ! j)\<lparr>next_blink := next_blink (arr ! i)\<rparr>]) p (zs @ j # ys)"
  using assms
proof (induction zs arbitrary: p)
  case Nil
  then show ?case using chain_update [of arr "next_blink (arr ! i)" ys j] by auto
qed auto

lemma plain_relink [simp]: "plain (arr[k := (arr ! k)\<lparr>next_blink := p\<rparr>] ! j) = plain (arr ! j)"
  by (cases "k < length arr"; cases "k = j") (simp_all add: plain_def list_update_beyond)

lemma chain_drop:
  assumes c: "chain (blink_array f) (mp1_list_head f) (xs @ i # ys)" and d: "distinct (xs @ i # ys)"
  defines "g \<equiv> set_link (if xs = [] then None else Some (last xs)) (next_blink (blink_array f ! i)) f"
  shows "chain (blink_array g) (mp1_list_head g) (xs @ ys)" and "length (blink_array g) = length (blink_array f)"
    and "plain (blink_array g ! j) = plain (blink_array f ! j)"
    and "fsys g = fsys f" and "vmem_base_addr g = vmem_base_addr f"
proof -
  show "chain (blink_array g) (mp1_list_head g) (xs @ ys)"
  proof (cases xs rule: rev_cases)
    case Nil
    then show ?thesis using c by (simp add: g_def set_link_def)
  next
    case (snoc zs z)
    then show ?thesis using chain_splice [of "blink_array f" "mp1_list_head f" zs z i ys] c d by (simp add: g_def set_link_def)
  qed
qed (auto simp: g_def set_link_def split: option.splits)

lemma s_remove_split:
  "\<forall>b\<in>set xs. location b \<noteq> a \<Longrightarrow> location b = a \<Longrightarrow> s_remove a (xs @ b # ys) = xs @ ys"
  by (induction xs) auto

lemma linked_find:
  assumes "linked f is"
  shows "mp1_find_helper a f = Some (find (\<lambda>i. location (blink_array f ! i) = ucast a) is)"
  using assms by (simp add: mp1_find_helper_def linked_def find_loop_finds)

lemma find_split:
  assumes "find P is = Some i"
  obtains xs ys where "is = xs @ i # ys" and "P i" and "\<forall>x\<in>set xs. \<not> P x"
  using assms
proof (induction "is" arbitrary: thesis)
  case (Cons j "is")
  show ?case
  proof (cases "P j")
    case True
    then show ?thesis using Cons.prems(1) [of "[]" "is"] Cons.prems(2) by simp
  next
    case False
    then have "find P is = Some i" using Cons.prems(2) by simp
    then obtain xs ys where "is = xs @ i # ys" "P i" "\<forall>x\<in>set xs. \<not> P x"
      using Cons.IH by blast
    then show ?thesis using Cons.prems(1) [of "j # xs" ys] False by simp
  qed
qed simp

lemma find_map_comp: "find P (map g xs) = map_option g (find (\<lambda>x. P (g x)) xs)"
  by (induction xs) auto

text \<open>The search on the structures and on the list.\<close>

lemma find_blink:
  assumes "linked f is" and "l = map (\<lambda>i. plain (blink_array f ! i)) is"
  shows "mp1_find_helper a f = Some None \<and> find (\<lambda>b. location b = ucast a) l = None \<or>
    (\<exists>i xs ys. mp1_find_helper a f = Some (Some i) \<and> find (\<lambda>b. location b = ucast a) l = Some (plain (blink_array f ! i)) \<and>
      is = xs @ i # ys \<and> location (blink_array f ! i) = ucast a \<and>
      (\<forall>x\<in>set xs. location (blink_array f ! x) \<noteq> ucast a) \<and> i < BLINKS)"
proof -
  have f: "mp1_find_helper a f = Some (find (\<lambda>i. location (blink_array f ! i) = ucast a) is)"
    using linked_find [OF assms(1)] .
  have g: "find (\<lambda>b. location b = ucast a) l = map_option (\<lambda>i. plain (blink_array f ! i)) (find (\<lambda>i. location (blink_array f ! i) = ucast a) is)"
    by (simp add: assms(2) find_map_comp)
  show ?thesis
  proof (cases "find (\<lambda>i. location (blink_array f ! i) = ucast a) is")
    case None
    then show ?thesis using f g by simp
  next
    case (Some i)
    from find_split [OF this] obtain xs ys where "is = xs @ i # ys" "location (blink_array f ! i) = ucast a"
      "\<forall>x\<in>set xs. location (blink_array f ! x) \<noteq> ucast a" by metis
    moreover from this have "i < BLINKS" using chain_less [of "blink_array f" "mp1_list_head f" "is" i] assms(1)
      by (simp add: linked_def)
    ultimately show ?thesis using f g Some by auto
  qed
qed

lemma find_noneD: "find P l = None \<Longrightarrow> \<forall>x\<in>set l. \<not> P x"
  by (simp add: find_None_iff)

lemma s_remove_none: "find (\<lambda>b. location b = a) l = None \<Longrightarrow> s_remove a l = l"
  by (induction l) (auto split: if_splits)

lemma s_update_split:
  "\<forall>b\<in>set xs. location b \<noteq> a \<Longrightarrow> location b = a \<Longrightarrow> s_update a g (xs @ b # ys) = xs @ g b # ys"
  by (induction xs) auto

lemma remove_linked:
  assumes l: "linked f is" and s: "is = xs @ i # ys"
  defines "g \<equiv> mp1_free i (set_link (if xs = [] then None else Some (last xs)) (next_blink (blink_array f ! i)) f)"
  shows "linked g (xs @ ys)" and "j \<in> set (xs @ ys) \<Longrightarrow> plain (blink_array g ! j) = plain (blink_array f ! j)"
    and "fsys g = fsys f" and "vmem_base_addr g = vmem_base_addr f"
proof -
  let ?g = "set_link (if xs = [] then None else Some (last xs)) (next_blink (blink_array f ! i)) f"
  have L: "length (blink_array f) = BLINKS" "chain (blink_array f) (mp1_list_head f) (xs @ i # ys)" "distinct (xs @ i # ys)"
    using l s by (simp_all add: linked_def)
  note D = chain_drop [OF L(2,3)]
  have loc: "location (blink_array ?g ! j) = location (blink_array f ! j)" for j
    using D(3) [of j] plain_simps(1) by metis
  have i: "i \<notin> set (xs @ ys)" using L(3) by auto
  then have "chain ((blink_array ?g)[i := blink_zero]) (mp1_list_head ?g) (xs @ ys)"
    using chain_update [OF D(1), of i blink_zero] by blast
  moreover have "location ((blink_array ?g)[i := blink_zero] ! j) = (if j = i then 0 else location (blink_array f ! j))"
    if "j < BLINKS" for j using that L(1) D(2) loc by (simp add: nth_list_update blink_zero_def)
  moreover have "\<forall>j\<in>set (xs @ ys). j < BLINKS" using chain_less [OF L(2)] L(1) by auto
  ultimately show "linked g (xs @ ys)"
    using l s L(1,3) D(2) unfolding linked_def mp1_free_def g_def fish_simps by auto
  show "plain (blink_array g ! j) = plain (blink_array f ! j)" if "j \<in> set (xs @ ys)"
  proof -
    have "i \<noteq> j" using that i by auto
    then show ?thesis using D(3) by (simp add: g_def mp1_free_def)
  qed
  show "fsys g = fsys f" "vmem_base_addr g = vmem_base_addr f" using D(4,5) by (simp_all add: g_def mp1_free_def)
qed

lemma update_linked:
  assumes l: "linked f is" and i: "i \<in> set is" and b: "location b = location (blink_array f ! i)"
    "next_blink b = next_blink (blink_array f ! i)"
  shows "linked (set_blink i b f) is"
proof -
  have "chain (blink_array f) (mp1_list_head f) is" using l by (simp add: linked_def)
  then have "chain ((blink_array f)[i := b]) (mp1_list_head f) is" "i < length (blink_array f)"
    using chain_update b(2) chain_less i by blast+
  moreover from this have "location ((blink_array f)[i := b] ! j) = location (blink_array f ! j)" for j
    using b(1) by (cases "i = j") simp_all
  ultimately show ?thesis using l by (simp add: linked_def)
qed

context video_memory
begin

lemma remove_refines:
  assumes "showing f (l, out)"
  shows "\<exists>f'. mp1_ioctl_remove a f = Some (if \<exists>b\<in>set l. location b = ucast a then 0 else -1, f') \<and>
    showing f' (a_remove (ucast a) (l, out))"
proof -
  have o: "sees f out" "blinks f l" using assms by (simp_all add: showing_def)
  obtain "is" where l: "linked f is" "l = map (\<lambda>i. plain (blink_array f ! i)) is" using o(2) by (auto simp: blinks_def)
  consider "mp1_find_helper a f = Some None" "find (\<lambda>b. location b = ucast a) l = None"
    | i xs ys where "mp1_find_helper a f = Some (Some i)" "is = xs @ i # ys" "location (blink_array f ! i) = ucast a"
      "\<forall>x\<in>set xs. location (blink_array f ! x) \<noteq> ucast a" "i < BLINKS"
    using find_blink [OF l, of a] by fastforce
  then show ?thesis
  proof cases
    case 1
    then show ?thesis using assms find_noneD [OF 1(2)] by (simp add: mp1_ioctl_remove_def a_remove_def s_remove_none)
  next
    case 2
    let ?e = "if xs = [] then None else Some (last xs)"
    let ?g = "mp1_free i (set_link ?e (next_blink (blink_array f ! i)) f)"
    have L: "length (blink_array f) = BLINKS" "chain (blink_array f) (mp1_list_head f) (xs @ i # ys)" "distinct (xs @ i # ys)"
      using l(1) 2(2) by (simp_all add: linked_def)
    note G = remove_linked [OF l(1) 2(2)]
    have "mp1_ioctl_remove a f = Some (0, ?g)"
      using 2(1,5) remove_find_prev_finds [OF L(2,3), of None] L(1)
      by (simp add: mp1_ioctl_remove_def get_blink_def link_at_def)
    moreover have "map (\<lambda>j. plain (blink_array ?g ! j)) (xs @ ys) = map (\<lambda>j. plain (blink_array f ! j)) (xs @ ys)"
      by (rule map_cong [OF refl G(2)])
    then have "s_remove (ucast a) l = map (\<lambda>j. plain (blink_array ?g ! j)) (xs @ ys)"
      using 2(2-4) by (simp add: l(2) s_remove_split)
    then have "blinks ?g (s_remove (ucast a) l)"
      unfolding blinks_def using G(1) by (intro exI [of _ "xs @ ys"]) simp
    moreover have "\<exists>b\<in>set l. location b = ucast a" using 2(2,3) by (auto simp: l(2))
    ultimately show ?thesis using o(1) G(3,4) by (auto simp: showing_def a_remove_def sees_def)
  qed
qed

lemma find_refines:
  assumes "showing f (l, out)"
  shows "\<exists>r u'. mp1_ioctl_find u f = Some (r, u') \<and> (case find (\<lambda>b. location b = location u) l of
    None \<Rightarrow> r = -1 \<and> u' = u | Some b \<Rightarrow> r = 0 \<and> plain u' = b)"
proof -
  obtain "is" where l: "linked f is" "l = map (\<lambda>i. plain (blink_array f ! i)) is"
    using assms by (auto simp: showing_def blinks_def)
  have "(ucast (ucast (location u) :: u32) :: u16) = location u" by (rule bit_word_eqI) (simp add: bit_simps)
  then show ?thesis using find_blink [OF l, of "ucast (location u)"] l(1)
    by (auto simp: mp1_ioctl_find_def get_blink_def linked_def split: option.splits)
qed

lemma sync_bit: "\<not> bit (ucast (w :: u16) AND (1 :: u8)) 7"
  by (simp add: bit_and_iff bit_1_iff)

lemma sync_refines:
  assumes "showing f (l, out)"
  shows "\<exists>f'. mp1_ioctl_sync os a f = Some (if (\<exists>b\<in>set l. location b = ucast (drop_bit 16 a)) \<and>
      (\<exists>b\<in>set l. location b = ucast (a AND 0xFFFF)) then 0 else -1, f') \<and>
    showing f' (a_sync pk (ucast (drop_bit 16 a)) (ucast (a AND 0xFFFF)) (l, out))"
proof -
  have o: "sees f out" "blinks f l" using assms by (simp_all add: showing_def)
  obtain "is" where l: "linked f is" "l = map (\<lambda>i. plain (blink_array f ! i)) is" using o(2) by (auto simp: blinks_def)
  let ?s = "ucast (drop_bit 16 a) :: u16" and ?d = "ucast (a AND 0xFFFF) :: u16"
  show ?thesis
  proof (cases "mp1_find_helper (drop_bit 16 a) f = Some None \<or> mp1_find_helper (a AND 0xFFFF) f = Some None")
    case True
    then show ?thesis using find_blink [OF l, of "drop_bit 16 a"] find_blink [OF l, of "a AND 0xFFFF"] assms
      by (auto simp: mp1_ioctl_sync_def a_sync_def split: option.splits dest: find_noneD)
  next
    case False
    obtain i where i: "mp1_find_helper (drop_bit 16 a) f = Some (Some i)" "i < BLINKS"
      "find (\<lambda>b. location b = ?s) l = Some (plain (blink_array f ! i))"
      using False find_blink [OF l, of "drop_bit 16 a"] by auto
    obtain j xs ys where j: "mp1_find_helper (a AND 0xFFFF) f = Some (Some j)" "j < BLINKS" "is = xs @ j # ys"
      "find (\<lambda>b. location b = ?d) l = Some (plain (blink_array f ! j))" "location (blink_array f ! j) = ?d"
      "\<forall>x\<in>set xs. location (blink_array f ! x) \<noteq> ?d"
      using False find_blink [OF l, of "a AND 0xFFFF"] by auto
    let ?b = "copy_times (blink_array f ! i) (blink_array f ! j)"
    have L: "length (blink_array f) = BLINKS" "j \<notin> set xs" "j \<notin> set ys" using l(1) j(3) by (auto simp: linked_def)
    have b: "location ?b = location (blink_array f ! j)" "next_blink ?b = next_blink (blink_array f ! j)"
      "cell ?b = cell (blink_array f ! j)" "off_char ?b = off_char (blink_array f ! j)"
      by (simp_all add: copy_times_def cell_def)
    have u: "linked (set_blink j ?b f) is" by (rule update_linked [OF l(1) _ b(1,2)]) (simp add: j(3))
    have "location (blink_array f ! j) < 2000" using l(1) j(3) by (simp add: linked_def)
    then obtain s where s: "mp1_poke os (off_char ?b) (cell ?b) (set_blink j ?b f) = Some ((set_blink j ?b f)\<lparr>fsys := s\<rparr>)"
      "sees ((set_blink j ?b f)\<lparr>fsys := s\<rparr>) (pk (cell ?b) (off_char ?b) out)"
      using pokeE [of "set_blink j ?b f" out ?b "off_char ?b"] o(1) b(1) by auto
    let ?g = "(set_blink j ?b f)\<lparr>fsys := s\<rparr>"
    have "mp1_ioctl_sync os a f = Some (0, ?g)"
      using i(1,2) j(1,2) L(1) s(1) sync_bit by (simp add: mp1_ioctl_sync_def get_blink_def Let_def copy_times_def)
    moreover have "map (\<lambda>k. plain (blink_array ?g ! k)) is = s_update ?d (copy_times (plain (blink_array f ! i))) l"
    proof -
      have "map (\<lambda>k. plain (blink_array ?g ! k)) zs = map (\<lambda>k. plain (blink_array f ! k)) zs" if "j \<notin> set zs" for zs
        using that by (simp add: map_update_neq)
      moreover have "plain ?b = copy_times (plain (blink_array f ! i)) (plain (blink_array f ! j))"
        by (simp add: copy_times_def plain_def)
      ultimately show ?thesis using j(2,3,5,6) L by (simp add: l(2) s_update_split)
    qed
    then have "blinks ?g (s_update ?d (copy_times (plain (blink_array f ! i))) l)"
      unfolding blinks_def using u by (intro exI [of _ "is"]) (simp add: linked_def)
    moreover have "\<exists>b\<in>set l. location b = ?s" "\<exists>b\<in>set l. location b = ?d"
      using i(3) j(4) by (auto simp: find_Some_iff)
    ultimately show ?thesis using s(2) i(3) j(4) b(3,4)
      by (auto simp: showing_def a_sync_def)
  qed
qed

end

section \<open>Location 0\<close>

text \<open>
  A structure at location 0 looks free to \<^verbatim>\<open>mp1_malloc\<close>: the next one at location 0 takes its place, its link then
  points to itself, and the tasklet does not end.
\<close>

lemma tasklet_step_links:
  "tasklet_step os i f = Some f' \<Longrightarrow> next_blink (blink_array f' ! j) = next_blink (blink_array f ! j) \<and>
     length (blink_array f') = length (blink_array f)"
  by (cases "i = j")
    (auto simp: tasklet_step_def get_blink_def mp1_poke_def bind_eq_Some_conv Let_def split: if_splits)

lemma self_link_loops:
  assumes "next_blink (blink_array f ! i) = Some i"
  shows "tasklet_loop os (Some i) f = None"
proof -
  have "\<not> (ebx = Some i \<and> next_blink (blink_array g ! i) = Some i)" if t: "tasklet_loop os ebx g = Some y"
    for os :: "'a os" and ebx g y
  proof (rule tasklet_loop.raw_induct [OF _ t])
    fix tl and os' :: "'a os" and ebx g y
    assume IH: "\<And>os ebx f y. tl os ebx f = Some y \<Longrightarrow> \<not> (ebx = Some i \<and> next_blink (blink_array f ! i) = Some i)"
      and r: "(case ebx of None \<Rightarrow> Some g | Some i \<Rightarrow> Option.bind (tasklet_step os' i g)
        (\<lambda>f. Option.bind (get_blink i f) (\<lambda>b. tl os' (next_blink b) f))) = Some y"
    show "\<not> (ebx = Some i \<and> next_blink (blink_array g ! i) = Some i)"
    proof
      assume e: "ebx = Some i \<and> next_blink (blink_array g ! i) = Some i"
      then obtain g' b where g': "tasklet_step os' i g = Some g'" "get_blink i g' = Some b" "tl os' (next_blink b) g' = Some y"
        using r by (auto simp: bind_eq_Some_conv)
      have "b = blink_array g' ! i" using g'(2) by (simp add: get_blink_def split: if_splits)
      then show False using IH [OF g'(3)] tasklet_step_links [OF g'(1), of i] e by simp
    qed
  qed
  then show ?thesis using assms by (metis option.exhaust)
qed

context video_memory
begin

lemma location_zero_loops:
  assumes "sees f out" and "blink_array f = replicate BLINKS blink_zero" and "location b = 0"
  shows "\<exists>f1 f2. mp1_ioctl_add os b f = Some (0, f1) \<and> mp1_ioctl_add os b f1 = Some (0, f2) \<and> mp1_rtc_tasklet os f2 = None"
proof -
  let ?b = "b\<lparr>blink_status := 1, countdown := on_length b\<rparr>"
  have n: "[0..<BLINKS] = 0 # [Suc 0..<BLINKS]" by (rule upt_conv_Cons) (simp add: BLINKS_def)
  have c: "cell ?b = cell b" by (simp add: cell_def)
  have add: "\<exists>g'. mp1_ioctl_add os b g = Some (0, g') \<and> sees g' (pk (cell b) (on_char b) out) \<and> length (blink_array g') = BLINKS \<and>
      blink_array g' ! 0 = ?b\<lparr>next_blink := mp1_list_head g\<rparr> \<and> mp1_list_head g' = Some 0"
    if g: "sees g out" "length (blink_array g) = BLINKS" "location (blink_array g ! 0) = 0" for g out
  proof -
    let ?g = "g\<lparr>blink_array := (blink_array g)[0 := ?b\<lparr>next_blink := mp1_list_head g\<rparr>], mp1_list_head := Some 0\<rparr>"
    obtain s where s: "mp1_poke os (on_char b) (cell b) ?g = Some (?g\<lparr>fsys := s\<rparr>)" "sees (?g\<lparr>fsys := s\<rparr>) (pk (cell b) (on_char b) out)"
      by (rule pokeE [of ?g out b]) (use g(1) assms(3) in simp_all)
    have "mp1_malloc g = Some 0" using g(3) by (simp add: mp1_malloc_def n)
    then have "mp1_ioctl_add os b g = Some (0, ?g\<lparr>fsys := s\<rparr>)"
      using assms(3) s(1) by (simp add: mp1_ioctl_add_def set_blink_def c)
    then show ?thesis using s(2) g(2) by (simp add: BLINKS_def)
  qed
  obtain f1 where 1: "mp1_ioctl_add os b f = Some (0, f1)" "sees f1 (pk (cell b) (on_char b) out)"
    "length (blink_array f1) = BLINKS" "location (blink_array f1 ! 0) = 0" "mp1_list_head f1 = Some 0"
    using add [OF assms(1)] assms(2,3) by (auto simp: BLINKS_def blink_zero_def)
  obtain f2 where 2: "mp1_ioctl_add os b f1 = Some (0, f2)" "next_blink (blink_array f2 ! 0) = Some 0" "mp1_list_head f2 = Some 0"
    using add [OF 1(2-4)] 1(5) by auto
  from 1(1) 2 show ?thesis by (auto simp: mp1_rtc_tasklet_def self_link_loops)
qed

end

end
