(* ===== verification/FishSpec.thy ===== *)
theory FishSpec
  imports BlinkProps SysErrSpec
begin

text \<open>
  What the animation \<^verbatim>\<open>src/fish/fish.c\<close> shows. The two frame files are texts; each place where one of them has a
  character that is not blank becomes a blinking character, and the list of \<open>BlinkProps\<close> is then ticked, changed
  and ticked again. The laws about the video page are the assumptions of the locale \<open>video_api\<close>, inside which
  \<^verbatim>\<open>main\<close> is proved to do this.
\<close>

section \<open>The frames\<close>

text \<open>The lines of a text; after the last newline there is one more, perhaps empty.\<close>

definition next_lines :: "u8 list \<Rightarrow> u8 list" where
  "next_lines t = tl (dropWhile (\<lambda>c. c \<noteq> 10) t)"

lemma length_next_lines: "t \<noteq> [] \<Longrightarrow> length (next_lines t) < length t"
  using length_dropWhile_le [of "\<lambda>c. c \<noteq> 10" t] by (cases t) (auto simp: next_lines_def)

function frame_lines :: "u8 list \<Rightarrow> u8 list list" where
  "frame_lines t = takeWhile (\<lambda>c. c \<noteq> 10) t # (if 10 \<in> set t then frame_lines (next_lines t) else [])"
  by pat_completeness auto
termination by (relation "measure length") (auto intro!: length_next_lines)

declare frame_lines.simps [simp del]

definition pad :: "u8 list \<Rightarrow> nat \<Rightarrow> u8" where
  "pad w k = (if k < length w then w ! k else 32)"

definition frame_blink :: "nat \<Rightarrow> nat \<Rightarrow> u8 \<Rightarrow> u8 \<Rightarrow> blink" where
  "frame_blink row col x y = blink_zero\<lparr>location := of_nat (row * 80 + col + 40), on_char := x, off_char := y,
     on_length := 15, off_length := 15\<rparr>"

definition cell_blinks :: "nat \<Rightarrow> nat \<Rightarrow> u8 \<Rightarrow> u8 \<Rightarrow> blink list" where
  "cell_blinks row col x y = (if x = 32 \<and> y = 32 then [] else [frame_blink row col x y])"

definition row_blinks :: "nat \<Rightarrow> nat \<Rightarrow> u8 list \<Rightarrow> u8 list \<Rightarrow> blink list" where
  "row_blinks row col w0 w1 =
     concat (map (\<lambda>k. cell_blinks row (col + k) (pad w0 k) (pad w1 k)) [0..<max (length w0) (length w1)])"

definition line_of :: "u8 list list \<Rightarrow> nat \<Rightarrow> u8 list" where
  "line_of ls r = (if r < length ls then ls ! r else [])"

definition rows_blinks :: "nat \<Rightarrow> u8 list list \<Rightarrow> u8 list list \<Rightarrow> blink list" where
  "rows_blinks row ls0 ls1 =
     concat (map (\<lambda>r. row_blinks (row + r) 0 (line_of ls0 r) (line_of ls1 r)) [0..<max (length ls0) (length ls1)])"

definition frame_blinks :: "u8 list \<Rightarrow> u8 list \<Rightarrow> blink list" where
  "frame_blinks t0 t1 = rows_blinks 0 (frame_lines t0) (frame_lines t1)"

text \<open>The whole performance, from a screen \<open>out\<close>.\<close>

definition word_blink :: blink where
  "word_blink = blink_zero\<lparr>location := 6 * 80 + 60, on_char := 73, off_char := 77, on_length := 7, off_length := 6\<rparr>"

definition fish_scene :: "(u32 \<Rightarrow> u8 \<Rightarrow> 'o \<Rightarrow> 'o) \<Rightarrow> u8 list \<Rightarrow> u8 list \<Rightarrow> 'o \<Rightarrow> 'o scene" where
  "fish_scene pk t0 t1 out =
     (let ticks = a_tick pk ^^ 100;
          frames = fold (a_add pk) (frame_blinks t0 t1) ([], out)
      in ticks (a_remove 540 (ticks (a_sync pk 40 540 (ticks (a_add pk word_blink (ticks frames)))))))"

section \<open>The reference step by step\<close>

lemma pad_simps: "pad (tl w) k = pad w (Suc k)" "pad w 0 = (if w = [] then 32 else hd w)"
  by (cases w; simp add: pad_def)+

lemma upt_Suc_map: "[0..<Suc n] = 0 # map Suc [0..<n]"
  by (simp add: upt_conv_Cons map_Suc_upt del: upt_Suc)

lemma row_blinks_step:
  assumes "\<not> (w0 = [] \<and> w1 = [])"
  shows "row_blinks row col w0 w1 =
    cell_blinks row col (pad w0 0) (pad w1 0) @ row_blinks row (Suc col) (tl w0) (tl w1)"
proof -
  obtain n where "max (length w0) (length w1) = Suc n" "max (length (tl w0)) (length (tl w1)) = n"
    using assms by (cases w0; cases w1) auto
  then show ?thesis by (simp add: row_blinks_def upt_Suc_map pad_simps(1) comp_def del: upt_Suc)
qed

lemma row_blinks_Nil [simp]: "row_blinks row col [] [] = []"
  by (simp add: row_blinks_def)

lemma line_of_simps: "line_of (tl ls) r = line_of ls (Suc r)" "line_of ls 0 = (if ls = [] then [] else hd ls)"
  by (cases ls; simp add: line_of_def)+

lemma rows_blinks_step:
  assumes "\<not> (ls0 = [] \<and> ls1 = [])"
  shows "rows_blinks row ls0 ls1 =
    row_blinks row 0 (line_of ls0 0) (line_of ls1 0) @ rows_blinks (Suc row) (tl ls0) (tl ls1)"
proof -
  obtain n where "max (length ls0) (length ls1) = Suc n" "max (length (tl ls0)) (length (tl ls1)) = n"
    using assms by (cases ls0; cases ls1) auto
  then show ?thesis by (simp add: rows_blinks_def upt_Suc_map line_of_simps(1) comp_def del: upt_Suc)
qed

lemma rows_blinks_Nil [simp]: "rows_blinks row [] [] = []"
  by (simp add: rows_blinks_def)

text \<open>The locations are in the screen's 16 bits, so none of them is 0.\<close>

lemma length_frame_lines: "length (frame_lines t) \<le> Suc (length t)"
proof (induction t rule: frame_lines.induct)
  case (1 t)
  show ?case
  proof (cases "10 \<in> set t")
    case True
    then have "length (next_lines t) < length t" by (auto intro!: length_next_lines)
    then show ?thesis using 1 True by (subst frame_lines.simps) simp
  qed (subst frame_lines.simps, simp)
qed

lemma lines_short: "w \<in> set (frame_lines t) \<Longrightarrow> length w \<le> length t"
proof (induction t rule: frame_lines.induct)
  case (1 t)
  show ?case
  proof (cases "w = takeWhile (\<lambda>c. c \<noteq> 10) t")
    case True
    then show ?thesis by (simp add: length_takeWhile_le)
  next
    case False
    then have "10 \<in> set t" "w \<in> set (frame_lines (next_lines t))"
      using "1.prems" by (subst (asm) frame_lines.simps; auto split: if_splits)+
    moreover from this(1) have "length (next_lines t) < length t" by (auto intro!: length_next_lines)
    ultimately show ?thesis using "1.IH" by fastforce
  qed
qed

lemma frame_blinks_location:
  assumes "length t0 \<le> 700" and "length t1 \<le> 700" and "b \<in> set (frame_blinks t0 t1)"
  shows "location b \<noteq> 0"
proof -
  have len: "length (line_of (frame_lines t) r) \<le> 700" if "length t \<le> 700" for t r
    using that lines_short [of "frame_lines t ! r" t] by (auto simp: line_of_def)
  obtain r k where r: "r < max (length (frame_lines t0)) (length (frame_lines t1))"
    and k: "k < max (length (line_of (frame_lines t0) r)) (length (line_of (frame_lines t1) r))"
    and b: "b \<in> set (cell_blinks r k (pad (line_of (frame_lines t0) r) k) (pad (line_of (frame_lines t1) r) k))"
    using assms(3) by (auto simp: frame_blinks_def rows_blinks_def row_blinks_def)
  have "r \<le> 700" using r length_frame_lines [of t0] length_frame_lines [of t1] assms(1,2) by (auto simp: less_max_iff_disj)
  moreover have "k < 700" using k len [OF assms(1), of r] len [OF assms(2), of r] by (auto simp: less_max_iff_disj)
  ultimately have "r * 80 + k + 40 < 2 ^ 16" by simp
  moreover have "location b = of_nat (r * 80 + k + 40)"
    using b by (auto simp: cell_blinks_def frame_blink_def split: if_splits)
  ultimately show ?thesis
    using nat_dvd_not_less [of "r * 80 + k + 40" "2 ^ 16"] by (simp only: word_of_nat_eq_0_iff) simp
qed

section \<open>A stream of characters\<close>

text \<open>
  The last character read and what is left of the file, \<^term>\<open>None\<close> when it is closed: the rest of the line,
  the end-of-file mark after it, and the text after it.
\<close>

definition line_left :: "u8 \<Rightarrow> u8 list option \<Rightarrow> u8 list" where
  "line_left c so = (if c = 10 then [] else takeWhile (\<lambda>c. c \<noteq> 10) (the so))"

definition eof_after :: "u8 \<Rightarrow> bool \<Rightarrow> u8 list option \<Rightarrow> bool" where
  "eof_after c eof so = (if c = 10 then eof else eof \<or> 10 \<notin> set (the so))"

definition rest_after :: "u8 \<Rightarrow> u8 list option \<Rightarrow> u8 list option" where
  "rest_after c so = (if c = 10 then so else Some (next_lines (the so)))"

lemma line_left_hd: "hd (line_left c so) = 10 \<Longrightarrow> line_left c so = []"
  by (cases "the so") (auto simp: line_left_def split: if_splits)

section \<open>What the program relies on\<close>

locale video_api = err_api +
  fixes var_ok :: "u32 \<Rightarrow> bool" and vmem :: "'c \<Rightarrow> u32" and pk :: "u32 \<Rightarrow> u8 \<Rightarrow> 'b \<Rightarrow> 'b"
  assumes vmem_nonnull: "ok s \<Longrightarrow> vmem (u_sys (absu s)) \<noteq> 0"
    and vidmap_maps: "ok s \<Longrightarrow> var_ok a \<Longrightarrow> runs (os_vidmap os a s) (\<lambda>(r, s'). r \<noteq> -1 \<and> ok s' \<and> absu s' = absu s \<and>
      load_ptr os a s' = Some (vmem (u_sys (absu s))))"
    and video_store: "ok s \<Longrightarrow> x < 4000 \<Longrightarrow> runs (os_store os (vmem (u_sys (absu s)) + x) c s) (\<lambda>s'. ok s' \<and>
      absu s' = (absu s)\<lparr>u_out := pk x c (u_out (absu s))\<rparr>)"
    and write_opened: "ok s \<Longrightarrow> fd \<in> u_open (absu s) \<Longrightarrow> 4 \<le> length buf \<Longrightarrow> length buf \<le> cap \<Longrightarrow>
      runs (os_write os fd buf 4 s) (\<lambda>(r, s'). ok s' \<and> absu s' = absu s)"

lemma u_out_again: "B = A\<lparr>u_out := u_out B\<rparr> \<Longrightarrow> B\<lparr>u_out := y\<rparr> = A\<lparr>u_out := y\<rparr>"
  by (metis ustate.fold_congs(6) ustate.surjective ustate.update_convs(6))

sublocale video_api \<subseteq> vm: video_memory os "vmem (u_sys A)" "\<lambda>s. ok s \<and> absu s = A\<lparr>u_out := u_out (absu s)\<rparr>"
  "\<lambda>s. u_out (absu s)" pk for A
proof
  fix s c and x :: u32
  assume s: "ok s \<and> absu s = A\<lparr>u_out := u_out (absu s)\<rparr>" and x: "x < 4000"
  then have "u_sys (absu s) = u_sys A" by (metis ustate.select_convs(7) ustate.update_convs(6) ustate.surjective)
  then show "\<exists>s'. os_store os (vmem (u_sys A) + x) c s = Some s' \<and>
      (ok s' \<and> absu s' = A\<lparr>u_out := u_out (absu s')\<rparr>) \<and> u_out (absu s') = pk x c (u_out (absu s))"
    using video_store [of s x c] s x u_out_again by (auto simp: runs_iff)
qed

context video_api
begin

text \<open>The program shows the scene while the rest of the abstract state is \<open>A\<close>.\<close>

definition plays :: "('b, 'c) ustate \<Rightarrow> 'a fish \<Rightarrow> 'b scene \<Rightarrow> bool" where
  "plays A f = vm.showing A f"

lemma plays_iff: "plays A f (l, out) \<longleftrightarrow> blinks f l \<and> vmem_base_addr f = vmem (u_sys A) \<and> ok (fsys f) \<and>
    absu (fsys f) = A\<lparr>u_out := out\<rparr>"
proof -
  have "absu s = A\<lparr>u_out := u_out (absu s)\<rparr> \<and> u_out (absu s) = out \<longleftrightarrow> absu s = A\<lparr>u_out := out\<rparr>" for s
    by auto
  then show ?thesis unfolding plays_def vm.showing_def vm.sees_def split_conv by blast
qed

lemma blinks_fsys [simp]: "blinks (f\<lparr>fsys := s\<rparr>) l = blinks f l"
  by (simp add: blinks_def linked_def)

lemma plays_fsys:
  assumes "plays A f (l, out)" and "ok s" and "absu s = B\<lparr>u_out := out\<rparr>" and "u_sys B = u_sys A"
  shows "plays B (f\<lparr>fsys := s\<rparr>) (l, out)"
  using assms by (simp add: plays_iff)

text \<open>An open file from which \<open>r\<close> is still to be read, and a closed one.\<close>

definition feeds :: "('b, 'c) ustate \<Rightarrow> int \<Rightarrow> u8 list option \<Rightarrow> bool" where
  "feeds A fd so \<longleftrightarrow> (case so of None \<Rightarrow> fd \<notin> u_open A
     | Some r \<Rightarrow> fd \<in> u_open A \<and> (\<exists>data pos. u_files A fd = Some (data, pos) \<and> r = drop pos data))"

definition moved :: "int set \<Rightarrow> ('b, 'c) ustate \<Rightarrow> ('b, 'c) ustate \<Rightarrow> bool" where
  "moved D A B \<longleftrightarrow> u_args B = u_args A \<and> u_dir B = u_dir A \<and> u_in B = u_in A \<and> u_sys B = u_sys A \<and>
     u_open B \<subseteq> u_open A \<and> (\<forall>j. j \<notin> D \<longrightarrow> (j \<in> u_open B \<longleftrightarrow> j \<in> u_open A) \<and> u_files B j = u_files A j)"

lemma moved_refl: "moved D A A"
  by (simp add: moved_def)

lemma moved_trans: "moved D A B \<Longrightarrow> moved E B C \<Longrightarrow> D \<subseteq> F \<Longrightarrow> E \<subseteq> F \<Longrightarrow> moved F A C"
  by (simp add: moved_def subset_iff) metis

lemma moved_sys: "moved D A B \<Longrightarrow> u_sys B = u_sys A"
  by (simp add: moved_def)

lemma feeds_moved: "moved D A B \<Longrightarrow> fd \<notin> D \<Longrightarrow> feeds B fd so = feeds A fd so"
  by (auto simp: moved_def feeds_def split: option.splits)

lemma next_charE:
  assumes f: "plays A f (l, out)" and so: "feeds A fd so" "c \<noteq> 10 \<longrightarrow> so \<noteq> None"
  obtains c' eof' f' A' so' where "next_char os fd (c, eof, f) = Some (c', eof', f')" and "plays A' f' (l, out)"
    and "moved {fd} A A'" and "feeds A' fd so'" and "c' \<noteq> 10 \<longrightarrow> so' \<noteq> None"
    and "c' = (if line_left c so = [] then 10 else hd (line_left c so))" and "line_left c' so' = tl (line_left c so)"
    and "eof_after c' eof' so' = eof_after c eof so" and "rest_after c' so' = rest_after c so"
proof (cases "c = 10")
  case True
  show ?thesis
    by (rule that [of c eof f A so]) (use True f so in \<open>simp_all add: next_char_def moved_refl line_left_def\<close>)
next
  case False
  then obtain r where r: "so = Some r" using so(2) by auto
  then obtain data pos where fd: "u_files A fd = Some (data, pos)" "r = drop pos data" "fd \<in> u_open A"
    using so(1) by (auto simp: feeds_def)
  have F: "ok (fsys f)" "absu (fsys f) = A\<lparr>u_out := out\<rparr>" using f by (simp_all add: plays_iff)
  obtain s where s: "os_read os fd [c] 1 (fsys f) = Some (int (length (take 1 r)), take 1 r @ drop (length (take 1 r)) [c], s)"
    "ok s" "absu s = (absu (fsys f))\<lparr>u_files := (u_files (absu (fsys f)))(fd \<mapsto> (data, pos + length (take 1 r)))\<rparr>"
    by (rule readE [of "fsys f" fd data pos 1 "[c]" "take 1 r"]) (use F fd cap in auto)
  let ?A = "A\<lparr>u_files := (u_files A)(fd \<mapsto> (data, pos + length (take 1 r)))\<rparr>"
  have A: "plays ?A (f\<lparr>fsys := s\<rparr>) (l, out)" by (rule plays_fsys [OF f s(2)]) (use s(3) F(2) in simp_all)
  have m: "moved {fd} A ?A" by (simp add: moved_def)
  show ?thesis
  proof (cases r)
    case Nil
    show ?thesis
      by (rule that [of 10 True "f\<lparr>fsys := s\<rparr>" ?A so, OF _ A m])
        (use False Nil r s(1) fd in \<open>auto simp: next_char_def feeds_def line_left_def eof_after_def rest_after_def next_lines_def\<close>)
  next
    case (Cons x xs)
    have "drop (pos + 1) data = xs" using fd(2) Cons by (metis add.commute drop_drop drop_Suc list.sel(3) drop_0 One_nat_def)
    then have "feeds ?A fd (Some xs)" using fd(3) by (simp add: feeds_def Cons)
    then show ?thesis
      by (intro that [of x eof "f\<lparr>fsys := s\<rparr>" ?A "Some xs", OF _ A m])
        (use False Cons r s(1) in \<open>auto simp: next_char_def line_left_def eof_after_def rest_after_def next_lines_def\<close>)
  qed
qed

end

section \<open>The frames are added\<close>

lemma a_add_cong:
  assumes "location b = location b'" and "on_char b = on_char b'" and "off_char b = off_char b'"
    and "on_length b = on_length b'" and "off_length b = off_length b'"
  shows "a_add p b = a_add p b'"
proof -
  have "cell b = cell b'" using assms(1) by (simp add: cell_def)
  moreover have "b\<lparr>blink_status := 1, countdown := on_length b, next_blink := None\<rparr> =
      b'\<lparr>blink_status := 1, countdown := on_length b', next_blink := None\<rparr>"
    using assms by (cases b; cases b') simp
  ultimately show ?thesis using assms(1,2) by (auto simp: a_add_def fun_eq_iff)
qed

definition timed :: "blink \<Rightarrow> bool" where
  "timed b \<longleftrightarrow> on_length b = 15 \<and> off_length b = 15"

context video_api
begin

lemma addE:
  assumes "plays A f sc" and "location b \<noteq> 0"
  obtains r f' where "mp1_ioctl_add os b f = Some (r, f')" and "plays A f' (a_add pk b sc)"
  using vm.add_refines [of A f "fst sc" "snd sc" b] assms unfolding plays_def by auto

lemma syncE:
  assumes "plays A f sc"
  obtains r f' where "mp1_ioctl_sync os a f = Some (r, f')"
    and "plays A f' (a_sync pk (ucast (drop_bit 16 a)) (ucast (a AND 0xFFFF)) sc)"
  using vm.sync_refines [of A f "fst sc" "snd sc" a] assms unfolding plays_def by auto

lemma removeE:
  assumes "plays A f sc"
  obtains r f' where "mp1_ioctl_remove a f = Some (r, f')" and "plays A f' (a_remove (ucast a) sc)"
  using vm.remove_refines [of A f "fst sc" "snd sc" a] assms unfolding plays_def by auto

text \<open>One place of the two frames; \<open>x\<close> and \<open>y\<close> are the characters that were read.\<close>

lemma cellE:
  assumes f: "plays A f sc" and b: "timed b" and c: "c0 = 10 \<longleftrightarrow> w0 = []" "c1 = 10 \<longleftrightarrow> w1 = []"
    "w0 \<noteq> [] \<Longrightarrow> c0 = hd w0" "w1 \<noteq> [] \<Longrightarrow> c1 = hd w1"
    and l: "\<forall>b\<in>set (cell_blinks row col (pad w0 0) (pad w1 0)). location b \<noteq> 0"
  obtains b' f' where "frame_cell os b (int row) (int col) c0 c1 f = Some (b', f')" and "timed b'"
    and "plays A f' (fold (a_add pk) (cell_blinks row col (pad w0 0) (pad w1 0)) sc)"
proof -
  have p: "pad w0 0 = (if c0 = 10 then 32 else c0)" "pad w1 0 = (if c1 = 10 then 32 else c1)"
    using c by (simp_all add: pad_simps)
  show ?thesis
  proof (cases "pad w0 0 = 32 \<and> pad w1 0 = 32")
    case True
    then show ?thesis using f b p by (intro that [of b f]) (auto simp: cell_blinks_def frame_cell_def split: if_splits)
  next
    case False
    let ?b = "b\<lparr>on_char := pad w0 0, off_char := pad w1 0, location := word_of_int (int row * 80 + int col + 40)\<rparr>"
    let ?c = "frame_blink row col (pad w0 0) (pad w1 0)"
    have loc: "(word_of_int (int row * 80 + int col + 40) :: u16) = of_nat (row * 80 + col + 40)" by simp
    have a: "a_add pk ?b = a_add pk ?c"
      using b by (intro a_add_cong) (simp_all add: frame_blink_def timed_def)
    have "location ?b \<noteq> 0" using l False by (simp add: cell_blinks_def frame_blink_def)
    then obtain r f' where "mp1_ioctl_add os ?b f = Some (r, f')" "plays A f' (a_add pk ?c sc)"
      using addE [OF f] a by metis
    then show ?thesis
      using False p b by (intro that [of ?b f']) (auto simp: cell_blinks_def frame_cell_def timed_def Let_def split: if_splits)
  qed
qed

lemma frame_line_draws:
  assumes "plays A f sc" and "feeds A fd0 so0" and "feeds A fd1 so1" and "c0 \<noteq> 10 \<longrightarrow> so0 \<noteq> None"
    and "c1 \<noteq> 10 \<longrightarrow> so1 \<noteq> None" and "fd0 \<noteq> fd1" and "timed b"
    and "\<forall>b\<in>set (row_blinks row col (line_left c0 so0) (line_left c1 so1)). location b \<noteq> 0"
  shows "\<exists>b' f' A'. frame_line os fd0 fd1 b (int row) (int col) c0 c1 eof0 eof1 f =
      Some (b', eof_after c0 eof0 so0, eof_after c1 eof1 so1, f') \<and> timed b' \<and>
    plays A' f' (fold (a_add pk) (row_blinks row col (line_left c0 so0) (line_left c1 so1)) sc) \<and>
    moved {fd0, fd1} A A' \<and> feeds A' fd0 (rest_after c0 so0) \<and> feeds A' fd1 (rest_after c1 so1)"
  using assms
proof (induction "length (line_left c0 so0) + length (line_left c1 so1)" arbitrary: A f sc so0 so1 c0 c1 eof0 eof1 b col
    rule: less_induct)
  case less
  obtain l out where sc: "sc = (l, out)" by (cases sc)
  let ?w0 = "line_left c0 so0" and ?w1 = "line_left c1 so1"
  obtain c0' e0 f1 A1 so0' where 1: "next_char os fd0 (c0, eof0, f) = Some (c0', e0, f1)" "plays A1 f1 (l, out)"
    "moved {fd0} A A1" "feeds A1 fd0 so0'" "c0' \<noteq> 10 \<longrightarrow> so0' \<noteq> None"
    "c0' = (if ?w0 = [] then 10 else hd ?w0)" "line_left c0' so0' = tl ?w0"
    "eof_after c0' e0 so0' = eof_after c0 eof0 so0" "rest_after c0' so0' = rest_after c0 so0"
    by (rule next_charE [OF less.prems(1) [unfolded sc] less.prems(2,4), where eof = eof0]) (rule that)
  have fd1: "feeds A1 fd1 so1" using feeds_moved [OF 1(3), of fd1] less.prems(3,6) by auto
  obtain c1' e1 f2 A2 so1' where 2: "next_char os fd1 (c1, eof1, f1) = Some (c1', e1, f2)" "plays A2 f2 (l, out)"
    "moved {fd1} A1 A2" "feeds A2 fd1 so1'" "c1' \<noteq> 10 \<longrightarrow> so1' \<noteq> None"
    "c1' = (if ?w1 = [] then 10 else hd ?w1)" "line_left c1' so1' = tl ?w1"
    "eof_after c1' e1 so1' = eof_after c1 eof1 so1" "rest_after c1' so1' = rest_after c1 so1"
    by (rule next_charE [OF 1(2) fd1 less.prems(5), where eof = eof1]) (rule that)
  have fd0: "feeds A2 fd0 so0'" using feeds_moved [OF 2(3), of fd0] 1(4) less.prems(6) by auto
  have m: "moved {fd0, fd1} A A2" by (rule moved_trans [OF 1(3) 2(3)]) auto
  have n: "c0' = 10 \<longleftrightarrow> ?w0 = []" "c1' = 10 \<longleftrightarrow> ?w1 = []"
    using 1(6) 2(6) line_left_hd [of c0 so0] line_left_hd [of c1 so1] by auto
  show ?case
  proof (cases "?w0 = [] \<and> ?w1 = []")
    case True
    then have "c0' = 10" "c1' = 10" using n by simp_all
    with True 1 2 fd0 m show ?thesis
      by (subst frame_line.simps) (auto simp: sc less.prems(7) eof_after_def rest_after_def)
  next
    case False
    note R = row_blinks_step [OF False, of row col]
    obtain b' f3 where 3: "frame_cell os b (int row) (int col) c0' c1' f2 = Some (b', f3)" "timed b'"
      "plays A2 f3 (fold (a_add pk) (cell_blinks row col (pad ?w0 0) (pad ?w1 0)) sc)"
      by (rule cellE [OF 2(2) less.prems(7), of c0' ?w0 c1' ?w1 row col]) (use n 1(6) 2(6) less.prems(8) R sc in auto)
    have e: "frame_line os fd0 fd1 b (int row) (int col) c0 c1 eof0 eof1 f =
        frame_line os fd0 fd1 b' (int row) (int (Suc col)) c0' c1' e0 e1 f3"
      using False n by (subst frame_line.simps) (auto simp: 1(1) 2(1) 3(1) add.commute)
    have "length (line_left c0' so0') + length (line_left c1' so1') < length ?w0 + length ?w1"
      using False 1(7) 2(7) by (cases ?w0; cases ?w1) auto
    moreover have "\<forall>b\<in>set (row_blinks row (Suc col) (line_left c0' so0') (line_left c1' so1')). location b \<noteq> 0"
      using less.prems(8) unfolding R 1(7) 2(7) by simp
    ultimately have "\<exists>b'' f' A'. frame_line os fd0 fd1 b' (int row) (int (Suc col)) c0' c1' e0 e1 f3 =
        Some (b'', eof_after c0' e0 so0', eof_after c1' e1 so1', f') \<and> timed b'' \<and>
      plays A' f' (fold (a_add pk) (row_blinks row (Suc col) (line_left c0' so0') (line_left c1' so1'))
        (fold (a_add pk) (cell_blinks row col (pad ?w0 0) (pad ?w1 0)) sc)) \<and>
      moved {fd0, fd1} A2 A' \<and> feeds A' fd0 (rest_after c0' so0') \<and> feeds A' fd1 (rest_after c1' so1')"
      using less.prems(6) 3(2,3) fd0 2(4) 1(5) 2(5) by (intro less.hyps) simp_all
    then obtain b'' f' A' where
      4: "frame_line os fd0 fd1 b' (int row) (int (Suc col)) c0' c1' e0 e1 f3 =
        Some (b'', eof_after c0 eof0 so0, eof_after c1 eof1 so1, f')" "timed b''"
      "plays A' f' (fold (a_add pk) (row_blinks row col ?w0 ?w1) sc)" "moved {fd0, fd1} A2 A'"
      "feeds A' fd0 (rest_after c0 so0)" "feeds A' fd1 (rest_after c1 so1)"
      unfolding R fold_append comp_def 1(7,8,9) 2(7,8,9) by blast
    have "moved {fd0, fd1} A A'" by (rule moved_trans [OF m 4(4)]) auto
    then show ?thesis using e 4 by auto
  qed
qed

end

text \<open>The end of a row: a file that is at its end is closed, again and again in the later rows.\<close>

definition lines_ahead :: "bool \<Rightarrow> u8 list option \<Rightarrow> u8 list list" where
  "lines_ahead eof so = (if eof then [] else frame_lines (the so))"

definition row_start :: "bool \<Rightarrow> u8" where
  "row_start eof = (if eof then 10 else 48)"

lemma frame_lines_parts:
  "hd (frame_lines t) = takeWhile (\<lambda>c. c \<noteq> 10) t" "frame_lines t \<noteq> []"
  "tl (frame_lines t) = (if 10 \<in> set t then frame_lines (next_lines t) else [])"
  by (subst frame_lines.simps; simp)+

lemma row_start_line: "line_left (row_start eof) so = line_of (lines_ahead eof so) 0"
  by (simp add: line_left_def row_start_def lines_ahead_def line_of_simps frame_lines_parts)

lemma lines_ahead_row:
  assumes "eof' = eof_after (row_start eof) eof so"
  shows "lines_ahead eof' (if eof' then None else rest_after (row_start eof) so) = tl (lines_ahead eof so)"
  using assms by (auto simp: lines_ahead_def frame_lines_parts eof_after_def rest_after_def row_start_def)

context video_api
begin

definition close_at_eof :: "bool \<Rightarrow> int \<Rightarrow> 'a fish \<Rightarrow> 'a fish option" where
  "close_at_eof eof fd f = (if eof then do { (_, s) \<leftarrow> os_close os fd (fsys f); Some (f\<lparr>fsys := s\<rparr>) } else Some f)"

lemma closeE:
  assumes f: "plays A f sc" and so: "feeds A fd so" and i: "int32 fd"
  obtains f' A' where "close_at_eof eof fd f = Some f'" and "plays A' f' sc" and "moved {fd} A A'"
    and "feeds A' fd (if eof then None else so)"
proof -
  obtain l out where sc: "sc = (l, out)" by (cases sc)
  have F: "ok (fsys f)" "absu (fsys f) = A\<lparr>u_out := out\<rparr>" using f by (simp_all add: plays_iff sc)
  show ?thesis
  proof (cases "eof \<and> so \<noteq> None")
    case True
    then obtain x where fd: "fd \<in> u_open A" "u_files A fd = Some x" using so by (auto simp: feeds_def)
    let ?A = "A\<lparr>u_open := u_open A - {fd}, u_files := (u_files A)(fd := None)\<rparr>"
    obtain s where s: "os_close os fd (fsys f) = Some (0, s)" "ok s" "absu s = ?A\<lparr>u_out := out\<rparr>"
      using close_file [OF F(1), of fd x] fd F(2) by (auto simp: runs_iff)
    show ?thesis
    proof (rule that)
      show "close_at_eof eof fd f = Some (f\<lparr>fsys := s\<rparr>)" using True s(1) by (simp add: close_at_eof_def)
      show "plays ?A (f\<lparr>fsys := s\<rparr>) sc" unfolding sc by (rule plays_fsys [OF f [unfolded sc] s(2,3)]) simp
    qed (use True in \<open>auto simp: moved_def feeds_def\<close>)
  next
    case False
    show ?thesis
    proof (cases eof)
      case True
      then have n: "fd \<notin> u_open A" using False so by (simp add: feeds_def)
      obtain r s where s: "os_close os fd (fsys f) = Some (r, s)" "ok s" "absu s = A\<lparr>u_out := out\<rparr>"
        using close_refused [OF F(1) i] n F(2) by (auto simp: runs_iff)
      show ?thesis
      proof (rule that)
        show "close_at_eof eof fd f = Some (f\<lparr>fsys := s\<rparr>)" using True s(1) by (simp add: close_at_eof_def)
        show "plays A (f\<lparr>fsys := s\<rparr>) sc" unfolding sc by (rule plays_fsys [OF f [unfolded sc] s(2,3)]) simp
      qed (use True n in \<open>auto simp: moved_refl feeds_def\<close>)
    next
      case False
      then show ?thesis using f so by (intro that [of f A]) (simp_all add: close_at_eof_def moved_refl)
    qed
  qed
qed

lemma frame_rows_draw:
  assumes "plays A f sc" and "feeds A fd0 so0" and "feeds A fd1 so1" and "eof0 \<longleftrightarrow> so0 = None"
    and "eof1 \<longleftrightarrow> so1 = None" and "fd0 \<noteq> fd1" and "int32 fd0" and "int32 fd1" and "timed b"
    and "\<forall>b\<in>set (rows_blinks row (lines_ahead eof0 so0) (lines_ahead eof1 so1)). location b \<noteq> 0"
  shows "\<exists>f' A'. frame_rows os fd0 fd1 b (int row) (row_start eof0) (row_start eof1) eof0 eof1 f = Some f' \<and>
    plays A' f' (fold (a_add pk) (rows_blinks row (lines_ahead eof0 so0) (lines_ahead eof1 so1)) sc) \<and>
    moved {fd0, fd1} A A' \<and> feeds A' fd0 None \<and> feeds A' fd1 None"
  using assms
proof (induction "length (lines_ahead eof0 so0) + length (lines_ahead eof1 so1)" arbitrary: A f sc so0 so1 eof0 eof1 b row
    rule: less_induct)
  case less
  let ?L0 = "lines_ahead eof0 so0" and ?L1 = "lines_ahead eof1 so1"
  let ?c0 = "row_start eof0" and ?c1 = "row_start eof1"
  have L: "?L0 = [] \<longleftrightarrow> eof0" "?L1 = [] \<longleftrightarrow> eof1" by (simp_all add: lines_ahead_def frame_lines_parts)
  show ?case
  proof (cases "eof0 \<and> eof1")
    case True
    then show ?thesis using less.prems L
      by (subst frame_rows.simps) (auto intro!: exI [of _ f] exI [of _ A] simp: moved_refl)
  next
    case False
    then have R: "rows_blinks row ?L0 ?L1 = row_blinks row 0 (line_of ?L0 0) (line_of ?L1 0) @
        rows_blinks (Suc row) (tl ?L0) (tl ?L1)"
      using rows_blinks_step [of ?L0 ?L1 row] L by simp
    define e0 where "e0 = eof_after ?c0 eof0 so0"
    define e1 where "e1 = eof_after ?c1 eof1 so1"
    have "?c0 \<noteq> 10 \<longrightarrow> so0 \<noteq> None" "?c1 \<noteq> 10 \<longrightarrow> so1 \<noteq> None" using less.prems(4,5) by (auto simp: row_start_def)
    note P = frame_line_draws [OF less.prems(1-3) this less.prems(6,9), of row 0, unfolded row_start_line]
    have "\<forall>b\<in>set (row_blinks row 0 (line_of ?L0 0) (line_of ?L1 0)). location b \<noteq> 0"
      using less.prems(10) R by simp
    from P [OF this, of eof0 eof1, folded e0_def e1_def] obtain b' f1 A1 where
      1: "frame_line os fd0 fd1 b (int row) 0 ?c0 ?c1 eof0 eof1 f = Some (b', e0, e1, f1)" "timed b'"
      "plays A1 f1 (fold (a_add pk) (row_blinks row 0 (line_of ?L0 0) (line_of ?L1 0)) sc)" "moved {fd0, fd1} A A1"
      "feeds A1 fd0 (rest_after ?c0 so0)" "feeds A1 fd1 (rest_after ?c1 so1)"
      by auto
    let ?s0 = "if e0 then None else rest_after ?c0 so0" and ?s1 = "if e1 then None else rest_after ?c1 so1"
    obtain f2 A2 where 2: "close_at_eof e0 fd0 f1 = Some f2"
      "plays A2 f2 (fold (a_add pk) (row_blinks row 0 (line_of ?L0 0) (line_of ?L1 0)) sc)" "moved {fd0} A1 A2" "feeds A2 fd0 ?s0"
      by (rule closeE [OF 1(3,5) less.prems(7), where eof = e0]) (rule that)
    have fd1: "feeds A2 fd1 (rest_after ?c1 so1)" using feeds_moved [OF 2(3), of fd1] 1(6) less.prems(6) by auto
    obtain f3 A3 where 3: "close_at_eof e1 fd1 f2 = Some f3"
      "plays A3 f3 (fold (a_add pk) (row_blinks row 0 (line_of ?L0 0) (line_of ?L1 0)) sc)" "moved {fd1} A2 A3" "feeds A3 fd1 ?s1"
      by (rule closeE [OF 2(2) fd1 less.prems(8), where eof = e1]) (rule that)
    have fd0: "feeds A3 fd0 ?s0" using feeds_moved [OF 3(3), of fd0] 2(4) less.prems(6) by auto
    have "moved {fd0, fd1} A A2" by (rule moved_trans [OF 1(4) 2(3)]) auto
    then have m: "moved {fd0, fd1} A A3" by (rule moved_trans [OF _ 3(3)]) auto
    have T: "lines_ahead e0 ?s0 = tl ?L0" "lines_ahead e1 ?s1 = tl ?L1"
      by (rule lines_ahead_row; simp add: e0_def e1_def)+
    have N: "e0 \<longleftrightarrow> ?s0 = None" "e1 \<longleftrightarrow> ?s1 = None"
      using less.prems(4,5) by (auto simp: e0_def e1_def rest_after_def eof_after_def row_start_def)
    have e: "frame_rows os fd0 fd1 b (int row) ?c0 ?c1 eof0 eof1 f =
        frame_rows os fd0 fd1 b' (int (Suc row)) (row_start e0) (row_start e1) e0 e1 f3"
      using False 1(1) 2(1) 3(1) by (subst frame_rows.simps) (auto simp: close_at_eof_def row_start_def add.commute)
    have "\<exists>f' A'. frame_rows os fd0 fd1 b' (int (Suc row)) (row_start e0) (row_start e1) e0 e1 f3 = Some f' \<and>
      plays A' f' (fold (a_add pk) (rows_blinks (Suc row) (lines_ahead e0 ?s0) (lines_ahead e1 ?s1))
        (fold (a_add pk) (row_blinks row 0 (line_of ?L0 0) (line_of ?L1 0)) sc)) \<and>
      moved {fd0, fd1} A3 A' \<and> feeds A' fd0 None \<and> feeds A' fd1 None"
    proof (rule less.hyps)
      show "length (lines_ahead e0 ?s0) + length (lines_ahead e1 ?s1) < length ?L0 + length ?L1"
        using False L unfolding T by (cases ?L0; cases ?L1) auto
      show "\<forall>b\<in>set (rows_blinks (Suc row) (lines_ahead e0 ?s0) (lines_ahead e1 ?s1)). location b \<noteq> 0"
        using less.prems(10) unfolding T R by simp
    qed (rule 3(2) fd0 3(4) N less.prems(6-8) 1(2))+
    then show ?thesis
      unfolding e R T fold_append comp_def by (meson moved_trans m order_refl)
  qed
qed

end

section \<open>The whole program\<close>

lemma blinks_empty:
  assumes "blink_array f = replicate BLINKS blink_zero" and "mp1_list_head f = None"
  shows "blinks f []"
  unfolding blinks_def by (rule exI [of _ "[]"]) (use assms in \<open>simp add: linked_def blink_zero_def\<close>)

context video_api
begin

definition kept :: "('b, 'c) ustate \<Rightarrow> ('b, 'c) ustate \<Rightarrow> bool" where
  "kept A B \<longleftrightarrow> u_args B = u_args A \<and> u_dir B = u_dir A \<and> u_in B = u_in A \<and> u_sys B = u_sys A \<and>
     u_open B = u_open A \<and> (\<forall>j\<in>u_open A. u_files B j = u_files A j)"

lemma openfE:
  assumes f: "plays A f sc" and d: "u_dir A (asc t) = Some data" "\<not> {2..7} \<subseteq> u_open A"
    and t: "0 \<notin> set (asc t)" "length t \<le> 1000"
  obtains fd s where "os_open os (lit t) (fsys f) = Some (fd, s)" and "fd \<in> {2..7} - u_open A"
    and "plays (A\<lparr>u_open := insert fd (u_open A), u_files := (u_files A)(fd \<mapsto> (data, 0))\<rparr>) (f\<lparr>fsys := s\<rparr>) sc"
proof -
  obtain l out where sc: "sc = (l, out)" by (cases sc)
  have F: "ok (fsys f)" "absu (fsys f) = A\<lparr>u_out := out\<rparr>" using f by (simp_all add: plays_iff sc)
  obtain fd s where s: "os_open os (asc t @ 0 # []) (fsys f) = Some (fd, s)" "fd \<in> {2..7} - u_open (absu (fsys f))" "ok s"
    "absu s = (absu (fsys f))\<lparr>u_open := insert fd (u_open (absu (fsys f))), u_files := (u_files (absu (fsys f)))(fd \<mapsto> (data, 0))\<rparr>"
    by (rule openE [OF F(1), of "asc t" data "[]"]) (use d t F(2) cap in auto)
  show ?thesis
  proof (rule that)
    show "os_open os (lit t) (fsys f) = Some (fd, s)" using s(1) by (simp add: lit_def)
    show "fd \<in> {2..7} - u_open A" using s(2) F(2) by simp
    show "plays (A\<lparr>u_open := insert fd (u_open A), u_files := (u_files A)(fd \<mapsto> (data, 0))\<rparr>) (f\<lparr>fsys := s\<rparr>) sc"
      unfolding sc by (rule plays_fsys [OF f [unfolded sc] s(3)]) (simp_all add: s(4) F(2))
  qed
qed

lemma some_closed: "card S < 6 \<Longrightarrow> finite S \<Longrightarrow> \<not> {2..7} \<subseteq> (S :: int set)"
  using card_mono [of S "{2..7}"] by auto

lemma add_framesE:
  assumes f: "plays A f sc" and d: "u_dir A (asc ''frame0.txt'') = Some t0" "u_dir A (asc ''frame1.txt'') = Some t1"
    and o: "card (u_open A) < 5" "finite (u_open A)" and t: "length t0 \<le> 700" "length t1 \<le> 700"
  obtains f' A' where "add_frames os b (lit ''frame0.txt'') (lit ''frame1.txt'') f = Some (None, f')"
    and "plays A' f' (fold (a_add pk) (frame_blinks t0 t1) sc)" and "kept A A'"
proof -
  obtain fd0 s0 where 0: "os_open os (lit ''frame0.txt'') (fsys f) = Some (fd0, s0)" "fd0 \<in> {2..7} - u_open A"
    "plays (A\<lparr>u_open := insert fd0 (u_open A), u_files := (u_files A)(fd0 \<mapsto> (t0, 0))\<rparr>) (f\<lparr>fsys := s0\<rparr>) sc"
    by (rule openfE [OF f d(1)]) (use o some_closed [of "u_open A"] in auto)
  let ?A0 = "A\<lparr>u_open := insert fd0 (u_open A), u_files := (u_files A)(fd0 \<mapsto> (t0, 0))\<rparr>"
  have "\<not> {2..7} \<subseteq> u_open ?A0" using some_closed [of "u_open ?A0"] o by (auto simp: card_insert_if)
  then obtain fd1 s1 where 1: "os_open os (lit ''frame1.txt'') s0 = Some (fd1, s1)" "fd1 \<in> {2..7} - u_open ?A0"
    "plays (?A0\<lparr>u_open := insert fd1 (u_open ?A0), u_files := (u_files ?A0)(fd1 \<mapsto> (t1, 0))\<rparr>) (f\<lparr>fsys := s0, fsys := s1\<rparr>) sc"
    using openfE [OF 0(3), of "''frame1.txt''" t1] d(2) by auto
  let ?A1 = "?A0\<lparr>u_open := insert fd1 (u_open ?A0), u_files := (u_files ?A0)(fd1 \<mapsto> (t1, 0))\<rparr>"
  have F: "feeds ?A1 fd0 (Some t0)" "feeds ?A1 fd1 (Some t1)" "fd0 \<noteq> fd1" "int32 fd0" "int32 fd1"
    using 0(2) 1(2) by (auto simp: feeds_def int32_def)
  have L: "rows_blinks 0 (lines_ahead False (Some t0)) (lines_ahead False (Some t1)) = frame_blinks t0 t1"
    by (simp add: frame_blinks_def lines_ahead_def)
  obtain f' A' where 2: "frame_rows os fd0 fd1 (b\<lparr>on_length := 15, off_length := 15\<rparr>) 0 48 48 False False
      (f\<lparr>fsys := s0, fsys := s1\<rparr>) = Some f'"
    "plays A' f' (fold (a_add pk) (frame_blinks t0 t1) sc)" "moved {fd0, fd1} ?A1 A'" "feeds A' fd0 None" "feeds A' fd1 None"
    using frame_rows_draw [OF 1(3) F(1,2) _ _ F(3-5), of False False "b\<lparr>on_length := 15, off_length := 15\<rparr>" 0]
      frame_blinks_location [OF t] L by (auto simp: timed_def row_start_def)
  show ?thesis
  proof (rule that [OF _ 2(2)])
    show "add_frames os b (lit ''frame0.txt'') (lit ''frame1.txt'') f = Some (None, f')"
      using 0(1,2) 1(1,2) 2(1) by (simp add: add_frames_def Let_def)
    show "kept A A'" using 2(3-5) 0(2) 1(2) by (auto simp: moved_def kept_def feeds_def)
  qed
qed

lemma waits:
  assumes "plays A f sc" and "u_files A fd = Some ([], 0)" and "length garbage = 4"
  shows "\<exists>f'. foldM (wait_tick os fd) [0..<n] (garbage, f) = Some (garbage, f') \<and> plays A f' ((a_tick pk ^^ n) sc)"
proof -
  have step: "\<exists>f'. wait_tick os fd i (garbage, f) = Some (garbage, f') \<and> plays A f' (a_tick pk sc)"
    if f: "plays A f sc" for f sc i
  proof -
    obtain l out where sc: "sc = (l, out)" by (cases sc)
    have F: "ok (fsys f)" "absu (fsys f) = A\<lparr>u_out := out\<rparr>" using f by (simp_all add: plays_iff sc)
    obtain s where s: "os_read os fd garbage 4 (fsys f) = Some (0, garbage, s)" "ok s" "absu s = A\<lparr>u_out := out\<rparr>"
      using readE [OF F(1), of fd "[]" 0 4 garbage "[]"] F(2) assms(2,3) cap by (auto simp: fun_upd_idem)
    have "plays A (f\<lparr>fsys := s\<rparr>) (l, out)" by (rule plays_fsys [OF f [unfolded sc] s(2,3)]) simp
    then obtain f' where "mp1_rtc_tasklet os (f\<lparr>fsys := s\<rparr>) = Some f'" "plays A f' (a_tick pk (l, out))"
      using vm.tasklet_refines [of A "f\<lparr>fsys := s\<rparr>" l out] unfolding plays_def by auto
    then show ?thesis by (simp add: wait_tick_def s(1) sc)
  qed
  show ?thesis
    using assms(1)
  proof (induction n)
    case 0
    then show ?case by simp
  next
    case (Suc n)
    then obtain f' where 1: "foldM (wait_tick os fd) [0..<n] (garbage, f) = Some (garbage, f')" "plays A f' ((a_tick pk ^^ n) sc)"
      by blast
    from step [OF 1(2), of n] 1(1) show ?case by (auto simp: foldM_append)
  qed
qed

lemma fish_plays:
  assumes "ok (fsys f)" and "absu (fsys f) = A" and "mp1_list_head f = None" and "u_open A = {}" and "var_ok var"
    and d: "u_dir A (asc ''rtc'') = Some []" "u_dir A (asc ''frame0.txt'') = Some t0" "u_dir A (asc ''frame1.txt'') = Some t1"
    and t: "length t0 \<le> 700" "length t1 \<le> 700" and g: "length garbage = 4"
  shows "\<exists>f' A'. fish_main os var b0 b garbage f = Some (0, f') \<and> u_open A' = {} \<and> u_dir A' = u_dir A \<and> u_sys A' = u_sys A \<and>
    plays A' f' (fish_scene pk t0 t1 (u_out A))"
proof -
  let ?f = "f\<lparr>blink_array := replicate BLINKS blink_zero\<rparr>"
  obtain r s where v: "os_vidmap os var (fsys f) = Some (r, s)" "r \<noteq> -1" "ok s" "absu s = A"
    "load_ptr os var s = Some (vmem (u_sys A))"
    using vidmap_maps [OF assms(1,5)] assms(2) by (auto simp: runs_iff)
  let ?g = "f\<lparr>blink_array := replicate BLINKS blink_zero, vmem_base_addr := vmem (u_sys A), fsys := s\<rparr>"
  have 0: "mp1_set_video_mode os var ?f = Some (vmem (u_sys A), ?g)"
    using v by (simp add: mp1_set_video_mode_def)
  have "blinks ?g []" by (rule blinks_empty) (use assms(3) in simp_all)
  then have S0: "plays A ?g ([], u_out A)" using v(3,4) by (simp add: plays_iff)
  obtain rf s1 where 1: "os_open os (lit ''rtc'') (fsys ?g) = Some (rf, s1)" "rf \<in> {2..7} - u_open A"
    "plays (A\<lparr>u_open := insert rf (u_open A), u_files := (u_files A)(rf \<mapsto> ([], 0))\<rparr>) (?g\<lparr>fsys := s1\<rparr>) ([], u_out A)"
    by (rule openfE [OF S0 d(1)]) (use assms(4) some_closed [of "{}"] in auto)
  let ?A1 = "A\<lparr>u_open := insert rf (u_open A), u_files := (u_files A)(rf \<mapsto> ([], 0))\<rparr>"
  obtain f2 A2 where 2: "add_frames os b0 (lit ''frame0.txt'') (lit ''frame1.txt'') (?g\<lparr>fsys := s1\<rparr>) = Some (None, f2)"
    "plays A2 f2 (fold (a_add pk) (frame_blinks t0 t1) ([], u_out A))" "kept ?A1 A2"
    by (rule add_framesE [OF 1(3), of t0 t1 b0]) (use d t assms(4) in auto)
  have K: "u_open A2 = {rf}" "u_files A2 rf = Some ([], 0)" "u_dir A2 = u_dir A" "u_sys A2 = u_sys A"
    using 2(3) assms(4) by (simp_all add: kept_def)
  define sc where "sc = fold (a_add pk) (frame_blinks t0 t1) ([], u_out A)"
  obtain l out where sc: "sc = (l, out)" by (cases sc)
  have F2: "ok (fsys f2)" "absu (fsys f2) = A2\<lparr>u_out := out\<rparr>" using 2(2) by (simp_all add: plays_iff sc flip: sc_def)
  obtain r3 s3 where 3: "os_write os rf [32, 0, 0, 0] 4 (fsys f2) = Some (r3, s3)" "ok s3" "absu s3 = A2\<lparr>u_out := out\<rparr>"
    using write_opened [OF F2(1), of rf "[32, 0, 0, 0]"] F2(2) K(1) cap by (auto simp: runs_iff)
  have S3: "plays A2 (f2\<lparr>fsys := s3\<rparr>) sc"
    unfolding sc by (rule plays_fsys [OF _ 3(2,3)]) (use 2(2) in \<open>simp_all add: sc flip: sc_def\<close>)
  note W = waits [where n = WAIT, OF _ K(2) g, unfolded WAIT_def]
  obtain f4 where 4: "foldM (wait_tick os rf) [0..<WAIT] (garbage, f2\<lparr>fsys := s3\<rparr>) = Some (garbage, f4)"
    "plays A2 f4 ((a_tick pk ^^ 100) sc)" using W [OF S3] unfolding WAIT_def by blast
  let ?b = "b\<lparr>on_char := 73, off_char := 77, on_length := 7, off_length := 6, location := 6 * 80 + 60\<rparr>"
  have ab: "a_add pk ?b = a_add pk word_blink" by (rule a_add_cong) (simp_all add: word_blink_def)
  obtain r5 f5 where 5: "mp1_ioctl_add os ?b f4 = Some (r5, f5)" "plays A2 f5 (a_add pk word_blink ((a_tick pk ^^ 100) sc))"
    by (rule addE [OF 4(2), of ?b, unfolded ab]) (simp, rule that)
  obtain f6 where 6: "foldM (wait_tick os rf) [0..<WAIT] (garbage, f5) = Some (garbage, f6)"
    "plays A2 f6 ((a_tick pk ^^ 100) (a_add pk word_blink ((a_tick pk ^^ 100) sc)))" using W [OF 5(2)] unfolding WAIT_def by blast
  obtain r7 f7 where 7: "mp1_ioctl_sync os (push_bit 16 40 OR (6 * 80 + 60)) f6 = Some (r7, f7)"
    "plays A2 f7 (a_sync pk 40 540 ((a_tick pk ^^ 100) (a_add pk word_blink ((a_tick pk ^^ 100) sc))))"
    by (rule syncE [OF 6(2), of "push_bit 16 40 OR (6 * 80 + 60)"]) simp
  obtain f8 where 8: "foldM (wait_tick os rf) [0..<WAIT] (garbage, f7) = Some (garbage, f8)"
    "plays A2 f8 ((a_tick pk ^^ 100) (a_sync pk 40 540 ((a_tick pk ^^ 100) (a_add pk word_blink ((a_tick pk ^^ 100) sc)))))"
    using W [OF 7(2)] unfolding WAIT_def by blast
  obtain r9 f9 where 9: "mp1_ioctl_remove (6 * 80 + 60) f8 = Some (r9, f9)"
    "plays A2 f9 (a_remove 540 ((a_tick pk ^^ 100) (a_sync pk 40 540 ((a_tick pk ^^ 100) (a_add pk word_blink ((a_tick pk ^^ 100) sc))))))"
    by (rule removeE [OF 8(2), of "6 * 80 + 60"]) simp
  obtain f10 where 10: "foldM (wait_tick os rf) [0..<WAIT] (garbage, f9) = Some (garbage, f10)"
    "plays A2 f10 (fish_scene pk t0 t1 (u_out A))"
    using W [OF 9(2)] unfolding WAIT_def fish_scene_def Let_def sc_def by blast
  have "feeds A2 rf (Some [])" using K by (simp add: feeds_def)
  moreover have "int32 rf" using 1(2) by (auto simp: int32_def)
  ultimately obtain f11 A3 where 11: "close_at_eof True rf f10 = Some f11" "plays A3 f11 (fish_scene pk t0 t1 (u_out A))"
    "moved {rf} A2 A3" "feeds A3 rf None"
    using closeE [OF 10(2), of rf "Some []" True] by auto
  obtain r12 s12 where 12: "os_close os rf (fsys f10) = Some (r12, s12)" "f11 = f10\<lparr>fsys := s12\<rparr>"
    using 11(1) by (auto simp: close_at_eof_def bind_eq_Some_conv)
  have "fish_main os var b0 b garbage f = Some (0, f11)"
    using vmem_nonnull [OF v(3), unfolded v(4)]
    by (simp only: fish_main_def Let_def 0 1(1) 2(1) 3(1) 4(1) 5(1) 6(1) 7(1) 8(1) 9(1) 10(1) 12 bind.bind_lunit
        split_conv option.case if_False)
  moreover have "u_open A3 = {}" "u_dir A3 = u_dir A" "u_sys A3 = u_sys A"
    using 11(3,4) K by (auto simp: moved_def feeds_def)
  ultimately show ?thesis using 11(2) by blast
qed

end

end
