(* ===== verification/FishKernel.thy ===== *)
theory FishKernel
  imports FishSpec UserKernel
begin

text \<open>
  The laws of \<open>video_api\<close> hold on the kernel: \<^verbatim>\<open>vidmap\<close> stores the address of the program's own video page in the
  program's variable, stores to that page change the screen of the terminal, and \<^verbatim>\<open>write\<close> to the clock sets its
  rate only.
\<close>

section \<open>The video page\<close>

text \<open>The address for the program that runs, and what a store of a byte there does to a screen.\<close>

definition video_page :: "sys_part \<Rightarrow> u32" where
  "video_page sy = USER_VMEM_VADDR + push_bit 12 (term_vid_addr (pterm_num (the (sp_pcbs sy (sp_pid sy)))))"

definition show_cell :: "u32 \<Rightarrow> u8 \<Rightarrow> screen \<Rightarrow> screen" where
  "show_cell x c sc = (let k = unat x div 2 in
     if even (unat x) then sc\<lparr>chars := (chars sc)[k := c]\<rparr> else sc\<lparr>attrs := (attrs sc)[k := c]\<rparr>)"

lemma video_page_eq:
  assumes "prog_ok k"
  shows "video_page (sys_view k) = USER_VMEM_VADDR + push_bit 12 (term_vid_addr (pterm_num (cur_pcb k)))"
  using prog_okD(6) [OF assms] by (simp add: video_page_def sys_view_def pcb_view_def)

lemma low_offset: "x < 4000 \<Longrightarrow> take_bit 12 x = (x :: u32)"
proof -
  assume "x < 4000"
  then have "unat x < 2 ^ 12" using word_less_nat_alt [of x 4000] by simp
  then show ?thesis by (simp add: word_unat_eq_iff unsigned_take_bit_eq take_bit_nat_eq_self)
qed

lemma page_offset:
  fixes va x :: u32
  assumes "take_bit 12 va = 0" and "x < 4000"
  shows "drop_bit 12 (va + x) = drop_bit 12 va" and "take_bit 12 (va + x) = x"
proof -
  have x: "take_bit 12 x = x" by (rule low_offset [OF assms(2)])
  have "\<not> bit va n \<or> \<not> bit x n" for n
  proof (cases "n < 12")
    case True
    then show ?thesis using assms(1) bit_take_bit_iff [of 12 va n] by simp
  next
    case False
    then show ?thesis using bit_take_bit_iff [of 12 x n] x by simp
  qed
  then have o: "va + x = va OR x" by (intro disjunctive_add) auto
  have "drop_bit 12 x = 0" using drop_bit_take_bit [of 12 12 x] x by simp
  then show "drop_bit 12 (va + x) = drop_bit 12 va" by (simp add: o drop_bit_or)
  show "take_bit 12 (va + x) = x" using assms(1) x by (simp add: o take_bit_or)
qed

lemma video_translate:
  assumes k: "prog_ok k" and x: "x < 4000"
  shows "translate True (kpg k) (video_page (sys_view k) + x) = Some (0xB8000 + x)"
proof -
  let ?t = "pterm_num (cur_pcb k)" and ?va = "video_page (sys_view k)"
  note P = prog_okD [OF k]
  have d: "display_term (kcon k) = ?t" using k by (simp add: prog_ok_def)
  have "?t \<in> {0, 1, 2}" using P(3) by auto
  then have t0: "take_bit 12 ?va = 0" unfolding video_page_eq [OF k]
    by (auto simp: USER_VMEM_VADDR_def term_vid_addr_def page_consts)
  have b: "base ?t ?t = 0xB8000" by (simp add: base_def term_consts)
  have v: "translate True (kpg k) ?va = Some 0xB8000"
    using vidmap_translate [OF kinvD(2,4) [OF P(1)] _ P(3)] P(3) d b unfolding video_page_eq [OF k] by simp
  have "drop_bit 22 a = drop_bit 10 (drop_bit 12 a)" for a :: u32 by simp
  then have "drop_bit 22 (?va + x) = drop_bit 22 ?va" by (simp only: page_offset(1) [OF t0 x])
  then have "translate True (kpg k) (?va + x) = map_option (\<lambda>a. a OR x) (translate True (kpg k) ?va)"
    using vidmap_addr(1) [OF P(3)] page_offset [OF t0 x] t0
    unfolding translate_user [OF kinvD(2) [OF P(1)]] video_page_eq [OF k] by (simp add: Let_def)
  moreover have "0xB8000 + x = 0xB8000 OR x"
  proof (rule disjunctive_add)
    fix n
    have "take_bit 12 x = x" by (rule low_offset [OF x])
    then have "bit x n \<Longrightarrow> n < 12" using bit_take_bit_iff [of 12 x n] by simp
    moreover have "n < 12 \<Longrightarrow> \<not> bit (0xB8000 :: u32) n"
      using bit_take_bit_iff [of 12 "0xB8000 :: u32" n] by simp
    ultimately show "\<not> bit (0xB8000 :: u32) n \<or> \<not> bit x n" by blast
  qed
  ultimately show ?thesis using v by simp
qed

lemma video_shows:
  assumes w: "world_ok e w" and x: "x < 4000"
  shows "runs (k_os_store (video_page (u_sys (user_view w)) + x) c w) (\<lambda>w'. world_ok e w' \<and>
    user_view w' = (user_view w)\<lparr>u_out := show_cell x c (u_out (user_view w))\<rparr>)"
proof -
  note W = world_okD [OF w] and P = prog_okD [OF world_okD(1) [OF w]]
  let ?k = "wk w" and ?t = "pterm_num (cur_pcb (wk w))"
  have ux: "uint (0xB8000 + x) = 0xB8000 + uint x" "uint x < 4000"
    using x by (simp_all add: uint_word_ariths word_less_def)
  let ?c = "store8 (0xB8000 + uint x) c (kcon ?k)"
  have "0xB8000 \<le> 0xB8000 + x \<and> 0xB8000 + x < 0xBC000"
    using ux by (simp add: word_le_def word_less_def)
  then have s: "k_os_store (video_page (u_sys (user_view w)) + x) c w = Some (w\<lparr>wk := ?k\<lparr>kcon := ?c\<rparr>\<rparr>)"
    using video_translate [OF W(1) x] ux(1) by (simp add: k_os_store_def phys_store_def u_sys_view)
  have ci: "con_inv ?c" using P(2) by (simp add: con_inv_def)
  have "display_term (kcon ?k) = ?t" using W(1) by (simp add: prog_ok_def)
  then have vm: "video_mem (terminals (kcon ?k) ?t) = 0xB8000"
    using con_invD(3) [OF P(2,3)] by (simp add: base_def term_consts)
  define j where "j = int (unat x div 2)"
  have "unat x < 4000" using x by (simp add: word_less_nat_alt)
  then have j: "0 \<le> j" "j < 2000" "nat j = unat x div 2" by (auto simp: j_def)
  define m where "m = vram (kcon ?k)"
  have vw: "view ?t ?c = \<lparr>scol = cur_x (terminals (kcon ?k) ?t), srow = cur_y (terminals (kcon ?k) ?t),
      chars = vchars 0xB8000 (m(0xB8000 + uint x := c)), attrs = vattrs 0xB8000 (m(0xB8000 + uint x := c))\<rparr>"
    "view ?t (kcon ?k) = \<lparr>scol = cur_x (terminals (kcon ?k) ?t), srow = cur_y (terminals (kcon ?k) ?t),
      chars = vchars 0xB8000 m, attrs = vattrs 0xB8000 m\<rparr>"
    by (simp_all add: view_def vm m_def)
  have "view ?t ?c = show_cell x c (view ?t (kcon ?k))"
  proof (cases "even (unat x)")
    case True
    then have "uint x = 2 * j" unfolding j_def uint_nat by (metis dvd_mult_div_cancel of_nat_mult of_nat_numeral)
    then have e: "0xB8000 + uint x = 0xB8000 + 2 * j" by simp
    show ?thesis
      unfolding vw unfolding e vchars_upd(1) [OF j(1,2)] vchars_upd(2) show_cell_def using True j(3) by simp
  next
    case False
    then have "uint x = 2 * j + 1" unfolding j_def uint_nat
      by (metis odd_two_times_div_two_succ of_nat_1 of_nat_add of_nat_mult of_nat_numeral)
    then have e: "0xB8000 + uint x = 0xB8000 + 2 * j + 1" by simp
    show ?thesis
      unfolding vw unfolding e vchars_upd(3) vchars_upd(4) [OF j(1,2)] show_cell_def using False j(3) by simp
  qed
  moreover have "world_ok e (w\<lparr>wk := ?k\<lparr>kcon := ?c\<rparr>\<rparr>)"
    using w kinv_con [OF P(1) ci] by (simp add: world_ok_def prog_ok_def pending_def)
  moreover have "sys_view (?k\<lparr>kcon := ?c\<rparr>) = sys_view ?k" by (intro call_only_sys) simp
  ultimately show ?thesis using s by (simp add: user_view_def Let_def)
qed

section \<open>vidmap\<close>

definition pointer_var :: "u32 \<Rightarrow> bool" where
  "pointer_var a \<longleftrightarrow> 0x8000000 \<le> unat a \<and> unat a < 0x83FFFFC"

lemma k_load_prog:
  assumes "kinv (wk w)" and "drop_bit 22 a = 32"
  shows "k_os_load a w = Some (pmem (wk w) (prog_addr (current_pid (wk w)) a))"
proof -
  let ?p = "current_pid (wk w)"
  note m = mapped_for_cur [OF assms(1)]
  have t: "translate True (kpg (wk w)) a = Some (prog_addr ?p a)"
    using m assms(2) by (simp add: translate_user mapped_for_def prog_addr_def)
  have "unat (drop_bit 22 a) = 32" using assms(2) by simp
  then have "translate False (kpg (wk w)) a = Some (prog_addr ?p a)"
    using m by (simp add: translate_def mapped_for_def pg_inv_def Let_def prog_addr_def)
  then show ?thesis
    using load8_prog [OF m kinvD(8) [OF assms(1)] assms(2)] t by (simp add: k_os_load_def load8_def)
qed

lemma bytes32_join:
  "ucast (ucast v :: u8) OR push_bit 8 (ucast (ucast (drop_bit 8 v) :: u8)) OR
   push_bit 16 (ucast (ucast (drop_bit 16 v) :: u8)) OR push_bit 24 (ucast (ucast (drop_bit 24 v) :: u8)) = (v :: u32)"
proof (rule bit_word_eqI)
  fix n assume "n < LENGTH(32)"
  then have "n < 8 \<or> 8 \<le> n \<and> n < 16 \<or> 16 \<le> n \<and> n < 24 \<or> 24 \<le> n \<and> n < 32" by auto
  then show "bit ((ucast (ucast v :: u8) :: u32) OR push_bit 8 (ucast (ucast (drop_bit 8 v) :: u8)) OR
      push_bit 16 (ucast (ucast (drop_bit 16 v) :: u8)) OR push_bit 24 (ucast (ucast (drop_bit 24 v) :: u8))) n = bit (v :: u32) n"
    by (elim disjE conjE) (auto simp: bit_simps)
qed

lemma k_vidmap_maps:
  assumes w: "world_ok e w" and a: "pointer_var a"
  shows "runs (os_vidmap (kernel_os e) a w) (\<lambda>(r, w'). r \<noteq> -1 \<and> world_ok e w' \<and> user_view w' = user_view w \<and>
    load_ptr (kernel_os e) a w' = Some (video_page (u_sys (user_view w))))"
proof -
  note W = world_okD [OF w]
  let ?bs = "bytes32 (video_page (sys_view (wk w)))"
  have pg: "in_prog_page a 4" "length ?bs = 4" using a by (simp_all add: pointer_var_def in_prog_page_def bytes32_def)
  have v: "\<exists>k'. vidmap a (wk w\<lparr>pmem := m\<rparr>) = Some (0, k') \<and> kinv k' \<and>
      (\<exists>m'. k' = wk w\<lparr>pmem := m'\<rparr> \<and> prog_bytes k' a 4 = ?bs)" for m
  proof -
    have k: "kinv (wk w\<lparr>pmem := m\<rparr>)" using W(3) by simp
    obtain m' where m': "put_user a ?bs (wk w\<lparr>pmem := m\<rparr>) = Some (wk w\<lparr>pmem := m'\<rparr>)"
      "prog_bytes (wk w\<lparr>pmem := m'\<rparr>) a 4 = ?bs"
      by (rule put_objE [OF k, of a ?bs]) (use pg in auto)
    have "vidmap a (wk w\<lparr>pmem := m\<rparr>) = Some (0, wk w\<lparr>pmem := m'\<rparr>)"
      using a m'(1) unfolding video_page_eq [OF W(1)]
      by (auto simp: vidmap_def Let_def USER_PAGE_VMIN_def USER_PAGE_VMAX_def page_consts pointer_var_def
          word_le_nat_alt word_less_nat_alt)
    then show ?thesis using m'(2) W(3) by (intro exI [of _ "wk w\<lparr>pmem := m'\<rparr>"]) auto
  qed
  have "\<exists>k'. do_call ((ue_inp e)\<lparr>in_wait := no_wait\<rparr>) 8 a 0 0 (wk w\<lparr>pmem := m\<rparr>) = Some (0, k') \<and> kinv k' \<and>
      prog_bytes k' (ue_at e) (length ([] :: u8 list)) = [] \<and> (\<exists>m'. k' = wk w\<lparr>pmem := m'\<rparr> \<and> prog_bytes k' a 4 = ?bs)" for m
    using v [of m] by (simp add: do_call_numbers prog_bytes_def)
  from obj_callE [OF w _ this] obtain m' where
    k': "obj_call e no_wait [] 8 a 0 0 w = Some (0, [], w\<lparr>wk := wk w\<lparr>pmem := m'\<rparr>\<rparr>)"
    "prog_bytes (wk w\<lparr>pmem := m'\<rparr>) a 4 = ?bs" by auto
  let ?w = "w\<lparr>wk := wk w\<lparr>pmem := m'\<rparr>\<rparr>"
  have ok: "world_ok e ?w" "user_view ?w = user_view w" using world_pmem(1) [OF w] world_pmem(2) by auto
  have ld: "k_os_load (a + of_nat j) ?w = Some (?bs ! j)" if "j < 4" for j
  proof -
    have "drop_bit 22 (a + of_nat j) = 32" using in_prog_page_addr [OF pg(1) that] .
    then show ?thesis
      using k_load_prog [of ?w "a + of_nat j"] world_okD(3) [OF ok(1)] arg_cong [OF k'(2), of "\<lambda>l. l ! j"] that
      by (simp add: prog_bytes_def)
  qed
  have "load_ptr (kernel_os e) a ?w = Some (video_page (sys_view (wk w)))"
    using ld [of 0] ld [of 1] ld [of 2] ld [of 3] bytes32_join [of "video_page (sys_view (wk w))"]
    by (simp add: load_ptr_def bytes32_def)
  then show ?thesis using k'(1) ok by (simp add: k_os_plain_def u_sys_view)
qed

section \<open>write to a descriptor that was opened\<close>

lemma sys_write_opened:
  assumes k: "kinv k" and fd: "fd \<in> open_set (cur_pcb k)" and va: "in_prog_page va 4"
  obtains r k' where "sys_write inp fd va n k = Some (r, k')" and "kinv k'" and "call_only k k'"
    and "pmem k' = pmem k" and "con_same (kcon k) (kcon k')" and "fd_arr (cur_pcb k') = fd_arr (cur_pcb k)"
proof -
  let ?ops = "fops (fd_arr (cur_pcb k) ! nat fd)"
  have r: "0 \<le> fd" "fd \<le> 7" "fd_is_open fd (cur_pcb k)" using fd by (auto simp: open_set_range)
  have e: "sys_write inp fd va n k = op_write (in_prev inp) ?ops va n k"
    using r prog_page_nonnull [OF va] by (simp add: sys_write_def MAX_NUM_FD_def Let_def)
  show ?thesis
  proof (cases "?ops = RTC_OPS")
    case True
    let ?f = "sint (le32 (prog_bytes k va 4))"
    let ?k1 = "snd (k_rtc_set_freq (in_prev inp) ?f k)"
    let ?v = "fst (k_rtc_set_freq (in_prev inp) ?f k)"
    let ?k2 = "if ?v \<noteq> -1 then set_rtc_freq ?f ?k1 else ?k1"
    have w: "sys_write inp fd va n k = Some (?v, ?k2)"
      unfolding e True using get_user_prog [OF k va] by (simp add: op_write_def rtc_write_def case_prod_beta Let_def)
    have c1: "call_only k ?k1"
    proof -
      have "pcbs ?k1 = (pcbs k)(current_pid k := (cur_pcb k)\<lparr>fd_arr := fd_arr (cur_pcb k), rtc_freq := rtc_freq (cur_pcb k)\<rparr>)"
        by simp
      then show ?thesis unfolding call_only_def by (simp only: k_rtc_set_freq_simps simp_thms) blast
    qed
    show ?thesis
    proof (rule that [OF w])
      show "kinv ?k2" using sys_write_keeps [OF k w] by simp
      show "call_only k ?k2" using c1 call_only_trans [OF c1 fd_fun_call_only(4)] by simp
      show "con_same (kcon k) (kcon ?k2)" by (simp add: con_same_def set_rtc_freq_def)
      show "pmem ?k2 = pmem k" "fd_arr (cur_pcb ?k2) = fd_arr (cur_pcb k)" by (simp_all add: set_rtc_freq_def)
    qed
  next
    case False
    then have "sys_write inp fd va n k = Some (-1, k)"
      unfolding e using open_desc [OF k fd] by (auto simp: op_write_def fs_stubs)
    then show ?thesis using k by (intro that [of "-1" k]) simp_all
  qed
qed

lemma k_write_opened:
  assumes w: "world_ok e w" and fd: "fd \<in> u_open (user_view w)" and buf: "4 \<le> length buf" "length buf \<le> obj_limit"
  shows "runs (k_os_write e fd buf n w) (\<lambda>(r, w'). world_ok e w' \<and> user_view w' = user_view w)"
proof -
  note W = world_okD [OF w]
  let ?p = "cur_pcb (wk w)"
  let ?d = "fd_arr ?p ! nat fd"
  have fd': "int32 fd" "2 \<le> fd" "fd \<le> 7" "fd \<in> open_set ?p" using fd by (auto simp: open_set_range int32_def)
  have pg: "in_prog_page (ue_at e) 4" using W(5) [of 4] by (simp add: obj_limit_def)
  have len: "length (fd_arr ?p) = 8" using prog_okD(4) [OF W(1)] .
  obtain m where m: "put_user (ue_at e) buf (wk w) = Some (wk w\<lparr>pmem := m\<rparr>)"
    by (rule put_objE [OF W(3), of "ue_at e" buf]) (use W(5) buf in auto)
  obtain r k' where k': "sys_write ((ue_inp e)\<lparr>in_wait := no_wait\<rparr>) fd (ue_at e) (word_of_int n) (wk w\<lparr>pmem := m\<rparr>) = Some (r, k')"
    "kinv k'" "call_only (wk w\<lparr>pmem := m\<rparr>) k'" "con_same (kcon (wk w)) (kcon k')" "fd_arr (cur_pcb k') = fd_arr ?p"
    by (rule sys_write_opened [of "wk w\<lparr>pmem := m\<rparr>" fd "ue_at e" "(ue_inp e)\<lparr>in_wait := no_wait\<rparr>" "word_of_int n"])
      (use W(3) fd' pg in auto)
  obtain obj where g: "get_user (ue_at e) (length buf) k' = Some obj"
    using get_user_prog [OF k'(2), of "ue_at e" "length buf"] W(5) buf by auto
  have e: "k_os_write e fd buf n w = Some (r, w\<lparr>wk := k'\<rparr>)"
    using m k'(1) g fd'(1) by (simp add: k_os_write_def obj_call_def do_call_numbers fd_arg)
  have c: "call_only (wk w) k'" using k'(3) by (simp add: call_only_def)
  have o: "fflags ?d = FDFLAG_OPEN" using fd'(4) by (simp add: open_set_range fd_is_open_def)
  have s: "fd_set fd ?d ?p (cur_pcb k')" using k'(5) len fd' by (simp add: fd_set_def)
  have d: "fd_ok (kfs (wk w)) ?d" using W(1) fd'(4) by (simp add: prog_ok_def files_ok_def)
  note F = fd_call_world [OF w c k'(2,4) s fd'(2) d]
  have "user_view (w\<lparr>wk := k'\<rparr>) = user_view w"
  proof -
    have "u_open (user_view w) = insert fd (u_open (user_view w))" using fd by auto
    moreover have "u_files (user_view w) fd = Some (fd_file (kfs (wk w)) ?d)" using fd'(4) by (simp add: files_of_def)
    then have "(u_files (user_view w))(fd \<mapsto> fd_file (kfs (wk w)) ?d) = u_files (user_view w)" by (simp add: fun_upd_idem_iff)
    ultimately show ?thesis using F(2) o by simp
  qed
  then show ?thesis using e F(1) by simp
qed

section \<open>The contract holds\<close>

interpretation kfish: video_api "kernel_os e" "world_ok e" user_view show_bytes obj_limit pointer_var video_page show_cell for e
proof
  fix w assume "world_ok e w"
  then have k: "prog_ok (wk w)" by (simp add: world_ok_def)
  have "pterm_num (cur_pcb (wk w)) \<in> {0, 1, 2}" using prog_okD(3) [OF k] by auto
  then show "video_page (u_sys (user_view w)) \<noteq> 0"
    by (auto simp: u_sys_view video_page_eq [OF k] USER_VMEM_VADDR_def term_vid_addr_def page_consts)
next
  fix w a assume "world_ok e w" "pointer_var a"
  then show "runs (os_vidmap (kernel_os e) a w) (\<lambda>(r, w'). r \<noteq> -1 \<and> world_ok e w' \<and> user_view w' = user_view w \<and>
      load_ptr (kernel_os e) a w' = Some (video_page (u_sys (user_view w))))"
    by (rule k_vidmap_maps)
next
  fix w c and x :: u32 assume "world_ok e w" "x < 4000"
  then show "runs (os_store (kernel_os e) (video_page (u_sys (user_view w)) + x) c w) (\<lambda>w'. world_ok e w' \<and>
      user_view w' = (user_view w)\<lparr>u_out := show_cell x c (u_out (user_view w))\<rparr>)"
    unfolding kernel_os_simps by (rule video_shows)
next
  fix w fd and buf :: "u8 list"
  assume "world_ok e w" "fd \<in> u_open (user_view w)" "4 \<le> length buf" "length buf \<le> obj_limit"
  then show "runs (os_write (kernel_os e) fd buf 4 w) (\<lambda>(r, w'). world_ok e w' \<and> user_view w' = user_view w)"
    unfolding kernel_os_simps by (rule k_write_opened)
qed

end
