(* ===== verification/FishProps.thy ===== *)
theory FishProps
  imports FishKernel UserDemo
begin

text \<open>
  The animation on the kernel, from the interpretation of its contract, with a small image that holds the clock and
  two frames as the concrete system.
\<close>

section \<open>What the statements use\<close>

text \<open>
  The structures hold the list, and the screen of the program's terminal is \<open>out\<close>, while what the system calls show
  of the kernel is \<open>A\<close> otherwise.
\<close>

definition shows_scene :: "uenv \<Rightarrow> (screen, sys_part) ustate \<Rightarrow> world fish \<Rightarrow> screen scene \<Rightarrow> bool" where
  "shows_scene e A f = (\<lambda>(l, out). blinks f l \<and> vmem_base_addr f = video_page (u_sys A) \<and> world_ok e (fsys f) \<and>
     user_view (fsys f) = A\<lparr>u_out := out\<rparr>)"

lemma shows_scene_eq: "shows_scene e A f sc = kfish.plays e A f sc"
  by (cases sc) (simp add: shows_scene_def kfish.plays_iff)

section \<open>A concrete system\<close>

definition frame0 :: "u8 list" where "frame0 = asc '' o'' @ [10] @ asc ''><>'' @ [10]"
definition frame1 :: "u8 list" where "frame1 = asc ''o'' @ [10] @ asc ''<><'' @ [10]"

text \<open>The entries \<^verbatim>\<open>.\<close>, \<^verbatim>\<open>rtc\<close>, \<^verbatim>\<open>frame0.txt\<close> and \<^verbatim>\<open>frame1.txt\<close>, two inodes and two blocks.\<close>

definition fish_bytes :: "(nat \<times> u8 list) list" where
  "fish_bytes = [(0, [4]), (4, [2]), (8, [2]), (64, [46]), (96, [1]), (128, asc ''rtc''),
     (192, asc ''frame0.txt''), (224, [2]), (256, asc ''frame1.txt''), (288, [2]), (292, [1]),
     (4096, [7]), (8192, [6]), (8196, [1]), (12288, frame0), (16384, frame1)]"

definition fish_fs :: fs_image where
  "fish_fs = \<lparr>fs = 0x500000, fs_mem = (\<lambda>a. byte_at fish_bytes (unat (a - 0x500000)))\<rparr>"

lemma fish_mem: "fs fish_fs = 0x500000" "fs_mem fish_fs a = byte_at fish_bytes (unat (a - 0x500000))"
  by (simp_all add: fish_fs_def)

lemma frame_lengths: "length frame0 = 7" "length frame1 = 6"
  by (simp_all add: frame0_def frame1_def)

lemmas fish_byte = fish_mem fish_bytes_def byte_at_Nil byte_at_Cons frame_lengths

lemma fish_counts: "bb_dentry_count fish_fs = 4" "bb_inodes_count fish_fs = 2" "bb_blocks_count fish_fs = 2"
  by (simp_all add: bb_dentry_count_def bb_inodes_count_def bb_blocks_count_def load32_def fish_byte)

lemma fish_inode:
  "inode_addr fish_fs 0 = 0x501000" "inode_addr fish_fs 1 = 0x502000"
  "node_length fish_fs 0x501000 = 7" "node_length fish_fs 0x502000 = 6"
  "node_data_block fish_fs 0x501000 0 = 0" "node_data_block fish_fs 0x502000 0 = 1"
  by (simp_all add: inode_addr_def node_length_def node_data_block_def BLOCK_SIZE_def load32_def fish_byte)

lemma fish_offset: "j < 7 \<Longrightarrow> unat (12288 + of_nat j :: u32) = 12288 + j" "j < 6 \<Longrightarrow> unat (16384 + of_nat j :: u32) = 16384 + j"
  using unat_of_nat32 [of "12288 + j"] unat_of_nat32 [of "16384 + j"] by simp_all

lemma frame0_byte: "j < 7 \<Longrightarrow> file_byte fish_fs 0 j = frame0 ! j"
  and frame1_byte: "j < 6 \<Longrightarrow> file_byte fish_fs 1 j = frame1 ! j"
  by (simp_all add: file_byte_def fish_inode fish_counts BLOCK_SIZE_def fish_byte fish_offset)

lemma fish_files: "file_data fish_fs 0 = frame0" "file_data fish_fs 1 = frame1"
  by (auto simp: file_data_def fish_inode frame0_byte frame1_byte frame_lengths intro: nth_equalityI)

lemma fish_names:
  "entry_name fish_fs 0 = [46]" "entry_name fish_fs 1 = asc ''rtc''" "entry_name fish_fs 2 = asc ''frame0.txt''"
  "entry_name fish_fs 3 = asc ''frame1.txt''"
  by (simp_all add: entry_name_def load_bytes_def dentry_addr_def fish_byte upt_rec)

lemma fish_types:
  "entry_type fish_fs 0 = 1" "entry_type fish_fs 1 = 0" "entry_type fish_fs 2 = 2" "entry_type fish_fs 3 = 2"
  "entry_inode fish_fs 2 = 0" "entry_inode fish_fs 3 = 1"
  by (simp_all add: entry_type_def entry_inode_def load32_def dentry_addr_def fish_byte)

lemma fish_find:
  "find_entry fish_fs name = (if name = [46] then Some 0 else if name = asc ''rtc'' then Some 1
     else if name = asc ''frame0.txt'' then Some 2 else if name = asc ''frame1.txt'' then Some 3 else None)"
proof -
  have "[0..<unat (bb_dentry_count fish_fs)] = [0, 1, 2, 3]" by (simp add: fish_counts upt_rec)
  then show ?thesis by (auto simp: find_entry_def fish_names simp del: One_nat_def)
qed

lemma fish_dir:
  "dir_of fish_fs (asc ''rtc'') = Some []" "dir_of fish_fs (asc ''frame0.txt'') = Some frame0"
  "dir_of fish_fs (asc ''frame1.txt'') = Some frame1"
  using fish_types fish_files
  by (auto simp del: One_nat_def simp: dir_of_def fish_find ops_of_type_def FTYPE_RTC_def FTYPE_DIR_def FTYPE_FILE_def content_def)

lemma fish_valid: "valid_inode fish_fs 0" "valid_inode fish_fs 1"
  by (simp_all add: valid_inode_def fish_counts fish_inode upt_rec)

lemma fish_image: "image_ok fish_fs"
proof -
  have "i < 4 \<Longrightarrow> entry_type fish_fs i = FTYPE_FILE \<Longrightarrow> entry_inode fish_fs i = 0 \<or> entry_inode fish_fs i = 1" for i
    using fish_types by (auto simp: less_Suc_eq numeral_eq_Suc FTYPE_FILE_def)
  then show ?thesis
    using fish_valid fish_inode by (fastforce simp: image_ok_def valid_dir_def fish_counts obj_limit_def)
qed

definition fish_world :: world where
  "fish_world = (tool_prog [] [])\<lparr>wk := (wk (tool_prog [] []))\<lparr>kfs := fish_fs\<rparr>\<rparr>"

definition fish_start :: "world fish" where
  "fish_start = \<lparr>blink_array = [], mp1_list_head = None, vmem_base_addr = 0, fsys = fish_world\<rparr>"

text \<open>The state once the video page is mapped, with no blinking characters yet.\<close>

definition fish_blank :: "world fish" where
  "fish_blank = \<lparr>blink_array = replicate BLINKS blink_zero, mp1_list_head = None,
     vmem_base_addr = video_page (sys_view (wk fish_world)), fsys = fish_world\<rparr>"

lemma fish_world_view: "open_set (cur_pcb (wk fish_world)) = {}" "kfs (wk fish_world) = fish_fs"
proof -
  have "open_set (cur_pcb (wk (tool_prog [] []))) = {}" using tool_prog_view(2) [of "[]" "[]"] by simp
  then show "open_set (cur_pcb (wk fish_world)) = {}" "kfs (wk fish_world) = fish_fs" by (simp_all add: fish_world_def)
qed

lemma fish_world_ok: "world_ok tool_env fish_world"
proof -
  have w: "world_ok tool_env (tool_prog [] [])" by (rule tool_prog_ok) simp_all
  have "files_ok fish_fs (cur_pcb (wk (tool_prog [] [])))"
    using fish_world_view(1) by (simp add: files_ok_def fish_world_def)
  then show ?thesis using w fish_image by (simp add: fish_world_def world_ok_def prog_ok_def)
qed

lemma fish_blank_shows: "shows_scene tool_env (user_view fish_world) fish_blank ([], u_out (user_view fish_world))"
proof -
  have "blinks fish_blank []" by (rule blinks_empty) (simp_all add: fish_blank_def)
  then show ?thesis using fish_world_ok by (simp add: shows_scene_def fish_blank_def u_sys_view)
qed

section \<open>The blinking characters\<close>

text \<open>
  C17: The linked structures of \<^verbatim>\<open>blink.S\<close> refine a list of blinking characters on the running kernel: adding puts one
  in front and shows it, removing takes the first one at a location out of the list and frees its structure,
  synchronising copies the times of one to another, finding returns the first one at a location, and a clock tick
  counts each one down and shows those that are due; the program faults in none of them, the result says whether the
  operation was possible, and nothing but the screen of the program's terminal changes in the system.
\<close>

theorem blinks_refine_list:
  assumes "shows_scene e A f (l, out)" and "location b \<noteq> 0"
  shows "(\<exists>f'. mp1_rtc_tasklet (kernel_os e) f = Some f' \<and> shows_scene e A f' (a_tick show_cell (l, out))) \<and>
    (\<exists>f'. mp1_ioctl_add (kernel_os e) b f = Some (if location b < 2000 \<and> length l < BLINKS then 0 else -1, f') \<and>
       shows_scene e A f' (a_add show_cell b (l, out))) \<and>
    (\<exists>f'. mp1_ioctl_remove a f = Some (if \<exists>b\<in>set l. location b = ucast a then 0 else -1, f') \<and>
       shows_scene e A f' (a_remove (ucast a) (l, out))) \<and>
    (\<exists>f'. mp1_ioctl_sync (kernel_os e) a f = Some (if (\<exists>b\<in>set l. location b = ucast (drop_bit 16 a)) \<and>
         (\<exists>b\<in>set l. location b = ucast (a AND 0xFFFF)) then 0 else -1, f') \<and>
       shows_scene e A f' (a_sync show_cell (ucast (drop_bit 16 a)) (ucast (a AND 0xFFFF)) (l, out))) \<and>
    (\<exists>r u'. mp1_ioctl_find u f = Some (r, u') \<and> (case find (\<lambda>b. location b = location u) l of
       None \<Rightarrow> r = -1 \<and> u' = u | Some b \<Rightarrow> r = 0 \<and> plain u' = b))"
  using assms kfish.vm.tasklet_refines kfish.vm.add_refines kfish.vm.remove_refines kfish.vm.sync_refines kfish.vm.find_refines
  unfolding shows_scene_eq kfish.plays_def by meson

theorem blinks_refine_list_witness:
  "\<exists>f'. mp1_ioctl_add (kernel_os tool_env) word_blink fish_blank = Some (0, f') \<and>
     shows_scene tool_env (user_view fish_world) f' (a_add show_cell word_blink ([], u_out (user_view fish_world)))"
  using blinks_refine_list [OF fish_blank_shows, of word_blink 0 word_blink]
  by (simp add: word_blink_def blink_zero_def BLINKS_def)

text \<open>
  C16: The animation as a whole: with the clock and two frame files in the file system, \<^verbatim>\<open>fish\<close> maps its video page, adds
  a blinking character for every place where a frame has one, lets them blink for 100 ticks, adds, synchronises and
  removes one more between three further runs of 100 ticks, and returns 0; the screen of its terminal is then what
  this performance makes of the two texts, and the rest of the system is as before.
\<close>

theorem fish_shows_frames:
  assumes "world_ok e (fsys f)" and "open_set (cur_pcb (wk (fsys f))) = {}" and "mp1_list_head f = None"
    and "pointer_var var" and "dir_of (kfs (wk (fsys f))) (asc ''rtc'') = Some []"
    and "dir_of (kfs (wk (fsys f))) (asc ''frame0.txt'') = Some t0" and "length t0 \<le> 700"
    and "dir_of (kfs (wk (fsys f))) (asc ''frame1.txt'') = Some t1" and "length t1 \<le> 700" and "length garbage = 4"
  shows "\<exists>f'. fish_main (kernel_os e) var b0 b garbage f = Some (0, f') \<and> world_ok e (fsys f') \<and>
    sys_view (wk (fsys f')) = sys_view (wk (fsys f)) \<and> open_set (cur_pcb (wk (fsys f'))) = {} \<and>
    blinks f' (fst (fish_scene show_cell t0 t1 (u_out (user_view (fsys f))))) \<and>
    u_out (user_view (fsys f')) = snd (fish_scene show_cell t0 t1 (u_out (user_view (fsys f))))"
proof -
  let ?A = "user_view (fsys f)"
  obtain l out where sc: "fish_scene show_cell t0 t1 (u_out ?A) = (l, out)" by fastforce
  obtain f' A' where "fish_main (kernel_os e) var b0 b garbage f = Some (0, f')" "u_open A' = {}" "u_sys A' = u_sys ?A"
    "kfish.plays e A' f' (l, out)"
    using kfish.fish_plays [OF assms(1) refl assms(3) _ assms(4) _ _ _ assms(7,9,10), of b0 b] assms(2,5,6,8) sc by auto
  then show ?thesis
    unfolding sc kfish.plays_iff u_sys_view [symmetric] u_open_view [symmetric] by (intro exI [of _ f']) simp
qed

theorem fish_shows_frames_witness:
  "\<exists>f'. fish_main (kernel_os tool_env) 0x8100000 blink_zero blink_zero [0, 0, 0, 0] fish_start = Some (0, f') \<and>
     u_out (user_view (fsys f')) = snd (fish_scene show_cell frame0 frame1 (u_out (user_view fish_world)))"
proof -
  have s: "fsys fish_start = fish_world" "mp1_list_head fish_start = None" by (simp_all add: fish_start_def)
  have p: "pointer_var 0x8100000" "length [0, 0, 0, 0 :: u8] = 4" by (simp_all add: pointer_var_def)
  have l: "length frame0 \<le> 700" "length frame1 \<le> 700" by (simp_all add: frame_lengths)
  show ?thesis
    using fish_shows_frames [of tool_env fish_start "0x8100000" frame0 frame1 "[0, 0, 0, 0]" blink_zero blink_zero,
      unfolded s fish_world_view(2), OF fish_world_ok fish_world_view(1) refl p(1) fish_dir(1,2) l(1) fish_dir(3) l(2) p(2)]
    by blast
qed

end
