(* ===== verification/Emulate.thy ===== *)
theory Emulate
  imports UserLib
begin

text \<open>
  The emulation of the system calls on Linux (\<^verbatim>\<open>src/syscalls/ece391emulate.c\<close>; \<^verbatim>\<open>src/fish\<close> has a copy). What Linux
  and its C library do is the record \<open>linux\<close>; a string is the list of the bytes from the pointer on, an array that
  the code writes to is a list with the pointers into it as indices, and \<^term>\<open>None\<close> is an access outside an object.
\<close>

section \<open>The parameters and the state\<close>

text \<open>How a process ended: the values that the macros of \<^verbatim>\<open>sys/wait.h\<close> tell apart.\<close>

datatype wait_status = Exited u8 | Signaled nat

text \<open>
  \<open>l_int80\<close> is \<^verbatim>\<open>int $0x80\<close> for a call with a number and an argument, \<open>l_rw\<close> for a call on a descriptor and a buffer
  (with the bytes in the buffer after it), \<open>l_execv\<close> is a process from \<^verbatim>\<open>execv\<close> to its end, or \<^term>\<open>None\<close> when \<^verbatim>\<open>execv\<close>
  returns.
\<close>

record ('l, 'd) linux =
  l_int80 :: "u32 \<Rightarrow> u8 list \<Rightarrow> 'l \<Rightarrow> u32 \<times> 'l"
  l_rw :: "u32 \<Rightarrow> int \<Rightarrow> u8 list \<Rightarrow> int \<Rightarrow> 'l \<Rightarrow> u32 \<times> u8 list \<times> 'l"
  l_close_fd :: "int \<Rightarrow> 'l \<Rightarrow> u32 \<times> 'l"
  l_execv :: "u8 list \<Rightarrow> u8 list list \<Rightarrow> 'l \<Rightarrow> (wait_status \<times> 'l) option"
  l_open :: "u8 list \<Rightarrow> 'l \<Rightarrow> int \<times> 'l"
  l_close :: "int \<Rightarrow> 'l \<Rightarrow> 'l"
  l_opendir :: "u8 list \<Rightarrow> 'l \<Rightarrow> 'd option \<times> 'l"
  l_readdir :: "'d \<Rightarrow> 'l \<Rightarrow> u8 list option \<times> 'l"
  l_closedir :: "'d \<Rightarrow> 'l \<Rightarrow> 'l"
  l_mmap :: "int \<Rightarrow> 'l \<Rightarrow> u32 option \<times> 'l"

text \<open>The static variables, and the arguments that \<^verbatim>\<open>start_esp\<close> points to.\<close>

record ('l, 'd) emu =
  dir :: "'d option"
  dir_fd :: int
  mem_fd :: int
  start_args :: "u8 list list"
  lsys :: 'l

text \<open>The end of \<^verbatim>\<open>DO_CALL\<close>: the error codes of Linux become -1.\<close>

definition linux_result :: "u32 \<Rightarrow> int" where
  "linux_result eax = (if eax \<le> 0xFFFFC000 then sint eax else -1)"

section \<open>execute\<close>

text \<open>\<^verbatim>\<open>ece391_strcpy\<close> from one object to another.\<close>

fun strcpy_to :: "u8 list \<Rightarrow> u8 list \<Rightarrow> u8 list option" where
  "strcpy_to (d # dst) (c # src) = (if c = 0 then Some (0 # dst) else map_option (Cons c) (strcpy_to dst src))"
| "strcpy_to _ _ = None"

partial_function (option) scan_word :: "u8 list \<Rightarrow> nat \<Rightarrow> nat option" where
  "scan_word buf scan =
     do { c \<leftarrow> idx buf (int scan);
          if 0 \<noteq> c \<and> 32 \<noteq> c \<and> 10 \<noteq> c then scan_word buf (scan + 1) else Some scan }"

partial_function (option) scan_blanks :: "u8 list \<Rightarrow> nat \<Rightarrow> nat option" where
  "scan_blanks buf scan =
     do { c \<leftarrow> idx buf (int scan);
          if 32 = c then scan_blanks buf (scan + 1) else Some scan }"

text \<open>The loop over the arguments; \<open>args\<close> are the pointers stored so far in the array of 1024.\<close>

partial_function (option) scan_args :: "u8 list \<Rightarrow> nat \<Rightarrow> nat list \<Rightarrow> (u8 list \<times> nat list) option" where
  "scan_args buf scan args =
     do { scan \<leftarrow> scan_blanks buf scan;
          c \<leftarrow> idx buf (int scan);
          if 0 = c \<or> 10 = c then do { buf \<leftarrow> put buf (int scan) 0; Some (buf, args) }
          else if length args < 1024 then
            do { let args = args @ [scan];
                 scan \<leftarrow> scan_word buf scan;
                 c \<leftarrow> idx buf (int scan);
                 if 0 \<noteq> c then do { buf \<leftarrow> put buf (int scan) 0; scan_args buf (scan + 1) args }
                 else scan_args buf scan args }
          else None }"

text \<open>\<open>buf\<close> is what is on the stack. A child whose \<^verbatim>\<open>execv\<close> returns kills itself with signal 9;
  \<^verbatim>\<open>fork\<close> is taken to succeed.\<close>

definition emu_execute :: "('l, 'd) linux \<Rightarrow> u8 list \<Rightarrow> u8 list \<Rightarrow> ('l, 'd) emu \<Rightarrow> (int \<times> ('l, 'd) emu) option" where
  "emu_execute lx buf command e =
     do { n \<leftarrow> ece391_strlen command;
          if 1023 < n then Some (-1, e)
          else
            do { buf \<leftarrow> put buf 0 46;
                 buf \<leftarrow> put buf 1 47;
                 rest \<leftarrow> strcpy_to (drop 2 buf) command;
                 let buf = take 2 buf @ rest;
                 scan \<leftarrow> scan_word buf 2;
                 c \<leftarrow> idx buf (int scan);
                 (buf, args) \<leftarrow>
                   (if 0 \<noteq> c then do { buf \<leftarrow> put buf (int scan) 0; scan_args buf (scan + 1) [0] }
                    else Some (buf, [0]));
                 if length args < 1024 then
                   let (status, s) = (case l_execv lx (cstr buf) (map (\<lambda>i. cstr (drop i buf)) args) (lsys e) of
                         None \<Rightarrow> (Signaled 9, lsys e) | Some r \<Rightarrow> r)
                   in Some (case status of Exited v \<Rightarrow> uint v | Signaled sig \<Rightarrow> if 9 = sig then -1 else 256, e\<lparr>lsys := s\<rparr>)
                 else None } }"

section \<open>getargs\<close>

text \<open>The arguments from \<^verbatim>\<open>argv[idx]\<close> on, with \<^verbatim>\<open>buf\<close> as the index \<open>p\<close> into the caller's array.\<close>

fun copy_args :: "u8 list list \<Rightarrow> u8 list \<Rightarrow> int \<Rightarrow> int \<Rightarrow> (int \<times> u8 list) option" where
  "copy_args [] buf p nbytes =
     (if nbytes < 1 then Some (-1, buf) else do { buf \<leftarrow> put buf p 0; Some (0, buf) })"
| "copy_args (a # as) buf p nbytes =
     do { len \<leftarrow> ece391_strlen a;
          if sint len > nbytes then Some (-1, buf)
          else
            do { d \<leftarrow> at_index buf p;
                 d \<leftarrow> strcpy_to d a;
                 let buf = take (nat p) buf @ d;
                 let p = p + sint len;
                 let nbytes = nbytes - sint len;
                 if as = [] then copy_args [] buf p nbytes
                 else if nbytes < 1 then Some (-1, buf)
                 else do { buf \<leftarrow> put buf p 32; copy_args as buf (p + 1) (nbytes - 1) } } }"

definition emu_getargs :: "u8 list \<Rightarrow> int \<Rightarrow> ('l, 'd) emu \<Rightarrow> (int \<times> u8 list) option" where
  "emu_getargs buf nbytes e = copy_args (tl (start_args e)) buf 0 nbytes"

section \<open>open, read, write, close, vidmap\<close>

definition emu_open :: "('l, 'd) linux \<Rightarrow> u8 list \<Rightarrow> ('l, 'd) emu \<Rightarrow> (int \<times> ('l, 'd) emu) option" where
  "emu_open lx filename e =
     do { d \<leftarrow> ece391_strcmp filename (lit ''.'');
          if 0 = d then
            let (dd, s) = l_opendir lx (lit ''.'') (lsys e);
                (fd, s) = l_open lx (lit ''/dev/null'') s
            in Some (fd, e\<lparr>dir := dd, dir_fd := fd, lsys := s\<rparr>)
          else let (rval, s) = l_int80 lx 5 filename (lsys e) in Some (linux_result rval, e\<lparr>lsys := s\<rparr>) }"

function pad_entry :: "u8 list \<Rightarrow> int \<Rightarrow> int \<Rightarrow> (int \<times> u8 list) option" where
  "pad_entry buf copied nbytes =
     (if nbytes > copied \<and> 32 > copied then do { buf \<leftarrow> put buf copied 0; pad_entry buf (copied + 1) nbytes }
      else Some (copied, buf))"
  by pat_completeness auto
termination by (relation "measure (\<lambda>(_, copied, _). nat (32 - copied))") auto

declare pad_entry.simps [simp del]

text \<open>\<^verbatim>\<open>to\<close> is always \<^verbatim>\<open>buf + copied\<close>.\<close>

fun copy_name :: "u8 list \<Rightarrow> int \<Rightarrow> u8 list \<Rightarrow> int \<Rightarrow> (int \<times> u8 list) option" where
  "copy_name buf copied [] nbytes = None"
| "copy_name buf copied (c # from) nbytes =
     (if 0 \<noteq> c then
        do { buf \<leftarrow> put buf copied c;
             let copied = copied + 1;
             if copied = nbytes then Some (nbytes, buf)
             else if 32 = copied then Some (32, buf)
             else copy_name buf copied from nbytes }
      else pad_entry buf copied nbytes)"

definition emu_read :: "('l, 'd) linux \<Rightarrow> int \<Rightarrow> u8 list \<Rightarrow> int \<Rightarrow> ('l, 'd) emu \<Rightarrow> (int \<times> u8 list \<times> ('l, 'd) emu) option" where
  "emu_read lx fd buf nbytes e =
     (case dir e of
        Some d \<Rightarrow>
          if dir_fd e = fd then
            case l_readdir lx d (lsys e) of
              (None, s) \<Rightarrow> Some (0, buf, e\<lparr>lsys := s\<rparr>)
            | (Some name, s) \<Rightarrow> do { (r, buf) \<leftarrow> copy_name buf 0 name nbytes; Some (r, buf, e\<lparr>lsys := s\<rparr>) }
          else let (r, buf, s) = l_rw lx 3 fd buf nbytes (lsys e) in Some (linux_result r, buf, e\<lparr>lsys := s\<rparr>)
      | None \<Rightarrow> let (r, buf, s) = l_rw lx 3 fd buf nbytes (lsys e) in Some (linux_result r, buf, e\<lparr>lsys := s\<rparr>))"

definition emu_write :: "('l, 'd) linux \<Rightarrow> int \<Rightarrow> u8 list \<Rightarrow> int \<Rightarrow> ('l, 'd) emu \<Rightarrow> int \<times> ('l, 'd) emu" where
  "emu_write lx fd buf nbytes e =
     (if dir e = None \<or> dir_fd e \<noteq> fd
      then let (r, _, s) = l_rw lx 4 fd buf nbytes (lsys e) in (linux_result r, e\<lparr>lsys := s\<rparr>)
      else (-1, e))"

definition emu_close :: "('l, 'd) linux \<Rightarrow> int \<Rightarrow> ('l, 'd) emu \<Rightarrow> int \<times> ('l, 'd) emu" where
  "emu_close lx fd e =
     (case dir e of
        Some d \<Rightarrow>
          if dir_fd e = fd then (0, e\<lparr>dir := None, dir_fd := -1, lsys := l_close lx (dir_fd e) (l_closedir lx d (lsys e))\<rparr>)
          else let (r, s) = l_close_fd lx fd (lsys e) in (linux_result r, e\<lparr>lsys := s\<rparr>)
      | None \<Rightarrow> let (r, s) = l_close_fd lx fd (lsys e) in (linux_result r, e\<lparr>lsys := s\<rparr>))"

text \<open>The result and, when it is 0, what is stored at \<^verbatim>\<open>screen_start\<close>.\<close>

definition emu_vidmap :: "('l, 'd) linux \<Rightarrow> ('l, 'd) emu \<Rightarrow> int \<times> u32 option \<times> ('l, 'd) emu" where
  "emu_vidmap lx e =
     (let e = (if mem_fd e = -1 then let (fd, s) = l_open lx (lit ''/dev/mem'') (lsys e) in e\<lparr>mem_fd := fd, lsys := s\<rparr> else e)
      in case l_mmap lx (mem_fd e) (lsys e) of
           (None, s) \<Rightarrow> (-1, None, e\<lparr>lsys := s\<rparr>)
         | (Some mem_image, s) \<Rightarrow> (0, Some (mem_image + 0xB8000), e\<lparr>lsys := s\<rparr>))"

end
