(* ===== verification/EmulateProps.thy ===== *)
theory EmulateProps
  imports Emulate
begin

text \<open>
  What the emulation of the system calls passes on: the words of a command line from \<^verbatim>\<open>ece391_execute\<close> through
  \<^verbatim>\<open>execv\<close> to \<^verbatim>\<open>ece391_getargs\<close> in the program, and the names of a directory.
\<close>

section \<open>The words of a command\<close>

text \<open>A newline ends a word; where a word would start it ends the command.\<close>

definition word_char :: "u8 \<Rightarrow> bool" where
  "word_char c \<longleftrightarrow> c \<noteq> 32 \<and> c \<noteq> 10"

definition after_blanks :: "u8 list \<Rightarrow> u8 list" where
  "after_blanks t = dropWhile (\<lambda>c. c = 32) t"

function arg_words :: "u8 list \<Rightarrow> u8 list list" where
  "arg_words t = (if after_blanks t = [] \<or> hd (after_blanks t) = 10 then []
     else takeWhile word_char (after_blanks t) # arg_words (tl (dropWhile word_char (after_blanks t))))"
  by pat_completeness auto
termination
proof (relation "measure length")
  fix t assume t: "\<not> (after_blanks t = [] \<or> hd (after_blanks t) = 10)"
  have "length (tl (dropWhile word_char (after_blanks t))) < length (after_blanks t)"
    using t length_dropWhile_le [of word_char "after_blanks t"] by (cases "after_blanks t") auto
  moreover have "length (after_blanks t) \<le> length t" by (simp add: after_blanks_def length_dropWhile_le)
  ultimately show "(tl (dropWhile word_char (after_blanks t)), t) \<in> measure length" by simp
qed simp

declare arg_words.simps [simp del]

fun join_words :: "u8 list list \<Rightarrow> u8 list" where
  "join_words [] = []"
| "join_words (w # ws) = (if ws = [] then w else w @ 32 # join_words ws)"

definition command_words :: "u8 list \<Rightarrow> u8 list list" where
  "command_words cmd = ([46, 47] @ takeWhile word_char cmd) # arg_words (tl (dropWhile word_char cmd))"

section \<open>Scanning\<close>

lemma scan_word_finds:
  assumes "\<forall>c\<in>set w. word_char c \<and> c \<noteq> 0" and "c = 0 \<or> \<not> word_char c"
  shows "scan_word (pre @ w @ c # rest) (length pre) = Some (length pre + length w)"
  using assms
proof (induction w arbitrary: pre)
  case Nil
  then show ?case by (subst scan_word.simps) (auto simp: word_char_def)
next
  case (Cons x w)
  have "scan_word ((pre @ [x]) @ w @ c # rest) (length (pre @ [x])) = Some (length (pre @ [x]) + length w)"
    using Cons.prems by (intro Cons.IH) auto
  then show ?case using Cons.prems(1) by (subst scan_word.simps) (auto simp: word_char_def)
qed

lemma scan_blanks_skips:
  assumes "\<forall>c\<in>set bl. c = 32" and "c \<noteq> 32"
  shows "scan_blanks (pre @ bl @ c # rest) (length pre) = Some (length pre + length bl)"
  using assms
proof (induction bl arbitrary: pre)
  case Nil
  then show ?case by (subst scan_blanks.simps) simp
next
  case (Cons x bl)
  have "scan_blanks ((pre @ [x]) @ bl @ c # rest) (length (pre @ [x])) = Some (length (pre @ [x]) + length bl)"
    using Cons.prems by (intro Cons.IH) auto
  then show ?case using Cons.prems(1) by (subst scan_blanks.simps) auto
qed

lemma scan_args_end: "buf = pre @ 0 # rest \<Longrightarrow> scan_args buf (length pre) args = Some (buf, args)"
  using scan_blanks_skips [of "[]" 0 pre rest] by (subst scan_args.simps) (simp add: list_update_append)

text \<open>The shape of the text at a place where arguments may follow.\<close>

lemma arg_shape:
  assumes "0 \<notin> set t"
  obtains bl where "t = bl" "\<forall>c\<in>set bl. c = 32" "arg_words t = []"
  | bl u where "t = bl @ 10 # u" "\<forall>c\<in>set bl. c = 32" "arg_words t = []"
  | bl w where "t = bl @ w" "\<forall>c\<in>set bl. c = 32" "w \<noteq> []" "\<forall>c\<in>set w. word_char c \<and> c \<noteq> 0" "arg_words t = [w]"
  | bl w c u where "t = bl @ w @ c # u" "\<forall>c\<in>set bl. c = 32" "w \<noteq> []" "\<forall>c\<in>set w. word_char c \<and> c \<noteq> 0"
      "\<not> word_char c" "arg_words t = w # arg_words u"
proof -
  define bl where "bl = takeWhile (\<lambda>c. c = 32) t"
  have t: "t = bl @ after_blanks t" "\<forall>c\<in>set bl. c = 32"
    by (auto simp: bl_def after_blanks_def dest: set_takeWhileD)
  have nb: "after_blanks t \<noteq> [] \<Longrightarrow> hd (after_blanks t) \<noteq> 32"
    using hd_dropWhile [of "\<lambda>c. c = 32" t] by (simp add: after_blanks_def)
  show ?thesis
  proof (cases "after_blanks t")
    case Nil
    then have "arg_words t = []" by (subst arg_words.simps) simp
    then show ?thesis using that(1) [of bl] t Nil by simp
  next
    case (Cons x xs)
    show ?thesis
    proof (cases "x = 10")
      case True
      then have "arg_words t = []" using Cons by (subst arg_words.simps) simp
      then show ?thesis using that(2) [of bl xs] t Cons True by simp
    next
      case False
      define w where "w = takeWhile word_char (x # xs)"
      have "word_char x" using False nb Cons by (simp add: word_char_def)
      then have ne: "w \<noteq> []" by (simp add: w_def)
      have "0 \<notin> set (x # xs)" using assms t(1) Cons by (metis UnCI set_append)
      then have ch: "\<forall>c\<in>set w. word_char c \<and> c \<noteq> 0"
        by (metis set_takeWhileD w_def)
      have e: "arg_words t = w # arg_words (tl (dropWhile word_char (x # xs)))"
        using Cons False by (subst arg_words.simps) (simp add: w_def)
      have s: "x # xs = w @ dropWhile word_char (x # xs)" by (simp only: w_def takeWhile_dropWhile_id)
      show ?thesis
      proof (cases "dropWhile word_char (x # xs)")
        case Nil
        have "arg_words [] = []" by (subst arg_words.simps) (simp add: after_blanks_def)
        then show ?thesis using that(3) [of bl w] t Cons s ne ch e Nil by simp
      next
        case (Cons c u)
        then have "\<not> word_char c" using hd_dropWhile [of word_char "x # xs"] by simp
        then show ?thesis
          using that(4) [of bl w c u] t s ne ch e Cons \<open>after_blanks t = x # xs\<close> by simp
      qed
    qed
  qed
qed

lemma scan_args_finds:
  assumes "0 \<notin> set t" and "length args + length t < 1024"
  shows "\<exists>buf' ptrs. scan_args (pre @ t @ 0 # rest) (length pre) args = Some (buf', args @ ptrs) \<and>
    map (\<lambda>i. cstr (drop i buf')) ptrs = arg_words t \<and> take (length pre) buf' = pre \<and> length ptrs \<le> length t"
  using assms
proof (induction t arbitrary: pre args rule: length_induct)
  case (1 t)
  note zero = "1.prems"(1) and room = "1.prems"(2)
  from zero show ?case
  proof (cases rule: arg_shape)
    case (1 bl)
    have "scan_blanks (pre @ bl @ 0 # rest) (length pre) = Some (length pre + length bl)"
      using 1(2) by (intro scan_blanks_skips) auto
    then show ?thesis using 1
      by (subst scan_args.simps) (auto simp: nth_append list_update_append put_def idx_def nat_add_distrib)
  next
    case (2 bl u)
    have "scan_blanks (pre @ bl @ 10 # u @ 0 # rest) (length pre) = Some (length pre + length bl)"
      using 2(2) by (intro scan_blanks_skips) auto
    then show ?thesis using 2
      by (subst scan_args.simps) (auto simp: nth_append list_update_append put_def idx_def nat_add_distrib)
  next
    case (3 bl w)
    let ?buf = "pre @ bl @ w @ 0 # rest"
    have h: "hd w \<noteq> 32" "hd w \<noteq> 10" "hd w \<noteq> 0" "w = hd w # tl w" using 3(3,4) by (auto simp: word_char_def)
    have b: "scan_blanks ?buf (length pre) = Some (length pre + length bl)"
      using scan_blanks_skips [OF 3(2) h(1), of pre "tl w @ 0 # rest"] h(4) by (metis append_Cons)
    have w: "scan_word ?buf (length pre + length bl) = Some (length pre + length bl + length w)"
      using scan_word_finds [OF 3(4), of 0 "pre @ bl" rest] by simp
    have c: "idx ?buf (int (length pre + length bl)) = Some (hd w)" "idx ?buf (int (length pre + length bl + length w)) = Some 0"
      using h(4) by (simp_all add: nth_append idx_def nat_add_distrib) (metis hd_conv_nth 3(3))
    have "scan_args ?buf (length (pre @ bl @ w)) (args @ [length pre + length bl]) = Some (?buf, args @ [length pre + length bl])"
      by (rule scan_args_end [where rest = rest]) simp
    then have "scan_args ?buf (length pre) args = Some (?buf, args @ [length pre + length bl])"
      using room h(2,3) by (subst scan_args.simps) (simp only: b w c bind.bind_lunit Let_def, simp add: add.assoc)
    moreover have "cstr (drop (length pre + length bl) ?buf) = w"
      using cstr_id [of w rest] 3(4) by (auto simp: drop_append)
    moreover have "Suc 0 \<le> length w" using 3(3) by (cases w) auto
    ultimately show ?thesis using 3(1,5) by (intro exI [of _ ?buf] exI [of _ "[length pre + length bl]"]) simp
  next
    case (4 bl w c u)
    let ?buf = "pre @ bl @ w @ c # u @ 0 # rest"
    let ?buf' = "pre @ bl @ w @ 0 # u @ 0 # rest"
    have h: "hd w \<noteq> 32" "hd w \<noteq> 10" "hd w \<noteq> 0" "w = hd w # tl w" using 4(3,4) by (auto simp: word_char_def)
    have c0: "c \<noteq> 0" using zero 4(1) by auto
    have b: "scan_blanks ?buf (length pre) = Some (length pre + length bl)"
      using scan_blanks_skips [OF 4(2) h(1), of pre "tl w @ c # u @ 0 # rest"] h(4) by (metis append_Cons)
    have w: "scan_word ?buf (length pre + length bl) = Some (length pre + length bl + length w)"
      using scan_word_finds [OF 4(4), of c "pre @ bl" "u @ 0 # rest"] 4(5) by simp
    have i: "idx ?buf (int (length pre + length bl)) = Some (hd w)" "idx ?buf (int (length pre + length bl + length w)) = Some c"
      using h(4) by (simp_all add: nth_append idx_def nat_add_distrib) (metis hd_conv_nth 4(3))
    have p: "put ?buf (int (length pre + length bl + length w)) 0 = Some ?buf'"
      by (simp add: put_def nat_add_distrib list_update_append)
    let ?pre = "pre @ bl @ w @ [0]"
    obtain buf2 ptrs where r: "scan_args (?pre @ u @ 0 # rest) (length ?pre) (args @ [length pre + length bl]) =
        Some (buf2, (args @ [length pre + length bl]) @ ptrs)"
      "map (\<lambda>i. cstr (drop i buf2)) ptrs = arg_words u" "take (length ?pre) buf2 = ?pre" "length ptrs \<le> length u"
      using "1.IH" [rule_format, of u "args @ [length pre + length bl]" ?pre] zero room 4(1,3) by (cases w) auto
    have "scan_args ?buf (length pre) args = Some (buf2, args @ (length pre + length bl) # ptrs)"
      using room h(2,3) c0 r(1) by (subst scan_args.simps) (simp only: b w i p bind.bind_lunit Let_def, simp add: add.assoc)
    moreover have s: "buf2 = ?pre @ drop (length ?pre) buf2" using r(3) by (metis append_take_drop_id)
    then have "cstr (drop (length pre + length bl) buf2) = w"
      using cstr_id [of w "drop (length ?pre) buf2"] 4(4)
      by (metis (no_types, lifting) append.assoc append_Cons append_Nil append_eq_conv_conj length_append)
    moreover have "take (length pre) buf2 = pre" using arg_cong [OF s, of "take (length pre)"] by simp
    ultimately show ?thesis using 4(1,6) r(2,4)
      by (intro exI [of _ buf2] exI [of _ "(length pre + length bl) # ptrs"]) simp
  qed
qed

section \<open>execute and getargs\<close>

lemma strcpy_to_kernel: "strcpy_to dst src = strcpy dst src"
  by (induction dst src rule: strcpy_to.induct) simp_all

lemma execute_passes_words:
  assumes "0 \<notin> set cmd" and "length cmd \<le> 1023" and "length stack = 1026"
  shows "emu_execute lx stack (cmd @ 0 # junk) e = Some (case l_execv lx (hd (command_words cmd)) (command_words cmd) (lsys e) of
    None \<Rightarrow> (-1, e)
  | Some (Exited v, s) \<Rightarrow> (uint v, e\<lparr>lsys := s\<rparr>)
  | Some (Signaled sig, s) \<Rightarrow> (if 9 = sig then -1 else 256, e\<lparr>lsys := s\<rparr>))"
proof -
  define w where "w = takeWhile word_char cmd"
  define rest where "rest = drop (Suc (length cmd)) (drop 2 stack)"
  obtain x y zs where stack: "stack = x # y # zs" "length zs = 1024" using assms(3) by (cases stack; cases "tl stack") auto
  have cs: "cstr (cmd @ 0 # junk) = cmd" by (rule cstr_id [OF assms(1)])
  have len: "ece391_strlen (cmd @ 0 # junk) = Some (of_nat (length cmd))" by (simp add: ece391_strlen_eq cs)
  have short: "\<not> 1023 < (of_nat (length cmd) :: u32)"
    using assms(2) unat_of_nat32 [of "length cmd"] by (simp add: word_less_nat_alt)
  have cp: "strcpy_to (drop 2 [46, 47, 0 :: u8]) x = strcpy_to [0] x" for x by simp
  have copy: "strcpy_to zs (cmd @ 0 # junk) = Some (cmd @ 0 # rest)"
    using strcpy_eq [of "cmd @ 0 # junk" zs] cs assms(2) stack by (simp add: strcpy_to_kernel rest_def)
  have chars: "\<forall>c\<in>set w. word_char c \<and> c \<noteq> 0" using assms(1) by (auto simp: w_def dest: set_takeWhileD)
  have run: "(let (status, s) = (case l_execv lx p a (lsys e) of None \<Rightarrow> (Signaled 9, lsys e) | Some r \<Rightarrow> r)
      in Some (case status of Exited v \<Rightarrow> uint v | Signaled sig \<Rightarrow> if 9 = sig then -1 else 256, e\<lparr>lsys := s\<rparr>)) =
    Some (case l_execv lx p a (lsys e) of None \<Rightarrow> (-1, e) | Some (Exited v, s) \<Rightarrow> (uint v, e\<lparr>lsys := s\<rparr>)
      | Some (Signaled sig, s) \<Rightarrow> (if 9 = sig then -1 else 256, e\<lparr>lsys := s\<rparr>))" for p a
    by (cases "l_execv lx p a (lsys e)") (auto split: wait_status.split)
  show ?thesis
  proof (cases "dropWhile word_char cmd")
    case Nil
    then have cw: "cmd = w" using takeWhile_dropWhile_id [of word_char cmd] unfolding w_def Nil by (metis append_Nil2)
    let ?buf = "[46, 47] @ w @ 0 # rest"
    have sc: "scan_word ?buf 2 = Some (2 + length w)" using scan_word_finds [OF chars, of 0 "[46, 47]" rest] by (simp add: numeral_2_eq_2)
    have ix: "idx ?buf (int (2 + length w)) = Some 0" by (simp add: idx_def nat_add_distrib nth_append)
    have cb: "cstr ?buf = [46, 47] @ w" using cstr_id [of w rest] chars by auto
    have "arg_words [] = []" by (subst arg_words.simps) (simp add: after_blanks_def)
    then have cws: "command_words cmd = [[46, 47] @ w]" unfolding command_words_def Nil w_def by simp
    show ?thesis
      unfolding cws list.sel run [symmetric]
      using len short copy sc ix cb stack(1) cw
      by (simp add: emu_execute_def put_def)
  next
    case (Cons c u)
    then have cw: "cmd = w @ c # u" using takeWhile_dropWhile_id [of word_char cmd] by (simp add: w_def)
    have c: "\<not> word_char c" "c \<noteq> 0" "0 \<notin> set u"
      using hd_dropWhile [of word_char cmd, unfolded Cons] assms(1) by (simp_all add: cw)
    let ?buf = "[46, 47] @ w @ c # u @ 0 # rest"
    let ?pre = "[46, 47] @ w @ [0]"
    have sc: "scan_word ?buf 2 = Some (2 + length w)"
      using scan_word_finds [OF chars, of c "[46, 47]" "u @ 0 # rest"] c(1) by (simp add: numeral_2_eq_2)
    have ix: "idx ?buf (int (2 + length w)) = Some c" by (simp add: idx_def nat_add_distrib nth_append)
    have pt: "put ?buf (int (2 + length w)) 0 = Some (?pre @ u @ 0 # rest)"
      by (simp add: put_def nat_add_distrib list_update_append)
    obtain buf' ptrs where a: "scan_args (?pre @ u @ 0 # rest) (length ?pre) [0] = Some (buf', [0] @ ptrs)"
      "map (\<lambda>i. cstr (drop i buf')) ptrs = arg_words u" "take (length ?pre) buf' = ?pre" "length ptrs \<le> length u"
      using scan_args_finds [OF c(3), of "[0]" ?pre rest] assms(2) cw by auto
    have "buf' = ?pre @ drop (length ?pre) buf'" using a(3) by (metis append_take_drop_id)
    then have "cstr buf' = cstr (([46, 47] @ w) @ 0 # drop (length ?pre) buf')" by simp
    moreover have "0 \<notin> set ([46, 47] @ w)" using chars by auto
    ultimately have cb: "cstr buf' = [46, 47] @ w" using cstr_id by metis
    have cws: "command_words cmd = ([46, 47] @ w) # arg_words u" using Cons by (simp add: command_words_def w_def)
    have lp: "length (0 # ptrs) < 1024" using a(4) assms(2) cw by simp
    have "emu_execute lx stack (cmd @ 0 # junk) e =
        (let (status, s) = (case l_execv lx (cstr buf') (map (\<lambda>i. cstr (drop i buf')) (0 # ptrs)) (lsys e) of
            None \<Rightarrow> (Signaled 9, lsys e) | Some r \<Rightarrow> r)
         in Some (case status of Exited v \<Rightarrow> uint v | Signaled sig \<Rightarrow> if 9 = sig then -1 else 256, e\<lparr>lsys := s\<rparr>))"
      using len short copy sc ix pt a(1) stack(1) cw c(2) lp by (simp add: emu_execute_def put_def)
    then show ?thesis unfolding run cws list.sel by (simp add: a(2) cb)
  qed
qed

lemma copy_args_joins:
  assumes "\<forall>w\<in>set ws. 0 \<notin> set w" and "length (join_words ws) < n" and "p + n \<le> length buf" and "length buf < 2 ^ 31"
  shows "copy_args (map (\<lambda>w. w @ [0]) ws) buf (int p) (int n) =
    Some (0, take p buf @ join_words ws @ 0 # drop (p + Suc (length (join_words ws))) buf)"
  using assms
proof (induction ws arbitrary: buf p n)
  case Nil
  then show ?case by (simp add: upd_conv_take_nth_drop)
next
  case (Cons w ws)
  have w: "0 \<notin> set w" "length w < n" using Cons.prems(1,2) by (auto split: if_splits)
  have len: "ece391_strlen (w @ [0]) = Some (of_nat (length w))" using cstr_id [OF w(1), of "[]"] by (simp add: ece391_strlen_eq)
  have s: "sint (of_nat (length w) :: u32) = int (length w)" using w(2) Cons.prems(3,4) by (subst sint_eq_unat) auto
  let ?d = "w @ 0 # drop (p + Suc (length w)) buf"
  have cp: "strcpy_to (drop p buf) (w @ [0]) = Some ?d"
    using strcpy_eq [of "w @ [0]" "drop p buf"] cstr_id [OF w(1), of "[]"] w(2) Cons.prems(3)
    by (simp add: strcpy_to_kernel add.commute)
  have p: "p \<le> length buf" using Cons.prems(3) by simp
  have e: "copy_args (map (\<lambda>w. w @ [0]) (w # ws)) buf (int p) (int n) =
      (let buf = take p buf @ ?d in
       if ws = [] then copy_args [] buf (int (p + length w)) (int (n - length w))
       else if int (n - length w) < 1 then Some (-1, buf)
       else do { buf \<leftarrow> put buf (int (p + length w)) 32;
                 copy_args (map (\<lambda>w. w @ [0]) ws) buf (int (p + length w) + 1) (int (n - length w) - 1) })"
    using p cp w(2) by (simp add: len s of_nat_diff Let_def)
  show ?case
  proof (cases "ws = []")
    case True
    then show ?thesis using e p w(2) Cons.prems(3) by (simp add: Let_def put_def nat_add_distrib list_update_append min_absorb2)
  next
    case False
    then have n: "length (join_words ws) < n - length w - 1" "1 \<le> n - length w" using Cons.prems(2) by auto
    let ?b = "take p buf @ w @ 32 # drop (p + Suc (length w)) buf"
    have pt: "put (take p buf @ ?d) (int (p + length w)) 32 = Some ?b"
      using p w(2) Cons.prems(3) by (simp add: put_def nat_add_distrib list_update_append min_absorb2)
    have "copy_args (map (\<lambda>w. w @ [0]) ws) ?b (int (p + length w + 1)) (int (n - length w - 1)) =
        Some (0, take (p + length w + 1) ?b @ join_words ws @ 0 # drop (p + length w + 1 + Suc (length (join_words ws))) ?b)"
      using Cons.prems(1,3,4) n p by (intro Cons.IH) auto
    moreover have "int (p + length w) + 1 = int (p + length w + 1)" "int (n - length w) - 1 = int (n - length w - 1)"
      using n(2) by simp_all
    moreover have nn: "\<not> int (n - length w) < 1" using n(2) by simp
    ultimately have "copy_args (map (\<lambda>w. w @ [0]) (w # ws)) buf (int p) (int n) =
        Some (0, take (p + length w + 1) ?b @ join_words ws @ 0 # drop (p + length w + 1 + Suc (length (join_words ws))) ?b)"
      by (simp only: e Let_def False nn if_False pt bind.bind_lunit)
    then show ?thesis using False p w(2) Cons.prems(3) by (simp add: min_absorb2 add.commute add.left_commute)
  qed
qed

text \<open>
  The room that is checked does not count the terminator: an argument of exactly the remaining length is copied
  with its terminator one byte past the caller's array.
\<close>

lemma exact_fit_overflows:
  assumes "0 \<notin> set w" and "length buf = length w" and "length w < 2 ^ 31"
  shows "copy_args [w @ [0]] buf 0 (int (length buf)) = None"
proof -
  have len: "ece391_strlen (w @ [0]) = Some (of_nat (length w))" using cstr_id [OF assms(1), of "[]"] by (simp add: ece391_strlen_eq)
  have s: "sint (of_nat (length w) :: u32) = int (length w)" using assms(3) by (subst sint_eq_unat) auto
  have "strcpy_to buf (w @ [0]) = None" using assms(1,2)
  proof (induction w arbitrary: buf)
    case (Cons x w)
    then show ?case by (cases buf) auto
  qed simp
  then show ?thesis using assms(2) by (simp add: len s at_index_def)
qed

section \<open>The directory\<close>

lemma pad_entry_pads:
  assumes "k \<le> n" and "n \<le> 32" and "n \<le> length buf"
  shows "pad_entry buf (int k) (int n) = Some (int n, take k buf @ replicate (n - k) 0 @ drop n buf)"
  using assms
proof (induction "n - k" arbitrary: k buf)
  case 0
  then show ?case by (subst pad_entry.simps) simp
next
  case (Suc j)
  then have k: "k < n" "k < length buf" by simp_all
  have "pad_entry (buf[k := 0]) (int (Suc k)) (int n) =
      Some (int n, take (Suc k) (buf[k := 0]) @ replicate (n - Suc k) 0 @ drop n (buf[k := 0]))"
    using Suc k by (intro Suc.hyps) auto
  moreover have "take (Suc k) (buf[k := 0]) = take k buf @ [0]" using k(2) by (simp add: take_Suc_conv_app_nth)
  moreover have "replicate (n - k) 0 = (0 :: u8) # replicate (n - Suc k) 0" using k(1) by (metis Suc_diff_Suc replicate_Suc)
  ultimately show ?case using k Suc.prems by (subst pad_entry.simps) (simp add: add.commute)
qed

lemma pad_entry_limit: "32 \<le> n \<Longrightarrow> pad_entry buf (int k) (int n) = pad_entry buf (int k) 32"
proof (induction "32 - k" arbitrary: k buf)
  case 0
  then show ?case by (subst (1 2) pad_entry.simps) simp
next
  case (Suc j)
  then have "pad_entry b (int (Suc k)) (int n) = pad_entry b (int (Suc k)) 32" for b by (intro Suc.hyps) auto
  then show ?case using Suc by (subst (1 2) pad_entry.simps) (simp add: add.commute)
qed

lemma copy_name_copies:
  assumes "0 \<notin> set s" and "k < m" and "m = min n 32" and "n \<le> length buf"
  shows "copy_name buf (int k) (s @ 0 # junk) (int n) =
    Some (int m, take k buf @ take (m - k) (s @ replicate 32 0) @ drop m buf)"
  using assms
proof (induction s arbitrary: k buf)
  case Nil
  have m: "k \<le> m" "m \<le> 32" "m \<le> length buf" using Nil.prems by auto
  have "pad_entry buf (int k) (int n) = pad_entry buf (int k) (int m)"
    using pad_entry_limit [of n buf k] Nil.prems(3) by (auto simp: min_def)
  then show ?case using pad_entry_pads [OF m] m(2) by simp
next
  case (Cons x s)
  have x: "x \<noteq> 0" "0 \<notin> set s" using Cons.prems(1) by auto
  have k: "k < length buf" using Cons.prems by auto
  have t: "take (Suc k) (buf[k := x]) = take k buf @ [x]" using k by (simp add: take_Suc_conv_app_nth)
  show ?case
  proof (cases "Suc k = m")
    case True
    then have e: "m - k = 1" "drop m (buf[k := x]) = drop m buf" by auto
    have "buf[k := x] = take m (buf[k := x]) @ drop m (buf[k := x])" by simp
    then have "buf[k := x] = take k buf @ [x] @ drop m buf" using t True e(2) by simp
    then show ?thesis using x(1) k True Cons.prems(3) e(1) by (auto simp: Let_def min_def split: if_splits)
  next
    case False
    then have "copy_name (buf[k := x]) (int (Suc k)) (s @ 0 # junk) (int n) =
        Some (int m, take (Suc k) (buf[k := x]) @ take (m - Suc k) (s @ replicate 32 0) @ drop m (buf[k := x]))"
      using Cons.prems x(2) by (intro Cons.IH) auto
    moreover have "Suc k \<noteq> n" "Suc k \<noteq> 32" using False Cons.prems(2,3) by auto
    moreover have "m - k = Suc (m - Suc k)" using Cons.prems(2) by simp
    ultimately show ?thesis using x(1) k t Cons.prems(2) by (simp add: Let_def add.commute)
  qed
qed

lemma emulated_directory_read:
  assumes "dir e = Some d" and "dir_fd e = fd" and "l_readdir lx d (lsys e) = (Some (s @ 0 # junk), l)"
    and "0 \<notin> set s" and "0 < n" and "n \<le> length buf"
  shows "emu_read lx fd buf (int n) e =
    Some (int (min n 32), take (min n 32) (s @ replicate 32 0) @ drop (min n 32) buf, e\<lparr>lsys := l\<rparr>)"
  using copy_name_copies [OF assms(4) _ refl assms(6), of 0 junk] assms(1-3,5) by (simp add: emu_read_def)

section \<open>The round trip\<close>

lemma arg_words_zero: "0 \<notin> set t \<Longrightarrow> w \<in> set (arg_words t) \<Longrightarrow> 0 \<notin> set w"
proof (induction t rule: length_induct)
  case (1 t)
  note IH = "1.IH" and w = "1.prems"(2)
  from "1.prems"(1) show ?case
  proof (cases rule: arg_shape)
    case (3 bl v)
    then show ?thesis using w by auto
  next
    case (4 bl v c u)
    then have "0 \<notin> set u" "length u < length t" using "1.prems"(1) by auto
    then show ?thesis using IH w 4 by auto
  qed (use w in auto)
qed

text \<open>
  C31: On Linux, a command that \<^verbatim>\<open>ece391_execute\<close> is given reaches the program as its words: the program \<^verbatim>\<open>./name\<close> is
  executed once with them, its way to end is the result (-1 when it cannot be executed), and \<^verbatim>\<open>ece391_getargs\<close> in
  a process with these arguments returns the words after the name with single blanks between, when they fit.
\<close>

theorem emulated_arguments:
  assumes "0 \<notin> set cmd" and "length cmd \<le> 1023" and "length stack = 1026"
    and "start_args c = map (\<lambda>w. w @ [0]) (command_words cmd)"
    and "length (join_words (tl (command_words cmd))) < n" and "n \<le> length buf" and "length buf < 2 ^ 31"
  shows "emu_execute lx stack (cmd @ 0 # junk) e = Some (case l_execv lx (hd (command_words cmd)) (command_words cmd) (lsys e) of
      None \<Rightarrow> (-1, e)
    | Some (Exited v, s) \<Rightarrow> (uint v, e\<lparr>lsys := s\<rparr>)
    | Some (Signaled sig, s) \<Rightarrow> (if 9 = sig then -1 else 256, e\<lparr>lsys := s\<rparr>)) \<and>
    emu_getargs buf (int n) c = Some (0, join_words (tl (command_words cmd)) @
      0 # drop (Suc (length (join_words (tl (command_words cmd))))) buf)"
proof -
  have "0 \<notin> set (tl (dropWhile word_char cmd))"
    using assms(1) by (metis list.set_sel(2) set_dropWhileD tl_Nil)
  then have "\<forall>w\<in>set (tl (command_words cmd)). 0 \<notin> set w" using arg_words_zero by (auto simp: command_words_def)
  from copy_args_joins [OF this assms(5), of 0 buf] assms(4,6,7)
  have "emu_getargs buf (int n) c = Some (0, join_words (tl (command_words cmd)) @
      0 # drop (Suc (length (join_words (tl (command_words cmd))))) buf)"
    by (simp add: emu_getargs_def map_tl)
  then show ?thesis using execute_passes_words [OF assms(1-3)] by simp
qed

definition demo_linux :: "(nat, unit) linux" where
  "demo_linux = \<lparr>l_int80 = (\<lambda>_ _ s. (0, s)), l_rw = (\<lambda>_ _ b _ s. (0, b, s)), l_close_fd = (\<lambda>_ s. (0, s)),
     l_execv = (\<lambda>path argv s. Some (Exited (of_nat (length argv)), s + 1)), l_open = (\<lambda>_ s. (3, s)), l_close = (\<lambda>_ s. s),
     l_opendir = (\<lambda>_ s. (None, s)), l_readdir = (\<lambda>_ s. (None, s)), l_closedir = (\<lambda>_ s. s), l_mmap = (\<lambda>_ s. (None, s))\<rparr>"

definition demo_emu :: "u8 list list \<Rightarrow> (nat, unit) emu" where
  "demo_emu args = \<lparr>dir = None, dir_fd = -1, mem_fd = -1, start_args = args, lsys = 0\<rparr>"

lemma demo_words: "command_words (asc ''grep  -v x'') = [asc ''./grep'', asc ''-v'', asc ''x'']"
proof -
  have "arg_words (asc '' -v x'') = [asc ''-v'', asc ''x'']"
    by (simp add: arg_words.simps after_blanks_def word_char_def)
  then show ?thesis by (simp add: command_words_def word_char_def)
qed

theorem emulated_arguments_witness:
  "emu_execute demo_linux (replicate 1026 0) (asc ''grep  -v x'' @ [0]) (demo_emu []) = Some (3, (demo_emu [])\<lparr>lsys := 1\<rparr>) \<and>
   emu_getargs (replicate 5 1) 5 (demo_emu [lit ''./grep'', lit ''-v'', lit ''x'']) = Some (0, asc ''-v x'' @ [0])"
  using emulated_arguments [of "asc ''grep  -v x''" "replicate 1026 0" "demo_emu [lit ''./grep'', lit ''-v'', lit ''x'']" 5
    "replicate 5 1" demo_linux "[]" "demo_emu []"]
  unfolding demo_words by (simp add: demo_emu_def lit_def demo_linux_def)

end
