(* ===== verification/Spec2Isabelle.thy ===== *)
theory Spec2Isabelle
  imports Isolation FileProps UserProps Results Startup MemFuncs FishProps EmulateProps
begin

text \<open>
  A verification development for the operating system in \<^verbatim>\<open>src/student-distrib\<close> (a 32-bit x86
  kernel: three terminals, six processes, a read-only file system) and the user programs in
  \<^verbatim>\<open>src/syscalls\<close> and \<^verbatim>\<open>src/fish\<close>.

  \<^bold>\<open>The program and the theories\<close>, bottom up. All paths are under \<^verbatim>\<open>src/student-distrib\<close> unless
  they say otherwise; definitions keep the names of the C functions.

  \<^item> \<open>Prelude\<close>: the C integer types as words, byte strings, loops as folds.
  \<^item> \<open>LibC\<close> (\<^verbatim>\<open>lib.c\<close>): strings and numbers, the formatting of \<^verbatim>\<open>printf\<close>. A pointer is the list of
    the bytes from it to the end of its object.
  \<^item> \<open>Pic\<close> (\<^verbatim>\<open>i8259.c\<close>, \<^verbatim>\<open>drivers/pit.c\<close>): the cached masks and the log of port writes.
  \<^item> \<open>Idt\<close> (\<^verbatim>\<open>idt.c\<close>, \<^verbatim>\<open>x86_desc.h\<close>, \<^verbatim>\<open>exceptions.c\<close>): gates, vectors, messages.
  \<^item> \<open>Rtc\<close> (\<^verbatim>\<open>drivers/rtc.c\<close>): programming the clock and the wait for a tick.
  \<^item> \<open>Paging\<close> (\<^verbatim>\<open>page.c\<close>, \<^verbatim>\<open>page_asm.S\<close>): directory and tables of 32-bit entries and the
    translation that the processor does with them.
  \<^item> \<open>FileSys\<close>, \<open>FileRead\<close>, \<open>FileProps\<close> (\<^verbatim>\<open>drivers/fs.c\<close>): the image as bytes, lookup, reads, the
    program loader.
  \<^item> \<open>Terminal\<close>, \<open>Screen\<close> (\<^verbatim>\<open>drivers/terminal.c\<close>, \<^verbatim>\<open>lib.c\<close>): video memory and the three
    terminals; \<open>Screen\<close> states them as three abstract screens and proves the refinement.
  \<^item> \<open>Keyboard\<close> (\<^verbatim>\<open>drivers/keyboard.c\<close>): modifiers, the scan code table, the interrupt handler.
  \<^item> \<open>Process\<close>, \<open>Sched\<close> (\<^verbatim>\<open>process.c\<close>, \<^verbatim>\<open>schedule.c\<close>, \<^verbatim>\<open>drivers/pit.c\<close>): control blocks, the record
    \<open>kernel\<close> that holds the state of all parts, user memory behind the page tables, the queue,
    the switch and the timer interrupt.
  \<^item> \<open>Fileops\<close>, \<open>Syscall\<close> (\<^verbatim>\<open>syscall.c\<close>, \<^verbatim>\<open>interrupt_linkage.S\<close>): the operations behind
    descriptors, every system call on every branch, and the dispatch.
  \<^item> \<open>ProcInv\<close>, \<open>KernelInv\<close>: the invariant \<open>kinv\<close> of the whole kernel (page tables, terminals,
    descriptors, the process tree) and its preservation by every operation.
  \<^item> \<open>Machine\<close>, \<open>Boot\<close> (\<^verbatim>\<open>kernel.c\<close>, \<^verbatim>\<open>exceptions.c\<close>): the step relation \<open>kstep\<close> of the machine,
    its reachable states, and start-up.
  \<^item> \<open>Entry\<close>, \<open>EntryProps\<close>, \<open>Startup\<close> (\<^verbatim>\<open>kernel.c\<close>, \<^verbatim>\<open>x86_desc.h\<close>, \<^verbatim>\<open>x86_desc.S\<close>): \<^verbatim>\<open>entry\<close> as a whole on the record
    \<open>machine\<close> (the kernel and the processor's tables), from the boot loader's information to the
    first shell. \<open>MemFuncs\<close> (\<^verbatim>\<open>lib.c\<close>): the memory routines on registers and a flat memory.
  \<^item> \<open>ProcProps\<close>, \<open>Calls\<close>, \<open>Isolation\<close>: the results of the calls, and what a step leaves of the
    processes that do not run. \<open>Demo\<close>: a concrete image and kernel states for the examples.
  \<^item> \<open>Results\<close>: the range of what system calls return.
  \<^item> \<open>UserLib\<close>, \<open>UserProgs\<close>, \<open>SysErr\<close> (\<^verbatim>\<open>src/syscalls/ece391*.c\<close>): the support library and the user
    programs, as functions of the calls they make (the record \<open>os\<close>) and the state behind them.
  \<^item> \<open>UserSpec\<close>, \<open>Console\<close>, \<open>Grep\<close>, \<open>SysErrSpec\<close>, \<open>Faults\<close>: an abstract state (argument, files, typed lines,
    output), the laws of the calls as locales, and the programs proved correct inside them. A
    \<^verbatim>\<open>main\<close> that an instruction may end is a value of \<open>ending\<close>: the exception, or the status.
  \<^item> \<open>UserMem\<close>, \<open>UserCalls\<close> (\<^verbatim>\<open>src/syscalls/ece391syscall.S\<close>), \<open>UserKernel\<close>: the calls on the
    kernel, the kernel's state as the abstract one, and the interpretations of the laws.
  \<^item> \<open>UserShell\<close>, \<open>UserSession\<close>: \<^verbatim>\<open>execute\<close> from the call to the return in the parent, the utilities
    as the executables of the image, and the interpretation of the shell's contract.
  \<^item> \<open>Blink\<close>, \<open>BlinkProps\<close> (\<^verbatim>\<open>src/fish/blink.S\<close>, \<^verbatim>\<open>src/fish/fish.c\<close>): the animation's linked structures, its program,
    and the list that the structures refine. \<open>FishSpec\<close>: the laws of the video page and what the program shows of
    two frame files; \<open>FishKernel\<close>, \<open>FishProps\<close>: the laws on the kernel, and the program's properties.
  \<^item> \<open>Emulate\<close>, \<open>EmulateProps\<close> (\<^verbatim>\<open>src/syscalls/ece391emulate.c\<close>): the system calls emulated on Linux, over the record
    \<open>linux\<close> of what Linux does, and the round trip of a command's words from \<^verbatim>\<open>execute\<close> to \<^verbatim>\<open>getargs\<close>.
  \<^item> \<open>UserDemo\<close>, \<open>UserProps\<close>: an image with programs and a text file, and the properties of the
    programs on the kernel.

  \<^bold>\<open>Modelling.\<close> Machine integers are words; an \<^verbatim>\<open>int32_t\<close> that only holds small values is an
  \<open>int\<close>. A result \<^term>\<open>None\<close> is an execution that leaves the model: an access outside an
  object, a page fault inside the kernel, a wait that never ends. Every theorem that a call
  returns is therefore stated with its \<^term>\<open>Some\<close>. Register contents, uninitialised locals and
  device bytes that the code reads are arguments (the record \<open>inputs\<close>). A transfer of control
  (\<^verbatim>\<open>iret\<close> to a program, the stack switch of the scheduler, the return into the parent's
  \<^verbatim>\<open>execute\<close>) is a value of \<open>flow\<close>. A blocking read is the argument \<open>wait\<close> of the call, or the
  two steps \<open>read_start\<close>/\<open>read_end\<close> of \<open>kstep\<close>, between which anything else may happen; so the
  interleavings are exactly the sequences of \<open>kstep\<close>.

  \<^bold>\<open>What the lemmas show.\<close> The contracts are locales with an interpretation on the model:
  \<open>screens\<close> (terminal output as three independent screens), \<open>byte_source\<close> (files and the
  directory as byte sequences), \<open>file_driver\<close> (what every descriptor operation keeps of the
  kernel's invariant), \<open>out_api\<close>, \<open>file_api\<close>, \<open>line_api\<close>, \<open>err_api\<close>, \<open>fault_api\<close>, \<open>video_api\<close> and \<open>shell_api\<close> (what programs rely on,
  interpreted on the kernel's dispatch). The properties then say that the invariant holds in every reachable
  state, that processes are isolated, that preemption and \<^verbatim>\<open>halt\<close> restore exactly the stopped
  process, that files, arguments and keyboard input reach programs unchanged, and that the
  drivers program the hardware as they mean to.

  \<^bold>\<open>Bounds and fuel.\<close> Loops over data are structural or have a measure. \<open>read_all\<close> has fuel: one
  step per byte and one more, and the lemmas of \<open>FileProps\<close> prove that this is
  enough. Strings of a program
  and the boot loader's memory map are read with \<open>partial_function\<close>, so an unterminated one is
  \<^term>\<open>None\<close>; \<open>EntryProps\<close> proves that \<^verbatim>\<open>entry\<close> ends when the map's entries lead past its end.
  The loops of programs of which nobody knows that they end are \<open>partial_function\<close>s too, and every
  theorem about a program states that it returns. Files are
  below \<open>2 ^ 31\<close> bytes and programs fit between the load address and the end of their page;
  both are hypotheses on the image where they matter.

  \<^bold>\<open>Not modelled.\<close> The kernel's own memory below 8 MB as bytes (stacks and control blocks are
  records; a user pointer into it is \<^term>\<open>None\<close>); the TLB beyond a flag; registers saved and
  restored by the assembly stubs; \<^verbatim>\<open>boot.S\<close>, which loads the segment registers before \<^verbatim>\<open>entry\<close>; the in-kernel
  tests (\<^verbatim>\<open>tests.c\<close>), which are not run; the debugging macros of \<^verbatim>\<open>debug.h\<close>;
  what Linux does behind \<^verbatim>\<open>ece391emulate.c\<close> (a parameter), with the start and the end of a process there and a
  \<^verbatim>\<open>fork\<close> that fails. Of the user programs: an object whose address a call gets lies at one address of the
  program's page, \<open>ue_at\<close>; between two calls of a program nothing else happens, while a read of
  the keyboard waits the next line is typed, while one of the clock waits it ticks once, and
  after \<^verbatim>\<open>execute\<close> the other processes are preempted until the child runs; an executable is the
  function \<open>ue_prog\<close> of its name, since the image's bytes are not in the repository as source;
  the handlers of \<^verbatim>\<open>ece391sigtest.c\<close>, which the kernel refuses and never calls and the empty \<^verbatim>\<open>mytest5.c\<close>.
\<close>

section \<open>Start-up and the invariant\<close>

text \<open>
  Start-up after the drivers: from the initialised drivers and an image that holds a shell, the kernel
  starts the three shells and enters the one of the first terminal at its entry point, with
  the invariant of the whole kernel established.
\<close>

lemma boot_reaches_first_shell:
  assumes "boot_state k" and "has_shell k (in_dentry inp) d"
  shows "\<exists>k'. start_shells inp k = Some (Enter_user (shell_entry k d (in_entry inp)), k') \<and>
    kinv k' \<and> current_pid k' = 0"
  using assms by (rule start_shells_total)

lemma demo_has_shell: "has_shell demo_boot (in_dentry demo_inputs) (dentry_of demo_fs 1 demo_dentry)"
  using demo_lookup demo_valid_inode demo_length
  by (simp add: has_shell_def demo_boot_def demo_inputs_def del: length_file_data)

lemma demo_entry:
  "kfs k = demo_fs \<Longrightarrow> shell_entry k (dentry_of demo_fs 1 demo_dentry) (in_entry demo_inputs) = 0x8048094"
  "kfs k = demo_fs \<Longrightarrow> file_entry k (dentry_of demo_fs 1 demo_dentry) (in_entry demo_inputs) = 0x8048094"
  using demo_data(2) demo_lookup(2,3)
  by (simp_all add: shell_entry_def file_entry_def overlay_def le32_def load32_def)

lemma boot_reaches_first_shell_witness:
  "\<exists>k'. start_shells demo_inputs demo_boot = Some (Enter_user 0x8048094, k') \<and> current_pid k' = 0"
  using boot_reaches_first_shell [OF demo_boot_state demo_has_shell] demo_entry(1) [of demo_boot]
  by (auto simp: demo_boot_def)





section \<open>Scheduling\<close>





section \<open>Isolation\<close>



section \<open>Starting and ending programs\<close>

text \<open>
  C8: \<^verbatim>\<open>execute\<close> of a valid program with a free process starts it: the lowest free process
  becomes the runnable process of the caller's terminal, with the caller as parent waiting, the
  argument stored, the whole file in its own program memory and its entry point set; every
  other process is as before and the invariant holds.
\<close>

theorem execute_starts_program:
  assumes "kinv k" and "get_available_pid k \<noteq> -1" and "parse_command cmd = Some (prog, arg)"
    and "program_valid (kfs k) prog (in_dentry inp) (in_header inp) = Some 1"
    and "read_dentry_by_name (kfs k) prog (in_dentry inp) = Some (r, d)"
    and "valid_inode (kfs k) (inode_num d)" and "length (file_data (kfs k) (inode_num d)) \<le> 0x3B8000"
  shows "\<exists>fl k'. execute inp (Some cmd) k = Some (fl, k') \<and> kinv k' \<and>
    process_queue k' =
      (process_queue k)(current_pid k := LOADED, get_available_pid k := SCHEDULED) \<and>
    parent_id (pcbs k' (get_available_pid k)) = current_pid k \<and>
    pterm_num (pcbs k' (get_available_pid k)) = pterm_num (cur_pcb k) \<and>
    pentry (pcbs k' (get_available_pid k)) = file_entry k d (in_entry inp) \<and>
    take (length arg) (argument (pcbs k' (get_available_pid k))) = arg \<and>
    (\<forall>j<length (file_data (kfs k) (inode_num d)).
      pmem k' (prog_addr (get_available_pid k) (PROGRAM_VIRTUAL_START + of_nat j)) =
        file_data (kfs k) (inode_num d) ! j) \<and>
    (\<forall>q. q \<noteq> get_available_pid k \<and> q \<noteq> current_pid k \<longrightarrow> pcbs k' q = pcbs k q)"
proof (rule execute_success [OF assms])
  fix fl k'
  assume e: "execute inp (Some cmd) k = Some (fl, k')"
    and n: "pcbs k' (get_available_pid k) = exec_pcb inp (get_available_pid k) (current_pid k)
      (file_entry k d (in_entry inp)) ((exec_fail_pcb (pterm_num (cur_pcb k))
        (overlay arg (argument (pcbs k (get_available_pid k)))) (pcbs k (get_available_pid k)))
        \<lparr>process_id := get_available_pid k\<rparr>)"
    and *: "process_queue k' = (process_queue k)(current_pid k := LOADED, get_available_pid k := SCHEDULED)"
      "\<And>q. q \<noteq> get_available_pid k \<Longrightarrow> q \<noteq> current_pid k \<Longrightarrow> pcbs k' q = pcbs k q"
      "\<And>j. j < length (file_data (kfs k) (inode_num d)) \<Longrightarrow>
        pmem k' (prog_addr (get_available_pid k) (PROGRAM_VIRTUAL_START + of_nat j)) =
          file_data (kfs k) (inode_num d) ! j"
  have "parent_id (pcbs k' (get_available_pid k)) = current_pid k \<and>
    pterm_num (pcbs k' (get_available_pid k)) = pterm_num (cur_pcb k) \<and>
    pentry (pcbs k' (get_available_pid k)) = file_entry k d (in_entry inp) \<and>
    take (length arg) (argument (pcbs k' (get_available_pid k))) = arg"
    by (simp add: n exec_pcb_def exec_fail_pcb_def init_stdio_def set_fd_open_def overlay_def)
  then show ?thesis
    using e execute_keeps [OF assms(1) e] * by (intro exI [of _ fl] exI [of _ k']) blast
qed

lemma demo_parse: "parse_command shell_name = Some (shell_name, [0])"
  by (simp add: parse_command_def shell_name_def asc_def KB_BUF_SIZE_def MAX_ARGS_def)

lemma demo_program:
  "program_valid demo_fs shell_name (in_dentry demo_inputs) (in_header demo_inputs) = Some 1"
proof -
  have "read_data demo_fs 0 (of_nat 0) (of_nat 4) = (4, take 4 (file_data demo_fs 0))"
    using read_data_eq [OF demo_valid_inode, of 0 4] demo_length by (simp del: length_file_data)
  then show ?thesis
    using demo_lookup demo_data(1)
    by (simp add: program_valid_def demo_inputs_def overlay_def ELF_HEADER_def upt_rec numeral_eq_Suc)
qed

theorem execute_starts_program_witness:
  "\<exists>fl k'. execute demo_inputs (Some shell_name) demo_run = Some (fl, k') \<and>
     process_queue k' 0 = LOADED \<and> process_queue k' 3 = SCHEDULED \<and> parent_id (pcbs k' 3) = 0 \<and>
     pentry (pcbs k' 3) = 0x8048094"
proof -
  have f: "kfs demo_run = demo_fs" "current_pid demo_run = 0" "in_dentry demo_inputs = demo_dentry"
    by (simp_all add: demo_run_def demo_boot_def demo_inputs_def)
  have a: "get_available_pid demo_run = 3" by (simp add: get_available_pid_eq demo_run_def)
  show ?thesis
    using execute_starts_program [OF demo_run_kinv _ demo_parse, of demo_inputs 0
        "dentry_of demo_fs 1 demo_dentry"] demo_program demo_lookup demo_valid_inode demo_length
      demo_entry(2) [OF f(1)]
    by (auto simp: a f simp del: length_file_data)
qed

text \<open>
  C11: A failed \<^verbatim>\<open>execute\<close> returns -1 and changes at most the terminal and the argument of a
  control block that is free: no process, no memory and no mapping.
\<close>

theorem failed_execute_changes_nothing:
  assumes "execute inp command k = Some (Return v, k')"
  shows "v = -1 \<and> process_queue k' = process_queue k \<and> current_pid k' = current_pid k \<and>
    pmem k' = pmem k \<and> kcon k' = kcon k \<and> kpg k' = kpg k \<and> krtc k' = krtc k \<and>
    (\<forall>p. process_queue k p \<noteq> NOT_LOADED \<longrightarrow> pcbs k' p = pcbs k p)"
  using assms
proof (cases rule: execute_cases)
  case (started p cmd program arg v e k1 k2)
  have "fst (sched esp ebp prev q) \<noteq> Return v" for esp ebp prev q v
    by (auto simp: sched_def Let_def)
  then show ?thesis using started(10) by (metis fst_conv)
qed (auto simp: upd_pcb_def)

theorem failed_execute_changes_nothing_witness:
  "execute demo_inputs None demo_run = Some (Return (-1), upd_pcb 3 (\<lambda>q. q\<lparr>pterm_num := 0\<rparr>) demo_run) \<and>
   process_queue (upd_pcb 3 (\<lambda>q. q\<lparr>pterm_num := 0\<rparr>) demo_run) = process_queue demo_run"
proof -
  have a: "get_available_pid demo_run = 3" "current_pid demo_run = 0" "pterm_num (pcbs demo_run 0) = 0"
    by (simp_all add: get_available_pid_eq demo_run_def demo_shell_def)
  have e: "execute demo_inputs None demo_run =
      Some (Return (-1), upd_pcb 3 (\<lambda>q. q\<lparr>pterm_num := 0\<rparr>) demo_run)"
    by (simp add: execute_def a)
  from failed_execute_changes_nothing [OF e] e show ?thesis by blast
qed

text \<open>
  C9: \<^verbatim>\<open>halt\<close> of a program returns its status to the parent's \<^verbatim>\<open>execute\<close>, with the stack
  saved there: the parent runs again in its terminal with its own program page and kernel
  stack, the program's process is free with no descriptor open, and all others are as before.
\<close>

theorem halt_resumes_parent:
  assumes "kinv k" and "parent_id (cur_pcb k) \<noteq> -1"
  shows "\<exists>k'. halt inp status k = Some (Halt_ret (stack_ptr (cur_pcb k)) (base_ptr (cur_pcb k))
      (ucast status), k') \<and> kinv k' \<and> current_pid k' = parent_id (cur_pcb k) \<and>
    tss_esp0 k' = get_kernel_stack (parent_id (cur_pcb k)) \<and>
    process_queue k' =
      (process_queue k)(current_pid k := NOT_LOADED, parent_id (cur_pcb k) := SCHEDULED) \<and>
    (\<forall>j. 0 \<le> j \<and> j < 8 \<longrightarrow> \<not> fd_is_open j (pcbs k' (current_pid k))) \<and>
    (\<forall>q. q \<noteq> current_pid k \<longrightarrow> pcbs k' q = pcbs k q) \<and> pmem k' = pmem k"
proof (rule halt32_child [OF assms, of inp "ucast status"])
  fix q k'
  assume h: "halt32 inp (ucast status) k =
      Some (Halt_ret (stack_ptr (cur_pcb k)) (base_ptr (cur_pcb k)) (ucast status), k')"
    and o: "\<And>j. 0 \<le> j \<Longrightarrow> j < 8 \<Longrightarrow> \<not> fd_is_open j q"
    and k': "k' = k\<lparr>process_arr := (process_arr k)(current_pid k := 0), kcon := sti (cli (kcon k)),
        pcbs := (pcbs k)(current_pid k := q), current_pid := parent_id (cur_pcb k),
        tss_esp0 := get_kernel_stack (parent_id (cur_pcb k)),
        process_queue := (process_queue k)(current_pid k := NOT_LOADED, parent_id (cur_pcb k) := SCHEDULED),
        kpg := page_map_user (word_of_int (parent_id (cur_pcb k))) (kpg k)\<rparr>"
  show ?thesis
    using halt32_keeps [OF assms(1) h] h o by (intro exI [of _ k']) (simp add: halt_def k')
qed

theorem halt_resumes_parent_witness:
  "\<exists>k'. halt demo_inputs 7 demo_child = Some (Halt_ret 0x7FDE00 0x7FDE40 7, k') \<and> current_pid k' = 0 \<and>
     process_queue k' 3 = NOT_LOADED"
  using halt_resumes_parent [OF demo_child_kinv, of demo_inputs 7]
  by (auto simp: demo_child_def demo_prog_def)

text \<open>
  C10: A base shell cannot be ended: its \<^verbatim>\<open>halt\<close> loads the shell's file into its program memory
  again and enters it, and no other process is touched.
\<close>

theorem base_shell_restarts:
  assumes "kinv k" and "parent_id (cur_pcb k) = -1" and "has_shell k (in_dentry inp) d"
  shows "\<exists>k'. halt inp status k = Some (Enter_user (shell_entry k d (in_entry inp)), k') \<and> kinv k' \<and>
    current_pid k' = current_pid k \<and> process_queue k' = process_queue k \<and>
    (\<forall>q. q \<noteq> current_pid k \<longrightarrow> pcbs k' q = pcbs k q) \<and>
    (\<forall>j<length (file_data (kfs k) (inode_num d)).
      pmem k' (prog_addr (current_pid k) (PROGRAM_VIRTUAL_START + of_nat j)) =
        file_data (kfs k) (inode_num d) ! j)"
  unfolding halt_def by (rule halt32_base [OF assms, of "ucast status"]) blast

theorem base_shell_restarts_witness:
  "\<exists>k'. halt demo_inputs 0 demo_run = Some (Enter_user 0x8048094, k') \<and> current_pid k' = 0"
proof -
  have f: "kfs demo_run = demo_fs" "current_pid demo_run = 0" "parent_id (pcbs demo_run 0) = -1"
    by (simp_all add: demo_run_def demo_boot_def demo_shell_def)
  have "has_shell demo_run (in_dentry demo_inputs) (dentry_of demo_fs 1 demo_dentry)"
    using demo_has_shell by (simp add: has_shell_def f demo_boot_def)
  from base_shell_restarts [OF demo_run_kinv _ this, of 0] show ?thesis
    using demo_entry(1) [OF f(1)] by (auto simp: f)
qed

text \<open>
  C12: An exception in a program prints its message and ends the program as \<^verbatim>\<open>halt\<close> does, with
  the status 256 that no program can give itself.
\<close>

theorem fault_ends_program:
  assumes "kinv k" and "parent_id (cur_pcb k) \<noteq> -1" and "exception_message h = Some m"
  shows "\<exists>k'. exception_gate inp True h k =
      Some (Halt_ret (stack_ptr (cur_pcb k)) (base_ptr (cur_pcb k)) 256, k') \<and>
    current_pid k' = parent_id (cur_pcb k) \<and> process_queue k' =
      (process_queue k)(current_pid k := NOT_LOADED, parent_id (cur_pcb k) := SCHEDULED) \<and>
    (\<forall>status. (ucast (status :: u8) :: u32) \<noteq> 256)"
proof -
  have "(ucast s :: u32) \<noteq> 256" for s :: u8
  proof
    assume "(ucast s :: u32) = 256"
    then have "bit (ucast s :: u32) 8" by simp
    then show False by (auto simp: bit_ucast_iff dest: bit_imp_le_length)
  qed
  then show ?thesis by (rule_tac user_fault [OF assms, of inp]) blast
qed

theorem fault_ends_program_witness:
  "\<exists>k'. exception_gate demo_inputs True page_fault_exception demo_child =
     Some (Halt_ret 0x7FDE00 0x7FDE40 256, k') \<and> current_pid k' = 0"
  using fault_ends_program [OF demo_child_kinv, of page_fault_exception
      "''EXCEPTION: PAGE_FAULT_EXCEPTION! ''" demo_inputs]
  by (auto simp: demo_child_def demo_prog_def exception_message_def exception_messages_def)

section \<open>The other system calls\<close>

text \<open>
  C19: \<^verbatim>\<open>open\<close> returns the lowest closed descriptor, at least 2, and opens exactly that one at
  position 0; when it fails it changes nothing. The other processes keep theirs.
\<close>

theorem open_takes_lowest_descriptor:
  assumes "kinv k" and "sys_open inp name k = Some (r, k')"
  shows "(r = -1 \<and> k' = k) \<or>
    (2 \<le> r \<and> r < 8 \<and> \<not> fd_is_open r (cur_pcb k) \<and>
      (\<forall>j. 0 \<le> j \<and> j < r \<longrightarrow> fd_is_open j (cur_pcb k)) \<and>
      (\<forall>j. 0 \<le> j \<and> j < 8 \<longrightarrow> (fd_is_open j (cur_pcb k') \<longleftrightarrow> fd_is_open j (cur_pcb k) \<or> j = r)) \<and>
      file_pos (fd_arr (cur_pcb k') ! nat r) = 0 \<and>
      (\<forall>p. p \<noteq> current_pid k \<longrightarrow> pcbs k' p = pcbs k p))"
proof (cases "r = -1")
  case True
  have cl: "closed_fd (cur_pcb k) [0..7] \<noteq> -1"
    using closed_fd_cases [of "cur_pcb k"] by auto
  from assms(2) show ?thesis
    by (cases rule: sys_open_cases) (use cl True in auto)
next
  case False
  then show ?thesis
    using sys_open_result [OF assms] sys_open_cur_only [OF assms(2)] by (simp add: cur_only_def)
qed

theorem open_takes_lowest_descriptor_witness:
  "\<exists>k'. sys_open demo_inputs (Some shell_name) demo_run = Some (2, k') \<and> fd_is_open 2 (pcbs k' 0)"
proof -
  have "current_pid demo_file = 0" by (rule demo_file_kinv(2))
  then show ?thesis using open_takes_lowest_descriptor [OF demo_run_kinv demo_open] demo_open by simp
qed

text \<open>
  C20: \<^verbatim>\<open>read\<close> of an open file stores at the program's buffer exactly the bytes of the file
  from the descriptor's position, as many as there are up to the count, returns their number
  and advances that descriptor only.
\<close>

theorem read_delivers_file_bytes:
  assumes "kinv k" and "0 \<le> fd" and "fd < 8" and "fd_is_open fd (cur_pcb k)"
    and "fops (fd_arr (cur_pcb k) ! nat fd) = FS_OPS"
    and "valid_inode (kfs k) (inode (fd_arr (cur_pcb k) ! nat fd))"
    and "file_pos (fd_arr (cur_pcb k) ! nat fd) = of_nat pos" and "pos + n < 2 ^ 31"
    and "in_prog_page buf n"
    and "bs = take n (drop pos (file_data (kfs k) (inode (fd_arr (cur_pcb k) ! nat fd))))"
  shows "\<exists>k'. sys_read inp fd buf (of_nat n) k = Some (int (length bs), k') \<and> kinv k' \<and>
    prog_bytes k' buf (length bs) = bs \<and>
    file_pos (fd_arr (cur_pcb k') ! nat fd) = of_nat (pos + length bs) \<and>
    (\<forall>j. nat j \<noteq> nat fd \<longrightarrow> fd_arr (cur_pcb k') ! nat j = fd_arr (cur_pcb k) ! nat j)"
  unfolding assms(10) by (rule sys_read_file [OF assms(1-9), of inp]) blast

theorem read_delivers_file_bytes_witness:
  "\<exists>k'. sys_read demo_inputs 2 0x8100000 4 demo_file = Some (4, k') \<and>
     prog_bytes k' 0x8100000 4 = [0x7F, 69, 76, 70]"
proof -
  have f: "fd_arr (pcbs demo_file 0) ! 2 =
      \<lparr>fops = FS_OPS, inode = 0, file_pos = 0, fflags = FDFLAG_OPEN\<rparr>"
    by (simp add: demo_file_def upd_cur_fd_def demo_run_def demo_shell_def demo_free_def demo_desc_def
        init_stdio_def set_fd_open_def upd_fd_def STDIN_def STDOUT_def)
  have l: "length [0x7F, 69, 76, 70 :: u8] = 4" by simp
  obtain k' where "sys_read demo_inputs 2 0x8100000 (of_nat 4) demo_file =
      Some (int (length [0x7F, 69, 76, 70 :: u8]), k')"
    "prog_bytes k' 0x8100000 (length [0x7F, 69, 76, 70 :: u8]) = [0x7F, 69, 76, 70]"
    using read_delivers_file_bytes [OF demo_file_kinv(1), of 2 0 4 "0x8100000"
        "[0x7F, 69, 76, 70]" demo_inputs] demo_data(1) demo_valid_inode
    by (auto simp: f demo_file_kinv fd_is_open_def in_prog_page_def simp del: list.size)
  then show ?thesis unfolding l by auto
qed

text \<open>
  Bad requests are refused with -1 and no effect: numbers that are no system call, the two
  unimplemented signal calls, descriptors out of range or closed, null buffers and null names,
  and the closing of the terminal's descriptors.
\<close>

lemma bad_requests_refused:
  shows "(sint eax < 1 \<or> sint eax \<ge> 9 \<longrightarrow> do_syscall inp eax ebx ecx edx k = Some (Return (-1), k)) \<and>
    (fd < 0 \<or> 8 \<le> fd \<or> \<not> fd_is_open fd (cur_pcb k) \<longrightarrow>
      sys_read inp fd buf n k = Some (-1, k) \<and> sys_write inp fd buf n k = Some (-1, k) \<and>
      sys_close fd k = Some (-1, k)) \<and>
    sys_read inp fd 0 n k = Some (-1, k) \<and> sys_write inp fd 0 n k = Some (-1, k) \<and>
    sys_open inp None k = Some (-1, k) \<and> sys_close 0 k = Some (-1, k) \<and> sys_close 1 k = Some (-1, k) \<and>
    getargs 0 m k = Some (-1, k) \<and> vidmap 0 k = Some (-1, k)"
proof -
  have "sint eax < 1 \<or> sint eax \<ge> 9 \<longrightarrow> do_syscall inp eax ebx ecx edx k = Some (Return (-1), k)"
    by (auto simp: do_syscall_def Let_def NUM_SYSCALLS_def ret_def set_handler_def sigreturn_def)
  then show ?thesis
    using bad_fd_refused [of fd k]
    by (simp add: sys_read_def sys_write_def sys_open_def sys_close_def getargs_def vidmap_def
        STDIN_def STDOUT_def Let_def)
qed

lemma bad_requests_refused_witness:
  "do_syscall demo_inputs 11 0 0 0 demo_run = Some (Return (-1), demo_run) \<and>
   sys_read demo_inputs 8 0x8100000 4 demo_run = Some (-1, demo_run)"
  using bad_requests_refused [of 11 demo_inputs 0 0 0 demo_run 8 "0x8100000" 4 0] by simp

text \<open>
  C21: Arguments: a command line of a program name and a text is split so that the program
  started with it gets from \<^verbatim>\<open>getargs\<close> exactly that text and its terminator, leading spaces
  removed, and the call fails when the text with its terminator does not fit.
\<close>

theorem arguments_reach_program:
  assumes "w \<noteq> []" and "32 \<notin> set w" and "0 \<notin> set w" and "length w \<le> 128"
    and "a \<noteq> []" and "hd a \<noteq> 32" and "0 \<notin> set a" and "length a \<le> 127"
    and "kinv k" and "argument (cur_pcb k) = overlay (a @ [0]) old" and "in_prog_page buf (length a + 1)"
  shows "parse_command (replicate i 32 @ w @ replicate (Suc j) 32 @ a @ [0]) = Some (w @ [0], a @ [0]) \<and>
    (\<forall>n. int (length a) < n \<longrightarrow> (\<exists>k'. getargs buf n k = Some (0, k') \<and>
      prog_bytes k' buf (length a + 1) = a @ [0])) \<and>
    (\<forall>n. 0 \<le> n \<and> n \<le> int (length a) \<longrightarrow> (\<exists>k'. getargs buf n k = Some (-1, k')))"
proof (intro conjI allI impI)
  show "parse_command (replicate i 32 @ w @ replicate (Suc j) 32 @ a @ [0]) = Some (w @ [0], a @ [0])"
    by (rule parse_command_parts [OF assms(1-8)])
  have arg: "argument (cur_pcb k) = a @ 0 # drop (Suc (length a)) old"
    using assms(10) by (simp add: overlay_def)
  show "\<exists>k'. getargs buf n k = Some (0, k') \<and> prog_bytes k' buf (length a + 1) = a @ [0]"
    if "int (length a) < n" for n
    by (rule getargs_result [OF assms(9) arg assms(5,7) that assms(11)]) blast
  show "\<exists>k'. getargs buf n k = Some (-1, k')" if n: "0 \<le> n \<and> n \<le> int (length a)" for n
  proof -
    have b: "in_prog_page buf (length (take (nat n) a))"
      using assms(11) by (rule in_prog_page_mono) simp
    obtain k' where "put_user buf (take (nat n) a) k = Some k'" using put_user_cur [OF assms(9) b] by blast
    moreover have "buf \<noteq> 0" by (rule prog_page_nonnull [OF assms(11)])
    moreover have "argument (cur_pcb k) ! 0 \<noteq> 0" using arg assms(5,7) by (cases a) auto
    moreover have "getargs_loop (argument (cur_pcb k)) n = Some (take (nat n) a)"
      unfolding arg by (rule getargs_loop_short) (use assms(7) n in auto)
    ultimately show ?thesis using n by (auto simp: getargs_def Let_def)
  qed
qed

theorem arguments_reach_program_witness:
  "parse_command [32, 99, 97, 116, 32, 32, 104, 105, 0] = Some ([99, 97, 116, 0], [104, 105, 0]) \<and>
   (\<exists>k'. getargs 0x8100000 100 demo_child = Some (0, k') \<and> prog_bytes k' 0x8100000 3 = [104, 105, 0])"
proof -
  have "argument (cur_pcb demo_child) = overlay ([104, 105] @ [0]) ([104, 105] @ replicate 126 0)"
    by (simp add: demo_child_def demo_prog_def overlay_def numeral_eq_Suc)
  moreover have "[32, 99, 97, 116, 32, 32, 104, 105, 0] =
      replicate 1 32 @ [99, 97, 116] @ replicate (Suc 1) 32 @ [104, 105] @ [0 :: u8]" by simp
  ultimately show ?thesis
    using arguments_reach_program [of "[99, 97, 116]" "[104, 105]" demo_child
        "[104, 105] @ replicate 126 0" "0x8100000" 1 1] demo_child_kinv
    by (auto simp: in_prog_page_def numeral_3_eq_3)
qed

text \<open>
  C22: \<^verbatim>\<open>vidmap\<close> with a pointer into the program page stores there the address of a page that,
  in user mode, is the memory of the caller's own terminal: the screen itself while that
  terminal is displayed, its backup page otherwise.
\<close>

theorem vidmap_shows_own_screen:
  assumes "kinv k" and "0x8000000 \<le> unat a" and "unat a < 0x83FFFFC"
  shows "\<exists>k' va. vidmap a k = Some (0, k') \<and> kinv k' \<and> prog_bytes k' a 4 = bytes32 va \<and>
    translate True (kpg k') va = Some (word_of_int
      (if pterm_num (cur_pcb k) = display_term (kcon k) then 0xB8000
       else 0xB9000 + 0x1000 * int (pterm_num (cur_pcb k))))"
proof (rule vidmap_result [OF assms])
  fix k'
  let ?t = "pterm_num (cur_pcb k)"
  let ?va = "USER_VMEM_VADDR + push_bit 12 (term_vid_addr ?t)"
  assume 1: "vidmap a k = Some (0, k')" "prog_bytes k' a 4 = bytes32 ?va" "mem_only k k'"
  have t: "?t < 3" using kinvD_cur(6) [OF assms(1)] by (simp add: get_current_terminal_def kinvD_cur(4) [OF assms(1)])
  then have "?t \<in> {0, 1, 2}" by auto
  then have "base (display_term (kcon k)) ?t =
      (if ?t = display_term (kcon k) then 0xB8000 else 0xB9000 + 0x1000 * int ?t)"
    by (auto simp: base_def own_page_def term_consts)
  moreover have "translate True (kpg k') ?va = Some (word_of_int (base (display_term (kcon k)) ?t))"
    using vidmap_translate [OF kinvD(2,4) [OF assms(1)] con_invD(1) [OF kinvD(1) [OF assms(1)]] t]
    by (simp add: mem_only_eqs(5) [OF 1(3)])
  ultimately show ?thesis
    using 1(1,2) kinv_mem_only [OF 1(3) assms(1)] by (intro exI [of _ k'] exI [of _ ?va]) simp
qed

theorem vidmap_shows_own_screen_witness:
  "\<exists>k' va. vidmap 0x8100000 demo_run = Some (0, k') \<and> translate True (kpg k') va = Some 0xB8000"
  using vidmap_shows_own_screen [OF demo_run_kinv, of "0x8100000"]
  by (auto simp: demo_run_def demo_boot_def demo_shell_def demo_con_inv)

end
